(* ===== verification/Prelude.thy ===== *)
theory Prelude
  imports Main "HOL-Library.Word"
begin

text \<open>
  Shared vocabulary of the development: the fixed-width integer types the C++ sources use
  (an LP64 platform: \<open>unsigned long\<close> has 64 bits, \<open>int\<close> has 32), and the lemmas that turn a
  mask, a shift or a bitwise or of machine words into \<open>div\<close>, \<open>mod\<close> and \<open>+\<close> on natural
  numbers.  The collection \<open>word_nat\<close> rewrites a goal about words into one about
  \<open>unat\<close> values; the collection \<open>field_nat\<close> evaluates the masks that occur in the sources.
\<close>

unbundle bit_operations_syntax

type_synonym u8 = "8 word"
type_synonym u16 = "16 word"
type_synonym u32 = "32 word"
type_synonym u64 = "64 word"

text \<open>Keep masks inside shifts, as the sources write them.\<close>

declare push_bit_and [simp del] and drop_bit_and [simp del]

named_theorems word_nat \<open>from words to natural numbers\<close>
named_theorems field_nat \<open>bit fields of natural numbers\<close>

section \<open>Bit fields of natural numbers\<close>

lemma and_field_nat: "(n::nat) AND ((2 ^ b - 1) * 2 ^ a) = (n div 2 ^ a mod 2 ^ b) * 2 ^ a"
proof -
  have "n AND push_bit a (mask b) = push_bit a (take_bit b (drop_bit a n))"
    by (rule bit_eqI) (auto simp: bit_simps)
  then show ?thesis
    by (simp add: push_bit_eq_mult mask_eq_exp_minus_1 take_bit_eq_mod drop_bit_eq_div)
qed

lemma or_low_nat:
  assumes "2 ^ k dvd (a::nat)" and "b < 2 ^ k"
  shows "a OR b = a + b"
proof (rule disjunctive_add_eq_or [symmetric])
  show "a AND b = 0"
  proof (rule bit_eqI)
    fix i
    have "\<not> bit b i" if "k \<le> i"
      using assms(2) that by (metis bit_take_bit_iff leD take_bit_nat_eq_self_iff)
    moreover have "\<not> bit a i" if "i < k"
      using assms(1) that by (metis bit_take_bit_iff take_bit_eq_0_iff bit_0_eq bot_apply bot_bool_def)
    ultimately show "bit (a AND b) i \<longleftrightarrow> bit (0::nat) i"
      by (cases "i < k") (auto simp: bit_and_iff)
  qed
qed

lemma and_fieldI:
  assumes "m = (2 ^ b - 1) * 2 ^ a" and "p = 2 ^ a" and "q = (2::nat) ^ b"
  shows "(n::nat) AND m = n div p mod q * p"
  using and_field_nat [of n b a] assms by (simp only:)

lemma and_lowI: "m = 2 ^ b - 1 \<Longrightarrow> q = (2::nat) ^ b \<Longrightarrow> (n::nat) AND m = n mod q"
  using and_field_nat [of n b 0] by simp

lemma and_nat_03 [field_nat]: "(n::nat) AND 0x03 = n mod 4"
  by (rule and_lowI [of "0x03" 2]) simp_all

lemma and_nat_07 [field_nat]: "(n::nat) AND 0x07 = n mod 8"
  by (rule and_lowI [of "0x07" 3]) simp_all

lemma and_nat_0F [field_nat]: "(n::nat) AND 0x0F = n mod 16"
  by (rule and_lowI [of "0x0F" 4]) simp_all

lemma and_nat_1F [field_nat]: "(n::nat) AND 0x1F = n mod 32"
  by (rule and_lowI [of "0x1F" 5]) simp_all

lemma and_nat_3F [field_nat]: "(n::nat) AND 0x3F = n mod 64"
  by (rule and_lowI [of "0x3F" 6]) simp_all

lemma and_nat_3FF [field_nat]: "(n::nat) AND 0x3FF = n mod 1024"
  by (rule and_lowI [of "0x3FF" 10]) simp_all

lemma and_nat_30 [field_nat]: "(n::nat) AND 0x30 = n div 16 mod 4 * 16"
  by (rule and_fieldI [of "0x30" 2 4]) simp_all

lemma and_nat_3C [field_nat]: "(n::nat) AND 0x3C = n div 4 mod 16 * 4"
  by (rule and_fieldI [of "0x3C" 4 2]) simp_all

lemma and_nat_FC0 [field_nat]: "(n::nat) AND 0xFC0 = n div 64 mod 64 * 64"
  by (rule and_fieldI [of "0xFC0" 6 6]) simp_all

lemma and_nat_3C0 [field_nat]: "(n::nat) AND 0x3C0 = n div 64 mod 16 * 64"
  by (rule and_fieldI [of "0x3C0" 4 6]) simp_all

lemma and_nat_3F000 [field_nat]: "(n::nat) AND 0x3F000 = n div 4096 mod 64 * 4096"
  by (rule and_fieldI [of "0x3F000" 6 12]) simp_all

lemma and_nat_FC00 [field_nat]: "(n::nat) AND 0xFC00 = n div 1024 mod 64 * 1024"
  by (rule and_fieldI [of "0xFC00" 6 10]) simp_all

lemma and_nat_1F0000 [field_nat]: "(n::nat) AND 0x1F0000 = n div 65536 mod 32 * 65536"
  by (rule and_fieldI [of "0x1F0000" 5 16]) simp_all

lemma and_nat_F800 [field_nat]: "(n::nat) AND 0xF800 = n div 2048 mod 32 * 2048"
  by (rule and_fieldI [of "0xF800" 5 11]) simp_all

lemma and_nat_C0 [field_nat]: "(n::nat) AND 0xC0 = n div 64 mod 4 * 64"
  by (rule and_fieldI [of "0xC0" 2 6]) simp_all

lemma and_nat_E0 [field_nat]: "(n::nat) AND 0xE0 = n div 32 mod 8 * 32"
  by (rule and_fieldI [of "0xE0" 3 5]) simp_all

lemma and_nat_F0 [field_nat]: "(n::nat) AND 0xF0 = n div 16 mod 16 * 16"
  by (rule and_fieldI [of "0xF0" 4 4]) simp_all

lemma and_nat_FFFFF800 [field_nat]: "(n::nat) AND 0xFFFFF800 = n div 2048 mod 2097152 * 2048"
  by (rule and_fieldI [of "0xFFFFF800" 21 11]) simp_all

lemma or_nat_80 [field_nat]: "(b::nat) < 64 \<Longrightarrow> 0x80 OR b = 0x80 + b"
  by (rule or_low_nat [of 6]) simp_all

lemma or_nat_C0 [field_nat]: "(b::nat) < 32 \<Longrightarrow> 0xC0 OR b = 0xC0 + b"
  by (rule or_low_nat [of 5]) simp_all

lemma or_nat_E0 [field_nat]: "(b::nat) < 16 \<Longrightarrow> 0xE0 OR b = 0xE0 + b"
  by (rule or_low_nat [of 4]) simp_all

lemma or_nat_F0 [field_nat]: "(b::nat) < 8 \<Longrightarrow> 0xF0 OR b = 0xF0 + b"
  by (rule or_low_nat [of 3]) simp_all

lemma or_nat_D800 [field_nat]: "(b::nat) < 1024 \<Longrightarrow> 0xD800 OR b = 0xD800 + b"
  by (rule or_low_nat [of 10]) simp_all

lemma or_nat_DC00 [field_nat]: "(b::nat) < 1024 \<Longrightarrow> 0xDC00 OR b = 0xDC00 + b"
  by (rule or_low_nat [of 10]) simp_all

lemma or_nat_shift2 [field_nat]: "(b::nat) < 4 \<Longrightarrow> a * 4 OR b = a * 4 + b"
  by (rule or_low_nat [of 2]) simp_all

lemma or_nat_shift4 [field_nat]: "(b::nat) < 16 \<Longrightarrow> a * 16 OR b = a * 16 + b"
  by (rule or_low_nat [of 4]) simp_all

lemma or_nat_shift6 [field_nat]: "(b::nat) < 64 \<Longrightarrow> a * 64 OR b = a * 64 + b"
  by (rule or_low_nat [of 6]) simp_all

lemma or_nat_shift8 [field_nat]: "(b::nat) < 256 \<Longrightarrow> a * 256 OR b = a * 256 + b"
  by (rule or_low_nat [of 8]) simp_all

lemma or_nat_shift10 [field_nat]: "(b::nat) < 1024 \<Longrightarrow> a * 1024 OR b = a * 1024 + b"
  by (rule or_low_nat [of 10]) simp_all

lemma or_nat_shift12 [field_nat]: "(b::nat) < 4096 \<Longrightarrow> a * 4096 OR b = a * 4096 + b"
  by (rule or_low_nat [of 12]) simp_all

lemma or_nat_shift16 [field_nat]: "(b::nat) < 65536 \<Longrightarrow> a * 65536 OR b = a * 65536 + b"
  by (rule or_low_nat [of 16]) simp_all

lemma or_nat_shift18 [field_nat]: "(b::nat) < 262144 \<Longrightarrow> a * 262144 OR b = a * 262144 + b"
  by (rule or_low_nat [of 18]) simp_all

lemma div_eq_interval: "0 < d \<Longrightarrow> (n::nat) div d = q \<longleftrightarrow> q * d \<le> n \<and> n < Suc q * d"
  by (metis div_nat_eqI dividend_less_div_times div_times_less_eq_dividend mult.commute mult_Suc)

lemma radix:
  assumes "b < (m::nat)"
  shows "(a * m + b) div m = a" "(a * m + b) mod m = b"
  using assms by (simp_all only: mod_mult_self3 mod_less) simp

text \<open>A test of the top bits of a number below \<open>q * p\<close> is a test for an interval.\<close>

lemma top_field_iff:
  assumes "(n::nat) < q * p" and "0 < p"
  shows "n div p mod q * p = k * p \<longleftrightarrow> k * p \<le> n \<and> n < Suc k * p"
proof -
  have "n div p mod q = n div p"
    using assms(1) by (simp add: less_mult_imp_div_less)
  then show ?thesis
    using assms(2) by (simp add: div_eq_interval)
qed

section \<open>Words as natural numbers\<close>

lemma unat_bounds [simp]:
  "unat (a::u8) < 256" "unat (b::u16) < 65536" "unat (c::u32) < 4294967296"
  "unat (d::u64) < 18446744073709551616"
  using unsigned_less [of a] unsigned_less [of b] unsigned_less [of c] unsigned_less [of d]
  by simp_all

lemma unat_widen [word_nat]:
  "unat (ucast (a::u8) :: u16) = unat a" "unat (ucast (a::u8) :: u32) = unat a"
  "unat (ucast (a::u8) :: u64) = unat a" "unat (ucast (b::u16) :: u32) = unat b"
  "unat (ucast (b::u16) :: u64) = unat b" "unat (ucast (c::u32) :: u64) = unat c"
  by (simp_all add: unsigned_ucast_eq take_bit_nat_eq_self_iff less_trans [OF unat_bounds(1)]
      less_trans [OF unat_bounds(2)] less_trans [OF unat_bounds(3)])

lemma unat_narrow [word_nat]:
  "unat (ucast (b::u16) :: u8) = unat b mod 256" "unat (ucast (c::u32) :: u8) = unat c mod 256"
  "unat (ucast (c::u32) :: u16) = unat c mod 65536"
  by (simp_all add: unsigned_ucast_eq take_bit_eq_mod)

lemma unat_div_word [word_nat]:
  "unat ((w :: 'a::len word) div v) = unat w div unat v"
  by (rule unat_div_distrib)

lemma unat_drop_bit_div [word_nat]: "unat (drop_bit n (w :: 'a::len word)) = unat w div 2 ^ n"
  using unat_drop_bit_eq [of n w] by (simp only: drop_bit_eq_div)

lemma unat_push_bit_mult [word_nat]:
  "unat (push_bit n (w :: 'a::len word)) = unat w * 2 ^ n mod 2 ^ LENGTH('a)"
  using unsigned_push_bit_eq [of n w, where ?'a = nat]
  by (simp only: push_bit_eq_mult take_bit_eq_mod)

lemma mod_mod_dvd [word_nat]: "m dvd k \<Longrightarrow> (n::nat) mod k mod m = n mod m"
  by (rule mod_mod_cancel)

lemma unat_pred: "0 < unat w \<Longrightarrow> unat (w - 1) = unat w - 1"
  by (metis unat_minus_one unat_0 less_irrefl)

lemma unat_of_nat_word [word_nat]:
  "unat (of_nat n :: u8) = n mod 256" "unat (of_nat n :: u16) = n mod 65536"
  "unat (of_nat n :: u32) = n mod 4294967296"
  by (simp_all add: unat_of_nat)

lemmas word_eq_nat = word_unat_eq_iff
lemmas word_less_nat = word_less_nat_alt
lemmas word_le_nat = word_le_nat_alt

declare unsigned_and_eq [word_nat] and unsigned_or_eq [word_nat] and unat_word_ariths [word_nat]
  and word_eq_nat [word_nat] and word_less_nat [word_nat] and word_le_nat [word_nat]

end
