(* ===== verification/Codecvt_Base.thy ===== *)
theory Codecvt_Base
  imports Prelude
begin

text \<open>
  The skeleton that every conversion routine of \<open>src/src/locale.cpp\<close> shares: the result codes,
  the header (byte order mark) handling and the conversion loop over \<open>frm_nxt\<close> and \<open>to_nxt\<close>.

  A source buffer \<open>[frm_nxt, frm_end)\<close> is the list of the elements that are still unread and a
  destination buffer \<open>[to_nxt, to_end)\<close> is the number of elements that still fit.  One execution
  of a loop body is a function from these two to a \<open>step\<close>: a return, the amount of input the
  body advanced over together with the elements it stored, or \<open>Fault\<close>, an access outside the
  two buffers.  So memory safety is a theorem about the model (no step of a loop is a
  \<open>Fault\<close>) and not a convention of it.  A loop that does not advance runs forever; the loops
  are therefore \<^theory_text>\<open>partial_function\<close>s, \<open>None\<close> is divergence, and that they return is
  proved.

  The locale \<open>transcoder\<close> is the contract between a loop body and the loop: a body recognises
  exactly the source form of the accepted code points and stores their destination form.  The
  theorems of the loop are proved once inside it.
\<close>

unbundle bit_operations_syntax

section \<open>Result codes and modes\<close>

datatype result = ok | partial | error | noconv

type_synonym codecvt_mode = "32 word"

definition consume_header :: codecvt_mode where "consume_header = 4"
definition generate_header :: codecvt_mode where "generate_header = 2"
definition little_endian :: codecvt_mode where "little_endian = 1"

section \<open>Buffers and one execution of a loop body\<close>

datatype 'b step = Ret result | Cont nat "'b list" | Fault

definition rd :: "'a list \<Rightarrow> nat \<Rightarrow> ('a \<Rightarrow> 'b step) \<Rightarrow> 'b step" where
  "rd frm i k = (if i < length frm then k (frm ! i) else Fault)"

definition emit :: "'a list \<Rightarrow> nat \<Rightarrow> nat \<Rightarrow> 'b list \<Rightarrow> 'b step" where
  "emit frm cap n out = (if n \<le> length frm \<and> length out \<le> cap then Cont n out else Fault)"

lemma rd_Cons [simp]: "rd (x # xs) 0 k = k x" "rd (x # xs) (Suc i) k = rd xs i k"
  by (simp_all add: rd_def)

lemma rd_numeral [simp]: "rd (x # xs) (numeral n) k = rd xs (pred_numeral n) k"
  by (simp add: numeral_eq_Suc)

lemma emit_Cont_iff [simp]:
  "emit frm cap n out = Cont k w \<longleftrightarrow> n \<le> length frm \<and> length out \<le> cap \<and> k = n \<and> w = out"
  by (auto simp: emit_def)

lemma emit_not_Ret [simp]: "emit frm cap n out \<noteq> Ret r"
  by (simp add: emit_def)

section \<open>The loops\<close>

text \<open>
  \<open>Crash\<close> is a loop stopped by a \<open>Fault\<close>; \<open>Done r n out\<close> is the return of result \<open>r\<close> with
  \<open>frm_nxt = frm + n\<close> and with \<open>out\<close> stored in \<open>[to, to_nxt)\<close>.
\<close>

datatype 'b outcome = Crash | Done result nat "'b list"

text \<open>
  \<open>cvt_loop guard fin body frm cap n out\<close>: \<open>guard\<close> is the loop condition over the remaining
  input and output, \<open>fin\<close> what is returned behind the loop, \<open>n\<close> and \<open>out\<close> what has been read and
  stored before.
\<close>

partial_function (option) cvt_loop ::
  "(nat \<Rightarrow> nat \<Rightarrow> bool) \<Rightarrow> (nat \<Rightarrow> result) \<Rightarrow> ('a list \<Rightarrow> nat \<Rightarrow> 'b step) \<Rightarrow>
   'a list \<Rightarrow> nat \<Rightarrow> nat \<Rightarrow> 'b list \<Rightarrow> 'b outcome option" where
  "cvt_loop guard fin body frm cap n out =
     (if \<not> guard (length frm) cap then Some (Done (fin (length frm)) n out)
      else (case body frm cap of
              Ret r \<Rightarrow> Some (Done r n out)
            | Cont k w \<Rightarrow>
                cvt_loop guard fin body (drop k frm) (cap - length w) (n + k) (out @ w)
            | Fault \<Rightarrow> Some Crash))"

text \<open>
  The three loop headers of the sources: \<open>for (; frm_nxt < frm_end; ++frm_nxt)\<close> followed by
  \<open>return ok\<close>; \<open>for (; frm_nxt < frm_end \<and> to_nxt < to_end; ++to_nxt)\<close>; and, for sources made of
  byte pairs, \<open>for (; frm_nxt < frm_end - 1 \<and> to_nxt < to_end; ++to_nxt)\<close>.  The last two are
  followed by \<open>return frm_nxt < frm_end ? partial : ok\<close>.
\<close>

definition guard_out :: "nat \<Rightarrow> nat \<Rightarrow> bool" where "guard_out l c \<longleftrightarrow> 0 < l"
definition guard_in :: "nat \<Rightarrow> nat \<Rightarrow> bool" where "guard_in l c \<longleftrightarrow> 0 < l \<and> 0 < c"
definition guard_pair :: "nat \<Rightarrow> nat \<Rightarrow> bool" where "guard_pair l c \<longleftrightarrow> 1 < l \<and> 0 < c"

definition fin_ok :: "nat \<Rightarrow> result" where "fin_ok l = ok"
definition fin_rest :: "nat \<Rightarrow> result" where "fin_rest l = (if 0 < l then partial else ok)"

section \<open>Header handling\<close>

text \<open>\<open>if (mode & generate_header)\<close>: store the byte order mark first, or return \<open>partial\<close>.\<close>

definition write_header ::
  "codecvt_mode \<Rightarrow> 'b list \<Rightarrow> nat \<Rightarrow> (nat \<Rightarrow> 'b list \<Rightarrow> 'b outcome option) \<Rightarrow> 'b outcome option" where
  "write_header mode bom cap k =
     (if mode AND generate_header \<noteq> 0
      then if cap < length bom then Some (Done partial 0 []) else k (cap - length bom) bom
      else k cap [])"

text \<open>\<open>if (mode & consume_header)\<close>: skip the byte order mark if the input starts with it.\<close>

definition skip_header :: "codecvt_mode \<Rightarrow> 'a list \<Rightarrow> 'a list \<Rightarrow> ('a list \<Rightarrow> nat \<Rightarrow> 'r) \<Rightarrow> 'r" where
  "skip_header mode bom frm k =
     (if mode AND consume_header \<noteq> 0 \<and> length bom \<le> length frm \<and> take (length bom) frm = bom
      then k (drop (length bom) frm) (length bom) else k frm 0)"

section \<open>The length loops\<close>

text \<open>
  The \<open>_length\<close> routines run the same loop without storing: a body either leaves the loop or
  advances over \<open>n\<close> elements that stand for \<open>m\<close> destination characters.  They return
  \<open>static_cast<int>(frm_nxt - frm)\<close>.
\<close>

datatype len_step = Stop | Advance nat nat | Len_fault

datatype len_outcome = Len_crash | Len int

definition rd_len :: "'a list \<Rightarrow> nat \<Rightarrow> ('a \<Rightarrow> len_step) \<Rightarrow> len_step" where
  "rd_len frm i k = (if i < length frm then k (frm ! i) else Len_fault)"

definition advance :: "'a list \<Rightarrow> nat \<Rightarrow> nat \<Rightarrow> len_step" where
  "advance frm n m = (if n \<le> length frm then Advance n m else Len_fault)"

definition cast_int :: "nat \<Rightarrow> int" where
  "cast_int n = signed_take_bit 31 (int n)"

partial_function (option) len_loop ::
  "(nat \<Rightarrow> nat \<Rightarrow> bool) \<Rightarrow> ('a list \<Rightarrow> nat \<Rightarrow> len_step) \<Rightarrow> 'a list \<Rightarrow> nat \<Rightarrow> nat \<Rightarrow>
   len_outcome option" where
  "len_loop guard body frm mx n =
     (if \<not> guard (length frm) mx then Some (Len (cast_int n))
      else (case body frm mx of
              Stop \<Rightarrow> Some (Len (cast_int n))
            | Advance k m \<Rightarrow> len_loop guard body (drop k frm) (mx - m) (n + k)
            | Len_fault \<Rightarrow> Some Len_crash))"

declare cvt_loop.simps [code] and len_loop.simps [code]

text \<open>What a length body sees of a conversion body.\<close>

fun step_len :: "'b step \<Rightarrow> len_step" where
  "step_len (Ret r) = Stop"
| "step_len (Cont n w) = Advance n (length w)"
| "step_len Fault = Len_fault"

fun outcome_len :: "'b outcome \<Rightarrow> len_outcome" where
  "outcome_len Crash = Len_crash"
| "outcome_len (Done r n w) = Len (cast_int n)"

text \<open>A length routine and a conversion of the same input both return, and the length is where the conversion stops.\<close>

definition counts :: "len_outcome option \<Rightarrow> 'b outcome option \<Rightarrow> bool" where
  "counts l c \<longleftrightarrow> (\<exists>r n w. c = Some (Done r n w) \<and> l = Some (Len (cast_int n)))"

lemma countsI: "l = map_option outcome_len c \<Longrightarrow> \<exists>r n w. c = Some (Done r n w) \<and> P r n w \<Longrightarrow> counts l c"
  by (auto simp: counts_def)

lemma rd_len_Cons [simp]:
  "rd_len (x # xs) 0 k = k x" "rd_len (x # xs) (Suc i) k = rd_len xs i k"
  by (simp_all add: rd_len_def)

lemma rd_len_numeral [simp]: "rd_len (x # xs) (numeral n) k = rd_len xs (pred_numeral n) k"
  by (simp add: numeral_eq_Suc)

lemma cast_int_small: "n < 2147483648 \<Longrightarrow> cast_int n = int n"
  unfolding cast_int_def by (simp add: signed_take_bit_int_eq_self)

section \<open>What a conversion promises\<close>

text \<open>
  The abstract specification.  A conversion is described by the code points it accepts
  (\<open>valid\<close>), by their source and destination forms (\<open>src\<close>, \<open>dst\<close>), and by the inputs it cannot decide yet
  (\<open>waits rest cap\<close>: an unfinished form, or no room).  It has read exactly the source forms of a list of
  accepted code points and stored exactly their destination forms, inside the bounds of both buffers, and it has
  not stopped before an accepted code point whose destination form fits.  Its result is determined:
  \<^item> \<open>ok\<close> exactly at the end of the input;
  \<^item> \<open>partial\<close> exactly where it waits or where the next accepted code point is complete but does not fit;
  \<^item> \<open>error\<close> everywhere else: the input does not continue with an accepted code point.
\<close>

definition stops_at ::
  "('a list \<Rightarrow> nat \<Rightarrow> bool) \<Rightarrow> (nat \<Rightarrow> bool) \<Rightarrow> (nat \<Rightarrow> 'a list) \<Rightarrow> (nat \<Rightarrow> 'b list) \<Rightarrow> result \<Rightarrow> 'a list \<Rightarrow> nat \<Rightarrow> bool"
  where
  "stops_at waits valid src dst r rest cap \<longleftrightarrow>
     (\<forall>c more. valid c \<and> rest = src c @ more \<longrightarrow> cap < length (dst c)) \<and>
     (r = ok \<longleftrightarrow> rest = []) \<and>
     (r = partial \<longleftrightarrow> rest \<noteq> [] \<and> (waits rest cap \<or> (\<exists>c more. valid c \<and> rest = src c @ more))) \<and>
     (r = error \<longleftrightarrow> rest \<noteq> [] \<and> \<not> waits rest cap \<and> (\<forall>c more. valid c \<longrightarrow> rest \<noteq> src c @ more))"

text \<open>A conversion that never waits.\<close>

definition never :: "'a list \<Rightarrow> nat \<Rightarrow> bool" where "never rest cap \<longleftrightarrow> False"

definition transcodes ::
  "('a list \<Rightarrow> nat \<Rightarrow> bool) \<Rightarrow> (nat \<Rightarrow> bool) \<Rightarrow> (nat \<Rightarrow> 'a list) \<Rightarrow> (nat \<Rightarrow> 'b list) \<Rightarrow>
   'a list \<Rightarrow> nat \<Rightarrow> result \<Rightarrow> nat \<Rightarrow> 'b list \<Rightarrow> bool" where
  "transcodes waits valid src dst frm cap r n w \<longleftrightarrow>
     n \<le> length frm \<and> length w \<le> cap \<and>
     (\<exists>cs. (\<forall>c\<in>set cs. valid c) \<and> take n frm = concat (map src cs) \<and> w = concat (map dst cs)) \<and>
     stops_at waits valid src dst r (drop n frm) (cap - length w)"

lemma transcodes_here:
  "stops_at waits valid src dst r frm cap \<Longrightarrow> transcodes waits valid src dst frm cap r 0 []"
  unfolding transcodes_def by (auto intro: exI [of _ "[]"])

lemma transcodes_step:
  assumes "valid c" and "take k frm = src c" and "k \<le> length frm" and "length (dst c) \<le> cap"
    and "transcodes waits valid src dst (drop k frm) (cap - length (dst c)) r n w"
  shows "transcodes waits valid src dst frm cap r (k + n) (dst c @ w)"
proof -
  from assms(5) obtain cs where cs: "\<forall>c\<in>set cs. valid c" "take n (drop k frm) = concat (map src cs)"
      "w = concat (map dst cs)" and len: "n \<le> length frm - k" "length w \<le> cap - length (dst c)"
      and stop: "stops_at waits valid src dst r (drop n (drop k frm)) (cap - length (dst c) - length w)"
    by (auto simp: transcodes_def)
  have "take (k + n) frm = concat (map src (c # cs))" "dst c @ w = concat (map dst (c # cs))"
    using assms(2) cs by (simp_all add: take_add)
  moreover have "\<forall>c\<in>set (c # cs). valid c"
    using assms(1) cs by simp
  ultimately show ?thesis
    unfolding transcodes_def using assms(3,4) len stop
    by (auto simp: add.commute diff_diff_left intro!: exI [of _ "c # cs"])
qed

text \<open>
  The same for a whole routine: the header it writes first, or the header it skips first.
\<close>

definition header :: "codecvt_mode \<Rightarrow> 'b list \<Rightarrow> 'b list" where
  "header mode bom = (if mode AND generate_header \<noteq> 0 then bom else [])"

definition skipped :: "codecvt_mode \<Rightarrow> 'a list \<Rightarrow> 'a list \<Rightarrow> nat" where
  "skipped mode bom frm =
     (if mode AND consume_header \<noteq> 0 \<and> take (length bom) frm = bom then length bom else 0)"

definition encodes ::
  "('a list \<Rightarrow> nat \<Rightarrow> bool) \<Rightarrow> (nat \<Rightarrow> bool) \<Rightarrow> (nat \<Rightarrow> 'a list) \<Rightarrow> (nat \<Rightarrow> 'b list) \<Rightarrow> 'b list \<Rightarrow>
   'a list \<Rightarrow> nat \<Rightarrow> result \<Rightarrow> nat \<Rightarrow> 'b list \<Rightarrow> bool" where
  "encodes waits valid src dst h frm cap r n w \<longleftrightarrow>
     (if cap < length h then r = partial \<and> n = 0 \<and> w = []
      else \<exists>v. w = h @ v \<and> transcodes waits valid src dst frm (cap - length h) r n v)"

definition decodes ::
  "('a list \<Rightarrow> nat \<Rightarrow> bool) \<Rightarrow> (nat \<Rightarrow> bool) \<Rightarrow> (nat \<Rightarrow> 'a list) \<Rightarrow> (nat \<Rightarrow> 'b list) \<Rightarrow> nat \<Rightarrow>
   'a list \<Rightarrow> nat \<Rightarrow> result \<Rightarrow> nat \<Rightarrow> 'b list \<Rightarrow> bool" where
  "decodes waits valid src dst k frm cap r n w \<longleftrightarrow>
     k \<le> n \<and> transcodes waits valid src dst (drop k frm) cap r (n - k) w"

lemma write_header_eq:
  "write_header mode bom cap k =
    (if cap < length (header mode bom) then Some (Done partial 0 [])
     else k (cap - length (header mode bom)) (header mode bom))"
  by (simp add: write_header_def header_def)

lemma skip_header_eq:
  "skip_header mode bom frm k = k (drop (skipped mode bom frm) frm) (skipped mode bom frm)"
proof -
  have "length bom \<le> length frm" if "take (length bom) frm = bom"
    using that by (metis length_take min.cobounded1)
  then show ?thesis by (auto simp: skip_header_def skipped_def)
qed

lemma skipped_le: "skipped mode bom frm \<le> length frm"
proof -
  have "length bom \<le> length frm" if "take (length bom) frm = bom"
    using that by (metis length_take min.cobounded1)
  then show ?thesis by (simp add: skipped_def)
qed

lemma transcodes_okD:
  assumes "transcodes waits valid src dst frm cap ok n w"
  obtains cs where "\<forall>c\<in>set cs. valid c" "frm = concat (map src cs)" "w = concat (map dst cs)"
    "n = length frm" "length w \<le> cap"
  using assms by (auto simp: transcodes_def stops_at_def)

section \<open>The contract between a loop body and its loop\<close>

locale transcoder =
  fixes guard :: "nat \<Rightarrow> nat \<Rightarrow> bool"
    and fin :: "nat \<Rightarrow> result"
    and body :: "'a list \<Rightarrow> nat \<Rightarrow> 'b step"
    and least :: nat
    and limited :: bool
    and waits :: "'a list \<Rightarrow> nat \<Rightarrow> bool"
    and valid :: "nat \<Rightarrow> bool"
    and src :: "nat \<Rightarrow> 'a list"
    and dst :: "nat \<Rightarrow> 'b list"
  assumes guard_iff: "guard l c \<longleftrightarrow> least \<le> l \<and> (limited \<longrightarrow> 0 < c)"
    and least: "0 < least"
    and fin: "\<not> guard l c \<Longrightarrow> fin l = (if 0 < l then partial else ok)"
    and exits: "frm \<noteq> [] \<Longrightarrow> \<not> guard (length frm) cap \<Longrightarrow> waits frm cap"
    and src_len: "valid c \<Longrightarrow> least \<le> length (src c)"
    and dst_ne: "valid c \<Longrightarrow> dst c \<noteq> []"
    and accepts: "valid c \<Longrightarrow> guard (length (src c @ more)) cap \<Longrightarrow>
      body (src c @ more) cap =
        (if length (dst c) \<le> cap then Cont (length (src c)) (dst c) else Ret partial)"
    and sound: "guard (length frm) cap \<Longrightarrow> body frm cap = Cont k w \<Longrightarrow>
      \<exists>c. valid c \<and> take k frm = src c \<and> w = dst c \<and> k \<le> length frm \<and> length w \<le> cap"
    and stops: "guard (length frm) cap \<Longrightarrow> body frm cap = Ret r \<Longrightarrow>
      r = (if waits frm cap \<or> (\<exists>c more. valid c \<and> frm = src c @ more) then partial else error)"
    and safe: "guard (length frm) cap \<Longrightarrow> body frm cap \<noteq> Fault"
begin

lemma src_pos: "valid c \<Longrightarrow> 0 < length (src c)"
  using src_len [of c] least by linarith

lemma progress:
  assumes "guard (length frm) cap" and "body frm cap = Cont k w"
  shows "length (drop k frm) < length frm"
proof -
  from sound [OF assms] obtain c where "valid c" "take k frm = src c" "k \<le> length frm"
    by blast
  moreover from \<open>valid c\<close> have "0 < length (src c)"
    by (rule src_pos)
  moreover have "length (take k frm) = k" using \<open>k \<le> length frm\<close> by simp
  ultimately have "0 < k" and "k \<le> length frm" by (simp_all only:)
  then show ?thesis by simp
qed

lemma exit_stops:
  assumes "\<not> guard (length frm) cap"
  shows "stops_at waits valid src dst (fin (length frm)) frm cap"
proof (cases "frm = []")
  case True
  then show ?thesis using assms src_pos by (fastforce simp: stops_at_def fin)
next
  case False
  then have "fin (length frm) = partial"
    using fin [OF assms] by simp
  moreover have "length frm < least \<or> cap = 0"
    using assms by (auto simp: guard_iff)
  moreover have "cap < length (dst c)" if "valid c" "frm = src c @ more" for c more
    using \<open>length frm < least \<or> cap = 0\<close> src_len [OF that(1)] dst_ne [OF that(1)] that(2) by auto
  ultimately show ?thesis
    using False exits [OF False assms] by (auto simp: stops_at_def)
qed

lemma return_stops:
  assumes g: "guard (length frm) cap" and ret: "body frm cap = Ret r"
  shows "stops_at waits valid src dst r frm cap"
proof -
  have ne: "frm \<noteq> []"
    using g least by (auto simp: guard_iff)
  have full: "cap < length (dst c)" if "valid c" "frm = src c @ more" for c more
    using accepts [OF that(1), of more cap] g ret that(2) by (auto split: if_splits)
  from stops [OF g ret] show ?thesis
    using ne full by (auto simp: stops_at_def)
qed

text \<open>The loop returns, never leaves the buffers, and implements the specification.\<close>

lemma loop_transcodes:
  "\<exists>r k w. cvt_loop guard fin body frm cap n out = Some (Done r (n + k) (out @ w)) \<and>
     transcodes waits valid src dst frm cap r k w"
proof (induction "length frm" arbitrary: frm cap n out rule: less_induct)
  case less
  show ?case
  proof (cases "guard (length frm) cap")
    case False
    then have "cvt_loop guard fin body frm cap n out = Some (Done (fin (length frm)) (n + 0) (out @ []))"
      by (simp add: cvt_loop.simps)
    with exit_stops [OF False] show ?thesis by (blast intro: transcodes_here)
  next
    case True
    show ?thesis
    proof (cases "body frm cap")
      case (Ret r)
      then have "cvt_loop guard fin body frm cap n out = Some (Done r (n + 0) (out @ []))"
        using True by (simp add: cvt_loop.simps)
      with return_stops [OF True Ret] show ?thesis by (blast intro: transcodes_here)
    next
      case (Cont k w)
      from sound [OF True this] obtain c where c: "valid c" "take k frm = src c" "w = dst c"
          "k \<le> length frm" "length w \<le> cap" by blast
      from less [OF progress [OF True Cont], of "cap - length w" "n + k" "out @ w"] obtain r j v where
        "cvt_loop guard fin body (drop k frm) (cap - length w) (n + k) (out @ w) =
           Some (Done r (n + k + j) ((out @ w) @ v))"
        and "transcodes waits valid src dst (drop k frm) (cap - length w) r j v" by blast
      then show ?thesis
        using True Cont c transcodes_step [of valid c k frm src dst cap waits r j v]
        by (auto simp: cvt_loop.simps [of guard fin body frm] add.assoc intro!: exI)
    next
      case Fault
      with safe [OF True] show ?thesis by simp
    qed
  qed
qed

text \<open>Accepted text that fits is converted and left behind.\<close>

lemma loop_accepts:
  assumes "\<forall>c\<in>set cs. valid c" and "length (concat (map dst cs)) \<le> cap"
  shows "cvt_loop guard fin body (concat (map src cs) @ more) cap n out =
    cvt_loop guard fin body more (cap - length (concat (map dst cs)))
      (n + length (concat (map src cs))) (out @ concat (map dst cs))"
  using assms
proof (induction cs arbitrary: cap n out)
  case Nil
  then show ?case by simp
next
  case (Cons c cs)
  let ?more = "concat (map src cs) @ more"
  have v: "valid c" "length (dst c) \<le> cap"
    using Cons.prems by auto
  moreover have "0 < length (dst c)"
    using dst_ne [OF v(1)] by simp
  ultimately have g: "guard (length (src c @ ?more)) cap"
    using src_len [OF v(1)] by (simp only: guard_iff length_append) linarith
  have "body (src c @ ?more) cap = Cont (length (src c)) (dst c)"
    using accepts [OF v(1) g] v by simp
  then have "cvt_loop guard fin body (src c @ ?more) cap n out =
      cvt_loop guard fin body ?more (cap - length (dst c)) (n + length (src c)) (out @ dst c)"
    using g by (simp add: cvt_loop.simps [of guard fin body "src c @ ?more"])
  then show ?case
    using Cons.IH [of "cap - length (dst c)"] Cons.prems by (simp add: add.assoc)
qed

lemma loop_ok:
  assumes "\<forall>c\<in>set cs. valid c" and "length (concat (map dst cs)) \<le> cap"
  shows "cvt_loop guard fin body (concat (map src cs)) cap n out =
    Some (Done ok (n + length (concat (map src cs))) (out @ concat (map dst cs)))"
proof -
  have "\<not> guard 0 c" for c
    using least by (simp add: guard_iff)
  then show ?thesis
    using loop_accepts [OF assms, of "[]"] fin by (simp add: cvt_loop.simps)
qed

text \<open>The length loop consumes what the conversion loop consumes.\<close>

lemma len_loop_eq:
  assumes "\<And>frm cap. guard (length frm) cap \<Longrightarrow> lbody frm cap = step_len (body frm cap)"
  shows "len_loop guard lbody frm cap n =
    map_option outcome_len (cvt_loop guard fin body frm cap n out)"
proof (induction "length frm" arbitrary: frm cap n out rule: less_induct)
  case less
  show ?case
  proof (cases "guard (length frm) cap")
    case False
    then show ?thesis by (simp add: cvt_loop.simps len_loop.simps)
  next
    case True
    show ?thesis
    proof (cases "body frm cap")
      case (Cont k w)
      from less [OF progress [OF True this], of "cap - length w" "n + k" "out @ w"] show ?thesis
        using True Cont assms
        by (simp add: cvt_loop.simps [of guard fin body frm] len_loop.simps [of guard lbody frm])
    qed (use True assms in \<open>simp_all add: cvt_loop.simps len_loop.simps\<close>)
  qed
qed

text \<open>A loop whose body reads through a cast, or stores through one.\<close>

lemma loop_map_source:
  assumes "\<And>frm cap. guard (length frm) cap \<Longrightarrow> body' frm cap = body (map f frm) cap"
  shows "cvt_loop guard fin body' frm cap n out = cvt_loop guard fin body (map f frm) cap n out"
proof (induction "length frm" arbitrary: frm cap n out rule: less_induct)
  case less
  show ?case
  proof (cases "guard (length frm) cap \<and> (\<exists>k w. body (map f frm) cap = Cont k w)")
    case True
    then obtain k w where "body (map f frm) cap = Cont k w" by blast
    moreover from this True have "length (drop k frm) < length frm"
      using progress [of "map f frm" cap k w] by (simp add: drop_map)
    ultimately show ?thesis
      using less [of "drop k frm"] True assms
      by (simp add: cvt_loop.simps [of guard fin body' frm cap] cvt_loop.simps [of guard fin body "map f frm" cap] drop_map)
  next
    case False
    then show ?thesis
      using assms by (auto simp: cvt_loop.simps [of guard fin body' frm cap] cvt_loop.simps [of guard fin body "map f frm" cap]
          split: step.split)
  qed
qed

lemma loop_map_target:
  assumes "\<And>frm cap. guard (length frm) cap \<Longrightarrow> body' frm cap = map_step f (body frm cap)"
  shows "cvt_loop guard fin body' frm cap n (map f out) =
    map_option (map_outcome f) (cvt_loop guard fin body frm cap n out)"
proof (induction "length frm" arbitrary: frm cap n out rule: less_induct)
  case less
  show ?case
  proof (cases "guard (length frm) cap \<and> (\<exists>k w. body frm cap = Cont k w)")
    case True
    then obtain k w where "body frm cap = Cont k w" by blast
    moreover from this True have "length (drop k frm) < length frm"
      using progress [of frm cap k w] by simp
    ultimately show ?thesis
      using less [of "drop k frm" "cap - length w" "n + k" "out @ w"] True assms
      by (simp add: cvt_loop.simps [of guard fin body' frm cap] cvt_loop.simps [of guard fin body frm cap])
  next
    case False
    then show ?thesis
      using assms by (auto simp: cvt_loop.simps [of guard fin body' frm cap] cvt_loop.simps [of guard fin body frm cap]
          split: step.split)
  qed
qed

text \<open>The routines around the loop.\<close>

lemma write_encodes:
  "\<exists>r n w. write_header mode bom cap (\<lambda>c out. cvt_loop guard fin body frm c 0 out) = Some (Done r n w) \<and>
     encodes waits valid src dst (header mode bom) frm cap r n w"
  using loop_transcodes [of frm "cap - length (header mode bom)" 0 "header mode bom"]
  by (auto simp: write_header_eq encodes_def)

lemma skip_decodes:
  "\<exists>r n w. skip_header mode bom frm (\<lambda>f k. cvt_loop guard fin body f cap k []) = Some (Done r n w) \<and>
     decodes waits valid src dst (skipped mode bom frm) frm cap r n w"
  using loop_transcodes [of "drop (skipped mode bom frm) frm" cap "skipped mode bom frm" "[]"]
  by (auto simp: skip_header_eq decodes_def)

end

section \<open>A conversion and its inverse\<close>

text \<open>
  Two loops over the same code points, one from \<open>src\<close> to \<open>dst\<close> (\<open>out\<close>) and one back (\<open>inn\<close>).
\<close>

locale codec_pair =
  out: transcoder og ofin obody oleast olim owaits valid src dst +
  inn: transcoder ig ifin ibody ileast ilim iwaits valid dst src
  for og ofin obody oleast olim owaits ig ifin ibody ileast ilim iwaits valid
    and src :: "nat \<Rightarrow> 'a list" and dst :: "nat \<Rightarrow> 'b list"
begin

lemma out_in:
  assumes "write_header gm bom cap (\<lambda>c w. cvt_loop og ofin obody frm c 0 w) = Some (Done ok n bs)"
    and "gm AND generate_header \<noteq> 0 \<longleftrightarrow> cm AND consume_header \<noteq> 0"
    and "length frm \<le> cap'"
  shows "n = length frm"
    and "skip_header cm bom bs (\<lambda>f k. cvt_loop ig ifin ibody f cap' k []) =
      Some (Done ok (length bs) frm)"
proof -
  let ?h = "header gm bom"
  obtain v where bs: "bs = ?h @ v"
    and t: "transcodes owaits valid src dst frm (cap - length ?h) ok n v"
    using assms(1) out.write_encodes [of gm bom cap frm] by (auto simp: encodes_def split: if_splits)
  obtain cs where cs: "\<forall>c\<in>set cs. valid c" "frm = concat (map src cs)" "v = concat (map dst cs)"
    "n = length frm" using t by (rule transcodes_okD)
  have "skipped cm bom bs = length ?h"
    using assms(2) bs by (auto simp: skipped_def header_def)
  then show "skip_header cm bom bs (\<lambda>f k. cvt_loop ig ifin ibody f cap' k []) =
      Some (Done ok (length bs) frm)"
    using inn.loop_ok [OF cs(1), of cap' "length ?h" "[]"] assms(3) cs bs by (simp add: skip_header_eq)
  show "n = length frm" by (fact cs(4))
qed

lemma in_out:
  assumes "skip_header cm bom bs (\<lambda>f k. cvt_loop ig ifin ibody f cap k []) = Some (Done ok n ws)"
    and "length bs - skipped cm bom bs + length (header gm bom) \<le> cap'"
  shows "n = length bs"
    and "write_header gm bom cap' (\<lambda>c w. cvt_loop og ofin obody ws c 0 w) =
      Some (Done ok (length ws) (header gm bom @ drop (skipped cm bom bs) bs))"
proof -
  let ?k = "skipped cm bom bs"
  have t: "transcodes iwaits valid dst src (drop ?k bs) cap ok (n - ?k) ws" and "?k \<le> n"
    using assms(1) inn.skip_decodes [of cm bom bs cap] by (auto simp: decodes_def)
  obtain cs where cs: "\<forall>c\<in>set cs. valid c" "drop ?k bs = concat (map dst cs)"
    "ws = concat (map src cs)" "n - ?k = length (drop ?k bs)" using t by (rule transcodes_okD)
  show "n = length bs" using cs(4) \<open>?k \<le> n\<close> skipped_le [of cm bom bs] by simp
  have "length (concat (map dst cs)) = length bs - ?k" using cs(2) by (metis length_drop)
  then show "write_header gm bom cap' (\<lambda>c w. cvt_loop og ofin obody ws c 0 w) =
      Some (Done ok (length ws) (header gm bom @ drop ?k bs))"
    using out.loop_ok [OF cs(1), of "cap' - length (header gm bom)" 0 "header gm bom"] assms(2)
    by (simp add: write_header_eq cs(2,3))
qed

end

end
