(* ===== verification/Unicode.thy ===== *)
theory Unicode
  imports Prelude
begin

text \<open>
  The reference encodings: the table of valid UTF ranges that \<open>src/src/locale.cpp\<close> quotes
  (lines 1721 to 1733) as functions from code points to code units, by division and remainder.
  The conversion routines, which work with masks and shifts, are proved against these.  The
  second half recognises the bit tests of the routines (\<open>byte_class\<close>) as intervals.
\<close>

unbundle bit_operations_syntax

section \<open>Code points and their encodings\<close>

definition scalar :: "nat \<Rightarrow> bool" where
  "scalar c \<longleftrightarrow> c < 0x110000 \<and> \<not> (0xD800 \<le> c \<and> c < 0xE000)"

definition utf8 :: "nat \<Rightarrow> u8 list" where
  "utf8 c = map of_nat
     (if c < 0x80 then [c]
      else if c < 0x800 then [0xC0 + c div 64, 0x80 + c mod 64]
      else if c < 0x10000 then [0xE0 + c div 4096, 0x80 + c div 64 mod 64, 0x80 + c mod 64]
      else [0xF0 + c div 262144, 0x80 + c div 4096 mod 64, 0x80 + c div 64 mod 64,
            0x80 + c mod 64])"

definition utf16 :: "nat \<Rightarrow> nat list" where
  "utf16 c =
     (if c < 0x10000 then [c]
      else [0xD800 + (c - 0x10000) div 1024, 0xDC00 + (c - 0x10000) mod 1024])"

text \<open>A UTF-16 text whose units are stored as \<open>unit\<close> does.\<close>

definition utf16_form :: "(nat \<Rightarrow> 'a list) \<Rightarrow> nat \<Rightarrow> 'a list" where
  "utf16_form unit c = concat (map unit (utf16 c))"

definition unit16 :: "nat \<Rightarrow> u16 list" where "unit16 u = [of_nat u]"
definition unit_be :: "nat \<Rightarrow> u8 list" where "unit_be u = [of_nat (u div 256), of_nat (u mod 256)]"
definition unit_le :: "nat \<Rightarrow> u8 list" where "unit_le u = [of_nat (u mod 256), of_nat (u div 256)]"

abbreviation "utf16_units \<equiv> utf16_form unit16"
abbreviation "utf16_be \<equiv> utf16_form unit_be"
abbreviation "utf16_le \<equiv> utf16_form unit_le"

definition ucs4 :: "nat \<Rightarrow> u32 list" where "ucs4 c = [of_nat c]"
definition ucs2 :: "nat \<Rightarrow> u16 list" where "ucs2 c = [of_nat c]"

text \<open>The code points a facet with the given \<open>Maxcode\<close> lets through.\<close>

definition upto_max :: "u64 \<Rightarrow> nat \<Rightarrow> bool" where
  "upto_max Maxcode c \<longleftrightarrow> scalar c \<and> c \<le> unat Maxcode"

definition bmp_upto :: "u64 \<Rightarrow> nat \<Rightarrow> bool" where
  "bmp_upto Maxcode c \<longleftrightarrow> upto_max Maxcode c \<and> c < 0x10000"

lemma length_utf8:
  "length (utf8 c) = (if c < 0x80 then 1 else if c < 0x800 then 2 else if c < 0x10000 then 3 else 4)"
  by (simp add: utf8_def)

lemma length_unit [simp]: "length (unit16 u) = 1" "length (unit_be u) = 2" "length (unit_le u) = 2"
  by (simp_all add: unit16_def unit_be_def unit_le_def)

lemma length_utf16:
  "length (utf16_units c) = (if c < 0x10000 then 1 else 2)"
  "length (utf16_be c) = (if c < 0x10000 then 2 else 4)"
  "length (utf16_le c) = (if c < 0x10000 then 2 else 4)"
  by (simp_all add: utf16_form_def utf16_def)

lemma ucs_of_unat: "[t] = ucs4 (unat t)" "[u] = ucs2 (unat u)"
  by (simp_all add: ucs4_def ucs2_def)

lemmas ucs4_of_unat = ucs_of_unat(1)
lemmas ucs2_of_unat = ucs_of_unat(2)

lemma length_ucs [simp]: "length (ucs4 c) = 1" "length (ucs2 c) = 1"
  by (simp_all add: ucs4_def ucs2_def)

lemma ucs_ne [simp]: "ucs4 c \<noteq> []" "ucs2 c \<noteq> []"
  by (simp_all add: ucs4_def ucs2_def)

lemma ucs4_fun: "(\<lambda>c. [of_nat c]) = ucs4"
  by (simp add: ucs4_def fun_eq_iff)

lemma ucs2_fun: "(\<lambda>c. [of_nat c]) = ucs2"
  by (simp add: ucs2_def fun_eq_iff)

text \<open>The byte order marks.\<close>

definition utf8_bom :: "u8 list" where "utf8_bom = [0xEF, 0xBB, 0xBF]"
definition utf16be_bom :: "u8 list" where "utf16be_bom = [0xFE, 0xFF]"
definition utf16le_bom :: "u8 list" where "utf16le_bom = [0xFF, 0xFE]"

section \<open>The bit tests of the routines\<close>

named_theorems byte_class \<open>mask tests as intervals\<close>

lemma continuation_iff [byte_class]:
  "(c::u8) AND 0xC0 = 0x80 \<longleftrightarrow> 0x80 \<le> unat c \<and> unat c < 0xC0"
  using top_field_iff [of "unat c" 4 64 2]
  by (simp add: word_eq_nat unsigned_and_eq and_nat_C0 del: mult_cancel2)

lemma after_E0_iff [byte_class]:
  "(c::u8) AND 0xE0 = 0xA0 \<longleftrightarrow> 0xA0 \<le> unat c \<and> unat c < 0xC0"
  using top_field_iff [of "unat c" 8 32 5]
  by (simp add: word_eq_nat unsigned_and_eq and_nat_E0 del: mult_cancel2)

lemma after_ED_iff [byte_class]:
  "(c::u8) AND 0xE0 = 0x80 \<longleftrightarrow> 0x80 \<le> unat c \<and> unat c < 0xA0"
  using top_field_iff [of "unat c" 8 32 4]
  by (simp add: word_eq_nat unsigned_and_eq and_nat_E0 del: mult_cancel2)

lemma after_F4_iff [byte_class]:
  "(c::u8) AND 0xF0 = 0x80 \<longleftrightarrow> 0x80 \<le> unat c \<and> unat c < 0x90"
  using top_field_iff [of "unat c" 16 16 8]
  by (simp add: word_eq_nat unsigned_and_eq and_nat_F0 del: mult_cancel2)

lemma high_surrogate_iff [byte_class]:
  "(c::u16) AND 0xFC00 = 0xD800 \<longleftrightarrow> 0xD800 \<le> unat c \<and> unat c < 0xDC00"
  using top_field_iff [of "unat c" 64 1024 54]
  by (simp add: word_eq_nat unsigned_and_eq and_nat_FC00 del: mult_cancel2)

lemma low_surrogate_iff [byte_class]:
  "(c::u16) AND 0xFC00 = 0xDC00 \<longleftrightarrow> 0xDC00 \<le> unat c \<and> unat c < 0xE000"
  using top_field_iff [of "unat c" 64 1024 55]
  by (simp add: word_eq_nat unsigned_and_eq and_nat_FC00 del: mult_cancel2)

lemma surrogate16_iff [byte_class]:
  "(c::u16) AND 0xF800 = 0xD800 \<longleftrightarrow> 0xD800 \<le> unat c \<and> unat c < 0xE000"
  using top_field_iff [of "unat c" 32 2048 27]
  by (simp add: word_eq_nat unsigned_and_eq and_nat_F800 del: mult_cancel2)

lemma surrogate32_iff [byte_class]:
  "(c::u32) AND 0xFFFFF800 = 0xD800 \<longleftrightarrow> 0xD800 \<le> unat c \<and> unat c < 0xE000"
  using top_field_iff [of "unat c" 2097152 2048 27]
  by (simp add: word_eq_nat unsigned_and_eq and_nat_FFFFF800 del: mult_cancel2)

end
