(* ===== verification/Utf8_Shape.thy ===== *)
theory Utf8_Shape
  imports Unicode
begin

text \<open>
  Which byte sequences are the UTF-8 form of a code point.  The routines that read UTF-8 test a
  lead byte by its interval and the second byte by a \<open>switch\<close> on the lead byte (\<open>switch3\<close>,
  \<open>switch4\<close>); \<open>utf8_two\<close>, \<open>utf8_three\<close> and \<open>utf8_four\<close> say that these tests accept exactly
  the reference encoding, and \<open>utf8_bytes\<close> that the shifted and masked code point is written as
  the reference says.
\<close>

unbundle bit_operations_syntax

section \<open>Writing UTF-8\<close>

lemma utf8_bytes1: "unat (w::u32) < 0x80 \<Longrightarrow> [ucast w] = utf8 (unat w)"
  by (simp add: utf8_def word_nat)

lemma utf8_bytes2:
  assumes "0x80 \<le> unat (w::u32)" and "unat w < 0x800"
  shows "[ucast (0xC0 OR drop_bit 6 w), ucast (0x80 OR (w AND 0x3F))] = utf8 (unat w)"
proof -
  have "unat w div 64 < 32" using assms by simp
  then show ?thesis using assms by (simp add: utf8_def word_nat field_nat)
qed

lemma utf8_bytes3:
  assumes "0x800 \<le> unat (w::u32)" and "unat w < 0x10000"
  shows "[ucast (0xE0 OR drop_bit 12 w), ucast (0x80 OR drop_bit 6 (w AND 0xFC0)),
    ucast (0x80 OR (w AND 0x3F))] = utf8 (unat w)"
proof -
  have "unat w div 4096 < 16" using assms by simp
  then show ?thesis using assms by (simp add: utf8_def word_nat field_nat)
qed

lemma utf8_bytes4:
  assumes "0x10000 \<le> unat (w::u32)" and "unat w < 0x110000"
  shows "[ucast (0xF0 OR drop_bit 18 w), ucast (0x80 OR drop_bit 12 (w AND 0x3F000)),
    ucast (0x80 OR drop_bit 6 (w AND 0xFC0)), ucast (0x80 OR (w AND 0x3F))] = utf8 (unat w)"
proof -
  have "unat w div 262144 < 8" using assms by simp
  then show ?thesis using assms by (simp add: utf8_def word_nat field_nat)
qed

lemmas utf8_bytes = utf8_bytes1 utf8_bytes2 utf8_bytes3 utf8_bytes4

section \<open>Reading UTF-8\<close>

text \<open>The \<open>switch (c1)\<close> on the lead byte of a three and of a four byte sequence: is the second
  byte wrong?\<close>

definition switch3 :: "u8 \<Rightarrow> u8 \<Rightarrow> bool" where
  "switch3 c1 c2 =
     (if c1 = 0xE0 then c2 AND 0xE0 \<noteq> 0xA0
      else if c1 = 0xED then c2 AND 0xE0 \<noteq> 0x80
      else c2 AND 0xC0 \<noteq> 0x80)"

definition switch4 :: "u8 \<Rightarrow> u8 \<Rightarrow> bool" where
  "switch4 c1 c2 =
     (if c1 = 0xF0 then \<not> (0x90 \<le> c2 \<and> c2 \<le> 0xBF)
      else if c1 = 0xF4 then c2 AND 0xF0 \<noteq> 0x80
      else c2 AND 0xC0 \<noteq> 0x80)"

text \<open>The code points that the shifts and masks of the routines assemble.\<close>

definition val2 :: "u8 \<Rightarrow> u8 \<Rightarrow> nat" where
  "val2 c1 c2 = unat c1 mod 32 * 64 + unat c2 mod 64"

definition val3 :: "u8 \<Rightarrow> u8 \<Rightarrow> u8 \<Rightarrow> nat" where
  "val3 c1 c2 c3 = unat c1 mod 16 * 4096 + unat c2 mod 64 * 64 + unat c3 mod 64"

definition val4 :: "u8 \<Rightarrow> u8 \<Rightarrow> u8 \<Rightarrow> u8 \<Rightarrow> nat" where
  "val4 c1 c2 c3 c4 =
     unat c1 mod 8 * 262144 + unat c2 mod 64 * 4096 + unat c3 mod 64 * 64 + unat c4 mod 64"

definition is_utf8_2 :: "u8 \<Rightarrow> u8 \<Rightarrow> bool" where
  "is_utf8_2 c1 c2 \<longleftrightarrow> 0xC2 \<le> unat c1 \<and> unat c1 < 0xE0 \<and> c2 AND 0xC0 = 0x80"

definition is_utf8_3 :: "u8 \<Rightarrow> u8 \<Rightarrow> u8 \<Rightarrow> bool" where
  "is_utf8_3 c1 c2 c3 \<longleftrightarrow>
     0xE0 \<le> unat c1 \<and> unat c1 < 0xF0 \<and> \<not> switch3 c1 c2 \<and> c3 AND 0xC0 = 0x80"

definition is_utf8_4 :: "u8 \<Rightarrow> u8 \<Rightarrow> u8 \<Rightarrow> u8 \<Rightarrow> bool" where
  "is_utf8_4 c1 c2 c3 c4 \<longleftrightarrow>
     0xF0 \<le> unat c1 \<and> unat c1 < 0xF5 \<and> \<not> switch4 c1 c2 \<and> c3 AND 0xC0 = 0x80 \<and> c4 AND 0xC0 = 0x80"

lemma digits64:
  assumes "b < 64" and "d < (64::nat)"
  shows "(a * 4096 + b * 64 + d) div 4096 = a" "(a * 4096 + b * 64 + d) div 64 mod 64 = b"
    "(a * 4096 + b * 64 + d) mod 64 = d"
proof -
  have "(a * 4096 + b * 64 + d) div 64 = a * 64 + b"
    using assms by (intro div_nat_eqI) simp_all
  then show "(a * 4096 + b * 64 + d) div 64 mod 64 = b"
    using assms by simp
  show "(a * 4096 + b * 64 + d) div 4096 = a"
    using assms by (intro div_nat_eqI) simp_all
  have "a * 4096 + b * 64 + d = (a * 64 + b) * 64 + d" by simp
  then show "(a * 4096 + b * 64 + d) mod 64 = d"
    using assms by (simp only: mod_mult_self3 mod_less)
qed

lemma digits64_4:
  assumes "b < 64" and "d < (64::nat)" and "e < 64"
  shows "(a * 262144 + b * 4096 + d * 64 + e) div 262144 = a"
    "(a * 262144 + b * 4096 + d * 64 + e) div 4096 mod 64 = b"
    "(a * 262144 + b * 4096 + d * 64 + e) div 64 mod 64 = d"
    "(a * 262144 + b * 4096 + d * 64 + e) mod 64 = e"
proof -
  have eq: "a * 262144 + b * 4096 + d * 64 + e = (a * 64 + b) * 4096 + d * 64 + e" by simp
  show "(a * 262144 + b * 4096 + d * 64 + e) div 262144 = a"
    using assms by (intro div_nat_eqI) simp_all
  show "(a * 262144 + b * 4096 + d * 64 + e) div 4096 mod 64 = b"
    unfolding eq digits64 [OF assms(2,3)] using assms(1) by simp
  show "(a * 262144 + b * 4096 + d * 64 + e) div 64 mod 64 = d"
    and "(a * 262144 + b * 4096 + d * 64 + e) mod 64 = e"
    unfolding eq by (rule digits64 [OF assms(2,3)])+
qed

lemma offsetE:
  assumes "k \<le> (n::nat)" and "n < k + m" and "m dvd k"
  obtains a where "n = k + a" and "a < m" and "n mod m = a"
proof -
  from assms(1) obtain a where n: "n = k + a" by (auto simp: le_iff_add)
  moreover from n assms(2) have "a < m" by simp
  moreover have "n mod m = a" using n \<open>a < m\<close> assms(3) by (auto elim!: dvdE)
  ultimately show ?thesis by (rule that)
qed

text \<open>Sequences the routines accept are reference encodings of the value they assemble.\<close>

lemma utf8_two:
  assumes "is_utf8_2 c1 c2"
  shows "utf8 (val2 c1 c2) = [c1, c2]" "0x80 \<le> val2 c1 c2" "val2 c1 c2 < 0x800"
proof -
  note wf = assms [unfolded is_utf8_2_def byte_class]
  obtain a where a: "unat c1 = 192 + a" "a < 32" "unat c1 mod 32 = a"
    by (rule offsetE [of 192 "unat c1" 32]) (use wf in simp_all)
  obtain b where b: "unat c2 = 128 + b" "b < 64" "unat c2 mod 64 = b"
    by (rule offsetE [of 128 "unat c2" 64]) (use wf in simp_all)
  have v: "val2 c1 c2 = a * 64 + b" using a b by (simp add: val2_def)
  have "2 \<le> a" using wf a by simp
  then show bounds: "0x80 \<le> val2 c1 c2" "val2 c1 c2 < 0x800" using a b v by simp_all
  have "(a * 64 + b) div 64 = a" "(a * 64 + b) mod 64 = b" using b by simp_all
  then show "utf8 (val2 c1 c2) = [c1, c2]"
    using bounds a b by (simp add: utf8_def v word_nat)
qed

lemma utf8_three:
  assumes "is_utf8_3 c1 c2 c3"
  shows "utf8 (val3 c1 c2 c3) = [c1, c2, c3]" "0x800 \<le> val3 c1 c2 c3" "val3 c1 c2 c3 < 0x10000"
    "scalar (val3 c1 c2 c3)"
proof -
  note wf = assms [unfolded is_utf8_3_def switch3_def byte_class]
  obtain a where a: "unat c1 = 224 + a" "a < 16" "unat c1 mod 16 = a"
    by (rule offsetE [of 224 "unat c1" 16]) (use wf in simp_all)
  have "0x80 \<le> unat c2" "unat c2 < 0xC0"
    using wf by (auto split: if_splits)
  then obtain b where b: "unat c2 = 128 + b" "b < 64" "unat c2 mod 64 = b"
    by (auto intro: offsetE [of 128 "unat c2" 64])
  obtain d where d: "unat c3 = 128 + d" "d < 64" "unat c3 mod 64 = d"
    by (rule offsetE [of 128 "unat c3" 64]) (use wf in simp_all)
  have v: "val3 c1 c2 c3 = a * 4096 + b * 64 + d" using a b d by (simp add: val3_def)
  have low: "a = 0 \<longrightarrow> 32 \<le> b" and surrogate: "a = 13 \<longrightarrow> b < 32"
    using wf a b by (auto simp: word_eq_nat)
  show bounds: "0x800 \<le> val3 c1 c2 c3" "val3 c1 c2 c3 < 0x10000"
    using low a b d v by (cases "a = 0"; simp)+
  have False if "0xD800 \<le> val3 c1 c2 c3" "val3 c1 c2 c3 < 0xE000"
  proof -
    have "a = 13" using that b d v by linarith
    with surrogate that b d v show False by linarith
  qed
  then show "scalar (val3 c1 c2 c3)"
    using bounds by (auto simp: scalar_def)
  show "utf8 (val3 c1 c2 c3) = [c1, c2, c3]"
    using bounds a b d by (simp add: utf8_def v digits64 word_nat)
qed

lemma utf8_four:
  assumes "is_utf8_4 c1 c2 c3 c4"
  shows "utf8 (val4 c1 c2 c3 c4) = [c1, c2, c3, c4]" "0x10000 \<le> val4 c1 c2 c3 c4"
    "scalar (val4 c1 c2 c3 c4)"
proof -
  note wf = assms [unfolded is_utf8_4_def switch4_def byte_class]
  obtain a where a: "unat c1 = 240 + a" "a < 8" "unat c1 mod 8 = a"
    by (rule offsetE [of 240 "unat c1" 8]) (use wf in simp_all)
  have "0x80 \<le> unat c2" "unat c2 < 0xC0"
    using wf by (auto simp: word_le_nat split: if_splits)
  then obtain b where b: "unat c2 = 128 + b" "b < 64" "unat c2 mod 64 = b"
    by (auto intro: offsetE [of 128 "unat c2" 64])
  obtain d where d: "unat c3 = 128 + d" "d < 64" "unat c3 mod 64 = d"
    by (rule offsetE [of 128 "unat c3" 64]) (use wf in simp_all)
  obtain e where e: "unat c4 = 128 + e" "e < 64" "unat c4 mod 64 = e"
    by (rule offsetE [of 128 "unat c4" 64]) (use wf in simp_all)
  have v: "val4 c1 c2 c3 c4 = a * 262144 + b * 4096 + d * 64 + e"
    using a b d e by (simp add: val4_def)
  have "a = 0 \<longrightarrow> 16 \<le> b" "a = 4 \<longrightarrow> b < 16" "a \<le> 4"
    using wf a b by (auto simp: word_eq_nat word_le_nat)
  then have "0x10000 \<le> val4 c1 c2 c3 c4 \<and> val4 c1 c2 c3 c4 < 0x110000"
    using a b d e v by (cases "a = 0"; cases "a = 4") auto
  then show bounds: "0x10000 \<le> val4 c1 c2 c3 c4" and "scalar (val4 c1 c2 c3 c4)"
    by (simp_all add: scalar_def)
  show "utf8 (val4 c1 c2 c3 c4) = [c1, c2, c3, c4]"
    using bounds a b d e by (simp add: utf8_def v digits64_4 word_nat)
qed

text \<open>Reference encodings are sequences the routines accept.\<close>

lemma offset_mod: "m dvd k \<Longrightarrow> a < m \<Longrightarrow> (k + a) mod m = (a::nat)"
  by (auto elim!: dvdE)

lemma split64:
  obtains a b where "(c::nat) = a * 64 + b" and "b < 64"
  by (rule that [of "c div 64" "c mod 64"]) simp_all

lemma split4096:
  obtains a b d where "(c::nat) = a * 4096 + b * 64 + d" and "b < 64" and "d < 64"
proof -
  obtain x d where "c = x * 64 + d" "d < 64" by (rule split64)
  moreover obtain a b where "x = a * 64 + b" "b < 64" by (rule split64)
  ultimately show ?thesis by (intro that [of a b d]) simp_all
qed

lemma split262144:
  obtains a b d e where "(c::nat) = a * 262144 + b * 4096 + d * 64 + e" "b < 64" "d < 64" "e < 64"
proof -
  obtain x d e where "c = x * 4096 + d * 64 + e" "d < 64" "e < 64" by (rule split4096)
  moreover obtain a b where "x = a * 64 + b" "b < 64" by (rule split64)
  ultimately show ?thesis by (intro that [of a b d e]) simp_all
qed

lemma utf8_one_conv: "c < 0x80 \<Longrightarrow> \<exists>c1. utf8 c = [c1] \<and> unat c1 = c"
  by (auto simp: utf8_def unat_of_nat_word)

lemma utf8_two_conv:
  assumes "0x80 \<le> c" and "c < 0x800"
  shows "\<exists>c1 c2. utf8 c = [c1, c2] \<and> is_utf8_2 c1 c2 \<and> val2 c1 c2 = c"
proof -
  obtain a b where c: "c = a * 64 + b" "b < 64" by (rule split64)
  let ?c1 = "of_nat (192 + a) :: u8" and ?c2 = "of_nat (128 + b) :: u8"
  have ab: "2 \<le> a" "a < 32" using assms c by linarith+
  have u: "unat ?c1 = 192 + a" "unat ?c2 = 128 + b"
    using ab c(2) by (simp_all only: unat_of_nat_word) simp_all
  have "utf8 c = [?c1, ?c2]" using assms c by (simp add: utf8_def)
  moreover have "is_utf8_2 ?c1 ?c2"
    unfolding is_utf8_2_def byte_class u using ab c(2) by simp
  moreover have "val2 ?c1 ?c2 = c"
    unfolding val2_def u using ab c by (simp add: offset_mod)
  ultimately show ?thesis by blast
qed

lemma utf8_three_conv:
  assumes "0x800 \<le> c" and "c < 0x10000" and "scalar c"
  shows "\<exists>c1 c2 c3. utf8 c = [c1, c2, c3] \<and> is_utf8_3 c1 c2 c3 \<and> val3 c1 c2 c3 = c"
proof -
  obtain a b d where c: "c = a * 4096 + b * 64 + d" "b < 64" "d < 64" by (rule split4096)
  let ?c1 = "of_nat (224 + a) :: u8" and ?c2 = "of_nat (128 + b) :: u8"
    and ?c3 = "of_nat (128 + d) :: u8"
  have a: "a < 16" using assms c by linarith
  have low: "a = 0 \<Longrightarrow> 32 \<le> b" and sur: "a = 13 \<Longrightarrow> b < 32"
    using assms c by (auto simp: scalar_def)
  have u: "unat ?c1 = 224 + a" "unat ?c2 = 128 + b" "unat ?c3 = 128 + d"
    using a c(2,3) by (simp_all only: unat_of_nat_word) simp_all
  have "utf8 c = [?c1, ?c2, ?c3]"
    using assms c by (simp add: utf8_def digits64)
  moreover have "is_utf8_3 ?c1 ?c2 ?c3"
    unfolding is_utf8_3_def switch3_def byte_class unfolding word_eq_nat u
    using a c(2,3) low sur by auto
  moreover have "val3 ?c1 ?c2 ?c3 = c"
    unfolding val3_def u using a c by (simp add: offset_mod)
  ultimately show ?thesis by blast
qed

lemma utf8_four_conv:
  assumes "0x10000 \<le> c" and "scalar c"
  shows "\<exists>c1 c2 c3 c4. utf8 c = [c1, c2, c3, c4] \<and> is_utf8_4 c1 c2 c3 c4 \<and> val4 c1 c2 c3 c4 = c"
proof -
  obtain a b d e where c: "c = a * 262144 + b * 4096 + d * 64 + e" "b < 64" "d < 64" "e < 64"
    by (rule split262144)
  let ?c1 = "of_nat (240 + a) :: u8" and ?c2 = "of_nat (128 + b) :: u8"
    and ?c3 = "of_nat (128 + d) :: u8" and ?c4 = "of_nat (128 + e) :: u8"
  have top: "c < 1114112" using assms(2) by (simp add: scalar_def)
  have a: "a \<le> 4" using top c by linarith
  have low: "a = 0 \<Longrightarrow> 16 \<le> b" and high: "a = 4 \<Longrightarrow> b < 16"
    using assms(1) top c by simp_all
  have u: "unat ?c1 = 240 + a" "unat ?c2 = 128 + b" "unat ?c3 = 128 + d" "unat ?c4 = 128 + e"
    using a c(2,3,4) by (simp_all only: unat_of_nat_word) simp_all
  have "utf8 c = [?c1, ?c2, ?c3, ?c4]"
    using assms c by (simp add: utf8_def digits64_4)
  moreover have "is_utf8_4 ?c1 ?c2 ?c3 ?c4"
    unfolding is_utf8_4_def switch4_def byte_class unfolding word_eq_nat word_le_nat u
    using a c(2,3,4) low high by auto
  moreover have "val4 ?c1 ?c2 ?c3 ?c4 = c"
    unfolding val4_def u using a c by (simp add: offset_mod)
  ultimately show ?thesis by blast
qed

section \<open>Assembling the code point\<close>

text \<open>The shifts and ors of the routines, in the 32 bits of a promoted \<open>int\<close>.\<close>

lemma join2:
  "unat (push_bit 6 (ucast (c1 AND 0x1F)) OR ucast (c2 AND 0x3F) :: u32) = val2 c1 c2"
proof -
  have "unat c1 mod 32 * 64 < 4294967296" by (rule less_trans [of _ "32 * 64"]) simp_all
  then show ?thesis by (simp add: val2_def word_nat field_nat)
qed

lemma join3:
  "unat (push_bit 12 (ucast (c1 AND 0x0F)) OR push_bit 6 (ucast (c2 AND 0x3F))
    OR ucast (c3 AND 0x3F) :: u32) = val3 c1 c2 c3"
proof -
  have "unat c1 mod 16 < 16" "unat c2 mod 64 < 64" "unat c3 mod 64 < 64" by simp_all
  then have "unat c1 mod 16 * 4096 < 4294967296" "unat c2 mod 64 * 64 < 4294967296"
    "unat c2 mod 64 * 64 + unat c3 mod 64 < 4096" by linarith+
  then show ?thesis by (simp add: val3_def word_nat field_nat)
qed

lemma join4:
  "unat (push_bit 18 (ucast (c1 AND 0x07)) OR push_bit 12 (ucast (c2 AND 0x3F))
    OR push_bit 6 (ucast (c3 AND 0x3F)) OR ucast (c4 AND 0x3F) :: u32) = val4 c1 c2 c3 c4"
proof -
  have "unat c1 mod 8 < 8" "unat c2 mod 64 < 64" "unat c3 mod 64 < 64" "unat c4 mod 64 < 64"
    by simp_all
  then have "unat c1 mod 8 * 262144 < 4294967296" "unat c2 mod 64 * 4096 < 4294967296"
    "unat c3 mod 64 * 64 < 4294967296" "unat c3 mod 64 * 64 + unat c4 mod 64 < 4096"
    "unat c2 mod 64 * 4096 + (unat c3 mod 64 * 64 + unat c4 mod 64) < 262144" by linarith+
  then show ?thesis by (simp add: val4_def word_nat field_nat)
qed

text \<open>The same stored in a \<open>uint16_t\<close>, which holds every two and three byte code point.\<close>

lemma val_less16: "val2 c1 c2 < 65536" "val3 c1 c2 c3 < 65536"
proof -
  have "unat c1 mod 32 < 32" "unat c1 mod 16 < 16" "unat c2 mod 64 < 64" "unat c3 mod 64 < 64"
    by simp_all
  then show "val2 c1 c2 < 65536" "val3 c1 c2 c3 < 65536"
    unfolding val2_def val3_def by linarith+
qed

lemma join2_16:
  "unat (ucast (push_bit 6 (ucast (c1 AND 0x1F)) OR ucast (c2 AND 0x3F) :: u32) :: u16) = val2 c1 c2"
  by (simp add: unat_narrow join2 val_less16)

lemma join3_16:
  "unat (ucast (push_bit 12 (ucast (c1 AND 0x0F)) OR push_bit 6 (ucast (c2 AND 0x3F))
    OR ucast (c3 AND 0x3F) :: u32) :: u16) = val3 c1 c2 c3"
  by (simp add: unat_narrow join3 val_less16)

end
