(* ===== verification/Utf16_Shape.thy ===== *)
theory Utf16_Shape
  imports Utf8_Shape
begin

text \<open>
  Surrogate pairs: the intervals that the routines test with masks, the code point of a pair, and
  the shifts and masks that take pairs apart and put them together.
\<close>

unbundle bit_operations_syntax

definition high_unit :: "nat \<Rightarrow> bool" where "high_unit u \<longleftrightarrow> 0xD800 \<le> u \<and> u < 0xDC00"
definition low_unit :: "nat \<Rightarrow> bool" where "low_unit u \<longleftrightarrow> 0xDC00 \<le> u \<and> u < 0xE000"

lemma high_unitE:
  assumes "high_unit u"
  obtains a where "u = 0xD800 + a" and "a < 1024"
  by (rule offsetE [of "0xD800" u 1024]) (use assms in \<open>auto simp: high_unit_def intro: that\<close>)

lemma low_unitE:
  assumes "low_unit u"
  obtains a where "u = 0xDC00 + a" and "a < 1024"
  by (rule offsetE [of "0xDC00" u 1024]) (use assms in \<open>auto simp: low_unit_def intro: that\<close>)

definition pair_value :: "nat \<Rightarrow> nat \<Rightarrow> nat" where
  "pair_value u v = 0x10000 + (u - 0xD800) * 1024 + (v - 0xDC00)"

lemma pair_value:
  assumes "high_unit u" and "low_unit v"
  shows "utf16 (pair_value u v) = [u, v]" "scalar (pair_value u v)" "0x10000 \<le> pair_value u v"
proof -
  obtain a where a: "u = 0xD800 + a" "a < 1024" using assms(1) by (rule high_unitE)
  obtain b where b: "v = 0xDC00 + b" "b < 1024" using assms(2) by (rule low_unitE)
  show "utf16 (pair_value u v) = [u, v]" "scalar (pair_value u v)" "0x10000 \<le> pair_value u v"
    using a b by (simp_all add: pair_value_def utf16_def scalar_def)
qed

lemma utf16_one: "c < 0x10000 \<Longrightarrow> utf16_form unit c = unit c"
  by (simp add: utf16_form_def utf16_def)

lemma utf16_pair: "high_unit u \<Longrightarrow> low_unit v \<Longrightarrow> utf16_form unit (pair_value u v) = unit u @ unit v"
  by (simp add: utf16_form_def pair_value)

lemma utf16_pair_conv:
  assumes "scalar c" and "0x10000 \<le> c"
  obtains u v where "high_unit u" "low_unit v" "c = pair_value u v"
proof
  let ?u = "0xD800 + (c - 0x10000) div 1024" and ?v = "0xDC00 + (c - 0x10000) mod 1024"
  have "(c - 0x10000) div 1024 < 1024"
    using assms by (intro less_mult_imp_div_less) (auto simp: scalar_def)
  then show "high_unit ?u" "low_unit ?v"
    by (simp_all add: high_unit_def low_unit_def)
  have "(c - 0x10000) div 1024 * 1024 + (c - 0x10000) mod 1024 = c - 0x10000"
    by (rule div_mult_mod_eq)
  then show "c = pair_value ?u ?v"
    using assms(2) by (simp add: pair_value_def)
qed

lemma scalar_bmp: "u < 0x10000 \<Longrightarrow> scalar u \<longleftrightarrow> \<not> high_unit u \<and> \<not> low_unit u"
  by (auto simp: scalar_def high_unit_def low_unit_def)

section \<open>Storing pairs\<close>

text \<open>The bytes that \<open>utf16_to_utf8\<close> stores for a pair.\<close>

definition surrogate_z :: "u32 \<Rightarrow> u8" where
  "surrogate_z wc1 = ucast (drop_bit 6 (wc1 AND 0x03C0) + 1)"

lemma pair_utf8_bytes:
  assumes "high_unit (unat (w1::u32))" and "low_unit (unat (w2::u32))"
  shows "[ucast (0xF0 OR drop_bit 2 (ucast (surrogate_z w1) :: u32)),
      ucast (0x80 OR push_bit 4 (ucast (surrogate_z w1) AND 0x03) OR drop_bit 2 (w1 AND 0x003C)),
      ucast (0x80 OR push_bit 4 (w1 AND 0x0003) OR drop_bit 6 (w2 AND 0x03C0)),
      ucast (0x80 OR (w2 AND 0x003F))] = utf8 (pair_value (unat w1) (unat w2))"
proof -
  obtain a where a: "unat w1 = 0xD800 + a" "a < 1024" using assms(1) by (rule high_unitE)
  obtain b where b: "unat w2 = 0xDC00 + b" "b < 1024" using assms(2) by (rule low_unitE)
  obtain p x where px: "a = p * 64 + x" "x < 64" by (rule split64)
  obtain q r where qr: "x = q * 4 + r" "r < 4" using that [of "x div 4" "x mod 4"] by simp
  obtain s t where st: "b = s * 64 + t" "t < 64" by (rule split64)
  have bounds: "p < 16" "q < 16" "s < 16" using a b px qr st by simp_all
  have eq: "unat w1 = ((864 + p) * 16 + q) * 4 + r" "unat w2 = (880 + s) * 64 + t"
    using a b px qr st by simp_all
  have "unat w1 div 4 = (864 + p) * 16 + q" "unat w1 mod 4 = r"
    by (simp_all only: eq radix [OF qr(2)])
  moreover have "unat w1 div 64 = unat w1 div 4 div 16"
    by (simp add: div_mult2_eq [symmetric])
  moreover have "(864 + p) mod 16 = p"
    using bounds by (simp add: offset_mod)
  ultimately have w1: "unat w1 div 64 mod 16 = p" "unat w1 mod 4 = r" "unat w1 div 4 mod 16 = q"
    by (simp_all only: radix [OF bounds(2)])
  have "(880 + s) mod 16 = s"
    using bounds by (simp add: offset_mod)
  then have w2: "unat w2 div 64 mod 16 = s" "unat w2 mod 64 = t"
    by (simp_all only: eq radix [OF st(2)])
  have z: "unat (surrogate_z w1) = p + 1"
    using bounds by (simp add: surrogate_z_def word_nat field_nat w1)
  obtain i j where ij: "p + 1 = i * 4 + j" "j < 4"
    using that [of "(p + 1) div 4" "(p + 1) mod 4"] by simp
  have zdiv: "(p + 1) div 4 = i" "(p + 1) mod 4 = j"
    by (simp_all only: ij(1) radix [OF ij(2)])
  have v: "pair_value (unat w1) (unat w2) =
    i * 262144 + (j * 16 + q) * 4096 + (r * 16 + s) * 64 + t"
    using a b px qr st ij by (simp add: pair_value_def)
  have digits: "j * 16 + q < 64" "r * 16 + s < 64" "i < 8"
    using bounds qr ij by simp_all
  have "utf8 (pair_value (unat w1) (unat w2)) =
      map of_nat [0xF0 + i, 0x80 + (j * 16 + q), 0x80 + (r * 16 + s), 0x80 + t]"
    using pair_value(3) [OF assms]
    unfolding utf8_def v digits64_4 [OF digits(1,2) st(2)] by simp
  then show ?thesis
    using digits st bounds ij(2)
    by (simp add: word_nat field_nat z [simplified] zdiv [simplified] w1 w2 del: of_nat_add of_nat_mult)
qed

section \<open>Making pairs\<close>

text \<open>The two units that \<open>utf8_to_utf16\<close> stores for a four byte sequence.\<close>

definition lead_half :: "u8 \<Rightarrow> u8 \<Rightarrow> u8 \<Rightarrow> u32" where
  "lead_half c1 c2 c3 =
     0xD800 OR push_bit 6 ((push_bit 2 (ucast c1 AND 0x07) OR drop_bit 4 (ucast c2 AND 0x30)) - 1)
       OR push_bit 2 (ucast c2 AND 0x0F) OR drop_bit 4 (ucast c3 AND 0x30)"

definition trail_half :: "u8 \<Rightarrow> u8 \<Rightarrow> u32" where
  "trail_half c3 c4 = 0xDC00 OR push_bit 6 (ucast c3 AND 0x0F) OR (ucast c4 AND 0x3F)"

lemma four_halves:
  assumes "is_utf8_4 c1 c2 c3 c4"
  shows "high_unit (unat (lead_half c1 c2 c3))" "low_unit (unat (trail_half c3 c4))"
    "val4 c1 c2 c3 c4 = pair_value (unat (lead_half c1 c2 c3)) (unat (trail_half c3 c4))"
proof -
  define a where "a = unat c1 mod 8"
  define b x where "b = unat c2 div 16 mod 4" and "x = unat c2 mod 16"
  define d y where "d = unat c3 div 16 mod 4" and "y = unat c3 mod 16"
  define e where "e = unat c4 mod 64"
  note defs = a_def b_def x_def d_def y_def e_def
  have bounds: "a < 8" "b < 4" "x < 16" "d < 4" "y < 16" "e < 64"
    by (simp_all add: defs)
  have v: "val4 c1 c2 c3 c4 = (a * 4 + b) * 65536 + (x * 4 + d) * 1024 + (y * 64 + e)"
    using mod_mult2_eq [of "unat c2" 16 4] mod_mult2_eq [of "unat c3" 16 4]
    by (simp add: val4_def defs)
  let ?w = "push_bit 2 (ucast c1 AND 0x07) OR drop_bit 4 (ucast c2 AND 0x30) :: u32"
  have "unat ?w = a * 4 + b"
    using bounds by (simp add: word_nat field_nat a_def [symmetric] b_def [symmetric])
  moreover have "1 \<le> a * 4 + b" "a * 4 + b \<le> 16"
    using utf8_four [OF assms] v bounds by (simp_all add: scalar_def)
  then obtain k where k: "a * 4 + b = k + 1" "k < 16"
    using that [of "a * 4 + b - 1"] by simp
  ultimately have w: "unat (?w - 1) = k"
    by (simp add: unat_pred)
  have "unat (lead_half c1 c2 c3) = 0xD800 + (k * 64 + (x * 4 + d))"
    using bounds k
    by (simp add: lead_half_def word_nat field_nat w x_def [symmetric] d_def [symmetric])
  moreover have "unat (trail_half c3 c4) = 0xDC00 + (y * 64 + e)"
    using bounds
    by (simp add: trail_half_def word_nat field_nat y_def [symmetric] e_def [symmetric])
  ultimately show "high_unit (unat (lead_half c1 c2 c3))" "low_unit (unat (trail_half c3 c4))"
    "val4 c1 c2 c3 c4 = pair_value (unat (lead_half c1 c2 c3)) (unat (trail_half c3 c4))"
    using bounds k unfolding v k by (simp_all add: high_unit_def low_unit_def pair_value_def)
qed

lemma ucast_up_down:
  assumes "unat (x::u32) < 65536"
  shows "unat (ucast x :: u16) = unat x" "ucast (ucast x :: u16) = x"
  using assms by (simp_all add: unat_narrow unat_widen word_eq_nat)

lemma unit_below: "high_unit u \<Longrightarrow> u < 65536" "low_unit u \<Longrightarrow> u < 65536"
  by (simp_all add: high_unit_def low_unit_def)

lemma utf16_units_unat: "utf16_units (unat (u::u16)) = [u]"
  by (simp add: utf16_one unit16_def)

lemma utf16_units_ucast: "utf16_units (unat (u::u8)) = [ucast u]"
  using utf16_units_unat [of "ucast u"] by (simp add: unat_widen)

lemma four_utf16_units:
  assumes "is_utf8_4 c1 c2 c3 c4"
  shows "[ucast (lead_half c1 c2 c3), ucast (trail_half c3 c4)] = utf16_units (val4 c1 c2 c3 c4)"
    "ucast (ucast (lead_half c1 c2 c3) :: u16) = lead_half c1 c2 c3"
    "ucast (ucast (trail_half c3 c4) :: u16) = trail_half c3 c4"
proof -
  note halves = four_halves [OF assms]
  note below = unit_below(1) [OF halves(1)] unit_below(2) [OF halves(2)]
  show "ucast (ucast (lead_half c1 c2 c3) :: u16) = lead_half c1 c2 c3"
    "ucast (ucast (trail_half c3 c4) :: u16) = trail_half c3 c4"
    by (rule ucast_up_down(2), rule below)+
  show "[ucast (lead_half c1 c2 c3), ucast (trail_half c3 c4)] = utf16_units (val4 c1 c2 c3 c4)"
    using below unfolding halves(3) utf16_pair [OF halves(1,2)]
    by (simp add: unit16_def word_eq_nat unat_of_nat_word ucast_up_down)
qed

lemmas join2_units = utf16_units_unat [of "ucast (push_bit 6 (ucast (c1 AND 0x1F)) OR ucast (c2 AND 0x3F) :: u32)" for c1 c2 :: u8,
  unfolded join2_16]

lemmas join3_units = utf16_units_unat [of "ucast (push_bit 12 (ucast (c1 AND 0x0F)) OR push_bit 6 (ucast (c2 AND 0x3F))
  OR ucast (c3 AND 0x3F) :: u32)" for c1 c2 c3 :: u8, unfolded join3_16]

text \<open>The two units that the UTF-16 writers make from a code point outside the basic plane.\<close>

definition high_half :: "u32 \<Rightarrow> u16" where
  "high_half wc = ucast (0xD800 OR push_bit 6 (drop_bit 16 (wc AND 0x1F0000) - 1)
     OR drop_bit 10 (wc AND 0x00FC00))"

definition low_half :: "u32 \<Rightarrow> u16" where
  "low_half wc = ucast (0xDC00 OR (wc AND 0x03FF))"

lemma unat_halves:
  assumes "0x10000 \<le> unat wc" and "unat wc < 0x110000"
  shows "unat (high_half wc) = 0xD800 + (unat wc - 0x10000) div 1024"
    "unat (low_half wc) = 0xDC00 + (unat wc - 0x10000) mod 1024"
proof -
  define h where "h = unat wc div 65536 - 1"
  define l where "l = unat wc div 1024 mod 64"
  have bounds: "h < 16" "l < 64" using assms by (simp_all add: h_def l_def)
  have "unat wc div 65536 = h + 1" using assms by (simp add: h_def)
  then have "unat (drop_bit 16 (wc AND 0x1F0000)) = h + 1"
    using bounds by (simp add: word_nat field_nat)
  then have w: "unat (drop_bit 16 (wc AND 0x1F0000) - 1) = h"
    by (simp add: unat_pred)
  note \<open>unat wc div 65536 = h + 1\<close>
  moreover have "unat wc div 65536 = unat wc div 1024 div 64" by (simp add: div_mult2_eq [symmetric])
  ultimately have "unat wc div 1024 = (h + 1) * 64 + l"
    using div_mult_mod_eq [of "unat wc div 1024" 64] by (simp add: l_def)
  then have "unat wc = 65536 + (h * 64 + l) * 1024 + unat wc mod 1024"
    using div_mult_mod_eq [of "unat wc" 1024] by simp
  then have c: "unat wc - 0x10000 = (h * 64 + l) * 1024 + unat wc mod 1024"
    by linarith
  have "(unat wc - 0x10000) div 1024 = h * 64 + l" "(unat wc - 0x10000) mod 1024 = unat wc mod 1024"
    by (simp_all only: c radix [of "unat wc mod 1024" 1024] mod_less_divisor zero_less_numeral)
  then show "unat (high_half wc) = 0xD800 + (unat wc - 0x10000) div 1024"
    "unat (low_half wc) = 0xDC00 + (unat wc - 0x10000) mod 1024"
    using bounds assms
    by (simp_all add: high_half_def low_half_def word_nat field_nat w l_def [symmetric])
qed

end
