(* ===== verification/Codecvt_Contracts.thy ===== *)
theory Codecvt_Contracts
  imports Codecvt_Base Utf16_Shape
begin

text \<open>
  Three contracts that give the contract \<open>transcoder\<close>.  A \<open>unit_encoder\<close> writes one code point per
  source element (the routines that read UCS-2 or UCS-4).  A \<open>utf8_reader\<close> reads UTF-8; its
  laws say what the body does after each kind of lead byte.  A \<open>utf16_reader\<close> reads UTF-16 whose
  units are stored in one element or in two bytes of either order.
\<close>

section \<open>Writing one code point per source element\<close>

locale unit_encoder =
  fixes body :: "'a::len word list \<Rightarrow> nat \<Rightarrow> 'b step"
    and valid :: "nat \<Rightarrow> bool"
    and dst :: "nat \<Rightarrow> 'b list"
  assumes body_eq: "body (w # more) cap =
      (if \<not> valid (unat w) then Ret error
       else if length (dst (unat w)) \<le> cap then Cont 1 (dst (unat w)) else Ret partial)"
    and valid_range: "valid c \<Longrightarrow> c < 2 ^ LENGTH('a)"
    and dst_some: "valid c \<Longrightarrow> dst c \<noteq> []"

sublocale unit_encoder \<subseteq> transcoder guard_out fin_ok body 1 False never valid "\<lambda>c. [of_nat c]" dst
proof (unfold_locales, goal_cases)
  case (7 c more cap)
  then have "unat (of_nat c :: 'a word) = c"
    using valid_range by (simp add: unat_of_nat)
  with 7 show ?case by (simp add: body_eq)
next
  case (8 frm cap k w)
  then obtain x more where frm: "frm = x # more" by (cases frm) (auto simp: guard_out_def)
  with 8 have "valid (unat x) \<and> w = dst (unat x) \<and> k = 1 \<and> length w \<le> cap"
    by (auto simp: body_eq split: if_splits)
  with frm show ?case by (auto intro!: exI [of _ "unat x"])
next
  case (9 frm cap r)
  then obtain x more where frm: "frm = x # more" by (cases frm) (auto simp: guard_out_def)
  have "valid (unat x) \<longleftrightarrow> (\<exists>c more'. valid c \<and> frm = [of_nat c] @ more')"
    using frm valid_range by (auto simp: unat_of_nat intro: exI [of _ "unat x"])
  with 9 frm show ?case by (auto simp: body_eq never_def split: if_splits)
next
  case (10 frm cap)
  then obtain x more where "frm = x # more" by (cases frm) (auto simp: guard_out_def)
  then show ?case by (simp add: body_eq)
qed (use dst_some in \<open>auto simp: guard_out_def fin_ok_def\<close>)

context unit_encoder
begin

lemma contract: "transcoder guard_out fin_ok body 1 False never valid (\<lambda>c. [of_nat c]) dst"
  by (rule transcoder_axioms)

end

section \<open>Reading UTF-8\<close>

text \<open>
  The answer to a complete sequence of \<open>n\<close> bytes for the code point \<open>c\<close>: the destination form if
  \<open>c\<close> is accepted and fits, \<open>partial\<close> if it does not fit, and for a code point that is not
  accepted \<open>error\<close>, or \<open>partial\<close> where the routine waits because it tests the space first.
\<close>

definition fails :: "('a list \<Rightarrow> nat \<Rightarrow> bool) \<Rightarrow> 'a list \<Rightarrow> nat \<Rightarrow> 'b step \<Rightarrow> bool" where
  "fails waits frm cap s \<longleftrightarrow> s = Ret (if waits frm cap then partial else error)"

definition answers ::
  "('a list \<Rightarrow> nat \<Rightarrow> bool) \<Rightarrow> (nat \<Rightarrow> bool) \<Rightarrow> (nat \<Rightarrow> 'b list) \<Rightarrow> 'a list \<Rightarrow> nat \<Rightarrow> nat \<Rightarrow> nat \<Rightarrow> 'b step \<Rightarrow> bool" where
  "answers waits valid dst frm cap n c s \<longleftrightarrow>
     (if valid c then s = (if length (dst c) \<le> cap then Cont n (dst c) else Ret partial)
      else fails waits frm cap s)"

locale utf8_reader =
  fixes body :: "u8 list \<Rightarrow> nat \<Rightarrow> 'b step"
    and waits :: "u8 list \<Rightarrow> nat \<Rightarrow> bool"
    and valid :: "nat \<Rightarrow> bool"
    and dst :: "nat \<Rightarrow> 'b list"
  assumes valid_scalar: "valid c \<Longrightarrow> scalar c"
    and dst_some: "valid c \<Longrightarrow> dst c \<noteq> []"
    and full: "waits frm 0"
    and ascii: "unat c1 < 0x80 \<Longrightarrow> 0 < cap \<Longrightarrow>
      answers waits valid dst (c1 # more) cap 1 (unat c1) (body (c1 # more) cap)"
    and bad_lead: "0x80 \<le> unat c1 \<and> unat c1 < 0xC2 \<or> 0xF5 \<le> unat c1 \<Longrightarrow> 0 < cap \<Longrightarrow>
      fails waits (c1 # more) cap (body (c1 # more) cap)"
    and short: "0xC2 \<le> unat c1 \<Longrightarrow> unat c1 < 0xF5 \<Longrightarrow> 0 < cap \<Longrightarrow>
      Suc (length more) < (if unat c1 < 0xE0 then 2 else if unat c1 < 0xF0 then 3 else 4) \<Longrightarrow>
      fails waits (c1 # more) cap (body (c1 # more) cap)"
    and two: "0xC2 \<le> unat c1 \<Longrightarrow> unat c1 < 0xE0 \<Longrightarrow> 0 < cap \<Longrightarrow>
      if is_utf8_2 c1 c2 then answers waits valid dst (c1 # c2 # more) cap 2 (val2 c1 c2) (body (c1 # c2 # more) cap)
      else fails waits (c1 # c2 # more) cap (body (c1 # c2 # more) cap)"
    and three: "0xE0 \<le> unat c1 \<Longrightarrow> unat c1 < 0xF0 \<Longrightarrow> 0 < cap \<Longrightarrow>
      if is_utf8_3 c1 c2 c3
      then answers waits valid dst (c1 # c2 # c3 # more) cap 3 (val3 c1 c2 c3) (body (c1 # c2 # c3 # more) cap)
      else fails waits (c1 # c2 # c3 # more) cap (body (c1 # c2 # c3 # more) cap)"
    and four: "0xF0 \<le> unat c1 \<Longrightarrow> unat c1 < 0xF5 \<Longrightarrow> 0 < cap \<Longrightarrow>
      if is_utf8_4 c1 c2 c3 c4
      then answers waits valid dst (c1 # c2 # c3 # c4 # more) cap 4 (val4 c1 c2 c3 c4) (body (c1 # c2 # c3 # c4 # more) cap)
      else fails waits (c1 # c2 # c3 # c4 # more) cap (body (c1 # c2 # c3 # c4 # more) cap)"
begin

lemma complete:
  assumes "valid c" and "0 < cap"
  shows "body (utf8 c @ more) cap =
    (if length (dst c) \<le> cap then Cont (length (utf8 c)) (dst c) else Ret partial)"
proof -
  note scalar = valid_scalar [OF assms(1)]
  consider "c < 0x80" | "0x80 \<le> c" "c < 0x800" | "0x800 \<le> c" "c < 0x10000" | "0x10000 \<le> c"
    by linarith
  then show ?thesis
  proof cases
    case 1
    then obtain c1 where "utf8 c = [c1]" "unat c1 = c" using utf8_one_conv by blast
    then show ?thesis using ascii [of c1 cap more] 1 assms by (simp add: answers_def)
  next
    case 2
    then obtain c1 c2 where "utf8 c = [c1, c2]" "is_utf8_2 c1 c2" "val2 c1 c2 = c"
      using utf8_two_conv by blast
    then show ?thesis
      using two [of c1 cap c2 more] assms by (auto simp: answers_def is_utf8_2_def)
  next
    case 3
    then obtain c1 c2 c3 where "utf8 c = [c1, c2, c3]" "is_utf8_3 c1 c2 c3" "val3 c1 c2 c3 = c"
      using utf8_three_conv scalar by blast
    then show ?thesis
      using three [of c1 cap c2 c3 more] assms by (auto simp: answers_def is_utf8_3_def)
  next
    case 4
    then obtain c1 c2 c3 c4 where "utf8 c = [c1, c2, c3, c4]" "is_utf8_4 c1 c2 c3 c4"
        "val4 c1 c2 c3 c4 = c"
      using utf8_four_conv scalar by blast
    then show ?thesis
      using four [of c1 cap c2 c3 c4 more] assms by (auto simp: answers_def is_utf8_4_def)
  qed
qed

text \<open>Every outcome of the body on a nonempty input.\<close>

definition outcome_ok :: "u8 list \<Rightarrow> nat \<Rightarrow> 'b step \<Rightarrow> bool" where
  "outcome_ok frm cap s \<longleftrightarrow>
     fails waits frm cap s \<or> s = Ret partial \<and> (\<exists>c more. valid c \<and> frm = utf8 c @ more) \<or>
     (\<exists>c. valid c \<and> take (length (utf8 c)) frm = utf8 c \<and> length (utf8 c) \<le> length frm \<and>
        length (dst c) \<le> cap \<and> s = Cont (length (utf8 c)) (dst c))"

lemma outcome_ok_fails: "fails waits frm cap s \<Longrightarrow> outcome_ok frm cap s"
  by (simp add: outcome_ok_def)

lemma outcome_okI:
  assumes "answers waits valid dst frm cap n c s" and "utf8 c = xs" and "n = length xs"
    and "frm = xs @ more"
  shows "outcome_ok frm cap s"
  using assms by (auto simp: answers_def outcome_ok_def split: if_splits)

lemma outcome:
  assumes "0 < length frm" and "0 < cap"
  shows "outcome_ok frm cap (body frm cap)"
proof -
  from assms(1) obtain c1 more where frm: "frm = c1 # more" by (cases frm) auto
  consider "unat c1 < 0x80" | "0x80 \<le> unat c1 \<and> unat c1 < 0xC2 \<or> 0xF5 \<le> unat c1"
    | "0xC2 \<le> unat c1" "unat c1 < 0xE0" | "0xE0 \<le> unat c1" "unat c1 < 0xF0"
    | "0xF0 \<le> unat c1" "unat c1 < 0xF5" by linarith
  then show ?thesis
  proof cases
    case 1
    have "utf8 (unat c1) = [c1]" using 1 by (simp add: utf8_def)
    then show ?thesis
      using ascii [OF 1 assms(2)] frm by (intro outcome_okI [of _ cap 1 "unat c1" _ "[c1]"]) simp_all
  next
    case 2
    then show ?thesis using bad_lead [OF 2 assms(2)] frm by (simp add: outcome_ok_fails)
  next
    case 3
    show ?thesis
    proof (cases more)
      case Nil
      then show ?thesis using short [of c1 cap more] 3 frm assms(2) by (auto intro: outcome_ok_fails)
    next
      case (Cons c2 rest)
      then have frm': "frm = [c1, c2] @ rest" using frm by simp
      show ?thesis
      proof (cases "is_utf8_2 c1 c2")
        case True
        then have "answers waits valid dst frm cap 2 (val2 c1 c2) (body frm cap)"
          using two [OF 3 assms(2), of c2 rest] frm' by simp
        then show ?thesis
          by (rule outcome_okI [OF _ utf8_two(1) [OF True] _ frm']) simp
      qed (use two [OF 3 assms(2), of c2 rest] frm' in \<open>simp add: outcome_ok_fails\<close>)
    qed
  next
    case 4
    show ?thesis
    proof (cases "length more < 2")
      case True
      then show ?thesis using short [of c1 cap more] 4 frm assms(2) by (auto intro: outcome_ok_fails)
    next
      case False
      then obtain c2 c3 rest where "more = c2 # c3 # rest"
        by (auto simp: not_less numeral_2_eq_2 Suc_le_length_iff)
      with frm have frm': "frm = [c1, c2, c3] @ rest" by simp
      show ?thesis
      proof (cases "is_utf8_3 c1 c2 c3")
        case True
        then have "answers waits valid dst frm cap 3 (val3 c1 c2 c3) (body frm cap)"
          using three [OF 4 assms(2), of c2 c3 rest] frm' by simp
        then show ?thesis
          by (rule outcome_okI [OF _ utf8_three(1) [OF True] _ frm']) simp
      qed (use three [OF 4 assms(2), of c2 c3 rest] frm' in \<open>simp add: outcome_ok_fails\<close>)
    qed
  next
    case 5
    show ?thesis
    proof (cases "length more < 3")
      case True
      then show ?thesis using short [of c1 cap more] 5 frm assms(2) by (auto intro: outcome_ok_fails)
    next
      case False
      then obtain c2 c3 c4 rest where "more = c2 # c3 # c4 # rest"
        by (auto simp: not_less numeral_3_eq_3 Suc_le_length_iff)
      with frm have frm': "frm = [c1, c2, c3, c4] @ rest" by simp
      show ?thesis
      proof (cases "is_utf8_4 c1 c2 c3 c4")
        case True
        then have "answers waits valid dst frm cap 4 (val4 c1 c2 c3 c4) (body frm cap)"
          using four [OF 5 assms(2), of c2 c3 c4 rest] frm' by simp
        then show ?thesis
          by (rule outcome_okI [OF _ utf8_four(1) [OF True] _ frm']) simp
      qed (use four [OF 5 assms(2), of c2 c3 c4 rest] frm' in \<open>simp add: outcome_ok_fails\<close>)
    qed
  qed
qed

lemma returns:
  assumes "0 < length frm" and "0 < cap" and "body frm cap = Ret r"
  shows "r = (if waits frm cap \<or> (\<exists>c more. valid c \<and> frm = utf8 c @ more) then partial else error)"
proof (cases "\<exists>c more. valid c \<and> frm = utf8 c @ more")
  case True
  then obtain c more where "valid c" "frm = utf8 c @ more" by blast
  with complete [OF this(1) assms(2), of more] assms(3) True show ?thesis by (auto split: if_splits)
next
  case False
  with outcome [OF assms(1,2)] assms(3) show ?thesis by (auto simp: outcome_ok_def fails_def)
qed

end

sublocale utf8_reader \<subseteq> transcoder guard_in fin_rest body 1 True waits valid utf8 dst
proof (unfold_locales, goal_cases)
  case (7 c more cap)
  then show ?case by (intro complete) (auto simp: guard_in_def)
next
  case (8 frm cap k w)
  then show ?case
    using outcome [of frm cap] unfolding outcome_ok_def fails_def guard_in_def by auto
next
  case (9 frm cap r)
  then show ?case by (intro returns) (auto simp: guard_in_def)
next
  case (10 frm cap)
  then show ?case
    using outcome [of frm cap] unfolding outcome_ok_def fails_def guard_in_def by auto
qed (use full dst_some length_utf8 in \<open>auto simp: guard_in_def fin_rest_def\<close>)

context utf8_reader
begin

lemma contract: "transcoder guard_in fin_rest body 1 True waits valid utf8 dst"
  by (rule transcoder_axioms)

end

text \<open>
  The inputs a reader of UTF-8 waits for: no room at all, or a form that is cut off at the end of the input, behind one
  of the leads it reads on for.
\<close>

fun form_cut_off :: "(nat \<Rightarrow> bool) \<Rightarrow> u8 list \<Rightarrow> bool" where
  "form_cut_off lead [] \<longleftrightarrow> False"
| "form_cut_off lead (c1 # more) \<longleftrightarrow> 0xC2 \<le> unat c1 \<and> unat c1 < 0xF5 \<and> lead (unat c1) \<and>
     Suc (length more) < (if unat c1 < 0xE0 then 2 else if unat c1 < 0xF0 then 3 else 4)"

definition utf8_waits :: "(nat \<Rightarrow> bool) \<Rightarrow> u8 list \<Rightarrow> nat \<Rightarrow> bool" where
  "utf8_waits lead rest cap \<longleftrightarrow> cap = 0 \<or> form_cut_off lead rest"

text \<open>A reader that knows the forms of every length reads on behind every lead byte.\<close>

definition any_lead :: "nat \<Rightarrow> bool" where "any_lead u \<longleftrightarrow> True"

section \<open>Reading UTF-16\<close>

locale utf16_reader =
  fixes guard :: "nat \<Rightarrow> nat \<Rightarrow> bool"
    and fin :: "nat \<Rightarrow> result"
    and body :: "'a list \<Rightarrow> nat \<Rightarrow> 'b step"
    and size :: nat
    and need :: nat
    and limited :: bool
    and waits :: "'a list \<Rightarrow> nat \<Rightarrow> bool"
    and valid :: "nat \<Rightarrow> bool"
    and unit :: "nat \<Rightarrow> 'a list"
    and dst :: "nat \<Rightarrow> 'b list"
  assumes guard_size: "guard l c \<longleftrightarrow> size \<le> l \<and> (limited \<longrightarrow> 0 < c)"
    and size_pos: "0 < size"
    and need_eq: "need = 2 * size"
    and fin_size: "\<not> guard l c \<Longrightarrow> fin l = (if 0 < l then partial else ok)"
    and unit_size: "length (unit u) = size"
    and units: "size \<le> length frm \<Longrightarrow> \<exists>u < 0x10000. take size frm = unit u"
    and valid_scalar: "valid c \<Longrightarrow> scalar c"
    and dst_some: "valid c \<Longrightarrow> dst c \<noteq> []"
    and ends: "frm \<noteq> [] \<Longrightarrow> \<not> guard (length frm) cap \<Longrightarrow> waits frm cap"
    and one: "u < 0x10000 \<Longrightarrow> scalar u \<Longrightarrow> limited \<longrightarrow> 0 < cap \<Longrightarrow>
      answers waits valid dst (unit u @ more) cap size u (body (unit u @ more) cap)"
    and lone_low: "low_unit u \<Longrightarrow> limited \<longrightarrow> 0 < cap \<Longrightarrow> fails waits (unit u @ more) cap (body (unit u @ more) cap)"
    and short: "high_unit u \<Longrightarrow> length more < size \<Longrightarrow> limited \<longrightarrow> 0 < cap \<Longrightarrow>
      fails waits (unit u @ more) cap (body (unit u @ more) cap)"
    and pair: "high_unit u \<Longrightarrow> v < 0x10000 \<Longrightarrow> limited \<longrightarrow> 0 < cap \<Longrightarrow>
      if low_unit v
      then answers waits valid dst (unit u @ unit v @ more) cap need (pair_value u v) (body (unit u @ unit v @ more) cap)
      else fails waits (unit u @ unit v @ more) cap (body (unit u @ unit v @ more) cap)"
begin

lemma complete:
  assumes "valid c" and "limited \<longrightarrow> 0 < cap"
  shows "body (utf16_form unit c @ more) cap =
    (if length (dst c) \<le> cap then Cont (length (utf16_form unit c)) (dst c) else Ret partial)"
proof (cases "c < 0x10000")
  case True
  then show ?thesis
    using one [OF True valid_scalar [OF assms(1)] assms(2), of more] assms(1)
    by (simp add: answers_def utf16_one unit_size)
next
  case False
  then obtain u v where uv: "high_unit u" "low_unit v" "c = pair_value u v"
    using utf16_pair_conv [OF valid_scalar [OF assms(1)]] by auto
  moreover have "v < 0x10000" using uv(2) by (simp add: low_unit_def)
  ultimately show ?thesis
    using pair [of u v cap more] assms by (simp add: answers_def utf16_pair unit_size need_eq)
qed

definition outcome_ok :: "'a list \<Rightarrow> nat \<Rightarrow> 'b step \<Rightarrow> bool" where
  "outcome_ok frm cap s \<longleftrightarrow>
     fails waits frm cap s \<or> s = Ret partial \<and> (\<exists>c more. valid c \<and> frm = utf16_form unit c @ more) \<or>
     (\<exists>c. valid c \<and> take (length (utf16_form unit c)) frm = utf16_form unit c \<and>
        length (utf16_form unit c) \<le> length frm \<and> length (dst c) \<le> cap \<and>
        s = Cont (length (utf16_form unit c)) (dst c))"

lemma outcome_ok_fails: "fails waits frm cap s \<Longrightarrow> outcome_ok frm cap s"
  by (simp add: outcome_ok_def)

lemma outcome_okI:
  assumes "answers waits valid dst frm cap n c s" and "utf16_form unit c = xs" and "n = length xs"
    and "frm = xs @ more"
  shows "outcome_ok frm cap s"
  using assms by (auto simp: answers_def outcome_ok_def split: if_splits)

lemma unitE:
  assumes "size \<le> length frm"
  obtains u more where "u < 0x10000" and "frm = unit u @ more"
  using units [OF assms] append_take_drop_id [of size frm] by metis

lemma outcome:
  assumes "size \<le> length frm" and "limited \<longrightarrow> 0 < cap"
  shows "outcome_ok frm cap (body frm cap)"
proof -
  obtain u more where u: "u < 0x10000" and frm: "frm = unit u @ more"
    using assms(1) by (rule unitE)
  consider "scalar u" | "low_unit u" | "high_unit u"
    using scalar_bmp [OF u] by blast
  then show ?thesis
  proof cases
    case 1
    show ?thesis
      using one [OF u 1 assms(2)] utf16_one [OF u] unit_size [symmetric] frm
      unfolding frm by (rule outcome_okI)
  next
    case 2
    then show ?thesis using lone_low [OF 2 assms(2)] frm by (simp add: outcome_ok_fails)
  next
    case 3
    show ?thesis
    proof (cases "length more < size")
      case True
      then show ?thesis
        using short [OF 3 True assms(2)] frm by (simp add: outcome_ok_fails)
    next
      case False
      then obtain v rest where v: "v < 0x10000" and more: "more = unit v @ rest"
        by (auto simp: not_less elim: unitE)
      have len: "need = length (unit u @ unit v)" and eq: "frm = (unit u @ unit v) @ rest"
        using unit_size frm more by (simp_all add: need_eq)
      show ?thesis
      proof (cases "low_unit v")
        case True
        then have "answers waits valid dst frm cap need (pair_value u v) (body frm cap)"
          using pair [OF 3 v assms(2), of rest] eq by simp
        then show ?thesis
          by (rule outcome_okI [OF _ utf16_pair [OF 3 True] len eq])
      qed (use pair [OF 3 v assms(2), of rest] eq in \<open>simp add: outcome_ok_fails\<close>)
    qed
  qed
qed

lemma utf16_form_size: "length (utf16_form unit c) = (if c < 0x10000 then size else 2 * size)"
  by (simp add: utf16_form_def utf16_def unit_size)

lemma returns:
  assumes "size \<le> length frm" and "limited \<longrightarrow> 0 < cap" and "body frm cap = Ret r"
  shows "r = (if waits frm cap \<or> (\<exists>c more. valid c \<and> frm = utf16_form unit c @ more) then partial else error)"
proof (cases "\<exists>c more. valid c \<and> frm = utf16_form unit c @ more")
  case True
  then obtain c more where "valid c" "frm = utf16_form unit c @ more" by blast
  with complete [OF this(1) assms(2), of more] assms(3) True show ?thesis by (auto split: if_splits)
next
  case False
  with outcome [OF assms(1,2)] assms(3) show ?thesis by (auto simp: outcome_ok_def fails_def)
qed

end

sublocale utf16_reader \<subseteq>
  transcoder guard fin body size limited waits valid "utf16_form unit" dst
proof (unfold_locales, goal_cases)
  case (1 l c)
  then show ?case by (rule guard_size)
next
  case (3 l c)
  then show ?case by (rule fin_size)
next
  case (4 frm cap)
  then show ?case by (rule ends)
next
  case (7 c more cap)
  then show ?case by (intro complete) (auto simp: guard_size)
next
  case (8 frm cap k w)
  then show ?case using outcome [of frm cap] unfolding outcome_ok_def fails_def guard_size by auto
next
  case (9 frm cap r)
  then show ?case by (intro returns) (auto simp: guard_size)
next
  case (10 frm cap)
  then show ?case using outcome [of frm cap] unfolding outcome_ok_def fails_def guard_size by auto
qed (use size_pos dst_some in \<open>auto simp: utf16_form_size\<close>)

context utf16_reader
begin

lemma contract: "transcoder guard fin body size limited waits valid (utf16_form unit) dst"
  by (rule transcoder_axioms)

end

text \<open>The first unit of a pair at the end of the input, with less than a unit behind it.\<close>

definition half_pair :: "(nat \<Rightarrow> 'a list) \<Rightarrow> 'a list \<Rightarrow> bool" where
  "half_pair unit rest \<longleftrightarrow> (\<exists>u more. high_unit u \<and> rest = unit u @ more \<and> length more < length (unit u))"

text \<open>The inputs a reader of UTF-16 bytes waits for: no room, an odd byte, or half a pair (not for UCS-2).\<close>

definition utf16_waits :: "bool \<Rightarrow> (nat \<Rightarrow> u8 list) \<Rightarrow> u8 list \<Rightarrow> nat \<Rightarrow> bool" where
  "utf16_waits pairs unit rest cap \<longleftrightarrow> cap = 0 \<or> length rest < 2 \<or> pairs \<and> half_pair unit rest"

end
