(* ===== verification/Utf8_Ucs4.thy ===== *)
theory Utf8_Ucs4
  imports Codecvt_Contracts
begin

text \<open>
  UTF-8 against UCS-4: \<open>ucs4_to_utf8\<close>, \<open>utf8_to_ucs4\<close> and \<open>utf8_to_ucs4_length\<close> of
  \<open>src/src/locale.cpp\<close> (lines 2232 to 2497).  Each loop body is one definition; the routine puts
  it into the loop behind the header handling.
\<close>

unbundle bit_operations_syntax

section \<open>The routines\<close>

definition ucs4_to_utf8_body :: "u64 \<Rightarrow> u32 list \<Rightarrow> nat \<Rightarrow> u8 step" where
  "ucs4_to_utf8_body Maxcode frm cap = rd frm 0 (\<lambda>wc.
     if wc AND 0xFFFFF800 = 0x00D800 \<or> ucast wc > Maxcode then Ret error
     else if wc < 0x000080 then
       (if cap < 1 then Ret partial else emit frm cap 1 [ucast wc])
     else if wc < 0x000800 then
       (if cap < 2 then Ret partial
        else emit frm cap 1 [ucast (0xC0 OR drop_bit 6 wc), ucast (0x80 OR (wc AND 0x03F))])
     else if wc < 0x010000 then
       (if cap < 3 then Ret partial
        else emit frm cap 1
          [ucast (0xE0 OR drop_bit 12 wc),
           ucast (0x80 OR drop_bit 6 (wc AND 0x0FC0)),
           ucast (0x80 OR (wc AND 0x003F))])
     else
       (if cap < 4 then Ret partial
        else emit frm cap 1
          [ucast (0xF0 OR drop_bit 18 wc),
           ucast (0x80 OR drop_bit 12 (wc AND 0x03F000)),
           ucast (0x80 OR drop_bit 6 (wc AND 0x000FC0)),
           ucast (0x80 OR (wc AND 0x00003F))]))"

definition ucs4_to_utf8 :: "u64 \<Rightarrow> codecvt_mode \<Rightarrow> u32 list \<Rightarrow> nat \<Rightarrow> u8 outcome option" where
  "ucs4_to_utf8 Maxcode mode frm cap = write_header mode utf8_bom cap (\<lambda>cap' out.
     cvt_loop guard_out fin_ok (ucs4_to_utf8_body Maxcode) frm cap' 0 out)"

definition utf8_to_ucs4_body :: "u64 \<Rightarrow> u8 list \<Rightarrow> nat \<Rightarrow> u32 step" where
  "utf8_to_ucs4_body Maxcode frm cap = rd frm 0 (\<lambda>c1.
     if c1 < 0x80 then
       (if ucast c1 > Maxcode then Ret error else emit frm cap 1 [ucast c1])
     else if c1 < 0xC2 then Ret error
     else if c1 < 0xE0 then
       (if length frm < 2 then Ret partial
        else rd frm 1 (\<lambda>c2.
          if c2 AND 0xC0 \<noteq> 0x80 then Ret error
          else let t = push_bit 6 (ucast (c1 AND 0x1F)) OR ucast (c2 AND 0x3F) in
            if ucast t > Maxcode then Ret error else emit frm cap 2 [t]))
     else if c1 < 0xF0 then
       (if length frm < 3 then Ret partial
        else rd frm 1 (\<lambda>c2. rd frm 2 (\<lambda>c3.
          if switch3 c1 c2 then Ret error
          else if c3 AND 0xC0 \<noteq> 0x80 then Ret error
          else let t = push_bit 12 (ucast (c1 AND 0x0F)) OR push_bit 6 (ucast (c2 AND 0x3F))
                       OR ucast (c3 AND 0x3F) in
            if ucast t > Maxcode then Ret error else emit frm cap 3 [t])))
     else if c1 < 0xF5 then
       (if length frm < 4 then Ret partial
        else rd frm 1 (\<lambda>c2. rd frm 2 (\<lambda>c3. rd frm 3 (\<lambda>c4.
          if switch4 c1 c2 then Ret error
          else if c3 AND 0xC0 \<noteq> 0x80 \<or> c4 AND 0xC0 \<noteq> 0x80 then Ret error
          else let t = push_bit 18 (ucast (c1 AND 0x07)) OR push_bit 12 (ucast (c2 AND 0x3F))
                       OR push_bit 6 (ucast (c3 AND 0x3F)) OR ucast (c4 AND 0x3F) in
            if ucast t > Maxcode then Ret error else emit frm cap 4 [t]))))
     else Ret error)"

definition utf8_to_ucs4 :: "u64 \<Rightarrow> codecvt_mode \<Rightarrow> u8 list \<Rightarrow> nat \<Rightarrow> u32 outcome option" where
  "utf8_to_ucs4 Maxcode mode frm cap = skip_header mode utf8_bom frm (\<lambda>frm' n.
     cvt_loop guard_in fin_rest (utf8_to_ucs4_body Maxcode) frm' cap n [])"

definition utf8_to_ucs4_length_body :: "u64 \<Rightarrow> u8 list \<Rightarrow> nat \<Rightarrow> len_step" where
  "utf8_to_ucs4_length_body Maxcode frm mx = rd_len frm 0 (\<lambda>c1.
     if c1 < 0x80 then (if ucast c1 > Maxcode then Stop else advance frm 1 1)
     else if c1 < 0xC2 then Stop
     else if c1 < 0xE0 then
       (if length frm < 2 then Stop
        else rd_len frm 1 (\<lambda>c2.
          if c2 AND 0xC0 \<noteq> 0x80 then Stop
          else if ucast (push_bit 6 (ucast (c1 AND 0x1F)) OR ucast (c2 AND 0x3F) :: u32) > Maxcode
          then Stop else advance frm 2 1))
     else if c1 < 0xF0 then
       (if length frm < 3 then Stop
        else rd_len frm 1 (\<lambda>c2. rd_len frm 2 (\<lambda>c3.
          if switch3 c1 c2 then Stop
          else if c3 AND 0xC0 \<noteq> 0x80 then Stop
          else if ucast (push_bit 12 (ucast (c1 AND 0x0F)) OR push_bit 6 (ucast (c2 AND 0x3F))
                         OR ucast (c3 AND 0x3F) :: u32) > Maxcode
          then Stop else advance frm 3 1)))
     else if c1 < 0xF5 then
       (if length frm < 4 then Stop
        else rd_len frm 1 (\<lambda>c2. rd_len frm 2 (\<lambda>c3. rd_len frm 3 (\<lambda>c4.
          if switch4 c1 c2 then Stop
          else if c3 AND 0xC0 \<noteq> 0x80 \<or> c4 AND 0xC0 \<noteq> 0x80 then Stop
          else if ucast (push_bit 18 (ucast (c1 AND 0x07)) OR push_bit 12 (ucast (c2 AND 0x3F))
                         OR push_bit 6 (ucast (c3 AND 0x3F)) OR ucast (c4 AND 0x3F) :: u32) > Maxcode
          then Stop else advance frm 4 1))))
     else Stop)"

definition utf8_to_ucs4_length :: "u64 \<Rightarrow> codecvt_mode \<Rightarrow> u8 list \<Rightarrow> nat \<Rightarrow> len_outcome option" where
  "utf8_to_ucs4_length Maxcode mode frm mx = skip_header mode utf8_bom frm (\<lambda>frm' n.
     len_loop guard_in (utf8_to_ucs4_length_body Maxcode) frm' mx n)"

section \<open>The bodies keep their contracts\<close>

lemma ucs4_to_utf8_encoder:
  assumes "M \<le> 0x10FFFF"
  shows "unit_encoder (ucs4_to_utf8_body M) (upto_max M) utf8"
proof
  fix w :: u32 and more cap
  show "ucs4_to_utf8_body M (w # more) cap =
    (if \<not> upto_max M (unat w) then Ret error
     else if length (utf8 (unat w)) \<le> cap then Cont 1 (utf8 (unat w)) else Ret partial)"
    using assms
    by (auto simp: ucs4_to_utf8_body_def upto_max_def scalar_def byte_class word_less_nat word_le_nat
        unat_widen length_utf8 utf8_bytes emit_def)
next
  fix c assume "upto_max M c"
  then show "c < 2 ^ LENGTH(32)" and "utf8 c \<noteq> []"
    using length_utf8 [of c] by (auto simp: upto_max_def scalar_def split: if_splits)
qed

interpretation utf8_ucs4: utf8_reader "utf8_to_ucs4_body M" "utf8_waits any_lead" "upto_max M" ucs4 for M
proof
  fix c1 :: u8 and cap :: nat and more :: "u8 list"
  assume c1: "unat c1 < 0x80" and cap: "0 < cap"
  show "answers (utf8_waits any_lead) (upto_max M) ucs4 (c1 # more) cap 1 (unat c1)
      (utf8_to_ucs4_body M (c1 # more) cap)"
    using c1 cap ucs4_of_unat [of "ucast c1"]
    by (simp add: answers_def fails_def utf8_waits_def utf8_to_ucs4_body_def upto_max_def scalar_def word_less_nat unat_widen
        emit_def)
next
  fix c1 :: u8 and cap :: nat and more :: "u8 list"
  assume "0x80 \<le> unat c1 \<and> unat c1 < 0xC2 \<or> 0xF5 \<le> unat c1" "0 < cap"
  then show "fails (utf8_waits any_lead) (c1 # more) cap (utf8_to_ucs4_body M (c1 # more) cap)"
    by (auto simp: fails_def utf8_waits_def any_lead_def utf8_to_ucs4_body_def word_less_nat)
next
  fix c1 :: u8 and cap :: nat and more :: "u8 list"
  assume "0xC2 \<le> unat c1" "unat c1 < 0xF5" "0 < cap"
    "Suc (length more) < (if unat c1 < 0xE0 then 2 else if unat c1 < 0xF0 then 3 else 4)"
  then show "fails (utf8_waits any_lead) (c1 # more) cap (utf8_to_ucs4_body M (c1 # more) cap)"
    by (auto simp: fails_def utf8_waits_def any_lead_def utf8_to_ucs4_body_def word_less_nat)
next
  fix c1 c2 :: u8 and cap :: nat and more :: "u8 list"
  assume c1: "0xC2 \<le> unat c1" "unat c1 < 0xE0" and cap: "0 < cap"
  show "if is_utf8_2 c1 c2
    then answers (utf8_waits any_lead) (upto_max M) ucs4 (c1 # c2 # more) cap 2 (val2 c1 c2)
      (utf8_to_ucs4_body M (c1 # c2 # more) cap)
    else fails (utf8_waits any_lead) (c1 # c2 # more) cap (utf8_to_ucs4_body M (c1 # c2 # more) cap)"
    using c1 cap utf8_two [of c1 c2] ucs4_of_unat join2 [of c1 c2]
    by (auto simp: answers_def fails_def utf8_waits_def utf8_to_ucs4_body_def is_utf8_2_def upto_max_def scalar_def Let_def
        word_less_nat unat_widen emit_def)
next
  fix c1 c2 c3 :: u8 and cap :: nat and more :: "u8 list"
  assume c1: "0xE0 \<le> unat c1" "unat c1 < 0xF0" and cap: "0 < cap"
  show "if is_utf8_3 c1 c2 c3
    then answers (utf8_waits any_lead) (upto_max M) ucs4 (c1 # c2 # c3 # more) cap 3 (val3 c1 c2 c3)
      (utf8_to_ucs4_body M (c1 # c2 # c3 # more) cap)
    else fails (utf8_waits any_lead) (c1 # c2 # c3 # more) cap (utf8_to_ucs4_body M (c1 # c2 # c3 # more) cap)"
    using c1 cap utf8_three [of c1 c2 c3] ucs4_of_unat join3 [of c1 c2 c3]
    by (auto simp: answers_def fails_def utf8_waits_def utf8_to_ucs4_body_def is_utf8_3_def upto_max_def Let_def
        word_less_nat unat_widen emit_def)
next
  fix c1 c2 c3 c4 :: u8 and cap :: nat and more :: "u8 list"
  assume c1: "0xF0 \<le> unat c1" "unat c1 < 0xF5" and cap: "0 < cap"
  show "if is_utf8_4 c1 c2 c3 c4
    then answers (utf8_waits any_lead) (upto_max M) ucs4 (c1 # c2 # c3 # c4 # more) cap 4 (val4 c1 c2 c3 c4)
      (utf8_to_ucs4_body M (c1 # c2 # c3 # c4 # more) cap)
    else fails (utf8_waits any_lead) (c1 # c2 # c3 # c4 # more) cap (utf8_to_ucs4_body M (c1 # c2 # c3 # c4 # more) cap)"
    using c1 cap utf8_four [of c1 c2 c3 c4] ucs4_of_unat join4 [of c1 c2 c3 c4]
    by (auto simp: answers_def fails_def utf8_waits_def utf8_to_ucs4_body_def is_utf8_4_def upto_max_def Let_def
        word_less_nat unat_widen emit_def)
qed (simp_all add: upto_max_def utf8_waits_def)

interpretation ucs4_utf8: unit_encoder "ucs4_to_utf8_body 0x10FFFF" "upto_max 0x10FFFF" utf8
  by (rule ucs4_to_utf8_encoder) simp

lemma ucs4_utf8_transcoder:
  "M \<le> 0x10FFFF \<Longrightarrow>
    transcoder guard_out fin_ok (ucs4_to_utf8_body M) 1 False never (upto_max M) ucs4 utf8"
  using unit_encoder.contract [OF ucs4_to_utf8_encoder] by (simp add: ucs4_fun)

lemma ucs4_utf8_pair:
  "M \<le> 0x10FFFF \<Longrightarrow> codec_pair guard_out fin_ok (ucs4_to_utf8_body M) 1 False never
     guard_in fin_rest (utf8_to_ucs4_body M) 1 True (utf8_waits any_lead) (upto_max M) ucs4 utf8"
  by (intro codec_pair.intro ucs4_utf8_transcoder utf8_ucs4.contract)

interpretation ucs4_pair: codec_pair guard_out fin_ok "ucs4_to_utf8_body 0x10FFFF" 1 False never
    guard_in fin_rest "utf8_to_ucs4_body 0x10FFFF" 1 True "utf8_waits any_lead" "upto_max 0x10FFFF" ucs4 utf8
  by (rule ucs4_utf8_pair) simp

lemma utf8_to_ucs4_length_body_eq:
  assumes "guard_in (length frm) mx"
  shows "utf8_to_ucs4_length_body M frm mx = step_len (utf8_to_ucs4_body M frm mx)"
  using assms
  by (auto simp: guard_in_def utf8_to_ucs4_length_body_def utf8_to_ucs4_body_def rd_def rd_len_def
      emit_def advance_def Let_def)

lemma utf8_to_ucs4_length_counts:
  "utf8_to_ucs4_length M mode frm mx = map_option outcome_len (utf8_to_ucs4 M mode frm mx)"
  unfolding utf8_to_ucs4_length_def utf8_to_ucs4_def skip_header_eq
  by (rule utf8_ucs4.len_loop_eq) (rule utf8_to_ucs4_length_body_eq)

section \<open>Properties\<close>

lemma ucs4_to_utf8_correct:
  assumes "M \<le> 0x10FFFF"
  shows "\<exists>r n w. ucs4_to_utf8 M mode frm cap = Some (Done r n w) \<and>
    encodes never (upto_max M) ucs4 utf8 (header mode utf8_bom) frm cap r n w"
  unfolding ucs4_to_utf8_def
  by (rule transcoder.write_encodes [OF ucs4_utf8_transcoder [OF assms]])

lemma utf8_to_ucs4_correct:
  "\<exists>r n w. utf8_to_ucs4 M mode frm cap = Some (Done r n w) \<and>
    decodes (utf8_waits any_lead) (upto_max M) utf8 ucs4 (skipped mode utf8_bom frm) frm cap r n w"
  unfolding utf8_to_ucs4_def by (rule utf8_ucs4.skip_decodes)

text \<open>
  Round trip. Text that \<open>ucs4_to_utf8\<close> encodes without error is restored by \<open>utf8_to_ucs4\<close>
  with the same \<open>Maxcode\<close>, header included, whenever one mode generates the header exactly if the
  other consumes it.
\<close>

lemma utf8_ucs4_round_trip:
  assumes "M \<le> 0x10FFFF" and "ucs4_to_utf8 M gm frm cap = Some (Done ok n bs)"
    and "gm AND generate_header \<noteq> 0 \<longleftrightarrow> cm AND consume_header \<noteq> 0" and "length frm \<le> cap'"
  shows "utf8_to_ucs4 M cm bs cap' = Some (Done ok (length bs) frm)"
  using codec_pair.out_in(2) [OF ucs4_utf8_pair [OF assms(1)], of gm utf8_bom cap frm n bs cm cap']
    assms(2-4) by (simp add: ucs4_to_utf8_def utf8_to_ucs4_def)

end
