(* ===== verification/Utf8_Ucs2.thy ===== *)
theory Utf8_Ucs2
  imports Codecvt_Contracts
begin

text \<open>
  UTF-8 against UCS-2: \<open>ucs2_to_utf8\<close>, \<open>utf8_to_ucs2\<close> and \<open>utf8_to_ucs2_length\<close> of
  \<open>src/src/locale.cpp\<close> (lines 2499 to 2693).  A \<open>uint16_t\<close> is promoted to \<open>int\<close> before it is
  shifted; the model widens it to 32 bits at the same places.
\<close>

unbundle bit_operations_syntax

section \<open>The routines\<close>

definition ucs2_to_utf8_body :: "u64 \<Rightarrow> u16 list \<Rightarrow> nat \<Rightarrow> u8 step" where
  "ucs2_to_utf8_body Maxcode frm cap = rd frm 0 (\<lambda>wc.
     if wc AND 0xF800 = 0xD800 \<or> ucast wc > Maxcode then Ret error
     else let i = ucast wc :: u32 in
       if wc < 0x0080 then
         (if cap < 1 then Ret partial else emit frm cap 1 [ucast i])
       else if wc < 0x0800 then
         (if cap < 2 then Ret partial
          else emit frm cap 1 [ucast (0xC0 OR drop_bit 6 i), ucast (0x80 OR (i AND 0x03F))])
       else
         (if cap < 3 then Ret partial
          else emit frm cap 1
            [ucast (0xE0 OR drop_bit 12 i),
             ucast (0x80 OR drop_bit 6 (i AND 0x0FC0)),
             ucast (0x80 OR (i AND 0x003F))]))"

definition ucs2_to_utf8 :: "u64 \<Rightarrow> codecvt_mode \<Rightarrow> u16 list \<Rightarrow> nat \<Rightarrow> u8 outcome option" where
  "ucs2_to_utf8 Maxcode mode frm cap = write_header mode utf8_bom cap (\<lambda>cap' out.
     cvt_loop guard_out fin_ok (ucs2_to_utf8_body Maxcode) frm cap' 0 out)"

definition utf8_to_ucs2_body :: "u64 \<Rightarrow> u8 list \<Rightarrow> nat \<Rightarrow> u16 step" where
  "utf8_to_ucs2_body Maxcode frm cap = rd frm 0 (\<lambda>c1.
     if c1 < 0x80 then
       (if ucast c1 > Maxcode then Ret error else emit frm cap 1 [ucast c1])
     else if c1 < 0xC2 then Ret error
     else if c1 < 0xE0 then
       (if length frm < 2 then Ret partial
        else rd frm 1 (\<lambda>c2.
          if c2 AND 0xC0 \<noteq> 0x80 then Ret error
          else let t = ucast (push_bit 6 (ucast (c1 AND 0x1F)) OR ucast (c2 AND 0x3F) :: u32) in
            if ucast t > Maxcode then Ret error else emit frm cap 2 [t]))
     else if c1 < 0xF0 then
       (if length frm < 3 then Ret partial
        else rd frm 1 (\<lambda>c2. rd frm 2 (\<lambda>c3.
          if switch3 c1 c2 then Ret error
          else if c3 AND 0xC0 \<noteq> 0x80 then Ret error
          else let t = ucast (push_bit 12 (ucast (c1 AND 0x0F)) OR push_bit 6 (ucast (c2 AND 0x3F))
                       OR ucast (c3 AND 0x3F) :: u32) in
            if ucast t > Maxcode then Ret error else emit frm cap 3 [t])))
     else Ret error)"

definition utf8_to_ucs2 :: "u64 \<Rightarrow> codecvt_mode \<Rightarrow> u8 list \<Rightarrow> nat \<Rightarrow> u16 outcome option" where
  "utf8_to_ucs2 Maxcode mode frm cap = skip_header mode utf8_bom frm (\<lambda>frm' n.
     cvt_loop guard_in fin_rest (utf8_to_ucs2_body Maxcode) frm' cap n [])"

definition utf8_to_ucs2_length_body :: "u64 \<Rightarrow> u8 list \<Rightarrow> nat \<Rightarrow> len_step" where
  "utf8_to_ucs2_length_body Maxcode frm mx = rd_len frm 0 (\<lambda>c1.
     if c1 < 0x80 then (if ucast c1 > Maxcode then Stop else advance frm 1 1)
     else if c1 < 0xC2 then Stop
     else if c1 < 0xE0 then
       (if length frm < 2 then Stop
        else rd_len frm 1 (\<lambda>c2.
          if c2 AND 0xC0 \<noteq> 0x80 then Stop
          else if ucast (push_bit 6 (ucast (c1 AND 0x1F)) OR ucast (c2 AND 0x3F) :: u32) > Maxcode
          then Stop else advance frm 2 1))
     else if c1 < 0xF0 then
       (if length frm < 3 then Stop
        else rd_len frm 1 (\<lambda>c2. rd_len frm 2 (\<lambda>c3.
          if switch3 c1 c2 then Stop
          else if c3 AND 0xC0 \<noteq> 0x80 then Stop
          else if ucast (push_bit 12 (ucast (c1 AND 0x0F)) OR push_bit 6 (ucast (c2 AND 0x3F))
                         OR ucast (c3 AND 0x3F) :: u32) > Maxcode
          then Stop else advance frm 3 1)))
     else Stop)"

definition utf8_to_ucs2_length :: "u64 \<Rightarrow> codecvt_mode \<Rightarrow> u8 list \<Rightarrow> nat \<Rightarrow> len_outcome option" where
  "utf8_to_ucs2_length Maxcode mode frm mx = skip_header mode utf8_bom frm (\<lambda>frm' n.
     len_loop guard_in (utf8_to_ucs2_length_body Maxcode) frm' mx n)"

section \<open>The bodies keep their contracts\<close>

text \<open>The lead bytes behind which \<open>utf8_to_ucs2\<close> reads on: those of two and three bytes.\<close>

definition short_lead :: "nat \<Rightarrow> bool" where "short_lead u \<longleftrightarrow> u < 0xF0"

interpretation ucs2_utf8: unit_encoder "ucs2_to_utf8_body M" "bmp_upto M" utf8 for M
proof
  fix w :: u16 and more and cap :: nat
  have "unat w < 1114112" by (rule less_trans [of _ 65536]) simp_all
  then show "ucs2_to_utf8_body M (w # more) cap =
    (if \<not> bmp_upto M (unat w) then Ret error
     else if length (utf8 (unat w)) \<le> cap then Cont 1 (utf8 (unat w)) else Ret partial)"
    using utf8_bytes1 [of "ucast w"] utf8_bytes2 [of "ucast w"] utf8_bytes3 [of "ucast w"]
    by (auto simp: ucs2_to_utf8_body_def bmp_upto_def upto_max_def scalar_def byte_class Let_def
        word_less_nat word_le_nat unat_widen length_utf8 emit_def)
next
  fix c assume "bmp_upto M c"
  then show "c < 2 ^ LENGTH(16)" and "utf8 c \<noteq> []"
    using length_utf8 [of c] by (auto simp: bmp_upto_def split: if_splits)
qed

interpretation utf8_ucs2: utf8_reader "utf8_to_ucs2_body M" "utf8_waits short_lead" "bmp_upto M" ucs2 for M
proof
  fix c1 :: u8 and cap :: nat and more :: "u8 list"
  assume c1: "unat c1 < 0x80" and cap: "0 < cap"
  show "answers (utf8_waits short_lead) (bmp_upto M) ucs2 (c1 # more) cap 1 (unat c1)
      (utf8_to_ucs2_body M (c1 # more) cap)"
    using c1 cap ucs2_of_unat [of "ucast c1"]
    by (simp add: answers_def fails_def utf8_waits_def utf8_to_ucs2_body_def bmp_upto_def upto_max_def scalar_def
        word_less_nat unat_widen emit_def)
next
  fix c1 :: u8 and cap :: nat and more :: "u8 list"
  assume "0x80 \<le> unat c1 \<and> unat c1 < 0xC2 \<or> 0xF5 \<le> unat c1" "0 < cap"
  then show "fails (utf8_waits short_lead) (c1 # more) cap (utf8_to_ucs2_body M (c1 # more) cap)"
    by (auto simp: fails_def utf8_waits_def short_lead_def utf8_to_ucs2_body_def word_less_nat)
next
  fix c1 :: u8 and cap :: nat and more :: "u8 list"
  assume "0xC2 \<le> unat c1" "unat c1 < 0xF5" "0 < cap"
    "Suc (length more) < (if unat c1 < 0xE0 then 2 else if unat c1 < 0xF0 then 3 else 4)"
  then show "fails (utf8_waits short_lead) (c1 # more) cap (utf8_to_ucs2_body M (c1 # more) cap)"
    by (auto simp: fails_def utf8_waits_def short_lead_def utf8_to_ucs2_body_def word_less_nat)
next
  fix c1 c2 :: u8 and cap :: nat and more :: "u8 list"
  assume c1: "0xC2 \<le> unat c1" "unat c1 < 0xE0" and cap: "0 < cap"
  show "if is_utf8_2 c1 c2
    then answers (utf8_waits short_lead) (bmp_upto M) ucs2 (c1 # c2 # more) cap 2 (val2 c1 c2)
      (utf8_to_ucs2_body M (c1 # c2 # more) cap)
    else fails (utf8_waits short_lead) (c1 # c2 # more) cap (utf8_to_ucs2_body M (c1 # c2 # more) cap)"
    using c1 cap utf8_two [of c1 c2] ucs2_of_unat join2_16 [of c1 c2]
    by (auto simp: answers_def fails_def utf8_waits_def short_lead_def utf8_to_ucs2_body_def is_utf8_2_def bmp_upto_def upto_max_def
        scalar_def Let_def word_less_nat unat_widen emit_def)
next
  fix c1 c2 c3 :: u8 and cap :: nat and more :: "u8 list"
  assume c1: "0xE0 \<le> unat c1" "unat c1 < 0xF0" and cap: "0 < cap"
  show "if is_utf8_3 c1 c2 c3
    then answers (utf8_waits short_lead) (bmp_upto M) ucs2 (c1 # c2 # c3 # more) cap 3 (val3 c1 c2 c3)
      (utf8_to_ucs2_body M (c1 # c2 # c3 # more) cap)
    else fails (utf8_waits short_lead) (c1 # c2 # c3 # more) cap (utf8_to_ucs2_body M (c1 # c2 # c3 # more) cap)"
    using c1 cap utf8_three [of c1 c2 c3] ucs2_of_unat join3_16 [of c1 c2 c3]
    by (auto simp: answers_def fails_def utf8_waits_def short_lead_def utf8_to_ucs2_body_def is_utf8_3_def bmp_upto_def upto_max_def Let_def
        word_less_nat unat_widen emit_def)
next
  fix c1 c2 c3 c4 :: u8 and cap :: nat and more :: "u8 list"
  assume c1: "0xF0 \<le> unat c1" "unat c1 < 0xF5" and cap: "0 < cap"
  show "if is_utf8_4 c1 c2 c3 c4
    then answers (utf8_waits short_lead) (bmp_upto M) ucs2 (c1 # c2 # c3 # c4 # more) cap 4 (val4 c1 c2 c3 c4)
      (utf8_to_ucs2_body M (c1 # c2 # c3 # c4 # more) cap)
    else fails (utf8_waits short_lead) (c1 # c2 # c3 # c4 # more) cap (utf8_to_ucs2_body M (c1 # c2 # c3 # c4 # more) cap)"
    using c1 cap utf8_four [of c1 c2 c3 c4]
    by (auto simp: answers_def fails_def utf8_waits_def short_lead_def utf8_to_ucs2_body_def bmp_upto_def word_less_nat)
qed (simp_all add: bmp_upto_def upto_max_def utf8_waits_def)

interpretation ucs2_pair: codec_pair guard_out fin_ok "ucs2_to_utf8_body M" 1 False never
    guard_in fin_rest "utf8_to_ucs2_body M" 1 True "utf8_waits short_lead" "bmp_upto M" ucs2 utf8 for M
  using ucs2_utf8.contract [of M] by (intro codec_pair.intro utf8_ucs2.contract) (simp add: ucs2_fun)

lemma utf8_to_ucs2_length_body_eq:
  assumes "guard_in (length frm) mx"
  shows "utf8_to_ucs2_length_body M frm mx = step_len (utf8_to_ucs2_body M frm mx)"
  using assms
  by (auto simp: guard_in_def utf8_to_ucs2_length_body_def utf8_to_ucs2_body_def rd_def rd_len_def
      emit_def advance_def Let_def word_less_nat unat_widen join2 join3 join2_16 join3_16)

lemma utf8_to_ucs2_length_counts:
  "utf8_to_ucs2_length M mode frm mx = map_option outcome_len (utf8_to_ucs2 M mode frm mx)"
  unfolding utf8_to_ucs2_length_def utf8_to_ucs2_def skip_header_eq
  by (rule utf8_ucs2.len_loop_eq) (rule utf8_to_ucs2_length_body_eq)

section \<open>Properties\<close>

text \<open>
  Encoding UCS-2 as UTF-8 always returns, stays inside both buffers, and writes the header the
  mode asks for and then exactly the UTF-8 forms of the elements it read, stopping with \<open>error\<close>
  only at a surrogate or an element above \<open>Maxcode\<close>.
\<close>

lemma ucs2_to_utf8_correct:
  "\<exists>r n w. ucs2_to_utf8 M mode frm cap = Some (Done r n w) \<and>
    encodes never (bmp_upto M) ucs2 utf8 (header mode utf8_bom) frm cap r n w"
  unfolding ucs2_to_utf8_def by (rule ucs2_pair.out.write_encodes)

text \<open>
  Decoding UTF-8 to UCS-2 always returns, stays inside both buffers and stores exactly the code
  points whose UTF-8 forms it read; code points outside the basic plane are an \<open>error\<close>, never
  truncated.
\<close>

lemma utf8_to_ucs2_correct:
  "\<exists>r n w. utf8_to_ucs2 M mode frm cap = Some (Done r n w) \<and>
    decodes (utf8_waits short_lead) (bmp_upto M) utf8 ucs2 (skipped mode utf8_bom frm) frm cap r n w"
  unfolding utf8_to_ucs2_def by (rule utf8_ucs2.skip_decodes)

text \<open>
  The UCS-2 routines for UTF-8 always return and stay inside both buffers: \<open>ucs2_to_utf8\<close> writes the header
  the mode asks for and exactly the UTF-8 forms of the elements it read, with \<open>error\<close> only at a
  surrogate or above \<open>Maxcode\<close>; \<open>utf8_to_ucs2\<close> stores exactly the code points whose forms it read, with
  \<open>error\<close> for those outside the basic plane, never truncated.
\<close>

lemma ucs2_utf8_correct:
  "(\<exists>r n w. ucs2_to_utf8 M mode frm cap = Some (Done r n w) \<and>
      encodes never (bmp_upto M) ucs2 utf8 (header mode utf8_bom) frm cap r n w) \<and>
   (\<exists>r n w. utf8_to_ucs2 M mode bs cap = Some (Done r n w) \<and>
      decodes (utf8_waits short_lead) (bmp_upto M) utf8 ucs2 (skipped mode utf8_bom bs) bs cap r n w)"
  using ucs2_to_utf8_correct utf8_to_ucs2_correct by blast

text \<open>
  UTF-8 that \<open>utf8_to_ucs2\<close> accepts to its end is restored byte for byte by
  \<open>ucs2_to_utf8\<close>, behind the header that the second mode asks for and without the one that the
  first mode skipped.
\<close>

lemma utf8_ucs2_restore:
  assumes "utf8_to_ucs2 M cm bs cap = Some (Done ok n ws)"
    and "length bs - skipped cm utf8_bom bs + length (header gm utf8_bom) \<le> cap'"
  shows "ucs2_to_utf8 M gm ws cap' =
    Some (Done ok (length ws) (header gm utf8_bom @ drop (skipped cm utf8_bom bs) bs))"
  using ucs2_pair.in_out(2) [of cm utf8_bom bs M cap n ws gm cap'] assms
  by (simp add: ucs2_to_utf8_def utf8_to_ucs2_def)

end
