(* ===== verification/Utf8_Utf16.thy ===== *)
theory Utf8_Utf16
  imports Codecvt_Contracts Utf8_Ucs4
begin

text \<open>
  UTF-8 against UTF-16: both overloads of \<open>utf16_to_utf8\<close> and \<open>utf8_to_utf16\<close>, and
  \<open>utf8_to_utf16_length\<close>, of \<open>src/src/locale.cpp\<close> (lines 1735 to 2230).  The overloads for
  \<open>uint32_t\<close> keep one UTF-16 unit in each element; they are proved to be the \<open>uint16_t\<close> overloads
  behind a cast.  Arithmetic that the sources do in \<open>unsigned long\<close> (the suffix \<open>UL\<close>) is in 64
  bits here, promotions to \<open>int\<close> are in 32.
\<close>

unbundle bit_operations_syntax

section \<open>From UTF-16\<close>

definition pair_code :: "u16 \<Rightarrow> u16 \<Rightarrow> u64" where
  "pair_code wc1 wc2 =
     push_bit 16 (drop_bit 6 (ucast wc1 AND 0x03C0) + 1) + push_bit 10 (ucast wc1 AND 0x003F)
     + (ucast wc2 AND 0x03FF)"

definition utf16_to_utf8_body :: "u64 \<Rightarrow> u16 list \<Rightarrow> nat \<Rightarrow> u8 step" where
  "utf16_to_utf8_body Maxcode frm cap = rd frm 0 (\<lambda>wc1.
     if ucast wc1 > Maxcode then Ret error
     else let i1 = ucast wc1 :: u32 in
       if wc1 < 0x0080 then
         (if cap < 1 then Ret partial else emit frm cap 1 [ucast i1])
       else if wc1 < 0x0800 then
         (if cap < 2 then Ret partial
          else emit frm cap 1 [ucast (0xC0 OR drop_bit 6 i1), ucast (0x80 OR (i1 AND 0x03F))])
       else if wc1 < 0xD800 then
         (if cap < 3 then Ret partial
          else emit frm cap 1
            [ucast (0xE0 OR drop_bit 12 i1),
             ucast (0x80 OR drop_bit 6 (i1 AND 0x0FC0)),
             ucast (0x80 OR (i1 AND 0x003F))])
       else if wc1 < 0xDC00 then
         (if length frm < 2 then Ret partial
          else rd frm 1 (\<lambda>wc2.
            if wc2 AND 0xFC00 \<noteq> 0xDC00 then Ret error
            else if cap < 4 then Ret partial
            else if pair_code wc1 wc2 > Maxcode then Ret error
            else let i2 = ucast wc2 :: u32; z = surrogate_z i1; zi = ucast z :: u32 in
              emit frm cap 2
                [ucast (0xF0 OR drop_bit 2 zi),
                 ucast (0x80 OR push_bit 4 (zi AND 0x03) OR drop_bit 2 (i1 AND 0x003C)),
                 ucast (0x80 OR push_bit 4 (i1 AND 0x0003) OR drop_bit 6 (i2 AND 0x03C0)),
                 ucast (0x80 OR (i2 AND 0x003F))]))
       else if wc1 < 0xE000 then Ret error
       else
         (if cap < 3 then Ret partial
          else emit frm cap 1
            [ucast (0xE0 OR drop_bit 12 i1),
             ucast (0x80 OR drop_bit 6 (i1 AND 0x0FC0)),
             ucast (0x80 OR (i1 AND 0x003F))]))"

definition utf16_to_utf8 :: "u64 \<Rightarrow> codecvt_mode \<Rightarrow> u16 list \<Rightarrow> nat \<Rightarrow> u8 outcome option" where
  "utf16_to_utf8 Maxcode mode frm cap = write_header mode utf8_bom cap (\<lambda>cap' out.
     cvt_loop guard_out fin_ok (utf16_to_utf8_body Maxcode) frm cap' 0 out)"

text \<open>The overload for \<open>uint32_t\<close>: both elements are cast to \<open>uint16_t\<close> where they are read.\<close>

definition utf16_to_utf8_u32_body :: "u64 \<Rightarrow> u32 list \<Rightarrow> nat \<Rightarrow> u8 step" where
  "utf16_to_utf8_u32_body Maxcode frm cap = rd frm 0 (\<lambda>x1. let wc1 = ucast x1 :: u16 in
     if ucast wc1 > Maxcode then Ret error
     else let i1 = ucast wc1 :: u32 in
       if wc1 < 0x0080 then
         (if cap < 1 then Ret partial else emit frm cap 1 [ucast i1])
       else if wc1 < 0x0800 then
         (if cap < 2 then Ret partial
          else emit frm cap 1 [ucast (0xC0 OR drop_bit 6 i1), ucast (0x80 OR (i1 AND 0x03F))])
       else if wc1 < 0xD800 then
         (if cap < 3 then Ret partial
          else emit frm cap 1
            [ucast (0xE0 OR drop_bit 12 i1),
             ucast (0x80 OR drop_bit 6 (i1 AND 0x0FC0)),
             ucast (0x80 OR (i1 AND 0x003F))])
       else if wc1 < 0xDC00 then
         (if length frm < 2 then Ret partial
          else rd frm 1 (\<lambda>x2. let wc2 = ucast x2 :: u16 in
            if wc2 AND 0xFC00 \<noteq> 0xDC00 then Ret error
            else if cap < 4 then Ret partial
            else if pair_code wc1 wc2 > Maxcode then Ret error
            else let i2 = ucast wc2 :: u32; z = surrogate_z i1; zi = ucast z :: u32 in
              emit frm cap 2
                [ucast (0xF0 OR drop_bit 2 zi),
                 ucast (0x80 OR push_bit 4 (zi AND 0x03) OR drop_bit 2 (i1 AND 0x003C)),
                 ucast (0x80 OR push_bit 4 (i1 AND 0x0003) OR drop_bit 6 (i2 AND 0x03C0)),
                 ucast (0x80 OR (i2 AND 0x003F))]))
       else if wc1 < 0xE000 then Ret error
       else
         (if cap < 3 then Ret partial
          else emit frm cap 1
            [ucast (0xE0 OR drop_bit 12 i1),
             ucast (0x80 OR drop_bit 6 (i1 AND 0x0FC0)),
             ucast (0x80 OR (i1 AND 0x003F))]))"

definition utf16_to_utf8_u32 :: "u64 \<Rightarrow> codecvt_mode \<Rightarrow> u32 list \<Rightarrow> nat \<Rightarrow> u8 outcome option" where
  "utf16_to_utf8_u32 Maxcode mode frm cap = write_header mode utf8_bom cap (\<lambda>cap' out.
     cvt_loop guard_out fin_ok (utf16_to_utf8_u32_body Maxcode) frm cap' 0 out)"

section \<open>To UTF-16\<close>

definition four_code :: "u8 \<Rightarrow> u8 \<Rightarrow> u8 \<Rightarrow> u8 \<Rightarrow> u64" where
  "four_code c1 c2 c3 c4 =
     push_bit 18 (ucast c1 AND 7) + push_bit 12 (ucast c2 AND 0x3F) + push_bit 6 (ucast c3 AND 0x3F)
     + (ucast c4 AND 0x3F)"

definition utf8_to_utf16_body :: "u64 \<Rightarrow> u8 list \<Rightarrow> nat \<Rightarrow> u16 step" where
  "utf8_to_utf16_body Maxcode frm cap = rd frm 0 (\<lambda>c1.
     if ucast c1 > Maxcode then Ret error
     else if c1 < 0x80 then emit frm cap 1 [ucast c1]
     else if c1 < 0xC2 then Ret error
     else if c1 < 0xE0 then
       (if length frm < 2 then Ret partial
        else rd frm 1 (\<lambda>c2.
          if c2 AND 0xC0 \<noteq> 0x80 then Ret error
          else let t = ucast (push_bit 6 (ucast (c1 AND 0x1F)) OR ucast (c2 AND 0x3F) :: u32) in
            if ucast t > Maxcode then Ret error else emit frm cap 2 [t]))
     else if c1 < 0xF0 then
       (if length frm < 3 then Ret partial
        else rd frm 1 (\<lambda>c2. rd frm 2 (\<lambda>c3.
          if switch3 c1 c2 then Ret error
          else if c3 AND 0xC0 \<noteq> 0x80 then Ret error
          else let t = ucast (push_bit 12 (ucast (c1 AND 0x0F)) OR push_bit 6 (ucast (c2 AND 0x3F))
                       OR ucast (c3 AND 0x3F) :: u32) in
            if ucast t > Maxcode then Ret error else emit frm cap 3 [t])))
     else if c1 < 0xF5 then
       (if length frm < 4 then Ret partial
        else rd frm 1 (\<lambda>c2. rd frm 2 (\<lambda>c3. rd frm 3 (\<lambda>c4.
          if switch4 c1 c2 then Ret error
          else if c3 AND 0xC0 \<noteq> 0x80 \<or> c4 AND 0xC0 \<noteq> 0x80 then Ret error
          else if cap < 2 then Ret partial
          else if four_code c1 c2 c3 c4 > Maxcode then Ret error
          else emit frm cap 4
            [ucast (lead_half c1 c2 c3), ucast (trail_half c3 c4)]))))
     else Ret error)"

definition utf8_to_utf16 :: "u64 \<Rightarrow> codecvt_mode \<Rightarrow> u8 list \<Rightarrow> nat \<Rightarrow> u16 outcome option" where
  "utf8_to_utf16 Maxcode mode frm cap = skip_header mode utf8_bom frm (\<lambda>frm' n.
     cvt_loop guard_in fin_rest (utf8_to_utf16_body Maxcode) frm' cap n [])"

definition utf8_to_utf16_u32_body :: "u64 \<Rightarrow> u8 list \<Rightarrow> nat \<Rightarrow> u32 step" where
  "utf8_to_utf16_u32_body Maxcode frm cap = rd frm 0 (\<lambda>c1.
     if ucast c1 > Maxcode then Ret error
     else if c1 < 0x80 then emit frm cap 1 [ucast c1]
     else if c1 < 0xC2 then Ret error
     else if c1 < 0xE0 then
       (if length frm < 2 then Ret partial
        else rd frm 1 (\<lambda>c2.
          if c2 AND 0xC0 \<noteq> 0x80 then Ret error
          else let t = ucast (push_bit 6 (ucast (c1 AND 0x1F)) OR ucast (c2 AND 0x3F) :: u32) :: u16 in
            if ucast t > Maxcode then Ret error else emit frm cap 2 [ucast t]))
     else if c1 < 0xF0 then
       (if length frm < 3 then Ret partial
        else rd frm 1 (\<lambda>c2. rd frm 2 (\<lambda>c3.
          if switch3 c1 c2 then Ret error
          else if c3 AND 0xC0 \<noteq> 0x80 then Ret error
          else let t = ucast (push_bit 12 (ucast (c1 AND 0x0F)) OR push_bit 6 (ucast (c2 AND 0x3F))
                       OR ucast (c3 AND 0x3F) :: u32) :: u16 in
            if ucast t > Maxcode then Ret error else emit frm cap 3 [ucast t])))
     else if c1 < 0xF5 then
       (if length frm < 4 then Ret partial
        else rd frm 1 (\<lambda>c2. rd frm 2 (\<lambda>c3. rd frm 3 (\<lambda>c4.
          if switch4 c1 c2 then Ret error
          else if c3 AND 0xC0 \<noteq> 0x80 \<or> c4 AND 0xC0 \<noteq> 0x80 then Ret error
          else if cap < 2 then Ret partial
          else if four_code c1 c2 c3 c4 > Maxcode then Ret error
          else emit frm cap 4
            [lead_half c1 c2 c3, trail_half c3 c4]))))
     else Ret error)"

definition utf8_to_utf16_u32 :: "u64 \<Rightarrow> codecvt_mode \<Rightarrow> u8 list \<Rightarrow> nat \<Rightarrow> u32 outcome option" where
  "utf8_to_utf16_u32 Maxcode mode frm cap = skip_header mode utf8_bom frm (\<lambda>frm' n.
     cvt_loop guard_in fin_rest (utf8_to_utf16_u32_body Maxcode) frm' cap n [])"

definition utf8_to_utf16_length_body :: "u64 \<Rightarrow> u8 list \<Rightarrow> nat \<Rightarrow> len_step" where
  "utf8_to_utf16_length_body Maxcode frm mx = rd_len frm 0 (\<lambda>c1.
     if ucast c1 > Maxcode then Stop
     else if c1 < 0x80 then advance frm 1 1
     else if c1 < 0xC2 then Stop
     else if c1 < 0xE0 then
       (if length frm < 2 then Stop
        else rd_len frm 1 (\<lambda>c2.
          if c2 AND 0xC0 \<noteq> 0x80 then Stop
          else let t = ucast (push_bit 6 (ucast (c1 AND 0x1F)) OR ucast (c2 AND 0x3F) :: u32) :: u16 in
            if ucast t > Maxcode then Stop else advance frm 2 1))
     else if c1 < 0xF0 then
       (if length frm < 3 then Stop
        else rd_len frm 1 (\<lambda>c2. rd_len frm 2 (\<lambda>c3.
          if switch3 c1 c2 then Stop
          else if c3 AND 0xC0 \<noteq> 0x80 then Stop
          else if ucast (push_bit 12 (ucast (c1 AND 0x0F)) OR push_bit 6 (ucast (c2 AND 0x3F))
                         OR ucast (c3 AND 0x3F) :: u32) > Maxcode
          then Stop else advance frm 3 1)))
     else if c1 < 0xF5 then
       (if length frm < 4 \<or> mx < 2 then Stop
        else rd_len frm 1 (\<lambda>c2. rd_len frm 2 (\<lambda>c3. rd_len frm 3 (\<lambda>c4.
          if switch4 c1 c2 then Stop
          else if c3 AND 0xC0 \<noteq> 0x80 \<or> c4 AND 0xC0 \<noteq> 0x80 then Stop
          else if four_code c1 c2 c3 c4 > Maxcode then Stop
          else advance frm 4 2))))
     else Stop)"

definition utf8_to_utf16_length :: "u64 \<Rightarrow> codecvt_mode \<Rightarrow> u8 list \<Rightarrow> nat \<Rightarrow> len_outcome option" where
  "utf8_to_utf16_length Maxcode mode frm mx = skip_header mode utf8_bom frm (\<lambda>frm' n.
     len_loop guard_in (utf8_to_utf16_length_body Maxcode) frm' mx n)"

section \<open>The bodies keep their contracts\<close>

lemma unat_pair_code:
  assumes "high_unit (unat wc1)" and "low_unit (unat wc2)"
  shows "unat (pair_code wc1 wc2) = pair_value (unat wc1) (unat wc2)"
proof -
  obtain a where a: "unat wc1 = 0xD800 + a" "a < 1024" using assms(1) by (rule high_unitE)
  obtain b where b: "unat wc2 = 0xDC00 + b" "b < 1024" using assms(2) by (rule low_unitE)
  obtain p x where px: "a = p * 64 + x" "x < 64" by (rule split64)
  have p: "p < 16" using a px by simp
  have eq: "unat wc1 = (864 + p) * 64 + x" using a px by simp
  have "(864 + p) mod 16 = p" using p by (simp add: offset_mod)
  then have w1: "unat wc1 div 64 mod 16 = p" "unat wc1 mod 64 = x"
    by (simp_all only: eq radix [OF px(2)])
  have w2: "unat wc2 mod 1024 = b" using b by (simp add: offset_mod)
  have "pair_value (unat wc1) (unat wc2) = (p + 1) * 65536 + x * 1024 + b"
    using a b px by (simp add: pair_value_def)
  then show ?thesis
    using b(2) px(2) p by (simp add: pair_code_def word_nat field_nat w1 w2)
qed

text \<open>
  The inputs \<open>utf16_to_utf8\<close> waits for: half a pair at the end of the input, or a pair when there is no room for four
  bytes, whose code point is compared with \<open>Maxcode\<close> only afterwards.  A first half above \<open>Maxcode\<close> is not waited for.
\<close>

fun utf16_utf8_waits :: "u64 \<Rightarrow> u16 list \<Rightarrow> nat \<Rightarrow> bool" where
  "utf16_utf8_waits Maxcode [] cap \<longleftrightarrow> False"
| "utf16_utf8_waits Maxcode [x] cap \<longleftrightarrow> high_unit (unat x) \<and> unat x \<le> unat Maxcode"
| "utf16_utf8_waits Maxcode (x # y # more) cap \<longleftrightarrow>
     high_unit (unat x) \<and> unat x \<le> unat Maxcode \<and> low_unit (unat y) \<and> cap < 4"

lemma utf16_utf8_waits_high: "utf16_utf8_waits M (x # more) cap \<Longrightarrow> high_unit (unat x)"
  by (cases "(M, x # more, cap)" rule: utf16_utf8_waits.cases) auto

interpretation utf16_utf8: utf16_reader guard_out fin_ok "utf16_to_utf8_body M" 1 2 False "utf16_utf8_waits M" "upto_max M"
  unit16 utf8 for M
proof
  fix frm :: "u16 list"
  assume "1 \<le> length frm"
  then obtain x more where "frm = x # more" by (cases frm) auto
  then show "\<exists>u<0x10000. take 1 frm = unit16 u"
    by (auto simp: unit16_def intro!: exI [of _ "unat x"])
next
  fix u cap :: nat and more :: "u16 list"
  assume u: "u < 0x10000" "scalar u"
  then have "u < 0xD800 \<or> 0xE000 \<le> u" by (auto simp: scalar_def)
  then show "answers (utf16_utf8_waits M) (upto_max M) utf8 (unit16 u @ more) cap 1 u
      (utf16_to_utf8_body M (unit16 u @ more) cap)"
    using u utf8_bytes1 [of "ucast (of_nat u :: u16)"] utf8_bytes2 [of "ucast (of_nat u :: u16)"]
      utf8_bytes3 [of "ucast (of_nat u :: u16)"]
    by (auto dest!: utf16_utf8_waits_high simp: answers_def fails_def scalar_def high_unit_def utf16_to_utf8_body_def unit16_def upto_max_def Let_def
        word_less_nat word_le_nat unat_widen unat_of_nat_word length_utf8 emit_def)
next
  fix u cap :: nat and more :: "u16 list"
  assume "low_unit u"
  then show "fails (utf16_utf8_waits M) (unit16 u @ more) cap (utf16_to_utf8_body M (unit16 u @ more) cap)"
    by (auto dest!: utf16_utf8_waits_high simp: fails_def high_unit_def utf16_to_utf8_body_def unit16_def low_unit_def Let_def
        word_less_nat word_le_nat unat_of_nat_word)
next
  fix u cap :: nat and more :: "u16 list"
  assume "high_unit u" "length more < 1"
  then show "fails (utf16_utf8_waits M) (unit16 u @ more) cap (utf16_to_utf8_body M (unit16 u @ more) cap)"
    by (auto simp: fails_def utf16_to_utf8_body_def unit16_def high_unit_def Let_def
        word_less_nat word_le_nat unat_widen unat_of_nat_word)
next
  fix u v cap :: nat and more :: "u16 list"
  assume u: "high_unit u" and v: "v < 0x10000"
  let ?u = "of_nat u :: u16" and ?v = "of_nat v :: u16"
  have [simp]: "unat ?u = u" "unat ?v = v"
    using u v by (simp_all add: unat_of_nat_word high_unit_def)
  have low: "?v AND 0xFC00 = 0xDC00 \<longleftrightarrow> low_unit v"
    by (simp add: low_surrogate_iff low_unit_def)
  have body: "utf16_to_utf8_body M (unit16 u @ unit16 v @ more) cap =
    (if ucast ?u > M then Ret error
     else if \<not> low_unit v then Ret error
     else if cap < 4 then Ret partial
     else if pair_code ?u ?v > M then Ret error
     else Cont 2 (utf8 (pair_value u v)))"
    using u pair_utf8_bytes [of "ucast ?u" "ucast ?v"] low
    by (auto simp: utf16_to_utf8_body_def unit16_def high_unit_def Let_def word_less_nat word_le_nat
        unat_widen emit_def)
  have waits: "utf16_utf8_waits M (unit16 u @ unit16 v @ more) cap \<longleftrightarrow> u \<le> unat M \<and> low_unit v \<and> cap < 4"
    using u by (simp add: unit16_def)
  show "if low_unit v
    then answers (utf16_utf8_waits M) (upto_max M) utf8 (unit16 u @ unit16 v @ more) cap 2 (pair_value u v)
      (utf16_to_utf8_body M (unit16 u @ unit16 v @ more) cap)
    else fails (utf16_utf8_waits M) (unit16 u @ unit16 v @ more) cap
      (utf16_to_utf8_body M (unit16 u @ unit16 v @ more) cap)"
  proof (cases "low_unit v")
    case True
    then have "u < pair_value u v" "length (utf8 (pair_value u v)) = 4"
      using pair_value [OF u True] u by (simp_all add: high_unit_def length_utf8)
    with True show ?thesis
      using pair_value [OF u True] unat_pair_code [of ?u ?v] u
      by (auto simp: body waits answers_def fails_def upto_max_def word_less_nat unat_widen)
  qed (simp add: body waits fails_def)
qed (auto simp: guard_out_def fin_ok_def upto_max_def utf8_def)

lemma unat_four_code:
  "unat (four_code c1 c2 c3 c4) = val4 c1 c2 c3 c4"
proof -
  have "unat c1 mod 8 < 8" "unat c2 mod 64 < 64" "unat c3 mod 64 < 64" "unat c4 mod 64 < 64"
    by simp_all
  then show ?thesis by (simp add: four_code_def val4_def word_nat field_nat)
qed

text \<open>
  The readers compare the lead byte itself with \<open>Maxcode\<close> before they decode anything, so they let
  through the code points up to \<open>Maxcode\<close> whose lead byte does not exceed it.
\<close>

definition lead_upto :: "u64 \<Rightarrow> nat \<Rightarrow> bool" where
  "lead_upto Maxcode c \<longleftrightarrow> upto_max Maxcode c \<and> unat (hd (utf8 c)) \<le> unat Maxcode"

lemma lead_upto_eq:
  assumes "M < 0x80 \<or> 0xF4 \<le> M"
  shows "lead_upto M = upto_max M"
proof
  fix c
  show "lead_upto M c = upto_max M c"
  proof (cases "upto_max M c")
    case True
    then have c: "scalar c" "c \<le> unat M" by (simp_all add: upto_max_def)
    consider "c < 0x80" | "0x80 \<le> c" "c < 0x10000" | "0x10000 \<le> c" by linarith
    then have "unat (hd (utf8 c)) \<le> unat M"
    proof cases
      case 2
      then show ?thesis
        using assms c by (auto simp: utf8_def word_less_nat word_le_nat unat_of_nat_word unat_word_ariths)
    next
      case 3
      have "c div 262144 < 5" using c(1) by (intro less_mult_imp_div_less) (simp add: scalar_def)
      with 3 show ?thesis
        using assms c by (auto simp: utf8_def word_less_nat word_le_nat unat_of_nat_word unat_word_ariths)
    qed (use c in \<open>simp add: utf8_def unat_of_nat_word\<close>)
    with True show ?thesis by (simp add: lead_upto_def)
  qed (simp add: lead_upto_def)
qed

text \<open>
  The inputs \<open>utf8_to_utf16\<close> waits for: no room, a form cut off behind a lead byte it lets through, and any complete form
  of four bytes behind such a lead byte when there is room for one unit only.  That test comes before the comparison with
  \<open>Maxcode\<close>.
\<close>

fun long_form :: "u8 list \<Rightarrow> bool" where
  "long_form (c1 # c2 # c3 # c4 # more) \<longleftrightarrow> is_utf8_4 c1 c2 c3 c4"
| "long_form _ \<longleftrightarrow> False"

definition utf8_utf16_waits :: "u64 \<Rightarrow> u8 list \<Rightarrow> nat \<Rightarrow> bool" where
  "utf8_utf16_waits Maxcode rest cap \<longleftrightarrow>
     utf8_waits (\<lambda>u. u \<le> unat Maxcode) rest cap \<or>
     cap < 2 \<and> long_form rest \<and> unat (hd rest) \<le> unat Maxcode"

lemma long_form_lead: "unat c1 < 0xF0 \<or> 0xF5 \<le> unat c1 \<or> length more < 3 \<Longrightarrow> \<not> long_form (c1 # more)"
  by (cases "c1 # more" rule: long_form.cases) (auto simp: is_utf8_4_def)

lemma utf16_units_ne: "utf16_units c \<noteq> []"
  using length_utf16(1) [of c] by (auto split: if_splits)

interpretation utf8_utf16: utf8_reader "utf8_to_utf16_body M" "utf8_utf16_waits M" "lead_upto M" utf16_units for M
proof
  fix c1 :: u8 and cap :: nat and more :: "u8 list"
  assume c1: "unat c1 < 0x80" and cap: "0 < cap"
  then show "answers (utf8_utf16_waits M) (lead_upto M) utf16_units (c1 # more) cap 1 (unat c1)
      (utf8_to_utf16_body M (c1 # more) cap)"
    by (auto simp: answers_def fails_def utf8_utf16_waits_def utf8_waits_def long_form_lead utf8_to_utf16_body_def lead_upto_def upto_max_def scalar_def
        utf16_units_ucast utf8_def word_less_nat unat_widen word_eq_nat unat_of_nat_word emit_def)
next
  fix c1 :: u8 and cap :: nat and more :: "u8 list"
  assume "0x80 \<le> unat c1 \<and> unat c1 < 0xC2 \<or> 0xF5 \<le> unat c1" "0 < cap"
  then show "fails (utf8_utf16_waits M) (c1 # more) cap (utf8_to_utf16_body M (c1 # more) cap)"
    by (auto simp: fails_def utf8_utf16_waits_def utf8_waits_def utf8_to_utf16_body_def word_less_nat unat_widen long_form_lead)
next
  fix c1 :: u8 and cap :: nat and more :: "u8 list"
  assume "0xC2 \<le> unat c1" "unat c1 < 0xF5" "0 < cap"
    "Suc (length more) < (if unat c1 < 0xE0 then 2 else if unat c1 < 0xF0 then 3 else 4)"
  then show "fails (utf8_utf16_waits M) (c1 # more) cap (utf8_to_utf16_body M (c1 # more) cap)"
    by (auto simp: fails_def utf8_utf16_waits_def utf8_waits_def utf8_to_utf16_body_def word_less_nat unat_widen long_form_lead)
next
  fix c1 c2 :: u8 and cap :: nat and more :: "u8 list"
  assume c1: "0xC2 \<le> unat c1" "unat c1 < 0xE0" and cap: "0 < cap"
  show "if is_utf8_2 c1 c2
    then answers (utf8_utf16_waits M) (lead_upto M) utf16_units (c1 # c2 # more) cap 2 (val2 c1 c2)
      (utf8_to_utf16_body M (c1 # c2 # more) cap)
    else fails (utf8_utf16_waits M) (c1 # c2 # more) cap (utf8_to_utf16_body M (c1 # c2 # more) cap)"
    using c1 cap utf8_two [of c1 c2] join2_16 [of c1 c2] join2_units [of c1 c2]
    by (auto simp: answers_def fails_def utf8_utf16_waits_def utf8_waits_def utf8_to_utf16_body_def is_utf8_2_def lead_upto_def upto_max_def
        scalar_def Let_def long_form_lead word_less_nat unat_widen emit_def)
next
  fix c1 c2 c3 :: u8 and cap :: nat and more :: "u8 list"
  assume c1: "0xE0 \<le> unat c1" "unat c1 < 0xF0" and cap: "0 < cap"
  show "if is_utf8_3 c1 c2 c3
    then answers (utf8_utf16_waits M) (lead_upto M) utf16_units (c1 # c2 # c3 # more) cap 3 (val3 c1 c2 c3)
      (utf8_to_utf16_body M (c1 # c2 # c3 # more) cap)
    else fails (utf8_utf16_waits M) (c1 # c2 # c3 # more) cap (utf8_to_utf16_body M (c1 # c2 # c3 # more) cap)"
    using c1 cap utf8_three [of c1 c2 c3] join3_16 [of c1 c2 c3] join3_units [of c1 c2 c3]
    by (auto simp: answers_def fails_def utf8_utf16_waits_def utf8_waits_def utf8_to_utf16_body_def is_utf8_3_def lead_upto_def upto_max_def
        Let_def long_form_lead word_less_nat unat_widen emit_def)
next
  fix c1 c2 c3 c4 :: u8 and cap :: nat and more :: "u8 list"
  assume c1: "0xF0 \<le> unat c1" "unat c1 < 0xF5" and cap: "0 < cap"
  show "if is_utf8_4 c1 c2 c3 c4
    then answers (utf8_utf16_waits M) (lead_upto M) utf16_units (c1 # c2 # c3 # c4 # more) cap 4 (val4 c1 c2 c3 c4)
      (utf8_to_utf16_body M (c1 # c2 # c3 # c4 # more) cap)
    else fails (utf8_utf16_waits M) (c1 # c2 # c3 # c4 # more) cap (utf8_to_utf16_body M (c1 # c2 # c3 # c4 # more) cap)"
    using c1 cap utf8_four [of c1 c2 c3 c4] four_utf16_units [of c1 c2 c3 c4] unat_four_code
      length_utf16(1) [of "val4 c1 c2 c3 c4"]
    by (auto simp: answers_def fails_def utf8_utf16_waits_def utf8_waits_def utf8_to_utf16_body_def is_utf8_4_def lead_upto_def upto_max_def
        word_less_nat unat_widen emit_def)
qed (auto simp: lead_upto_def upto_max_def utf16_units_ne utf8_utf16_waits_def utf8_waits_def)

lemma utf16_utf8_pair:
  assumes "M < 0x80 \<or> 0xF4 \<le> M"
  shows "codec_pair guard_out fin_ok (utf16_to_utf8_body M) 1 False (utf16_utf8_waits M)
    guard_in fin_rest (utf8_to_utf16_body M) 1 True (utf8_utf16_waits M) (upto_max M) utf16_units utf8"
  using utf16_utf8.contract [of M] utf8_utf16.contract [of M]
  by (intro codec_pair.intro) (simp_all add: lead_upto_eq [OF assms])

interpretation utf16_pair: codec_pair guard_out fin_ok "utf16_to_utf8_body 0x10FFFF" 1 False "utf16_utf8_waits 0x10FFFF"
    guard_in fin_rest "utf8_to_utf16_body 0x10FFFF" 1 True "utf8_utf16_waits 0x10FFFF" "upto_max 0x10FFFF" utf16_units utf8
  by (rule utf16_utf8_pair) simp

lemma utf8_to_utf16_length_body_eq:
  assumes "guard_in (length frm) mx"
  shows "utf8_to_utf16_length_body M frm mx = step_len (utf8_to_utf16_body M frm mx)"
  using assms
  by (auto simp: guard_in_def utf8_to_utf16_length_body_def utf8_to_utf16_body_def rd_def rd_len_def
      emit_def advance_def Let_def word_less_nat unat_widen join3 join3_16)

text \<open>The overloads for \<open>uint32_t\<close> are the others behind a cast.\<close>

lemma utf16_to_utf8_u32_body_eq:
  "utf16_to_utf8_u32_body M frm cap = utf16_to_utf8_body M (map ucast frm) cap"
  by (simp add: utf16_to_utf8_u32_body_def utf16_to_utf8_body_def rd_def emit_def Let_def)

lemma ucast_byte: "ucast (ucast (c::u8) :: u16) = (ucast c :: u32)"
  by (simp add: word_eq_nat unat_widen)

lemma utf8_to_utf16_u32_body_eq:
  assumes "guard_in (length frm) cap"
  shows "utf8_to_utf16_u32_body M frm cap = map_step ucast (utf8_to_utf16_body M frm cap)"
proof -
  have four: "ucast (ucast (lead_half (frm ! 0) c2 c3) :: u16) = lead_half (frm ! 0) c2 c3"
    "ucast (ucast (trail_half c3 c4) :: u16) = trail_half c3 c4"
    if "\<not> frm ! 0 < 0xF0" "frm ! 0 < 0xF5" "\<not> switch4 (frm ! 0) c2" "c3 AND 0xC0 = 0x80" "c4 AND 0xC0 = 0x80"
    for c2 c3 c4
    using four_utf16_units(2,3) [of "frm ! 0" c2 c3 c4] that
    by (simp_all add: is_utf8_4_def word_less_nat not_less)
  show ?thesis
    using assms
    by (auto simp: guard_in_def utf8_to_utf16_u32_body_def utf8_to_utf16_body_def rd_def
        emit_def Let_def ucast_byte four)
qed

lemma utf8_to_utf16_length_counts:
  "utf8_to_utf16_length M mode frm mx = map_option outcome_len (utf8_to_utf16 M mode frm mx)"
  unfolding utf8_to_utf16_length_def utf8_to_utf16_def skip_header_eq
  by (rule utf8_utf16.len_loop_eq) (rule utf8_to_utf16_length_body_eq)

lemma utf16_to_utf8_u32_map:
  "utf16_to_utf8_u32 M mode frm cap = utf16_to_utf8 M mode (map ucast frm) cap"
  unfolding utf16_to_utf8_u32_def utf16_to_utf8_def write_header_eq
  using utf16_utf8.loop_map_source [of "utf16_to_utf8_u32_body M" M ucast frm]
  by (simp add: utf16_to_utf8_u32_body_eq)

lemma utf8_to_utf16_u32_map:
  "utf8_to_utf16_u32 M mode frm cap = map_option (map_outcome ucast) (utf8_to_utf16 M mode frm cap)"
  unfolding utf8_to_utf16_u32_def utf8_to_utf16_def skip_header_eq
  using utf8_utf16.loop_map_target [of "utf8_to_utf16_u32_body M" ucast M _ cap _ "[]"]
  by (simp add: utf8_to_utf16_u32_body_eq)

section \<open>Properties\<close>

text \<open>
  Encoding UTF-16 as UTF-8 always returns, stays inside both buffers and writes the header the
  mode asks for and then exactly the UTF-8 forms of the code points whose units it read: a surrogate
  pair becomes one four byte form, a lone surrogate or a code point above \<open>Maxcode\<close> is an \<open>error\<close>,
  a high surrogate at the end of the input is \<open>partial\<close> and is not consumed.
\<close>

lemma utf16_to_utf8_correct:
  "\<exists>r n w. utf16_to_utf8 M mode frm cap = Some (Done r n w) \<and>
    encodes (utf16_utf8_waits M) (upto_max M) utf16_units utf8 (header mode utf8_bom) frm cap r n w"
  using utf16_utf8.write_encodes [of mode utf8_bom cap M frm] by (simp add: utf16_to_utf8_def)

text \<open>
  Decoding UTF-8 to UTF-16 always returns, stays inside both buffers and stores exactly the
  UTF-16 forms of the code points whose UTF-8 forms it read; a pair is never split at the end of the
  destination.  The accepted code points are those up to \<open>Maxcode\<close> whose lead byte is not above
  \<open>Maxcode\<close> either.
\<close>

lemma utf8_to_utf16_correct:
  "\<exists>r n w. utf8_to_utf16 M mode frm cap = Some (Done r n w) \<and>
    decodes (utf8_utf16_waits M) (lead_upto M) utf8 utf16_units (skipped mode utf8_bom frm) frm cap r n w"
  unfolding utf8_to_utf16_def by (rule utf8_utf16.skip_decodes)

text \<open>
  For a \<open>Maxcode\<close> below 0x80 or from 0xF4 on (the default and every UTF-16 or UCS-2 range) the
  comparison of the lead byte changes nothing: exactly the code points up to \<open>Maxcode\<close> are accepted.
\<close>

lemma utf8_to_utf16_accepts_upto_max:
  assumes "M < 0x80 \<or> 0xF4 \<le> M"
  shows "\<exists>r n w. utf8_to_utf16 M mode frm cap = Some (Done r n w) \<and>
    decodes (utf8_utf16_waits M) (upto_max M) utf8 utf16_units (skipped mode utf8_bom frm) frm cap r n w"
  using utf8_utf16.skip_decodes [of mode utf8_bom frm M cap] lead_upto_eq [OF assms]
  by (simp add: utf8_to_utf16_def)

text \<open>
  For a \<open>Maxcode\<close> in between, the routine rejects code points that are not above \<open>Maxcode\<close>:
  with \<open>Maxcode\<close> 0xC0 the two bytes of U+0080 are an \<open>error\<close>, while \<open>utf8_to_ucs4\<close>, the same
  routine for another destination, accepts them.
\<close>

lemma utf8_to_utf16_lead_byte_bug:
  "upto_max 0xC0 0x80 \<and> utf8 0x80 = [0xC2, 0x80] \<and>
   utf8_to_utf16 0xC0 0 [0xC2, 0x80] 1 = Some (Done error 0 []) \<and>
   utf8_to_ucs4 0xC0 0 [0xC2, 0x80] 1 = Some (Done ok 2 [0x80])"
proof -
  have "utf8_to_utf16 0xC0 0 [0xC2, 0x80] 1 = Some (Done error 0 [])" by code_simp
  moreover have "utf8_to_ucs4 0xC0 0 [0xC2, 0x80] 1 = Some (Done ok 2 [0x80])" by code_simp
  ultimately show ?thesis by (simp add: upto_max_def scalar_def utf8_def)
qed

text \<open>
  For a \<open>Maxcode\<close> below 0x80 or from 0xF4 on (the default and every UTF-16 or UCS-2 range)
  \<open>utf8_to_utf16\<close> accepts exactly the code points up to \<open>Maxcode\<close>.  For one in between it rejects code points that are
  not above it, because it compares the lead byte: with \<open>Maxcode\<close> 0xC0 the two bytes of U+0080 are an
  \<open>error\<close>, while \<open>utf8_to_ucs4\<close>, the same routine for another destination, accepts them.
\<close>

lemma utf8_to_utf16_maxcode:
  "(M < 0x80 \<or> 0xF4 \<le> M \<longrightarrow> (\<exists>r n w. utf8_to_utf16 M mode frm cap = Some (Done r n w) \<and>
      decodes (utf8_utf16_waits M) (upto_max M) utf8 utf16_units (skipped mode utf8_bom frm) frm cap r n w)) \<and>
   upto_max 0xC0 0x80 \<and> utf8 0x80 = [0xC2, 0x80] \<and>
   utf8_to_utf16 0xC0 0 [0xC2, 0x80] 1 = Some (Done error 0 []) \<and>
   utf8_to_ucs4 0xC0 0 [0xC2, 0x80] 1 = Some (Done ok 2 [0x80])"
  using utf8_to_utf16_accepts_upto_max [of M mode frm cap] utf8_to_utf16_lead_byte_bug by blast

text \<open>
  Round trip. UTF-16 that \<open>utf16_to_utf8\<close> encodes to its end is restored by \<open>utf8_to_utf16\<close>,
  header included, whenever one mode generates the header exactly if the other consumes it.
\<close>

lemma utf16_utf8_round_trip:
  assumes "M < 0x80 \<or> 0xF4 \<le> M" and "utf16_to_utf8 M gm frm cap = Some (Done ok n bs)"
    and "gm AND generate_header \<noteq> 0 \<longleftrightarrow> cm AND consume_header \<noteq> 0" and "length frm \<le> cap'"
  shows "utf8_to_utf16 M cm bs cap' = Some (Done ok (length bs) frm)"
  using codec_pair.out_in(2) [OF utf16_utf8_pair [OF assms(1)], of gm utf8_bom cap frm n bs cm cap'] assms(2-4)
  by (simp add: utf16_to_utf8_def utf8_to_utf16_def)

text \<open>
  The \<open>uint32_t\<close> overload of \<open>utf16_to_utf8\<close> is the \<open>uint16_t\<close> overload on its input cut
  down to 16 bits.  So an element above 0xFFFF is not an \<open>error\<close>: it is encoded as its low half.
\<close>

theorem utf16_to_utf8_u32_truncates:
  "utf16_to_utf8_u32 M mode frm cap = utf16_to_utf8 M mode (map ucast frm) cap"
  by (rule utf16_to_utf8_u32_map)

text \<open>
  The \<open>uint32_t\<close> overload of \<open>utf8_to_utf16\<close> stores the units of the \<open>uint16_t\<close> overload,
  one in each element, and returns the same result at the same place.
\<close>

theorem utf8_to_utf16_u32_eq:
  "utf8_to_utf16_u32 M mode frm cap = map_option (map_outcome ucast) (utf8_to_utf16 M mode frm cap)"
  by (rule utf8_to_utf16_u32_map)

end
