(* ===== verification/Utf16_Ucs.thy ===== *)
theory Utf16_Ucs
  imports Codecvt_Contracts
begin

text \<open>
  UTF-16 in bytes of either order against UCS-4 and UCS-2: \<open>ucs4_to_utf16be\<close> to
  \<open>utf16le_to_ucs2_length\<close> of \<open>src/src/locale.cpp\<close> (lines 2695 to 3106).  The routines for the two
  byte orders are written out twice, as in the source; their proofs are shared in the locale
  \<open>byte_order\<close>.
\<close>

unbundle bit_operations_syntax

text \<open>The code point \<open>t\<close> of a pair, in the 32 bits of a promoted \<open>int\<close>.\<close>

definition pair_bits :: "u16 \<Rightarrow> u16 \<Rightarrow> u32" where
  "pair_bits c1 c2 =
     push_bit 16 (drop_bit 6 (ucast c1 AND 0x03C0) + 1) OR push_bit 10 (ucast c1 AND 0x003F)
       OR (ucast c2 AND 0x03FF)"

section \<open>The big endian routines\<close>

definition ucs4_to_utf16be_body :: "u64 \<Rightarrow> u32 list \<Rightarrow> nat \<Rightarrow> u8 step" where
  "ucs4_to_utf16be_body Maxcode frm cap = rd frm 0 (\<lambda>wc.
     if wc AND 0xFFFFF800 = 0x00D800 \<or> ucast wc > Maxcode then Ret error
     else if wc < 0x010000 then
       (if cap < 2 then Ret partial
        else emit frm cap 1 [ucast (drop_bit 8 wc), ucast wc])
     else
       (if cap < 4 then Ret partial
        else let t = high_half wc; t' = low_half wc in
          emit frm cap 1 [ucast (drop_bit 8 t), ucast t, ucast (drop_bit 8 t'), ucast t']))"

definition ucs4_to_utf16be :: "u64 \<Rightarrow> codecvt_mode \<Rightarrow> u32 list \<Rightarrow> nat \<Rightarrow> u8 outcome option" where
  "ucs4_to_utf16be Maxcode mode frm cap = write_header mode utf16be_bom cap (\<lambda>cap' out.
     cvt_loop guard_out fin_ok (ucs4_to_utf16be_body Maxcode) frm cap' 0 out)"

definition utf16be_to_ucs4_body :: "u64 \<Rightarrow> u8 list \<Rightarrow> nat \<Rightarrow> u32 step" where
  "utf16be_to_ucs4_body Maxcode frm cap = rd frm 0 (\<lambda>b0. rd frm 1 (\<lambda>b1.
     let c1 = ucast (push_bit 8 (ucast b0) OR ucast b1 :: u32) :: u16 in
     if c1 AND 0xFC00 = 0xDC00 then Ret error
     else if c1 AND 0xFC00 \<noteq> 0xD800 then
       (if ucast c1 > Maxcode then Ret error else emit frm cap 2 [ucast c1])
     else if length frm < 4 then Ret partial
     else rd frm 2 (\<lambda>b2. rd frm 3 (\<lambda>b3.
       let c2 = ucast (push_bit 8 (ucast b2) OR ucast b3 :: u32) :: u16 in
       if c2 AND 0xFC00 \<noteq> 0xDC00 then Ret error
       else let t = pair_bits c1 c2 in
         if ucast t > Maxcode then Ret error else emit frm cap 4 [t]))))"

definition utf16be_to_ucs4 :: "u64 \<Rightarrow> codecvt_mode \<Rightarrow> u8 list \<Rightarrow> nat \<Rightarrow> u32 outcome option" where
  "utf16be_to_ucs4 Maxcode mode frm cap = skip_header mode utf16be_bom frm (\<lambda>frm' n.
     cvt_loop guard_pair fin_rest (utf16be_to_ucs4_body Maxcode) frm' cap n [])"

definition utf16be_to_ucs4_length_body :: "u64 \<Rightarrow> u8 list \<Rightarrow> nat \<Rightarrow> len_step" where
  "utf16be_to_ucs4_length_body Maxcode frm mx = rd_len frm 0 (\<lambda>b0. rd_len frm 1 (\<lambda>b1.
     let c1 = ucast (push_bit 8 (ucast b0) OR ucast b1 :: u32) :: u16 in
     if c1 AND 0xFC00 = 0xDC00 then Stop
     else if c1 AND 0xFC00 \<noteq> 0xD800 then
       (if ucast c1 > Maxcode then Stop else advance frm 2 1)
     else if length frm < 4 then Stop
     else rd_len frm 2 (\<lambda>b2. rd_len frm 3 (\<lambda>b3.
       let c2 = ucast (push_bit 8 (ucast b2) OR ucast b3 :: u32) :: u16 in
       if c2 AND 0xFC00 \<noteq> 0xDC00 then Stop
       else if ucast (pair_bits c1 c2) > Maxcode then Stop else advance frm 4 1))))"

definition utf16be_to_ucs4_length :: "u64 \<Rightarrow> codecvt_mode \<Rightarrow> u8 list \<Rightarrow> nat \<Rightarrow> len_outcome option" where
  "utf16be_to_ucs4_length Maxcode mode frm mx = skip_header mode utf16be_bom frm (\<lambda>frm' n.
     len_loop guard_pair (utf16be_to_ucs4_length_body Maxcode) frm' mx n)"

definition ucs2_to_utf16be_body :: "u64 \<Rightarrow> u16 list \<Rightarrow> nat \<Rightarrow> u8 step" where
  "ucs2_to_utf16be_body Maxcode frm cap = rd frm 0 (\<lambda>wc.
     if wc AND 0xF800 = 0xD800 \<or> ucast wc > Maxcode then Ret error
     else if cap < 2 then Ret partial
     else emit frm cap 1 [ucast (drop_bit 8 wc), ucast wc])"

definition ucs2_to_utf16be :: "u64 \<Rightarrow> codecvt_mode \<Rightarrow> u16 list \<Rightarrow> nat \<Rightarrow> u8 outcome option" where
  "ucs2_to_utf16be Maxcode mode frm cap = write_header mode utf16be_bom cap (\<lambda>cap' out.
     cvt_loop guard_out fin_ok (ucs2_to_utf16be_body Maxcode) frm cap' 0 out)"

definition utf16be_to_ucs2_body :: "u64 \<Rightarrow> u8 list \<Rightarrow> nat \<Rightarrow> u16 step" where
  "utf16be_to_ucs2_body Maxcode frm cap = rd frm 0 (\<lambda>b0. rd frm 1 (\<lambda>b1.
     let c1 = ucast (push_bit 8 (ucast b0) OR ucast b1 :: u32) :: u16 in
     if c1 AND 0xF800 = 0xD800 \<or> ucast c1 > Maxcode then Ret error
     else emit frm cap 2 [c1]))"

definition utf16be_to_ucs2 :: "u64 \<Rightarrow> codecvt_mode \<Rightarrow> u8 list \<Rightarrow> nat \<Rightarrow> u16 outcome option" where
  "utf16be_to_ucs2 Maxcode mode frm cap = skip_header mode utf16be_bom frm (\<lambda>frm' n.
     cvt_loop guard_pair fin_rest (utf16be_to_ucs2_body Maxcode) frm' cap n [])"

definition utf16be_to_ucs2_length_body :: "u64 \<Rightarrow> u8 list \<Rightarrow> nat \<Rightarrow> len_step" where
  "utf16be_to_ucs2_length_body Maxcode frm mx = rd_len frm 0 (\<lambda>b0. rd_len frm 1 (\<lambda>b1.
     let c1 = ucast (push_bit 8 (ucast b0) OR ucast b1 :: u32) :: u16 in
     if c1 AND 0xF800 = 0xD800 \<or> ucast c1 > Maxcode then Stop
     else advance frm 2 1))"

definition utf16be_to_ucs2_length :: "u64 \<Rightarrow> codecvt_mode \<Rightarrow> u8 list \<Rightarrow> nat \<Rightarrow> len_outcome option" where
  "utf16be_to_ucs2_length Maxcode mode frm mx = skip_header mode utf16be_bom frm (\<lambda>frm' n.
     len_loop guard_pair (utf16be_to_ucs2_length_body Maxcode) frm' mx n)"

section \<open>The little endian routines\<close>

definition ucs4_to_utf16le_body :: "u64 \<Rightarrow> u32 list \<Rightarrow> nat \<Rightarrow> u8 step" where
  "ucs4_to_utf16le_body Maxcode frm cap = rd frm 0 (\<lambda>wc.
     if wc AND 0xFFFFF800 = 0x00D800 \<or> ucast wc > Maxcode then Ret error
     else if wc < 0x010000 then
       (if cap < 2 then Ret partial
        else emit frm cap 1 [ucast wc, ucast (drop_bit 8 wc)])
     else
       (if cap < 4 then Ret partial
        else let t = high_half wc; t' = low_half wc in
          emit frm cap 1 [ucast t, ucast (drop_bit 8 t), ucast t', ucast (drop_bit 8 t')]))"

definition ucs4_to_utf16le :: "u64 \<Rightarrow> codecvt_mode \<Rightarrow> u32 list \<Rightarrow> nat \<Rightarrow> u8 outcome option" where
  "ucs4_to_utf16le Maxcode mode frm cap = write_header mode utf16le_bom cap (\<lambda>cap' out.
     cvt_loop guard_out fin_ok (ucs4_to_utf16le_body Maxcode) frm cap' 0 out)"

definition utf16le_to_ucs4_body :: "u64 \<Rightarrow> u8 list \<Rightarrow> nat \<Rightarrow> u32 step" where
  "utf16le_to_ucs4_body Maxcode frm cap = rd frm 0 (\<lambda>b0. rd frm 1 (\<lambda>b1.
     let c1 = ucast (push_bit 8 (ucast b1) OR ucast b0 :: u32) :: u16 in
     if c1 AND 0xFC00 = 0xDC00 then Ret error
     else if c1 AND 0xFC00 \<noteq> 0xD800 then
       (if ucast c1 > Maxcode then Ret error else emit frm cap 2 [ucast c1])
     else if length frm < 4 then Ret partial
     else rd frm 2 (\<lambda>b2. rd frm 3 (\<lambda>b3.
       let c2 = ucast (push_bit 8 (ucast b3) OR ucast b2 :: u32) :: u16 in
       if c2 AND 0xFC00 \<noteq> 0xDC00 then Ret error
       else let t = pair_bits c1 c2 in
         if ucast t > Maxcode then Ret error else emit frm cap 4 [t]))))"

definition utf16le_to_ucs4 :: "u64 \<Rightarrow> codecvt_mode \<Rightarrow> u8 list \<Rightarrow> nat \<Rightarrow> u32 outcome option" where
  "utf16le_to_ucs4 Maxcode mode frm cap = skip_header mode utf16le_bom frm (\<lambda>frm' n.
     cvt_loop guard_pair fin_rest (utf16le_to_ucs4_body Maxcode) frm' cap n [])"

definition utf16le_to_ucs4_length_body :: "u64 \<Rightarrow> u8 list \<Rightarrow> nat \<Rightarrow> len_step" where
  "utf16le_to_ucs4_length_body Maxcode frm mx = rd_len frm 0 (\<lambda>b0. rd_len frm 1 (\<lambda>b1.
     let c1 = ucast (push_bit 8 (ucast b1) OR ucast b0 :: u32) :: u16 in
     if c1 AND 0xFC00 = 0xDC00 then Stop
     else if c1 AND 0xFC00 \<noteq> 0xD800 then
       (if ucast c1 > Maxcode then Stop else advance frm 2 1)
     else if length frm < 4 then Stop
     else rd_len frm 2 (\<lambda>b2. rd_len frm 3 (\<lambda>b3.
       let c2 = ucast (push_bit 8 (ucast b3) OR ucast b2 :: u32) :: u16 in
       if c2 AND 0xFC00 \<noteq> 0xDC00 then Stop
       else if ucast (pair_bits c1 c2) > Maxcode then Stop else advance frm 4 1))))"

definition utf16le_to_ucs4_length :: "u64 \<Rightarrow> codecvt_mode \<Rightarrow> u8 list \<Rightarrow> nat \<Rightarrow> len_outcome option" where
  "utf16le_to_ucs4_length Maxcode mode frm mx = skip_header mode utf16le_bom frm (\<lambda>frm' n.
     len_loop guard_pair (utf16le_to_ucs4_length_body Maxcode) frm' mx n)"

definition ucs2_to_utf16le_body :: "u64 \<Rightarrow> u16 list \<Rightarrow> nat \<Rightarrow> u8 step" where
  "ucs2_to_utf16le_body Maxcode frm cap = rd frm 0 (\<lambda>wc.
     if wc AND 0xF800 = 0xD800 \<or> ucast wc > Maxcode then Ret error
     else if cap < 2 then Ret partial
     else emit frm cap 1 [ucast wc, ucast (drop_bit 8 wc)])"

definition ucs2_to_utf16le :: "u64 \<Rightarrow> codecvt_mode \<Rightarrow> u16 list \<Rightarrow> nat \<Rightarrow> u8 outcome option" where
  "ucs2_to_utf16le Maxcode mode frm cap = write_header mode utf16le_bom cap (\<lambda>cap' out.
     cvt_loop guard_out fin_ok (ucs2_to_utf16le_body Maxcode) frm cap' 0 out)"

definition utf16le_to_ucs2_body :: "u64 \<Rightarrow> u8 list \<Rightarrow> nat \<Rightarrow> u16 step" where
  "utf16le_to_ucs2_body Maxcode frm cap = rd frm 0 (\<lambda>b0. rd frm 1 (\<lambda>b1.
     let c1 = ucast (push_bit 8 (ucast b1) OR ucast b0 :: u32) :: u16 in
     if c1 AND 0xF800 = 0xD800 \<or> ucast c1 > Maxcode then Ret error
     else emit frm cap 2 [c1]))"

definition utf16le_to_ucs2 :: "u64 \<Rightarrow> codecvt_mode \<Rightarrow> u8 list \<Rightarrow> nat \<Rightarrow> u16 outcome option" where
  "utf16le_to_ucs2 Maxcode mode frm cap = skip_header mode utf16le_bom frm (\<lambda>frm' n.
     cvt_loop guard_pair fin_rest (utf16le_to_ucs2_body Maxcode) frm' cap n [])"

definition utf16le_to_ucs2_length_body :: "u64 \<Rightarrow> u8 list \<Rightarrow> nat \<Rightarrow> len_step" where
  "utf16le_to_ucs2_length_body Maxcode frm mx = rd_len frm 0 (\<lambda>b0. rd_len frm 1 (\<lambda>b1.
     let c1 = ucast (push_bit 8 (ucast b1) OR ucast b0 :: u32) :: u16 in
     if c1 AND 0xF800 = 0xD800 \<or> ucast c1 > Maxcode then Stop
     else advance frm 2 1))"

definition utf16le_to_ucs2_length :: "u64 \<Rightarrow> codecvt_mode \<Rightarrow> u8 list \<Rightarrow> nat \<Rightarrow> len_outcome option" where
  "utf16le_to_ucs2_length Maxcode mode frm mx = skip_header mode utf16le_bom frm (\<lambda>frm' n.
     len_loop guard_pair (utf16le_to_ucs2_length_body Maxcode) frm' mx n)"

section \<open>Reading in either byte order\<close>

lemma unat_pair_bits:
  assumes "high_unit (unat c1)" and "low_unit (unat c2)"
  shows "unat (pair_bits c1 c2) = pair_value (unat c1) (unat c2)"
proof -
  obtain a where a: "unat c1 = 0xD800 + a" "a < 1024" using assms(1) by (rule high_unitE)
  obtain b where b: "unat c2 = 0xDC00 + b" "b < 1024" using assms(2) by (rule low_unitE)
  obtain p x where px: "a = p * 64 + x" "x < 64" by (rule split64)
  have p: "p < 16" using a px by simp
  have eq: "unat c1 = (864 + p) * 64 + x" using a px by simp
  have "(864 + p) mod 16 = p" using p by (simp add: offset_mod)
  then have c1: "unat c1 div 64 mod 16 = p" "unat c1 mod 64 = x"
    by (simp_all only: eq radix [OF px(2)])
  have c2: "unat c2 mod 1024 = b" using b by (simp add: offset_mod)
  have "pair_value (unat c1) (unat c2) = (p + 1) * 65536 + (x * 1024 + b)"
    using a b px by (simp add: pair_value_def)
  moreover have "x * 1024 + b < 65536" using b px by simp
  ultimately show ?thesis
    using b(2) px(2) p or_nat_shift16 [of "x * 1024 + b" "p + 1"]
    by (simp add: pair_bits_def word_nat field_nat c1 c2)
qed

definition join_be :: "u8 \<Rightarrow> u8 \<Rightarrow> u16" where
  "join_be b0 b1 = ucast (push_bit 8 (ucast b0) OR ucast b1 :: u32)"

definition join_le :: "u8 \<Rightarrow> u8 \<Rightarrow> u16" where
  "join_le b0 b1 = ucast (push_bit 8 (ucast b1) OR ucast b0 :: u32)"

definition ucs4_step :: "(u8 \<Rightarrow> u8 \<Rightarrow> u16) \<Rightarrow> u64 \<Rightarrow> u8 list \<Rightarrow> nat \<Rightarrow> u32 step" where
  "ucs4_step join Maxcode frm cap = rd frm 0 (\<lambda>b0. rd frm 1 (\<lambda>b1.
     let c1 = join b0 b1 in
     if c1 AND 0xFC00 = 0xDC00 then Ret error
     else if c1 AND 0xFC00 \<noteq> 0xD800 then
       (if ucast c1 > Maxcode then Ret error else emit frm cap 2 [ucast c1])
     else if length frm < 4 then Ret partial
     else rd frm 2 (\<lambda>b2. rd frm 3 (\<lambda>b3.
       let c2 = join b2 b3 in
       if c2 AND 0xFC00 \<noteq> 0xDC00 then Ret error
       else let t = pair_bits c1 c2 in
         if ucast t > Maxcode then Ret error else emit frm cap 4 [t]))))"

definition ucs2_step :: "(u8 \<Rightarrow> u8 \<Rightarrow> u16) \<Rightarrow> u64 \<Rightarrow> u8 list \<Rightarrow> nat \<Rightarrow> u16 step" where
  "ucs2_step join Maxcode frm cap = rd frm 0 (\<lambda>b0. rd frm 1 (\<lambda>b1.
     let c1 = join b0 b1 in
     if c1 AND 0xF800 = 0xD800 \<or> ucast c1 > Maxcode then Ret error
     else emit frm cap 2 [c1]))"

locale byte_order =
  fixes join :: "u8 \<Rightarrow> u8 \<Rightarrow> u16"
    and unit :: "nat \<Rightarrow> u8 list"
  assumes unit_join: "unit (unat (join b0 b1)) = [b0, b1]"
    and join_unit: "u < 0x10000 \<Longrightarrow> \<exists>b0 b1. unit u = [b0, b1] \<and> unat (join b0 b1) = u"
    and unit_length: "length (unit u) = 2"
begin

lemma unitE:
  assumes "u < 0x10000"
  obtains b0 b1 where "unit u = [b0, b1]" and "unat (join b0 b1) = u"
  using join_unit [OF assms] by blast

lemma units_exist:
  assumes "2 \<le> length frm"
  shows "\<exists>u<0x10000. take 2 frm = unit u"
proof -
  obtain b0 b1 more where "frm = b0 # b1 # more"
    using assms by (auto simp: numeral_2_eq_2 Suc_le_length_iff)
  then show ?thesis
    using unit_join [of b0 b1] by (auto intro!: exI [of _ "unat (join b0 b1)"])
qed

lemma half_pair_other:
  assumes "\<not> high_unit u" and "u < 0x10000"
  shows "\<not> half_pair unit (unit u @ more)"
proof
  assume "half_pair unit (unit u @ more)"
  then obtain x more' where "high_unit x" "unit u @ more = unit x @ more'" by (auto simp: half_pair_def)
  then have "unit u = unit x" and "x < 0x10000" using unit_length by (auto simp: high_unit_def)
  then have "u = x" using join_unit [OF assms(2)] join_unit [of x] by fastforce
  with \<open>high_unit x\<close> assms(1) show False by simp
qed

lemma half_pair_short: "high_unit u \<Longrightarrow> length more < 2 \<Longrightarrow> half_pair unit (unit u @ more)"
  using unit_length by (auto simp: half_pair_def)

lemma half_pair_long: "2 \<le> length more \<Longrightarrow> \<not> half_pair unit (unit u @ more)"
  using unit_length by (auto simp: half_pair_def append_eq_append_conv_if)

lemma no_wait:
  assumes "u < 0x10000" and "\<not> high_unit u" and "0 < cap"
  shows "\<not> utf16_waits pairs unit (unit u @ more) cap"
  using assms half_pair_other [of u more] by (simp add: utf16_waits_def unit_length)

lemma no_wait_pair: "0 < cap \<Longrightarrow> \<not> utf16_waits pairs unit (unit u @ unit v @ more) cap"
  using half_pair_long [of "unit v @ more" u] by (simp add: utf16_waits_def unit_length)

lemma no_wait_unit: "0 < cap \<Longrightarrow> \<not> utf16_waits False unit (unit u @ more) cap"
  by (simp add: utf16_waits_def unit_length)

lemma waits_half: "high_unit u \<Longrightarrow> length more < 2 \<Longrightarrow> utf16_waits True unit (unit u @ more) cap"
  using half_pair_short [of u more] by (simp add: utf16_waits_def)

lemma ucs4_reader:
  "utf16_reader guard_pair fin_rest (ucs4_step join M) 2 4 True (utf16_waits True unit) (upto_max M) unit ucs4"
proof
  fix u cap :: nat and more :: "u8 list"
  assume u: "u < 0x10000" "scalar u" and cap: "True \<longrightarrow> 0 < cap"
  obtain b0 b1 where b: "unit u = [b0, b1]" "unat (join b0 b1) = u" using u(1) by (rule unitE)
  have "ucs4 u = [ucast (join b0 b1)]"
    using b ucs4_of_unat [of "ucast (join b0 b1)"] by (simp add: unat_widen)
  then show "answers (utf16_waits True unit) (upto_max M) ucs4 (unit u @ more) cap 2 u
      (ucs4_step join M (unit u @ more) cap)"
    using u b cap no_wait [of u cap True more]
    by (auto simp: answers_def fails_def high_unit_def ucs4_step_def upto_max_def scalar_def byte_class Let_def
        word_less_nat unat_widen emit_def)
next
  fix u cap :: nat and more :: "u8 list"
  assume u: "low_unit u" and cap: "True \<longrightarrow> 0 < cap"
  then have "u < 0x10000" by (simp add: low_unit_def)
  then obtain b0 b1 where "unit u = [b0, b1]" "unat (join b0 b1) = u" by (rule unitE)
  then show "fails (utf16_waits True unit) (unit u @ more) cap (ucs4_step join M (unit u @ more) cap)"
    using u cap no_wait [of u cap True more]
    by (simp add: fails_def ucs4_step_def low_unit_def high_unit_def byte_class Let_def)
next
  fix u cap :: nat and more :: "u8 list"
  assume u: "high_unit u" and more: "length more < 2"
  then have "u < 0x10000" by (simp add: high_unit_def)
  then obtain b0 b1 where "unit u = [b0, b1]" "unat (join b0 b1) = u" by (rule unitE)
  then show "fails (utf16_waits True unit) (unit u @ more) cap (ucs4_step join M (unit u @ more) cap)"
    using u more waits_half [OF u more, of cap]
    by (auto simp: fails_def ucs4_step_def high_unit_def byte_class Let_def)
next
  fix u v cap :: nat and more :: "u8 list"
  assume u: "high_unit u" and v: "v < 0x10000" and cap: "True \<longrightarrow> 0 < cap"
  have "u < 0x10000" using u by (simp add: high_unit_def)
  then obtain b0 b1 where b: "unit u = [b0, b1]" "unat (join b0 b1) = u" by (rule unitE)
  obtain b2 b3 where b': "unit v = [b2, b3]" "unat (join b2 b3) = v" using v by (rule unitE)
  show "if low_unit v
    then answers (utf16_waits True unit) (upto_max M) ucs4 (unit u @ unit v @ more) cap 4 (pair_value u v)
      (ucs4_step join M (unit u @ unit v @ more) cap)
    else fails (utf16_waits True unit) (unit u @ unit v @ more) cap (ucs4_step join M (unit u @ unit v @ more) cap)"
    using u cap b b' no_wait_pair [of cap True u v more] unat_pair_bits [of "join b0 b1" "join b2 b3"] pair_value [of u v]
      ucs4_of_unat [of "pair_bits (join b0 b1) (join b2 b3)"]
    by (auto simp: answers_def fails_def ucs4_step_def upto_max_def high_unit_def low_unit_def byte_class
        Let_def word_less_nat unat_widen emit_def)
qed (auto simp: guard_pair_def fin_rest_def upto_max_def unit_length units_exist utf16_waits_def)

lemma ucs2_reader:
  "utf16_reader guard_pair fin_rest (ucs2_step join M) 2 4 True (utf16_waits False unit) (bmp_upto M) unit ucs2"
proof
  fix u cap :: nat and more :: "u8 list"
  assume u: "u < 0x10000" "scalar u" and cap: "True \<longrightarrow> 0 < cap"
  obtain b0 b1 where b: "unit u = [b0, b1]" "unat (join b0 b1) = u" using u(1) by (rule unitE)
  have "ucs2 u = [join b0 b1]" using b ucs2_of_unat [of "join b0 b1"] by simp
  then show "answers (utf16_waits False unit) (bmp_upto M) ucs2 (unit u @ more) cap 2 u
      (ucs2_step join M (unit u @ more) cap)"
    using u b cap no_wait [of u cap False more]
    by (auto simp: answers_def fails_def high_unit_def ucs2_step_def bmp_upto_def upto_max_def scalar_def byte_class Let_def
        word_less_nat unat_widen emit_def)
next
  fix u cap :: nat and more :: "u8 list"
  assume u: "low_unit u" and cap: "True \<longrightarrow> 0 < cap"
  then have "u < 0x10000" by (simp add: low_unit_def)
  then obtain b0 b1 where "unit u = [b0, b1]" "unat (join b0 b1) = u" by (rule unitE)
  then show "fails (utf16_waits False unit) (unit u @ more) cap (ucs2_step join M (unit u @ more) cap)"
    using u cap no_wait [of u cap False more]
    by (simp add: fails_def ucs2_step_def low_unit_def high_unit_def byte_class Let_def)
next
  fix u cap :: nat and more :: "u8 list"
  assume u: "high_unit u" and cap: "True \<longrightarrow> 0 < cap"
  have "u < 0x10000" using u by (simp add: high_unit_def)
  then obtain b0 b1 where "unit u = [b0, b1]" "unat (join b0 b1) = u" by (rule unitE)
  then show "fails (utf16_waits False unit) (unit u @ more) cap (ucs2_step join M (unit u @ more) cap)"
    using u cap no_wait_unit [of cap u more]
    by (auto simp: fails_def ucs2_step_def high_unit_def byte_class Let_def)
next
  fix u v cap :: nat and more :: "u8 list"
  assume u: "high_unit u" and v: "v < 0x10000" and cap: "True \<longrightarrow> 0 < cap"
  then have "u < 0x10000" by (simp add: high_unit_def)
  then obtain b0 b1 where "unit u = [b0, b1]" "unat (join b0 b1) = u" by (rule unitE)
  then have "ucs2_step join M (unit u @ unit v @ more) cap = Ret error"
    using u by (auto simp: ucs2_step_def high_unit_def byte_class Let_def)
  then show "if low_unit v
    then answers (utf16_waits False unit) (bmp_upto M) ucs2 (unit u @ unit v @ more) cap 4 (pair_value u v)
      (ucs2_step join M (unit u @ unit v @ more) cap)
    else fails (utf16_waits False unit) (unit u @ unit v @ more) cap (ucs2_step join M (unit u @ unit v @ more) cap)"
    using pair_value(3) [OF u, of v] no_wait_pair [of cap False u v more] cap
    by (auto simp: answers_def fails_def bmp_upto_def)
qed (auto simp: guard_pair_def fin_rest_def bmp_upto_def upto_max_def unit_length units_exist utf16_waits_def)

end

lemma join_bytes: "unat (ucast (push_bit 8 (ucast (b0::u8)) OR ucast (b1::u8) :: u32) :: u16) = unat b0 * 256 + unat b1"
proof -
  have "unat b0 < 256" "unat b1 < 256" by simp_all
  then have "unat b0 * 256 + unat b1 < 65536" by linarith
  then show ?thesis by (simp add: word_nat field_nat)
qed

lemma split_bytes:
  "(unat (b0::u8) * 256 + unat (b1::u8)) div 256 = unat b0" "(unat b0 * 256 + unat b1) mod 256 = unat b1"
  by (rule radix; simp)+

interpretation be: byte_order join_be unit_be
proof
  fix u :: nat assume "u < 0x10000"
  then have "unit_be u = [of_nat (u div 256), of_nat (u mod 256)] \<and>
      unat (join_be (of_nat (u div 256)) (of_nat (u mod 256))) = u"
    using div_mult_mod_eq [of u 256] by (simp add: unit_be_def join_be_def join_bytes unat_of_nat_word)
  then show "\<exists>b0 b1. unit_be u = [b0, b1] \<and> unat (join_be b0 b1) = u" by blast
qed (simp_all add: unit_be_def join_be_def join_bytes split_bytes)

interpretation le: byte_order join_le unit_le
proof
  fix u :: nat assume "u < 0x10000"
  then have "unit_le u = [of_nat (u mod 256), of_nat (u div 256)] \<and>
      unat (join_le (of_nat (u mod 256)) (of_nat (u div 256))) = u"
    using div_mult_mod_eq [of u 256] by (simp add: unit_le_def join_le_def join_bytes unat_of_nat_word)
  then show "\<exists>b0 b1. unit_le u = [b0, b1] \<and> unat (join_le b0 b1) = u" by blast
qed (simp_all add: unit_le_def join_le_def join_bytes split_bytes)

section \<open>Writing in either byte order\<close>

lemma be_bytes16: "unit_be (unat (w::u16)) = [ucast (drop_bit 8 w), ucast w]"
  by (simp add: unit_be_def word_nat)

lemma le_bytes16: "unit_le (unat (w::u16)) = [ucast w, ucast (drop_bit 8 w)]"
  by (simp add: unit_le_def word_nat)

lemma be_bytes32: "unat (w::u32) < 0x10000 \<Longrightarrow> utf16_be (unat w) = [ucast (drop_bit 8 w), ucast w]"
  by (simp add: utf16_one unit_be_def word_nat)

lemma le_bytes32: "unat (w::u32) < 0x10000 \<Longrightarrow> utf16_le (unat w) = [ucast w, ucast (drop_bit 8 w)]"
  by (simp add: utf16_one unit_le_def word_nat)

lemma utf16_halves:
  assumes "\<not> unat wc < 0x10000" and "unat wc < 0x110000"
  shows "utf16_form unit (unat wc) = unit (unat (high_half wc)) @ unit (unat (low_half wc))"
  using assms unat_halves [of wc] by (simp add: utf16_form_def utf16_def)

lemmas be_halves = utf16_halves [where unit = unit_be, unfolded be_bytes16]
lemmas le_halves = utf16_halves [where unit = unit_le, unfolded le_bytes16]

section \<open>The bodies keep their contracts\<close>

interpretation ucs2_utf16be: unit_encoder "ucs2_to_utf16be_body M" "bmp_upto M" utf16_be for M
proof
  fix w :: u16 and more and cap :: nat
  have "unat w < 1114112" by (rule less_trans [of _ 65536]) simp_all
  then show "ucs2_to_utf16be_body M (w # more) cap =
    (if \<not> bmp_upto M (unat w) then Ret error
     else if length (utf16_be (unat w)) \<le> cap then Cont 1 (utf16_be (unat w)) else Ret partial)"
    by (auto simp: ucs2_to_utf16be_body_def bmp_upto_def upto_max_def scalar_def byte_class
        word_less_nat unat_widen utf16_one be_bytes16 emit_def)
next
  fix c assume "bmp_upto M c"
  then show "c < 2 ^ LENGTH(16)" and "utf16_be c \<noteq> []"
    using length_utf16 [of c] by (auto simp: bmp_upto_def split: if_splits)
qed

lemma ucs4_to_utf16be_encoder:
  assumes "M \<le> 0x10FFFF"
  shows "unit_encoder (ucs4_to_utf16be_body M) (upto_max M) utf16_be"
proof
  fix w :: u32 and more and cap :: nat
  show "ucs4_to_utf16be_body M (w # more) cap =
    (if \<not> upto_max M (unat w) then Ret error
     else if length (utf16_be (unat w)) \<le> cap then Cont 1 (utf16_be (unat w)) else Ret partial)"
    using assms
    by (auto simp: ucs4_to_utf16be_body_def upto_max_def scalar_def byte_class word_less_nat
        word_le_nat unat_widen length_utf16 Let_def be_bytes32 be_halves emit_def)
next
  fix c assume "upto_max M c"
  then show "c < 2 ^ LENGTH(32)" and "utf16_be c \<noteq> []"
    using length_utf16 [of c] by (auto simp: upto_max_def scalar_def split: if_splits)
qed

interpretation ucs4_utf16be: unit_encoder "ucs4_to_utf16be_body 0x10FFFF" "upto_max 0x10FFFF" utf16_be
  by (rule ucs4_to_utf16be_encoder) simp

lemma utf16be_step:
  "utf16be_to_ucs4_body M = ucs4_step join_be M" "utf16be_to_ucs2_body M = ucs2_step join_be M"
  unfolding fun_eq_iff utf16be_to_ucs4_body_def utf16be_to_ucs2_body_def ucs4_step_def
    ucs2_step_def join_be_def by simp_all

interpretation utf16be_ucs4: utf16_reader guard_pair fin_rest "utf16be_to_ucs4_body M" 2 4 True
    "utf16_waits True unit_be" "upto_max M" unit_be ucs4 for M
  using be.ucs4_reader [of M] by (simp only: utf16be_step)

interpretation utf16be_ucs2: utf16_reader guard_pair fin_rest "utf16be_to_ucs2_body M" 2 4 True
    "utf16_waits False unit_be" "bmp_upto M" unit_be ucs2 for M
  using be.ucs2_reader [of M] by (simp only: utf16be_step)

interpretation ucs4_be: codec_pair guard_out fin_ok "ucs4_to_utf16be_body 0x10FFFF" 1 False never
    guard_pair fin_rest "utf16be_to_ucs4_body 0x10FFFF" 2 True
    "utf16_waits True unit_be" "upto_max 0x10FFFF" ucs4 utf16_be
  using ucs4_utf16be.contract by (intro codec_pair.intro utf16be_ucs4.contract) (simp add: ucs4_fun)

interpretation ucs2_be: codec_pair guard_out fin_ok "ucs2_to_utf16be_body M" 1 False never
    guard_pair fin_rest "utf16be_to_ucs2_body M" 2 True
    "utf16_waits False unit_be" "bmp_upto M" ucs2 utf16_be for M
  using ucs2_utf16be.contract [of M]
  by (intro codec_pair.intro utf16be_ucs2.contract) (simp add: ucs2_fun)

lemma utf16be_length_body_eq:
  assumes "guard_pair (length frm) mx"
  shows "utf16be_to_ucs4_length_body M frm mx = step_len (utf16be_to_ucs4_body M frm mx)"
    "utf16be_to_ucs2_length_body M frm mx = step_len (utf16be_to_ucs2_body M frm mx)"
  using assms
  by (auto simp: guard_pair_def utf16be_to_ucs4_length_body_def utf16be_to_ucs4_body_def
      utf16be_to_ucs2_length_body_def utf16be_to_ucs2_body_def rd_def rd_len_def
      emit_def advance_def Let_def)

interpretation ucs2_utf16le: unit_encoder "ucs2_to_utf16le_body M" "bmp_upto M" utf16_le for M
proof
  fix w :: u16 and more and cap :: nat
  have "unat w < 1114112" by (rule less_trans [of _ 65536]) simp_all
  then show "ucs2_to_utf16le_body M (w # more) cap =
    (if \<not> bmp_upto M (unat w) then Ret error
     else if length (utf16_le (unat w)) \<le> cap then Cont 1 (utf16_le (unat w)) else Ret partial)"
    by (auto simp: ucs2_to_utf16le_body_def bmp_upto_def upto_max_def scalar_def byte_class
        word_less_nat unat_widen utf16_one le_bytes16 emit_def)
next
  fix c assume "bmp_upto M c"
  then show "c < 2 ^ LENGTH(16)" and "utf16_le c \<noteq> []"
    using length_utf16 [of c] by (auto simp: bmp_upto_def split: if_splits)
qed

lemma ucs4_to_utf16le_encoder:
  assumes "M \<le> 0x10FFFF"
  shows "unit_encoder (ucs4_to_utf16le_body M) (upto_max M) utf16_le"
proof
  fix w :: u32 and more and cap :: nat
  show "ucs4_to_utf16le_body M (w # more) cap =
    (if \<not> upto_max M (unat w) then Ret error
     else if length (utf16_le (unat w)) \<le> cap then Cont 1 (utf16_le (unat w)) else Ret partial)"
    using assms
    by (auto simp: ucs4_to_utf16le_body_def upto_max_def scalar_def byte_class word_less_nat
        word_le_nat unat_widen length_utf16 Let_def le_bytes32 le_halves emit_def)
next
  fix c assume "upto_max M c"
  then show "c < 2 ^ LENGTH(32)" and "utf16_le c \<noteq> []"
    using length_utf16 [of c] by (auto simp: upto_max_def scalar_def split: if_splits)
qed

interpretation ucs4_utf16le: unit_encoder "ucs4_to_utf16le_body 0x10FFFF" "upto_max 0x10FFFF" utf16_le
  by (rule ucs4_to_utf16le_encoder) simp

lemma utf16le_step:
  "utf16le_to_ucs4_body M = ucs4_step join_le M" "utf16le_to_ucs2_body M = ucs2_step join_le M"
  unfolding fun_eq_iff utf16le_to_ucs4_body_def utf16le_to_ucs2_body_def ucs4_step_def
    ucs2_step_def join_le_def by simp_all

interpretation utf16le_ucs4: utf16_reader guard_pair fin_rest "utf16le_to_ucs4_body M" 2 4 True
    "utf16_waits True unit_le" "upto_max M" unit_le ucs4 for M
  using le.ucs4_reader [of M] by (simp only: utf16le_step)

interpretation utf16le_ucs2: utf16_reader guard_pair fin_rest "utf16le_to_ucs2_body M" 2 4 True
    "utf16_waits False unit_le" "bmp_upto M" unit_le ucs2 for M
  using le.ucs2_reader [of M] by (simp only: utf16le_step)

interpretation ucs4_le: codec_pair guard_out fin_ok "ucs4_to_utf16le_body 0x10FFFF" 1 False never
    guard_pair fin_rest "utf16le_to_ucs4_body 0x10FFFF" 2 True
    "utf16_waits True unit_le" "upto_max 0x10FFFF" ucs4 utf16_le
  using ucs4_utf16le.contract by (intro codec_pair.intro utf16le_ucs4.contract) (simp add: ucs4_fun)

interpretation ucs2_le: codec_pair guard_out fin_ok "ucs2_to_utf16le_body M" 1 False never
    guard_pair fin_rest "utf16le_to_ucs2_body M" 2 True
    "utf16_waits False unit_le" "bmp_upto M" ucs2 utf16_le for M
  using ucs2_utf16le.contract [of M]
  by (intro codec_pair.intro utf16le_ucs2.contract) (simp add: ucs2_fun)

lemma utf16le_length_body_eq:
  assumes "guard_pair (length frm) mx"
  shows "utf16le_to_ucs4_length_body M frm mx = step_len (utf16le_to_ucs4_body M frm mx)"
    "utf16le_to_ucs2_length_body M frm mx = step_len (utf16le_to_ucs2_body M frm mx)"
  using assms
  by (auto simp: guard_pair_def utf16le_to_ucs4_length_body_def utf16le_to_ucs4_body_def
      utf16le_to_ucs2_length_body_def utf16le_to_ucs2_body_def rd_def rd_len_def
      emit_def advance_def Let_def)

lemma ucs4_utf16_transcoder:
  assumes "M \<le> 0x10FFFF"
  shows "transcoder guard_out fin_ok (ucs4_to_utf16be_body M) 1 False never (upto_max M) ucs4 utf16_be"
    "transcoder guard_out fin_ok (ucs4_to_utf16le_body M) 1 False never (upto_max M) ucs4 utf16_le"
  using unit_encoder.contract [OF ucs4_to_utf16be_encoder [OF assms]]
    unit_encoder.contract [OF ucs4_to_utf16le_encoder [OF assms]]
  by (simp_all add: ucs4_fun)

lemma ucs4_utf16_pair:
  assumes "M \<le> 0x10FFFF"
  shows "codec_pair guard_out fin_ok (ucs4_to_utf16be_body M) 1 False never
      guard_pair fin_rest (utf16be_to_ucs4_body M) 2 True (utf16_waits True unit_be)
        (upto_max M) ucs4 utf16_be"
    "codec_pair guard_out fin_ok (ucs4_to_utf16le_body M) 1 False never
      guard_pair fin_rest (utf16le_to_ucs4_body M) 2 True (utf16_waits True unit_le)
        (upto_max M) ucs4 utf16_le"
  by (intro codec_pair.intro ucs4_utf16_transcoder [OF assms] utf16be_ucs4.contract
      utf16le_ucs4.contract)+

lemma utf16_length_counts:
  "utf16be_to_ucs4_length M mode frm mx = map_option outcome_len (utf16be_to_ucs4 M mode frm mx) \<and>
   utf16le_to_ucs4_length M mode frm mx = map_option outcome_len (utf16le_to_ucs4 M mode frm mx) \<and>
   utf16be_to_ucs2_length M mode frm mx = map_option outcome_len (utf16be_to_ucs2 M mode frm mx) \<and>
   utf16le_to_ucs2_length M mode frm mx = map_option outcome_len (utf16le_to_ucs2 M mode frm mx)"
  unfolding utf16be_to_ucs4_length_def utf16be_to_ucs4_def utf16le_to_ucs4_length_def
    utf16le_to_ucs4_def utf16be_to_ucs2_length_def utf16be_to_ucs2_def utf16le_to_ucs2_length_def
    utf16le_to_ucs2_def skip_header_eq
  by (intro conjI utf16be_ucs4.len_loop_eq utf16le_ucs4.len_loop_eq utf16be_ucs2.len_loop_eq
      utf16le_ucs2.len_loop_eq) (simp_all add: utf16be_length_body_eq utf16le_length_body_eq)

section \<open>Properties\<close>

text \<open>
  Encoding UCS-4 as UTF-16 in either byte order always returns, stays inside both buffers and
  writes the byte order mark the mode asks for and then exactly the UTF-16 bytes of the code points
  it read, a pair for each code point outside the basic plane; surrogates and code points above
  \<open>Maxcode\<close> are an \<open>error\<close>.
\<close>

lemma ucs4_to_utf16_correct:
  assumes "M \<le> 0x10FFFF"
  shows "(\<exists>r n w. ucs4_to_utf16be M mode frm cap = Some (Done r n w) \<and>
      encodes never (upto_max M) ucs4 utf16_be (header mode utf16be_bom) frm cap r n w) \<and>
    (\<exists>r n w. ucs4_to_utf16le M mode frm cap = Some (Done r n w) \<and>
      encodes never (upto_max M) ucs4 utf16_le (header mode utf16le_bom) frm cap r n w)"
  unfolding ucs4_to_utf16be_def ucs4_to_utf16le_def
  by (intro conjI transcoder.write_encodes [OF ucs4_utf16_transcoder(1) [OF assms]]
      transcoder.write_encodes [OF ucs4_utf16_transcoder(2) [OF assms]])

text \<open>
  Decoding UTF-16 bytes of either order to UCS-4 always returns, stays inside both buffers and
  stores exactly the code points whose bytes it read; an odd byte or half a pair at the end is
  \<open>partial\<close> and is not consumed, a lone surrogate is an \<open>error\<close>.
\<close>

lemma utf16_to_ucs4_correct:
  "(\<exists>r n w. utf16be_to_ucs4 M mode frm cap = Some (Done r n w) \<and>
      decodes (utf16_waits True unit_be) (upto_max M) utf16_be ucs4 (skipped mode utf16be_bom frm) frm cap r n w) \<and>
   (\<exists>r n w. utf16le_to_ucs4 M mode frm cap = Some (Done r n w) \<and>
      decodes (utf16_waits True unit_le) (upto_max M) utf16_le ucs4 (skipped mode utf16le_bom frm) frm cap r n w)"
  using utf16be_ucs4.skip_decodes [of mode utf16be_bom frm M cap]
    utf16le_ucs4.skip_decodes [of mode utf16le_bom frm M cap]
  by (simp add: utf16be_to_ucs4_def utf16le_to_ucs4_def)

text \<open>
  C29: The four UCS-4 routines for UTF-16 bytes, of either order, always return and stay inside both buffers.  Encoding
  writes the byte order mark the mode asks for and exactly the UTF-16 form of each code point it read; decoding stores exactly the code points
  whose bytes it read; none stops before a code point up to \<open>Maxcode\<close> whose form fits (encoders: \<open>Maxcode\<close> up to 0x10FFFF).
  \<open>ok\<close> is returned exactly at the end of the input; \<open>partial\<close> exactly before an accepted code point whose form does not fit, and
  by a decoder also when the destination is full, at an odd byte and at half a pair at the end, which are not consumed; everything else is an \<open>error\<close>:
  a surrogate (in UTF-16 a low one, or a high one not followed by a low one) and a code point above \<open>Maxcode\<close>.
\<close>

theorem ucs4_utf16_correct:
  assumes "M \<le> 0x10FFFF"
  shows "(\<exists>r n w. ucs4_to_utf16be M mode frm cap = Some (Done r n w) \<and>
      encodes never (upto_max M) ucs4 utf16_be (header mode utf16be_bom) frm cap r n w) \<and>
    (\<exists>r n w. ucs4_to_utf16le M mode frm cap = Some (Done r n w) \<and>
      encodes never (upto_max M) ucs4 utf16_le (header mode utf16le_bom) frm cap r n w) \<and>
    (\<exists>r n w. utf16be_to_ucs4 M' mode bs cap' = Some (Done r n w) \<and>
      decodes (utf16_waits True unit_be) (upto_max M') utf16_be ucs4 (skipped mode utf16be_bom bs) bs cap' r n w) \<and>
    (\<exists>r n w. utf16le_to_ucs4 M' mode bs cap' = Some (Done r n w) \<and>
      decodes (utf16_waits True unit_le) (upto_max M') utf16_le ucs4 (skipped mode utf16le_bom bs) bs cap' r n w)"
  using ucs4_to_utf16_correct [OF assms, of mode frm cap] utf16_to_ucs4_correct [of M' mode bs cap'] by blast

theorem ucs4_utf16_correct_witness:
  "(0x10FFFF::u64) \<le> 0x10FFFF \<and>
   (\<exists>r n w. ucs4_to_utf16be 0x10FFFF 2 [0x1F600] 6 = Some (Done r n w) \<and>
      encodes never (upto_max 0x10FFFF) ucs4 utf16_be (header 2 utf16be_bom) [0x1F600] 6 r n w)"
  using ucs4_utf16_correct [of "0x10FFFF" 2 "[0x1F600]" 6 0 "[]" 0] by blast

text \<open>
  Encoding UCS-2 as UTF-16 bytes of either order always returns, stays inside both buffers and
  writes exactly two bytes for each element it read, behind the byte order mark; a surrogate or an
  element above \<open>Maxcode\<close> is an \<open>error\<close>.
\<close>

lemma ucs2_to_utf16_correct:
  "(\<exists>r n w. ucs2_to_utf16be M mode frm cap = Some (Done r n w) \<and>
      encodes never (bmp_upto M) ucs2 utf16_be (header mode utf16be_bom) frm cap r n w) \<and>
   (\<exists>r n w. ucs2_to_utf16le M mode frm cap = Some (Done r n w) \<and>
      encodes never (bmp_upto M) ucs2 utf16_le (header mode utf16le_bom) frm cap r n w)"
  using ucs2_be.out.write_encodes [of mode utf16be_bom cap M frm]
    ucs2_le.out.write_encodes [of mode utf16le_bom cap M frm]
  by (simp add: ucs2_to_utf16be_def ucs2_to_utf16le_def)

text \<open>
  Decoding UTF-16 bytes of either order to UCS-2 always returns, stays inside both buffers and
  stores exactly the elements whose bytes it read; every surrogate is an \<open>error\<close>, so no pair is
  ever taken apart.
\<close>

lemma utf16_to_ucs2_correct:
  "(\<exists>r n w. utf16be_to_ucs2 M mode frm cap = Some (Done r n w) \<and>
      decodes (utf16_waits False unit_be) (bmp_upto M) utf16_be ucs2 (skipped mode utf16be_bom frm) frm cap r n w) \<and>
   (\<exists>r n w. utf16le_to_ucs2 M mode frm cap = Some (Done r n w) \<and>
      decodes (utf16_waits False unit_le) (bmp_upto M) utf16_le ucs2 (skipped mode utf16le_bom frm) frm cap r n w)"
  using utf16be_ucs2.skip_decodes [of mode utf16be_bom frm M cap]
    utf16le_ucs2.skip_decodes [of mode utf16le_bom frm M cap]
  by (simp add: utf16be_to_ucs2_def utf16le_to_ucs2_def)

text \<open>
  The UCS-2 routines for UTF-16 bytes of either order always return and stay inside both buffers: the
  encoders write exactly two bytes for each element they read, behind the byte order mark, the
  decoders store exactly the elements whose bytes they read; a surrogate is an \<open>error\<close> on both sides, so no
  pair is ever taken apart.
\<close>

lemma ucs2_utf16_correct:
  "(\<exists>r n w. ucs2_to_utf16be M mode frm cap = Some (Done r n w) \<and>
      encodes never (bmp_upto M) ucs2 utf16_be (header mode utf16be_bom) frm cap r n w) \<and>
   (\<exists>r n w. ucs2_to_utf16le M mode frm cap = Some (Done r n w) \<and>
      encodes never (bmp_upto M) ucs2 utf16_le (header mode utf16le_bom) frm cap r n w) \<and>
   (\<exists>r n w. utf16be_to_ucs2 M mode bs cap = Some (Done r n w) \<and>
      decodes (utf16_waits False unit_be) (bmp_upto M) utf16_be ucs2 (skipped mode utf16be_bom bs) bs cap r n w) \<and>
   (\<exists>r n w. utf16le_to_ucs2 M mode bs cap = Some (Done r n w) \<and>
      decodes (utf16_waits False unit_le) (bmp_upto M) utf16_le ucs2 (skipped mode utf16le_bom bs) bs cap r n w)"
  using ucs2_to_utf16_correct [of M mode frm cap] utf16_to_ucs2_correct [of M mode bs cap] by simp

text \<open>
  Round trip. Text that a UCS-4 encoder for UTF-16 encodes without error is restored by the
  decoder for the same byte order and \<open>Maxcode\<close>, byte order mark included.
\<close>

lemma ucs4_utf16_round_trip:
  assumes "M \<le> 0x10FFFF" and "gm AND generate_header \<noteq> 0 \<longleftrightarrow> cm AND consume_header \<noteq> 0"
    and "length frm \<le> cap'"
  shows "(ucs4_to_utf16be M gm frm cap = Some (Done ok n bs) \<longrightarrow>
      utf16be_to_ucs4 M cm bs cap' = Some (Done ok (length bs) frm)) \<and>
    (ucs4_to_utf16le M gm frm cap = Some (Done ok n bs) \<longrightarrow>
      utf16le_to_ucs4 M cm bs cap' = Some (Done ok (length bs) frm))"
  using codec_pair.out_in(2) [OF ucs4_utf16_pair(1) [OF assms(1)] _ assms(2,3), of utf16be_bom cap n bs]
    codec_pair.out_in(2) [OF ucs4_utf16_pair(2) [OF assms(1)] _ assms(2,3), of utf16le_bom cap n bs]
  by (simp add: ucs4_to_utf16be_def utf16be_to_ucs4_def ucs4_to_utf16le_def utf16le_to_ucs4_def)

end
