(* ===== verification/Codecvt_Facets.thy ===== *)
theory Codecvt_Facets
  imports Utf8_Ucs4 Utf8_Ucs2 Utf8_Utf16 Utf16_Ucs
begin

text \<open>
  The code conversion facets of \<open>src/src/locale.cpp\<close> (lines 1445 to 1504 and 3108 to 4179): the
  Unicode facets of the standard library and of \<open>src/include/codecvt\<close> as tables of their virtual
  functions.  A facet with the members \<open>_Maxcode_\<close> and \<open>_Mode_\<close> is a function of these two.  The
  functions only rebase pointers (\<open>frm + (_frm_nxt - _frm)\<close>) around the routines of the other
  theories, which the model expresses by counting from the start of each buffer.

  \<open>wchar_t\<close> has 32 bits, except in \<open>codecvt_utf8_wchar_short\<close>, the variant of
  \<open>__codecvt_utf8<wchar_t>\<close> for \<open>_LIBCPP_SHORT_WCHAR\<close>.
\<close>

unbundle bit_operations_syntax

section \<open>The facets\<close>

record 'i facet =
  do_out :: "'i list \<Rightarrow> nat \<Rightarrow> u8 outcome option"
  do_in :: "u8 list \<Rightarrow> nat \<Rightarrow> 'i outcome option"
  do_unshift :: "nat \<Rightarrow> u8 outcome"
  do_encoding :: int
  do_always_noconv :: bool
  do_length :: "u8 list \<Rightarrow> nat \<Rightarrow> len_outcome option"
  do_max_length :: int

definition codecvt_char :: "u8 facet" where
  "codecvt_char =
     \<lparr> do_out = (\<lambda>frm cap. Some (Done noconv 0 [])),
       do_in = (\<lambda>frm cap. Some (Done noconv 0 [])),
       do_unshift = (\<lambda>cap. Done noconv 0 []),
       do_encoding = 1,
       do_always_noconv = True,
       do_length = (\<lambda>frm mx. Some (Len (cast_int (min mx (length frm))))),
       do_max_length = 1 \<rparr>"

definition codecvt_char16 :: "u16 facet" where
  "codecvt_char16 =
     \<lparr> do_out = utf16_to_utf8 0x10FFFF 0,
       do_in = utf8_to_utf16 0x10FFFF 0,
       do_unshift = (\<lambda>cap. Done noconv 0 []),
       do_encoding = 0,
       do_always_noconv = False,
       do_length = utf8_to_utf16_length 0x10FFFF 0,
       do_max_length = 4 \<rparr>"

definition codecvt_char32 :: "u32 facet" where
  "codecvt_char32 =
     \<lparr> do_out = ucs4_to_utf8 0x10FFFF 0,
       do_in = utf8_to_ucs4 0x10FFFF 0,
       do_unshift = (\<lambda>cap. Done noconv 0 []),
       do_encoding = 0,
       do_always_noconv = False,
       do_length = utf8_to_ucs4_length 0x10FFFF 0,
       do_max_length = 4 \<rparr>"

definition codecvt_utf8_wchar :: "u64 \<Rightarrow> codecvt_mode \<Rightarrow> u32 facet" where
  "codecvt_utf8_wchar Maxcode Mode =
     \<lparr> do_out = ucs4_to_utf8 Maxcode Mode,
       do_in = utf8_to_ucs4 Maxcode Mode,
       do_unshift = (\<lambda>cap. Done noconv 0 []),
       do_encoding = 0,
       do_always_noconv = False,
       do_length = utf8_to_ucs4_length Maxcode Mode,
       do_max_length = (if Mode AND consume_header \<noteq> 0 then 7 else 4) \<rparr>"

definition codecvt_utf8_wchar_short :: "u64 \<Rightarrow> codecvt_mode \<Rightarrow> u16 facet" where
  "codecvt_utf8_wchar_short Maxcode Mode =
     \<lparr> do_out = ucs2_to_utf8 Maxcode Mode,
       do_in = utf8_to_ucs2 Maxcode Mode,
       do_unshift = (\<lambda>cap. Done noconv 0 []),
       do_encoding = 0,
       do_always_noconv = False,
       do_length = utf8_to_ucs4_length Maxcode Mode,
       do_max_length = (if Mode AND consume_header \<noteq> 0 then 7 else 4) \<rparr>"

definition codecvt_utf8_char16 :: "u64 \<Rightarrow> codecvt_mode \<Rightarrow> u16 facet" where
  "codecvt_utf8_char16 Maxcode Mode =
     \<lparr> do_out = ucs2_to_utf8 Maxcode Mode,
       do_in = utf8_to_ucs2 Maxcode Mode,
       do_unshift = (\<lambda>cap. Done noconv 0 []),
       do_encoding = 0,
       do_always_noconv = False,
       do_length = utf8_to_ucs2_length Maxcode Mode,
       do_max_length = (if Mode AND consume_header \<noteq> 0 then 6 else 3) \<rparr>"

definition codecvt_utf8_char32 :: "u64 \<Rightarrow> codecvt_mode \<Rightarrow> u32 facet" where
  "codecvt_utf8_char32 Maxcode Mode =
     \<lparr> do_out = ucs4_to_utf8 Maxcode Mode,
       do_in = utf8_to_ucs4 Maxcode Mode,
       do_unshift = (\<lambda>cap. Done noconv 0 []),
       do_encoding = 0,
       do_always_noconv = False,
       do_length = utf8_to_ucs4_length Maxcode Mode,
       do_max_length = (if Mode AND consume_header \<noteq> 0 then 7 else 4) \<rparr>"

definition codecvt_utf16_wchar_be :: "u64 \<Rightarrow> codecvt_mode \<Rightarrow> u32 facet" where
  "codecvt_utf16_wchar_be Maxcode Mode =
     \<lparr> do_out = ucs4_to_utf16be Maxcode Mode,
       do_in = utf16be_to_ucs4 Maxcode Mode,
       do_unshift = (\<lambda>cap. Done noconv 0 []),
       do_encoding = 0,
       do_always_noconv = False,
       do_length = utf16be_to_ucs4_length Maxcode Mode,
       do_max_length = (if Mode AND consume_header \<noteq> 0 then 6 else 4) \<rparr>"

definition codecvt_utf16_wchar_le :: "u64 \<Rightarrow> codecvt_mode \<Rightarrow> u32 facet" where
  "codecvt_utf16_wchar_le Maxcode Mode =
     \<lparr> do_out = ucs4_to_utf16le Maxcode Mode,
       do_in = utf16le_to_ucs4 Maxcode Mode,
       do_unshift = (\<lambda>cap. Done noconv 0 []),
       do_encoding = 0,
       do_always_noconv = False,
       do_length = utf16le_to_ucs4_length Maxcode Mode,
       do_max_length = (if Mode AND consume_header \<noteq> 0 then 6 else 4) \<rparr>"

definition codecvt_utf16_char16_be :: "u64 \<Rightarrow> codecvt_mode \<Rightarrow> u16 facet" where
  "codecvt_utf16_char16_be Maxcode Mode =
     \<lparr> do_out = ucs2_to_utf16be Maxcode Mode,
       do_in = utf16be_to_ucs2 Maxcode Mode,
       do_unshift = (\<lambda>cap. Done noconv 0 []),
       do_encoding = 0,
       do_always_noconv = False,
       do_length = utf16be_to_ucs2_length Maxcode Mode,
       do_max_length = (if Mode AND consume_header \<noteq> 0 then 4 else 2) \<rparr>"

definition codecvt_utf16_char16_le :: "u64 \<Rightarrow> codecvt_mode \<Rightarrow> u16 facet" where
  "codecvt_utf16_char16_le Maxcode Mode =
     \<lparr> do_out = ucs2_to_utf16le Maxcode Mode,
       do_in = utf16le_to_ucs2 Maxcode Mode,
       do_unshift = (\<lambda>cap. Done noconv 0 []),
       do_encoding = 0,
       do_always_noconv = False,
       do_length = utf16le_to_ucs2_length Maxcode Mode,
       do_max_length = (if Mode AND consume_header \<noteq> 0 then 4 else 2) \<rparr>"

definition codecvt_utf16_char32_be :: "u64 \<Rightarrow> codecvt_mode \<Rightarrow> u32 facet" where
  "codecvt_utf16_char32_be Maxcode Mode =
     \<lparr> do_out = ucs4_to_utf16be Maxcode Mode,
       do_in = utf16be_to_ucs4 Maxcode Mode,
       do_unshift = (\<lambda>cap. Done noconv 0 []),
       do_encoding = 0,
       do_always_noconv = False,
       do_length = utf16be_to_ucs4_length Maxcode Mode,
       do_max_length = (if Mode AND consume_header \<noteq> 0 then 6 else 4) \<rparr>"

definition codecvt_utf16_char32_le :: "u64 \<Rightarrow> codecvt_mode \<Rightarrow> u32 facet" where
  "codecvt_utf16_char32_le Maxcode Mode =
     \<lparr> do_out = ucs4_to_utf16le Maxcode Mode,
       do_in = utf16le_to_ucs4 Maxcode Mode,
       do_unshift = (\<lambda>cap. Done noconv 0 []),
       do_encoding = 0,
       do_always_noconv = False,
       do_length = utf16le_to_ucs4_length Maxcode Mode,
       do_max_length = (if Mode AND consume_header \<noteq> 0 then 6 else 4) \<rparr>"

definition codecvt_utf8_utf16_wchar :: "u64 \<Rightarrow> codecvt_mode \<Rightarrow> u32 facet" where
  "codecvt_utf8_utf16_wchar Maxcode Mode =
     \<lparr> do_out = utf16_to_utf8_u32 Maxcode Mode,
       do_in = utf8_to_utf16_u32 Maxcode Mode,
       do_unshift = (\<lambda>cap. Done noconv 0 []),
       do_encoding = 0,
       do_always_noconv = False,
       do_length = utf8_to_utf16_length Maxcode Mode,
       do_max_length = (if Mode AND consume_header \<noteq> 0 then 7 else 4) \<rparr>"

definition codecvt_utf8_utf16_char16 :: "u64 \<Rightarrow> codecvt_mode \<Rightarrow> u16 facet" where
  "codecvt_utf8_utf16_char16 Maxcode Mode =
     \<lparr> do_out = utf16_to_utf8 Maxcode Mode,
       do_in = utf8_to_utf16 Maxcode Mode,
       do_unshift = (\<lambda>cap. Done noconv 0 []),
       do_encoding = 0,
       do_always_noconv = False,
       do_length = utf8_to_utf16_length Maxcode Mode,
       do_max_length = (if Mode AND consume_header \<noteq> 0 then 7 else 4) \<rparr>"

definition codecvt_utf8_utf16_char32 :: "u64 \<Rightarrow> codecvt_mode \<Rightarrow> u32 facet" where
  "codecvt_utf8_utf16_char32 Maxcode Mode =
     \<lparr> do_out = utf16_to_utf8_u32 Maxcode Mode,
       do_in = utf8_to_utf16_u32 Maxcode Mode,
       do_unshift = (\<lambda>cap. Done noconv 0 []),
       do_encoding = 0,
       do_always_noconv = False,
       do_length = utf8_to_utf16_length Maxcode Mode,
       do_max_length = (if Mode AND consume_header \<noteq> 0 then 7 else 4) \<rparr>"

section \<open>What a facet promises\<close>

text \<open>
  The contract of a facet: \<open>do_out\<close> and \<open>do_in\<close> return inside their buffers, \<open>do_in\<close> restores
  what \<open>do_out\<close> wrote for a text the facet can represent, \<open>do_length\<close> counts what \<open>do_in\<close> consumes,
  and one character takes at most \<open>do_max_length\<close> bytes.
\<close>

locale codec_facet =
  fixes f :: "'i facet"
    and text_ok :: "'i list \<Rightarrow> bool"
  assumes out_returns: "\<exists>r n w. do_out f frm cap = Some (Done r n w) \<and> n \<le> length frm \<and> length w \<le> cap"
    and in_returns: "\<exists>r n w. do_in f bs cap = Some (Done r n w) \<and> n \<le> length bs \<and> length w \<le> cap"
    and restores: "do_out f frm cap = Some (Done ok n bs) \<Longrightarrow> text_ok frm \<Longrightarrow> length frm \<le> cap' \<Longrightarrow>
      do_in f bs cap' = Some (Done ok (length bs) frm)"
    and length_in: "do_length f bs mx = map_option outcome_len (do_in f bs mx)"
    and one: "do_in f bs 1 = Some (Done r n w) \<Longrightarrow> int n \<le> do_max_length f"
    and small: "do_max_length f \<le> 7"
begin

lemma length_bounded: "\<exists>k. do_length f bs 1 = Some (Len k) \<and> 0 \<le> k \<and> k \<le> do_max_length f"
proof -
  obtain r n w where "do_in f bs 1 = Some (Done r n w)"
    using in_returns by blast
  with one [OF this] small show ?thesis
    by (simp add: length_in cast_int_small)
qed

lemma length_consumed:
  assumes "do_in f bs mx = Some (Done r n w)" and "length bs < 2147483648"
  shows "do_length f bs mx = Some (Len (int n))"
proof -
  have "n \<le> length bs" using in_returns [of bs mx] assms(1) by auto
  then show ?thesis using assms by (simp add: length_in cast_int_small)
qed

end

lemma decodes_one:
  assumes "decodes waits valid src dst k frm 1 r n w"
    and "\<And>c. valid c \<Longrightarrow> dst c \<noteq> [] \<and> length (src c) \<le> L"
  shows "n \<le> k + L"
proof -
  obtain cs where cs: "\<forall>c\<in>set cs. valid c" "take (n - k) (drop k frm) = concat (map src cs)"
      "w = concat (map dst cs)" and len: "k \<le> n" "n - k \<le> length (drop k frm)" "length w \<le> 1"
    using assms(1) by (auto simp: decodes_def transcodes_def)
  have "length cs \<le> length w"
    unfolding cs(3) using cs(1)
  proof (induction cs)
    case (Cons c cs)
    then show ?case using assms(2) [of c] by (cases "dst c") auto
  qed simp
  then have "length (concat (map src cs)) \<le> L"
  proof (cases cs)
    case (Cons c more)
    then have "length cs = Suc (length more)" by simp
    with \<open>length cs \<le> length w\<close> len(3) have "length more = 0" by linarith
    with Cons show ?thesis using cs(1) assms(2) [of c] by simp
  qed simp
  moreover have "length (concat (map src cs)) = n - k"
    using len(2) unfolding cs(2) [symmetric] by simp
  ultimately show ?thesis using len(1) by linarith
qed

lemma skipped_bound: "skipped mode bom frm \<le> (if mode AND consume_header \<noteq> 0 then length bom else 0)"
  by (simp add: skipped_def)

lemma decodes_bounds:
  "decodes waits valid src dst (skipped mode bom frm) frm cap r n w \<Longrightarrow>
    n \<le> length frm \<and> length w \<le> cap"
  using skipped_le [of mode bom frm] by (auto simp: decodes_def transcodes_def)

lemma encodes_bounds:
  "encodes waits valid src dst h frm cap r n w \<Longrightarrow> n \<le> length frm \<and> length w \<le> cap"
  by (auto simp: encodes_def transcodes_def split: if_splits)

text \<open>A facet whose two directions are described by the specifications keeps the contract.\<close>

lemma codec_facetI:
  assumes out: "\<And>frm cap. \<exists>r n w. do_out f frm cap = Some (Done r n w) \<and>
      encodes waits valid src dst h frm cap r n w"
    and inn: "\<And>bs cap. \<exists>r n w. do_in f bs cap = Some (Done r n w) \<and>
      decodes waits' valid' src' dst' (skipped mode bom bs) bs cap r n w"
    and restores: "\<And>frm cap n bs cap'. do_out f frm cap = Some (Done ok n bs) \<Longrightarrow> text_ok frm \<Longrightarrow>
      length frm \<le> cap' \<Longrightarrow> do_in f bs cap' = Some (Done ok (length bs) frm)"
    and len: "\<And>bs mx. do_length f bs mx = map_option outcome_len (do_in f bs mx)"
    and char: "\<And>c. valid' c \<Longrightarrow> dst' c \<noteq> [] \<and> length (src' c) \<le> L"
    and max: "int L + (if mode AND consume_header \<noteq> 0 then int (length bom) else 0) \<le> do_max_length f"
    and small: "do_max_length f \<le> 7"
  shows "codec_facet f text_ok"
proof
  show "\<exists>r n w. do_out f frm cap = Some (Done r n w) \<and> n \<le> length frm \<and> length w \<le> cap" for frm cap
    using out [of frm cap] encodes_bounds by blast
  show "\<exists>r n w. do_in f bs cap = Some (Done r n w) \<and> n \<le> length bs \<and> length w \<le> cap" for bs cap
    using inn [of bs cap] decodes_bounds by blast
  show "int n \<le> do_max_length f" if "do_in f bs 1 = Some (Done r n w)" for bs r n w
  proof -
    have "decodes waits' valid' src' dst' (skipped mode bom bs) bs 1 r n w"
      using inn [of bs 1] that by auto
    then have "n \<le> skipped mode bom bs + L" by (rule decodes_one) (rule char)
    with skipped_bound [of mode bom bs] max show ?thesis by (auto split: if_splits)
  qed
qed (use restores len small in auto)


section \<open>The facets keep the contract\<close>

text \<open>The two modes agree: a header is generated exactly if one is consumed.\<close>

definition symmetric_mode :: "codecvt_mode \<Rightarrow> bool" where
  "symmetric_mode Mode \<longleftrightarrow> (Mode AND generate_header \<noteq> 0 \<longleftrightarrow> Mode AND consume_header \<noteq> 0)"

lemma symmetric_mode_0: "symmetric_mode 0"
  by (simp add: symmetric_mode_def)

lemmas facet_codecs = ucs4_to_utf8_def utf8_to_ucs4_def ucs2_to_utf8_def utf8_to_ucs2_def
  utf16_to_utf8_def utf8_to_utf16_def ucs4_to_utf16be_def utf16be_to_ucs4_def ucs4_to_utf16le_def
  utf16le_to_ucs4_def ucs2_to_utf16be_def utf16be_to_ucs2_def ucs2_to_utf16le_def utf16le_to_ucs2_def

lemma utf8_char32_facet:
  assumes "M \<le> 0x10FFFF"
  shows "codec_facet (codecvt_utf8_char32 M Mode) (\<lambda>_. symmetric_mode Mode)"
proof (rule codec_facetI [where L = 4])
  show "\<exists>r n w. do_out (codecvt_utf8_char32 M Mode) frm cap = Some (Done r n w) \<and>
      encodes never (upto_max M) ucs4 utf8 (header Mode utf8_bom) frm cap r n w" for frm cap
    unfolding codecvt_utf8_char32_def facet.select_convs ucs4_to_utf8_def by (rule transcoder.write_encodes [OF ucs4_utf8_transcoder [OF assms]])
  show "\<exists>r n w. do_in (codecvt_utf8_char32 M Mode) bs cap = Some (Done r n w) \<and>
      decodes (utf8_waits any_lead) (upto_max M) utf8 ucs4 (skipped Mode utf8_bom bs) bs cap r n w" for bs cap
    unfolding codecvt_utf8_char32_def facet.select_convs utf8_to_ucs4_def by (rule utf8_ucs4.skip_decodes)
  show "do_length (codecvt_utf8_char32 M Mode) bs mx =
      map_option outcome_len (do_in (codecvt_utf8_char32 M Mode) bs mx)" for bs mx
    by (simp add: codecvt_utf8_char32_def utf8_to_ucs4_length_counts)
qed (use codec_pair.out_in(2) [OF ucs4_utf8_pair [OF assms], of Mode utf8_bom _ _ _ _ Mode] in
    \<open>auto simp: codecvt_utf8_char32_def ucs4_to_utf8_def utf8_to_ucs4_def symmetric_mode_def length_utf8 utf8_bom_def\<close>)

lemma utf8_char16_facet:
  "codec_facet (codecvt_utf8_char16 M Mode) (\<lambda>_. symmetric_mode Mode)"
proof (rule codec_facetI [where L = 3])
  show "\<exists>r n w. do_out (codecvt_utf8_char16 M Mode) frm cap = Some (Done r n w) \<and>
      encodes never (bmp_upto M) ucs2 utf8 (header Mode utf8_bom) frm cap r n w" for frm cap
    unfolding codecvt_utf8_char16_def facet.select_convs ucs2_to_utf8_def by (rule ucs2_pair.out.write_encodes)
  show "\<exists>r n w. do_in (codecvt_utf8_char16 M Mode) bs cap = Some (Done r n w) \<and>
      decodes (utf8_waits short_lead) (bmp_upto M) utf8 ucs2 (skipped Mode utf8_bom bs) bs cap r n w" for bs cap
    unfolding codecvt_utf8_char16_def facet.select_convs utf8_to_ucs2_def by (rule utf8_ucs2.skip_decodes)
  show "do_length (codecvt_utf8_char16 M Mode) bs mx =
      map_option outcome_len (do_in (codecvt_utf8_char16 M Mode) bs mx)" for bs mx
    by (simp add: codecvt_utf8_char16_def utf8_to_ucs2_length_counts)
qed (use ucs2_pair.out_in(2) [of Mode utf8_bom _ M _ _ _ Mode] in
    \<open>auto simp: codecvt_utf8_char16_def ucs2_to_utf8_def utf8_to_ucs2_def symmetric_mode_def length_utf8 bmp_upto_def utf8_bom_def\<close>)

lemma utf16_char32_be_facet:
  assumes "M \<le> 0x10FFFF"
  shows "codec_facet (codecvt_utf16_char32_be M Mode) (\<lambda>_. symmetric_mode Mode)"
proof (rule codec_facetI [where L = 4])
  show "\<exists>r n w. do_out (codecvt_utf16_char32_be M Mode) frm cap = Some (Done r n w) \<and>
      encodes never (upto_max M) ucs4 utf16_be (header Mode utf16be_bom) frm cap r n w" for frm cap
    unfolding codecvt_utf16_char32_be_def facet.select_convs ucs4_to_utf16be_def by (rule transcoder.write_encodes [OF ucs4_utf16_transcoder(1) [OF assms]])
  show "\<exists>r n w. do_in (codecvt_utf16_char32_be M Mode) bs cap = Some (Done r n w) \<and>
      decodes (utf16_waits True unit_be) (upto_max M) utf16_be ucs4 (skipped Mode utf16be_bom bs) bs cap r n w" for bs cap
    unfolding codecvt_utf16_char32_be_def facet.select_convs utf16be_to_ucs4_def by (rule utf16be_ucs4.skip_decodes)
  show "do_length (codecvt_utf16_char32_be M Mode) bs mx =
      map_option outcome_len (do_in (codecvt_utf16_char32_be M Mode) bs mx)" for bs mx
    by (simp add: codecvt_utf16_char32_be_def utf16_length_counts)
qed (use codec_pair.out_in(2) [OF ucs4_utf16_pair(1) [OF assms], of Mode utf16be_bom _ _ _ _ Mode] in
    \<open>auto simp: codecvt_utf16_char32_be_def ucs4_to_utf16be_def utf16be_to_ucs4_def symmetric_mode_def length_utf16 utf16be_bom_def\<close>)

lemma utf16_char32_le_facet:
  assumes "M \<le> 0x10FFFF"
  shows "codec_facet (codecvt_utf16_char32_le M Mode) (\<lambda>_. symmetric_mode Mode)"
proof (rule codec_facetI [where L = 4])
  show "\<exists>r n w. do_out (codecvt_utf16_char32_le M Mode) frm cap = Some (Done r n w) \<and>
      encodes never (upto_max M) ucs4 utf16_le (header Mode utf16le_bom) frm cap r n w" for frm cap
    unfolding codecvt_utf16_char32_le_def facet.select_convs ucs4_to_utf16le_def by (rule transcoder.write_encodes [OF ucs4_utf16_transcoder(2) [OF assms]])
  show "\<exists>r n w. do_in (codecvt_utf16_char32_le M Mode) bs cap = Some (Done r n w) \<and>
      decodes (utf16_waits True unit_le) (upto_max M) utf16_le ucs4 (skipped Mode utf16le_bom bs) bs cap r n w" for bs cap
    unfolding codecvt_utf16_char32_le_def facet.select_convs utf16le_to_ucs4_def by (rule utf16le_ucs4.skip_decodes)
  show "do_length (codecvt_utf16_char32_le M Mode) bs mx =
      map_option outcome_len (do_in (codecvt_utf16_char32_le M Mode) bs mx)" for bs mx
    by (simp add: codecvt_utf16_char32_le_def utf16_length_counts)
qed (use codec_pair.out_in(2) [OF ucs4_utf16_pair(2) [OF assms], of Mode utf16le_bom _ _ _ _ Mode] in
    \<open>auto simp: codecvt_utf16_char32_le_def ucs4_to_utf16le_def utf16le_to_ucs4_def symmetric_mode_def length_utf16 utf16le_bom_def\<close>)

lemma utf16_char16_be_facet:
  "codec_facet (codecvt_utf16_char16_be M Mode) (\<lambda>_. symmetric_mode Mode)"
proof (rule codec_facetI [where L = 2])
  show "\<exists>r n w. do_out (codecvt_utf16_char16_be M Mode) frm cap = Some (Done r n w) \<and>
      encodes never (bmp_upto M) ucs2 utf16_be (header Mode utf16be_bom) frm cap r n w" for frm cap
    unfolding codecvt_utf16_char16_be_def facet.select_convs ucs2_to_utf16be_def by (rule ucs2_be.out.write_encodes)
  show "\<exists>r n w. do_in (codecvt_utf16_char16_be M Mode) bs cap = Some (Done r n w) \<and>
      decodes (utf16_waits False unit_be) (bmp_upto M) utf16_be ucs2 (skipped Mode utf16be_bom bs) bs cap r n w" for bs cap
    unfolding codecvt_utf16_char16_be_def facet.select_convs utf16be_to_ucs2_def by (rule utf16be_ucs2.skip_decodes)
  show "do_length (codecvt_utf16_char16_be M Mode) bs mx =
      map_option outcome_len (do_in (codecvt_utf16_char16_be M Mode) bs mx)" for bs mx
    by (simp add: codecvt_utf16_char16_be_def utf16_length_counts)
qed (use ucs2_be.out_in(2) [of Mode utf16be_bom _ M _ _ _ Mode] in
    \<open>auto simp: codecvt_utf16_char16_be_def ucs2_to_utf16be_def utf16be_to_ucs2_def symmetric_mode_def length_utf16 bmp_upto_def utf16be_bom_def\<close>)

lemma utf16_char16_le_facet:
  "codec_facet (codecvt_utf16_char16_le M Mode) (\<lambda>_. symmetric_mode Mode)"
proof (rule codec_facetI [where L = 2])
  show "\<exists>r n w. do_out (codecvt_utf16_char16_le M Mode) frm cap = Some (Done r n w) \<and>
      encodes never (bmp_upto M) ucs2 utf16_le (header Mode utf16le_bom) frm cap r n w" for frm cap
    unfolding codecvt_utf16_char16_le_def facet.select_convs ucs2_to_utf16le_def by (rule ucs2_le.out.write_encodes)
  show "\<exists>r n w. do_in (codecvt_utf16_char16_le M Mode) bs cap = Some (Done r n w) \<and>
      decodes (utf16_waits False unit_le) (bmp_upto M) utf16_le ucs2 (skipped Mode utf16le_bom bs) bs cap r n w" for bs cap
    unfolding codecvt_utf16_char16_le_def facet.select_convs utf16le_to_ucs2_def by (rule utf16le_ucs2.skip_decodes)
  show "do_length (codecvt_utf16_char16_le M Mode) bs mx =
      map_option outcome_len (do_in (codecvt_utf16_char16_le M Mode) bs mx)" for bs mx
    by (simp add: codecvt_utf16_char16_le_def utf16_length_counts)
qed (use ucs2_le.out_in(2) [of Mode utf16le_bom _ M _ _ _ Mode] in
    \<open>auto simp: codecvt_utf16_char16_le_def ucs2_to_utf16le_def utf16le_to_ucs2_def symmetric_mode_def length_utf16 bmp_upto_def utf16le_bom_def\<close>)

text \<open>
  The readers of the facets for UTF-16 compare the lead byte with \<open>Maxcode\<close>, so these facets restore text only for a \<open>Maxcode\<close>
  that no lead byte exceeds, or that admits ASCII only.
\<close>

definition lead_safe :: "u64 \<Rightarrow> bool" where
  "lead_safe Maxcode \<longleftrightarrow> Maxcode < 0x80 \<or> 0xF4 \<le> Maxcode"

lemma utf8_utf16_char16_facet:
  "codec_facet (codecvt_utf8_utf16_char16 M Mode) (\<lambda>_. symmetric_mode Mode \<and> lead_safe M)"
proof (rule codec_facetI [where L = 4])
  show "\<exists>r n w. do_out (codecvt_utf8_utf16_char16 M Mode) frm cap = Some (Done r n w) \<and>
      encodes (utf16_utf8_waits M) (upto_max M) utf16_units utf8 (header Mode utf8_bom) frm cap r n w" for frm cap
    unfolding codecvt_utf8_utf16_char16_def facet.select_convs utf16_to_utf8_def by (rule utf16_utf8.write_encodes)
  show "\<exists>r n w. do_in (codecvt_utf8_utf16_char16 M Mode) bs cap = Some (Done r n w) \<and>
      decodes (utf8_utf16_waits M) (lead_upto M) utf8 utf16_units (skipped Mode utf8_bom bs) bs cap r n w" for bs cap
    unfolding codecvt_utf8_utf16_char16_def facet.select_convs utf8_to_utf16_def by (rule utf8_utf16.skip_decodes)
  show "do_length (codecvt_utf8_utf16_char16 M Mode) bs mx =
      map_option outcome_len (do_in (codecvt_utf8_utf16_char16 M Mode) bs mx)" for bs mx
    by (simp add: codecvt_utf8_utf16_char16_def utf8_to_utf16_length_counts)
qed (use codec_pair.out_in(2) [OF utf16_utf8_pair, of M Mode utf8_bom _ _ _ _ Mode] utf16_units_ne in
    \<open>auto simp: codecvt_utf8_utf16_char16_def utf16_to_utf8_def utf8_to_utf16_def symmetric_mode_def lead_safe_def lead_upto_def length_utf8 length_utf16 utf8_bom_def\<close>)


lemma outcome_map_DoneE:
  assumes "map_outcome g x = Done r n w"
  obtains v where "x = Done r n v" and "w = map g v"
  using assms by (cases x) auto

text \<open>The facets that keep UTF-16 units in 32 bit characters represent texts of 16 bit values.\<close>

lemma outcome_len_map: "outcome_len (map_outcome g x) = outcome_len x"
  by (cases x) simp_all

lemma map_ucast_up_down: "\<forall>x\<in>set frm. unat (x::u32) < 65536 \<Longrightarrow> map (ucast \<circ> (ucast :: u32 \<Rightarrow> u16)) frm = frm"
  by (rule map_idI) (simp add: ucast_up_down)

lemma utf8_utf16_char32_facet:
  "codec_facet (codecvt_utf8_utf16_char32 M Mode)
    (\<lambda>frm. symmetric_mode Mode \<and> lead_safe M \<and> (\<forall>x\<in>set frm. unat x < 65536))"
proof -
  let ?f = "codecvt_utf8_utf16_char16 M Mode" and ?g = "codecvt_utf8_utf16_char32 M Mode"
  note narrow = utf8_utf16_char16_facet [of M Mode]
  have out: "do_out ?g frm cap = do_out ?f (map ucast frm) cap" for frm cap
    by (simp add: codecvt_utf8_utf16_char32_def codecvt_utf8_utf16_char16_def utf16_to_utf8_u32_map)
  have inn: "do_in ?g bs cap = map_option (map_outcome ucast) (do_in ?f bs cap)" for bs cap
    by (simp add: codecvt_utf8_utf16_char32_def codecvt_utf8_utf16_char16_def utf8_to_utf16_u32_map)
  show ?thesis
  proof
    show "\<exists>r n w. do_out ?g frm cap = Some (Done r n w) \<and> n \<le> length frm \<and> length w \<le> cap" for frm cap
      using codec_facet.out_returns [OF narrow, of "map ucast frm" cap] by (simp add: out)
    show "\<exists>r n w. do_in ?g bs cap = Some (Done r n w) \<and> n \<le> length bs \<and> length w \<le> cap" for bs cap
      using codec_facet.in_returns [OF narrow, of bs cap] by (auto simp: inn)
    show "do_in ?g bs cap' = Some (Done ok (length bs) frm)"
      if "do_out ?g frm cap = Some (Done ok n bs)"
        and "symmetric_mode Mode \<and> lead_safe M \<and> (\<forall>x\<in>set frm. unat x < 65536)" and "length frm \<le> cap'"
      for frm cap n bs cap'
      using codec_facet.restores [OF narrow, of "map ucast frm" cap n bs cap'] that map_ucast_up_down
      by (simp add: out inn)
    show "do_length ?g bs mx = map_option outcome_len (do_in ?g bs mx)" for bs mx
      using codec_facet.length_in [OF narrow, of bs mx]
      by (simp add: inn option.map_comp comp_def outcome_len_map utf8_to_utf16_u32_map
          codecvt_utf8_utf16_char32_def codecvt_utf8_utf16_char16_def)
    show "int n \<le> do_max_length ?g" if "do_in ?g bs 1 = Some (Done r n w)" for bs r n w
    proof -
      from that obtain v where "do_in ?f bs 1 = Some (Done r n v)"
        by (auto simp: inn elim!: outcome_map_DoneE)
      from codec_facet.one [OF narrow this] show ?thesis
        by (simp add: codecvt_utf8_utf16_char32_def codecvt_utf8_utf16_char16_def)
    qed
  qed (simp add: codecvt_utf8_utf16_char32_def)
qed

section \<open>The interpretations\<close>

text \<open>Facets for \<open>wchar_t\<close> and the two without parameters are instances of these.\<close>

lemma facet_instances:
  "codecvt_utf8_wchar = codecvt_utf8_char32"
  "codecvt_utf16_wchar_be = codecvt_utf16_char32_be" "codecvt_utf16_wchar_le = codecvt_utf16_char32_le"
  "codecvt_utf8_utf16_wchar = codecvt_utf8_utf16_char32"
  "codecvt_char16 = codecvt_utf8_utf16_char16 0x10FFFF 0" "codecvt_char32 = codecvt_utf8_char32 0x10FFFF 0"
  by (simp_all add: fun_eq_iff codecvt_utf8_wchar_def codecvt_utf8_char32_def codecvt_utf16_wchar_be_def
      codecvt_utf16_char32_be_def codecvt_utf16_wchar_le_def codecvt_utf16_char32_le_def
      codecvt_utf8_utf16_wchar_def codecvt_utf8_utf16_char32_def codecvt_char16_def
      codecvt_utf8_utf16_char16_def codecvt_char32_def)

interpretation char16: codec_facet codecvt_char16 "\<lambda>_. symmetric_mode 0 \<and> lead_safe 0x10FFFF"
  unfolding facet_instances by (rule utf8_utf16_char16_facet)

interpretation char32: codec_facet codecvt_char32 "\<lambda>_. symmetric_mode 0"
  unfolding facet_instances by (rule utf8_char32_facet) simp

interpretation utf8_char16: codec_facet "codecvt_utf8_char16 M Mode" "\<lambda>_. symmetric_mode Mode" for M Mode
  by (rule utf8_char16_facet)

interpretation utf16_char16_be: codec_facet "codecvt_utf16_char16_be M Mode" "\<lambda>_. symmetric_mode Mode" for M Mode
  by (rule utf16_char16_be_facet)

interpretation utf16_char16_le: codec_facet "codecvt_utf16_char16_le M Mode" "\<lambda>_. symmetric_mode Mode" for M Mode
  by (rule utf16_char16_le_facet)

definition length_bounded :: "'i facet \<Rightarrow> bool" where
  "length_bounded f \<longleftrightarrow>
     (\<forall>bs. \<exists>k. do_length f bs 1 = Some (Len k) \<and> 0 \<le> k \<and> k \<le> do_max_length f)"

lemma facet_length_bounded: "codec_facet f text_ok \<Longrightarrow> length_bounded f"
  unfolding length_bounded_def using codec_facet.length_bounded by blast

definition text_restored :: "('i list \<Rightarrow> bool) \<Rightarrow> 'i facet \<Rightarrow> bool" where
  "text_restored text_ok f \<longleftrightarrow>
     (\<forall>frm cap n bs cap'. text_ok frm \<and> do_out f frm cap = Some (Done ok n bs) \<and> length frm \<le> cap' \<longrightarrow>
        do_in f bs cap' = Some (Done ok (length bs) frm))"

lemma facet_restored:
  assumes "codec_facet f text_ok" and "\<And>frm. P frm \<Longrightarrow> text_ok frm"
  shows "text_restored P f"
  unfolding text_restored_def using codec_facet.restores [OF assms(1)] assms(2) by blast

text \<open>
  The variant for 16 bit \<open>wchar_t\<close> has the conversions of \<open>codecvt_utf8_char16\<close> and the length functions of
  \<open>codecvt_utf8_char32\<close>; the facet for \<open>char\<close> converts nothing.
\<close>

lemma short_wchar_length_bounded: "M \<le> 0x10FFFF \<Longrightarrow> length_bounded (codecvt_utf8_wchar_short M Mode)"
  using facet_length_bounded [OF utf8_char32_facet, of M Mode]
  by (simp add: length_bounded_def codecvt_utf8_wchar_short_def codecvt_utf8_char32_def)

lemma short_wchar_restored: "symmetric_mode Mode \<Longrightarrow> text_restored (\<lambda>_. True) (codecvt_utf8_wchar_short M Mode)"
  using facet_restored [OF utf8_char16_facet, of "\<lambda>_. True" Mode M]
  by (simp add: text_restored_def codecvt_utf8_wchar_short_def codecvt_utf8_char16_def)

lemma char_length_bounded: "length_bounded codecvt_char"
  by (simp add: length_bounded_def codecvt_char_def cast_int_small)

section \<open>Properties\<close>

text \<open>
  C32: For every one of the sixteen facets, every mode and every \<open>Maxcode\<close> up to 0x10FFFF, \<open>do_length\<close> with a limit of one character returns a
  number from 0 to \<open>do_max_length\<close>, on every input: the bound covers the header that the mode consumes.
\<close>

theorem facets_max_length:
  assumes "M \<le> 0x10FFFF"
  shows "length_bounded codecvt_char \<and> length_bounded codecvt_char16 \<and> length_bounded codecvt_char32 \<and>
    length_bounded (codecvt_utf8_char16 M Mode) \<and> length_bounded (codecvt_utf8_char32 M Mode) \<and>
    length_bounded (codecvt_utf8_wchar M Mode) \<and> length_bounded (codecvt_utf8_wchar_short M Mode) \<and>
    length_bounded (codecvt_utf16_char16_be M Mode) \<and> length_bounded (codecvt_utf16_char16_le M Mode) \<and>
    length_bounded (codecvt_utf16_char32_be M Mode) \<and> length_bounded (codecvt_utf16_char32_le M Mode) \<and>
    length_bounded (codecvt_utf16_wchar_be M Mode) \<and> length_bounded (codecvt_utf16_wchar_le M Mode) \<and>
    length_bounded (codecvt_utf8_utf16_char16 M Mode) \<and>
    length_bounded (codecvt_utf8_utf16_char32 M Mode) \<and> length_bounded (codecvt_utf8_utf16_wchar M Mode)"
  unfolding facet_instances(1-4)
  by (intro conjI char_length_bounded short_wchar_length_bounded [OF assms]
      facet_length_bounded [OF char16.codec_facet_axioms]
      facet_length_bounded [OF char32.codec_facet_axioms]
      facet_length_bounded [OF utf8_char16_facet] facet_length_bounded [OF utf16_char16_be_facet]
      facet_length_bounded [OF utf16_char16_le_facet]
      facet_length_bounded [OF utf8_char32_facet [OF assms]]
      facet_length_bounded [OF utf16_char32_be_facet [OF assms]]
      facet_length_bounded [OF utf16_char32_le_facet [OF assms]]
      facet_length_bounded [OF utf8_utf16_char16_facet]
      facet_length_bounded [OF utf8_utf16_char32_facet])

theorem facets_max_length_witness:
  "length_bounded (codecvt_utf16_char32_le 0x10FFFF 4) \<and>
   do_length (codecvt_utf16_char32_le 0x10FFFF 4) [0xFF, 0xFE, 0x3D, 0xD8, 0x00, 0xDE, 0x41] 1 = Some (Len 6)"
proof
  show "length_bounded (codecvt_utf16_char32_le 0x10FFFF 4)"
    using facets_max_length [of "0x10FFFF" 4] by simp
  show "do_length (codecvt_utf16_char32_le 0x10FFFF 4) [0xFF, 0xFE, 0x3D, 0xD8, 0x00, 0xDE, 0x41] 1 =
      Some (Len 6)"
    by code_simp
qed

text \<open>
  C31: Through each of the fifteen facets that convert (all but \<open>codecvt<char, char>\<close>), with a mode that generates a header exactly if
  it consumes one and a \<open>Maxcode\<close> up to 0x10FFFF, \<open>do_in\<close> restores the text that \<open>do_out\<close> converted to its end with the result \<open>ok\<close>,
  and consumes all of its bytes.  The three facets between UTF-8 and UTF-16 need a \<open>Maxcode\<close> below 0x80 or from 0xF4 on, because
  their \<open>do_in\<close> compares the lead byte with it, and the two of them that keep UTF-16 units in 32 bit characters restore the texts
  of 16 bit values.
\<close>

theorem facets_restore_text:
  assumes "M \<le> 0x10FFFF" and "symmetric_mode Mode"
  shows "text_restored (\<lambda>_. True) codecvt_char16 \<and> text_restored (\<lambda>_. True) codecvt_char32 \<and>
    text_restored (\<lambda>_. True) (codecvt_utf8_char16 M Mode) \<and>
    text_restored (\<lambda>_. True) (codecvt_utf8_char32 M Mode) \<and>
    text_restored (\<lambda>_. True) (codecvt_utf8_wchar M Mode) \<and>
    text_restored (\<lambda>_. True) (codecvt_utf8_wchar_short M Mode) \<and>
    text_restored (\<lambda>_. True) (codecvt_utf16_char16_be M Mode) \<and>
    text_restored (\<lambda>_. True) (codecvt_utf16_char16_le M Mode) \<and>
    text_restored (\<lambda>_. True) (codecvt_utf16_char32_be M Mode) \<and>
    text_restored (\<lambda>_. True) (codecvt_utf16_char32_le M Mode) \<and>
    text_restored (\<lambda>_. True) (codecvt_utf16_wchar_be M Mode) \<and>
    text_restored (\<lambda>_. True) (codecvt_utf16_wchar_le M Mode) \<and>
    (M < 0x80 \<or> 0xF4 \<le> M \<longrightarrow>
      text_restored (\<lambda>_. True) (codecvt_utf8_utf16_char16 M Mode) \<and>
      text_restored (\<lambda>frm. \<forall>x\<in>set frm. unat x < 65536) (codecvt_utf8_utf16_char32 M Mode) \<and>
      text_restored (\<lambda>frm. \<forall>x\<in>set frm. unat x < 65536) (codecvt_utf8_utf16_wchar M Mode))"
  unfolding facet_instances(1-4)
  by (intro conjI impI facet_restored [OF char16.codec_facet_axioms]
      facet_restored [OF char32.codec_facet_axioms] short_wchar_restored
      facet_restored [OF utf8_char16_facet] facet_restored [OF utf16_char16_be_facet]
      facet_restored [OF utf16_char16_le_facet]
      facet_restored [OF utf8_char32_facet [OF assms(1)]]
      facet_restored [OF utf16_char32_be_facet [OF assms(1)]]
      facet_restored [OF utf16_char32_le_facet [OF assms(1)]]
      facet_restored [OF utf8_utf16_char16_facet]
      facet_restored [OF utf8_utf16_char32_facet])
    (simp_all add: assms(2) symmetric_mode_0 lead_safe_def)

theorem facets_restore_text_witness:
  "do_in (codecvt_utf16_char32_be 0x10FFFF 6) [0xFE, 0xFF, 0xD8, 0x3D, 0xDE, 0x00] 1 =
    Some (Done ok 6 [0x1F600])"
proof -
  have "do_out (codecvt_utf16_char32_be 0x10FFFF 6) [0x1F600] 6 =
      Some (Done ok 1 [0xFE, 0xFF, 0xD8, 0x3D, 0xDE, 0x00])"
    by code_simp
  moreover have "symmetric_mode 6" by code_simp
  ultimately show ?thesis
    using facets_restore_text [of "0x10FFFF" 6] unfolding text_restored_def by fastforce
qed

section \<open>Two facets that disagree with themselves\<close>

text \<open>The code points that the facets with UTF-16 units in 32 bit characters see: the low halves.\<close>

definition low_halves :: "u32 list \<Rightarrow> nat list" where
  "low_halves frm = map (\<lambda>x. unat x mod 65536) frm"

definition low_text :: "codecvt_mode \<Rightarrow> u32 list \<Rightarrow> u8 list" where
  "low_text Mode frm = header Mode utf8_bom @ concat (map utf8 (low_halves frm))"

lemma low_half: "unat (ucast (x::u32) :: u16) = unat x mod 65536"
  by (simp add: unsigned_ucast_eq take_bit_eq_mod)

lemma low_halves_units: "concat (map utf16_units (low_halves frm)) = map ucast frm"
proof -
  have "utf16_units (unat x mod 65536) = [ucast x]" for x :: u32
    using utf16_units_unat [of "ucast x"] by (simp only: low_half)
  then show ?thesis by (induction frm) (simp_all add: low_halves_def)
qed

lemma low_halves_upto:
  assumes "0xFFFF \<le> M" and "\<forall>c\<in>set (low_halves frm). scalar c"
  shows "\<forall>c\<in>set (low_halves frm). upto_max M c"
proof -
  have "65535 \<le> unat M" using assms(1) by (simp add: word_le_nat)
  moreover have "n mod 65536 \<le> 65535" for n :: nat
    using mod_less_divisor [of 65536 n] by linarith
  ultimately show ?thesis
    using assms(2) by (auto simp: upto_max_def low_halves_def intro: le_trans)
qed

lemma utf8_utf16_char32_truncates:
  assumes "0xFFFF \<le> M" and "\<forall>c\<in>set (low_halves frm). scalar c"
    and "length (header Mode utf8_bom) + length (concat (map utf8 (low_halves frm))) \<le> cap"
  shows "do_out (codecvt_utf8_utf16_char32 M Mode) frm cap =
    Some (Done ok (length frm) (header Mode utf8_bom @ concat (map utf8 (low_halves frm))))"
  using utf16_utf8.loop_ok [OF low_halves_upto [OF assms(1,2)], of "cap - length (header Mode utf8_bom)" 0
      "header Mode utf8_bom"] assms(3)
  by (simp add: codecvt_utf8_utf16_char32_def utf16_to_utf8_u32_map utf16_to_utf8_def write_header_eq low_halves_units)

lemma utf8_utf16_char32_back:
  assumes "0xFFFF \<le> M" and "symmetric_mode Mode" and "length frm \<le> cap'"
    and "do_out (codecvt_utf8_utf16_char32 M Mode) frm cap = Some (Done ok n bs)"
  shows "do_in (codecvt_utf8_utf16_char32 M Mode) bs cap' = Some (Done ok (length bs) (map of_nat (low_halves frm)))"
proof -
  have "lead_safe M"
    using assms(1) by (auto simp: lead_safe_def word_le_nat)
  moreover have "do_out (codecvt_utf8_utf16_char16 M Mode) (map ucast frm) cap = Some (Done ok n bs)"
    using assms(4)
    by (simp add: codecvt_utf8_utf16_char32_def codecvt_utf8_utf16_char16_def utf16_to_utf8_u32_map)
  ultimately have "do_in (codecvt_utf8_utf16_char16 M Mode) bs cap' = Some (Done ok (length bs) (map ucast frm))"
    using codec_facet.restores [OF utf8_utf16_char16_facet] assms(2,3) by simp
  moreover have "ucast (ucast x :: u16) = (of_nat (unat x mod 65536) :: u32)" for x :: u32
    by (simp add: word_eq_nat unat_widen low_half unat_of_nat_word)
  ultimately show ?thesis
    by (simp add: codecvt_utf8_utf16_char32_def codecvt_utf8_utf16_char16_def utf8_to_utf16_u32_map low_halves_def)
qed

lemma short_wchar_disagrees:
  assumes "0x10000 \<le> c" and "upto_max M c" and "0 < mx"
  shows "do_length (codecvt_utf8_wchar_short M Mode) (utf8 c) mx = Some (Len 4)"
    and "do_in (codecvt_utf8_wchar_short M Mode) (utf8 c) mx = Some (Done error 0 [])"
proof -
  obtain c1 c2 c3 c4 where u: "utf8 c = [c1, c2, c3, c4]" "is_utf8_4 c1 c2 c3 c4"
    using utf8_four_conv [OF assms(1)] assms(2) by (auto simp: upto_max_def)
  have c1: "0xF0 \<le> unat c1" "unat c1 < 0xF5"
    using u(2) by (simp_all add: is_utf8_4_def)
  have "c1 \<noteq> 0xEF" using c1 by auto
  then have s: "skipped Mode utf8_bom [c1, c2, c3, c4] = 0"
    by (simp add: skipped_def utf8_bom_def)
  have "utf8_to_ucs4 M Mode [c1, c2, c3, c4] mx = Some (Done ok 4 (ucs4 c))"
    using utf8_ucs4.loop_ok [of "[c]" M mx 0 "[]"] assms(2,3) u(1) s
    by (simp add: utf8_to_ucs4_def skip_header_eq)
  then show "do_length (codecvt_utf8_wchar_short M Mode) (utf8 c) mx = Some (Len 4)"
    by (simp add: codecvt_utf8_wchar_short_def u(1) utf8_to_ucs4_length_counts cast_int_small)
  have "utf8_to_ucs2_body M [c1, c2, c3, c4] mx = Ret error"
    using c1 by (auto simp: utf8_to_ucs2_body_def word_less_nat)
  then show "do_in (codecvt_utf8_wchar_short M Mode) (utf8 c) mx = Some (Done error 0 [])"
    using assms(3)
    by (simp add: codecvt_utf8_wchar_short_def u(1) utf8_to_ucs2_def skip_header_eq s cvt_loop.simps guard_in_def)
qed

text \<open>
  C40: Two facets disagree with themselves, for every \<open>Maxcode\<close> from 0xFFFF on.  \<open>__codecvt_utf8_utf16<char32_t>\<close> does not report the characters
  that do not fit a UTF-16 unit: every text whose characters have low halves that are no surrogates is converted with
  the result \<open>ok\<close>, as the UTF-8 form of its low halves, if these fit the buffer; so a code point above 0xFFFF comes back as another one, and
  \<open>do_in\<close> restores the low halves (with a mode that generates a header exactly if it consumes one).  Where \<open>wchar_t\<close> has 16
  bits, \<open>__codecvt_utf8<wchar_t>\<close> converts with \<open>utf8_to_ucs2\<close> but counts with \<open>utf8_to_ucs4_length\<close>: on the form of four bytes
  of any code point from 0x10000 to \<open>Maxcode\<close>, \<open>do_length\<close> returns 4 while \<open>do_in\<close> returns \<open>error\<close> before the first byte.
\<close>

theorem facet_bugs:
  assumes "0xFFFF \<le> M" and "\<forall>c\<in>set (low_halves frm). scalar c" and "length (low_text Mode frm) \<le> cap"
    and "0x10000 \<le> c" and "upto_max M c" and "0 < mx"
  shows "do_out (codecvt_utf8_utf16_char32 M Mode) frm cap = Some (Done ok (length frm) (low_text Mode frm)) \<and>
    (symmetric_mode Mode \<longrightarrow> do_in (codecvt_utf8_utf16_char32 M Mode) (low_text Mode frm) (length frm) =
       Some (Done ok (length (low_text Mode frm)) (map of_nat (low_halves frm)))) \<and>
    do_length (codecvt_utf8_wchar_short M Mode) (utf8 c) mx = Some (Len 4) \<and>
    do_in (codecvt_utf8_wchar_short M Mode) (utf8 c) mx = Some (Done error 0 [])"
proof (intro conjI impI short_wchar_disagrees)
  show out: "do_out (codecvt_utf8_utf16_char32 M Mode) frm cap = Some (Done ok (length frm) (low_text Mode frm))"
    using utf8_utf16_char32_truncates [OF assms(1,2)] assms(3) by (simp add: low_text_def)
  show "do_in (codecvt_utf8_utf16_char32 M Mode) (low_text Mode frm) (length frm) =
      Some (Done ok (length (low_text Mode frm)) (map of_nat (low_halves frm)))" if "symmetric_mode Mode"
    using utf8_utf16_char32_back [OF assms(1) that le_refl out] .
qed (use assms in simp_all)

theorem facet_bugs_witness:
  "do_out (codecvt_utf8_utf16_char32 0x10FFFF 0) [0x1F600] 4 = Some (Done ok 1 [0xEF, 0x98, 0x80]) \<and>
   do_in (codecvt_utf8_utf16_char32 0x10FFFF 0) [0xEF, 0x98, 0x80] 1 = Some (Done ok 3 [0xF600]) \<and>
   do_length (codecvt_utf8_wchar_short 0x10FFFF 0) [0xF0, 0x9F, 0x98, 0x80] 1 = Some (Len 4) \<and>
   do_in (codecvt_utf8_wchar_short 0x10FFFF 0) [0xF0, 0x9F, 0x98, 0x80] 1 = Some (Done error 0 [])"
proof -
  have low: "low_halves [0x1F600] = [0xF600]" and bytes: "low_text 0 [0x1F600] = [0xEF, 0x98, 0x80]"
    and form: "utf8 0x1F600 = [0xF0, 0x9F, 0x98, 0x80]" and sc: "scalar 0xF600" "upto_max 0x10FFFF 0x1F600"
    by (simp_all add: low_halves_def low_text_def utf8_def header_def upto_max_def scalar_def)
  have "\<forall>c\<in>set (low_halves [0x1F600]). scalar c" "length (low_text 0 [0x1F600]) \<le> 4"
    using sc by (simp_all only: low bytes) simp_all
  note facts = facet_bugs [OF _ this _ sc(2) zero_less_one, unfolded low bytes form]
  show ?thesis
    using facts symmetric_mode_0 by simp
qed

end
