(* ===== verification/Path_Parser.thy ===== *)
theory Path_Parser
  imports Prelude "HOL-Library.Monad_Syntax"
begin

text \<open>
  The lexer \<open>PathParser\<close> of \<open>src/src/experimental/filesystem/path.cpp\<close> (lines 24 to 263), which
  all operations of \<open>path\<close> are built on.  It walks over a path in both directions and keeps a
  state and the element it is at.

  A pointer into the path is an offset from \<open>Path.data()\<close> (so the position before the first
  character is -1) or null.  What the language leaves undefined (reading outside of the path, using
  a null pointer, \<open>back()\<close> of an empty view, \<open>_LIBCPP_UNREACHABLE\<close>) is the value \<open>None\<close>; that it
  does not happen is proved.  \<open>dec_inc\<close> says that \<open>decrement\<close> takes back \<open>increment\<close>, and
  \<open>elements_eq\<close> that the elements met are those of the recursive reference \<open>path_elements\<close>.
\<close>

section \<open>State\<close>

datatype parser_state = PS_BeforeBegin | PS_InRootName | PS_InRootDir | PS_InFilenames
  | PS_InTrailingSep | PS_AtEnd

text \<open>The values of the enumeration; 0 is kept for singular iterators.\<close>

fun state_value :: "parser_state \<Rightarrow> nat" where
  "state_value PS_BeforeBegin = 1"
| "state_value PS_InRootName = 2"
| "state_value PS_InRootDir = 3"
| "state_value PS_InFilenames = 4"
| "state_value PS_InTrailingSep = 5"
| "state_value PS_AtEnd = 6"

instantiation parser_state :: linorder
begin

definition less_eq_parser_state :: "parser_state \<Rightarrow> parser_state \<Rightarrow> bool" where
  "less_eq_parser_state x y \<longleftrightarrow> state_value x \<le> state_value y"

definition less_parser_state :: "parser_state \<Rightarrow> parser_state \<Rightarrow> bool" where
  "less_parser_state x y \<longleftrightarrow> state_value x < state_value y"

instance
proof
  fix x y :: parser_state
  show "x = y" if "x \<le> y" "y \<le> x"
    using that by (cases x; cases y) (simp_all add: less_eq_parser_state_def)
qed (auto simp: less_eq_parser_state_def less_parser_state_def)

end

text \<open>A string view is empty and null, or \<open>n\<close> characters from offset \<open>a\<close>.\<close>

datatype view = Empty_view | View int nat

datatype ptr = Null | At int

record path_parser =
  Path :: string
  RawEntry :: view
  State :: parser_state

definition sep :: char where "sep = CHR ''/''"

text \<open>Reading a character through a pointer.\<close>

definition deref :: "string \<Rightarrow> int \<Rightarrow> char option" where
  "deref s P = (if 0 \<le> P \<and> P < int (length s) then Some (s ! nat P) else None)"

fun view_front :: "view \<Rightarrow> int option" where
  "view_front (View a n) = (if 0 < n then Some a else None)"
| "view_front Empty_view = None"

fun view_back :: "view \<Rightarrow> int option" where
  "view_back (View a n) = (if 0 < n then Some (a + int n - 1) else None)"
| "view_back Empty_view = None"

fun view_text :: "string \<Rightarrow> view \<Rightarrow> string" where
  "view_text s (View a n) = take n (drop (nat a) s)"
| "view_text s Empty_view = []"

definition front_ptr :: "string \<Rightarrow> int option" where
  "front_ptr s = (if s = [] then None else Some 0)"

definition back_ptr :: "string \<Rightarrow> int option" where
  "back_ptr s = (if s = [] then None else Some (int (length s) - 1))"

section \<open>Scanning\<close>

text \<open>
  The loop of \<open>consumeSeparator\<close> and \<open>consumeName\<close>: while \<open>P\<close> is not \<open>End\<close> and the character
  belongs to the run, step towards \<open>End\<close>.  The step \<open>Inc\<close> is computed once in the source; as \<open>P\<close>
  never passes \<open>End\<close>, it is the same in every round.
\<close>

function scan :: "(char \<Rightarrow> bool) \<Rightarrow> string \<Rightarrow> int \<Rightarrow> int \<Rightarrow> int option" where
  "scan p s P End =
     (if P = End then Some P
      else do {
        c \<leftarrow> deref s P;
        (if p c then scan p s (P + (if P < End then 1 else -1)) End else Some P)
      })"
  by pat_completeness auto
termination
  by (relation "measure (\<lambda>(p, s, P, End). nat \<bar>End - P\<bar>)") auto

declare scan.simps [simp del]

definition consumeSeparator :: "string \<Rightarrow> ptr \<Rightarrow> int \<Rightarrow> ptr option" where
  "consumeSeparator s P End = (case P of
     Null \<Rightarrow> None
   | At P \<Rightarrow>
       if P = End then Some Null
       else do {
         c \<leftarrow> deref s P;
         (if c \<noteq> sep then Some Null
          else map_option At (scan (\<lambda>c. c = sep) s (P + (if P < End then 1 else -1)) End))
       })"

definition consumeName :: "string \<Rightarrow> ptr \<Rightarrow> int \<Rightarrow> ptr option" where
  "consumeName s P End = (case P of
     Null \<Rightarrow> None
   | At P \<Rightarrow>
       if P = End then Some Null
       else do {
         c \<leftarrow> deref s P;
         (if c = sep then Some Null
          else map_option At (scan (\<lambda>c. c \<noteq> sep) s (P + (if P < End then 1 else -1)) End))
       })"

section \<open>The parser\<close>

definition makeState :: "path_parser \<Rightarrow> parser_state \<Rightarrow> ptr \<Rightarrow> ptr \<Rightarrow> path_parser option" where
  "makeState PP NewState Start End = (case (Start, End) of
     (At a, At b) \<Rightarrow>
       if a \<le> b then Some (PP\<lparr>State := NewState, RawEntry := View a (nat (b - a))\<rparr>) else None
   | _ \<Rightarrow> None)"

definition makeStateEmpty :: "path_parser \<Rightarrow> parser_state \<Rightarrow> path_parser" where
  "makeStateEmpty PP NewState = PP\<lparr>State := NewState, RawEntry := Empty_view\<rparr>"

definition getAfterBack :: "path_parser \<Rightarrow> int" where
  "getAfterBack PP = int (length (Path PP))"

definition getBeforeFront :: "path_parser \<Rightarrow> int" where
  "getBeforeFront PP = -1"

definition getNextTokenStartPos :: "path_parser \<Rightarrow> int option" where
  "getNextTokenStartPos PP = (case State PP of
     PS_BeforeBegin \<Rightarrow> Some 0
   | PS_InRootName \<Rightarrow> map_option (\<lambda>b. b + 1) (view_back (RawEntry PP))
   | PS_InRootDir \<Rightarrow> map_option (\<lambda>b. b + 1) (view_back (RawEntry PP))
   | PS_InFilenames \<Rightarrow> map_option (\<lambda>b. b + 1) (view_back (RawEntry PP))
   | PS_InTrailingSep \<Rightarrow> Some (getAfterBack PP)
   | PS_AtEnd \<Rightarrow> Some (getAfterBack PP))"

definition getCurrentTokenStartPos :: "path_parser \<Rightarrow> int option" where
  "getCurrentTokenStartPos PP = (case State PP of
     PS_BeforeBegin \<Rightarrow> front_ptr (Path PP)
   | PS_InRootName \<Rightarrow> front_ptr (Path PP)
   | PS_InRootDir \<Rightarrow> view_front (RawEntry PP)
   | PS_InFilenames \<Rightarrow> view_front (RawEntry PP)
   | PS_InTrailingSep \<Rightarrow> view_front (RawEntry PP)
   | PS_AtEnd \<Rightarrow> map_option (\<lambda>b. b + 1) (back_ptr (Path PP)))"

definition peek :: "path_parser \<Rightarrow> ptr option" where
  "peek PP = do {
     TkEnd \<leftarrow> getNextTokenStartPos PP;
     Some (if TkEnd = getAfterBack PP then Null else At TkEnd)
   }"

definition increment :: "path_parser \<Rightarrow> path_parser option" where
  "increment PP = do {
     let s = Path PP;
     let End = getAfterBack PP;
     Start \<leftarrow> getNextTokenStartPos PP;
     (if Start = End then Some (makeStateEmpty PP PS_AtEnd)
      else case State PP of
        PS_BeforeBegin \<Rightarrow> do {
          TkEnd \<leftarrow> consumeSeparator s (At Start) End;
          (if TkEnd = At (Start + 2) then do {
             NameEnd \<leftarrow> consumeName s TkEnd End;
             makeState PP PS_InRootName (At Start) (if NameEnd \<noteq> Null then NameEnd else TkEnd)
           }
           else if TkEnd \<noteq> Null then makeState PP PS_InRootDir (At Start) TkEnd
           else do {
             NameEnd \<leftarrow> consumeName s (At Start) End;
             makeState PP PS_InFilenames (At Start) NameEnd
           })
        }
      | PS_InRootName \<Rightarrow> do {
          SepEnd \<leftarrow> consumeSeparator s (At Start) End;
          makeState PP PS_InRootDir (At Start) SepEnd
        }
      | PS_InRootDir \<Rightarrow> do {
          NameEnd \<leftarrow> consumeName s (At Start) End;
          makeState PP PS_InFilenames (At Start) NameEnd
        }
      | PS_InFilenames \<Rightarrow> do {
          SepEnd \<leftarrow> consumeSeparator s (At Start) End;
          TkEnd \<leftarrow> (if SepEnd \<noteq> At End then consumeName s SepEnd End else Some Null);
          (if TkEnd \<noteq> Null then makeState PP PS_InFilenames SepEnd TkEnd
           else makeState PP PS_InTrailingSep (At Start) SepEnd)
        }
      | PS_InTrailingSep \<Rightarrow> Some (makeStateEmpty PP PS_AtEnd)
      | PS_AtEnd \<Rightarrow> None)
   }"

definition CreateBegin :: "string \<Rightarrow> path_parser option" where
  "CreateBegin P = increment \<lparr>Path = P, RawEntry = Empty_view, State = PS_BeforeBegin\<rparr>"

definition CreateEnd :: "string \<Rightarrow> path_parser" where
  "CreateEnd P = \<lparr>Path = P, RawEntry = Empty_view, State = PS_AtEnd\<rparr>"

text \<open>\<open>P + k\<close> for a pointer that must not be null.\<close>

fun ptr_add :: "ptr \<Rightarrow> int \<Rightarrow> ptr option" where
  "ptr_add (At P) k = Some (At (P + k))"
| "ptr_add Null k = None"

definition decrement :: "path_parser \<Rightarrow> path_parser option" where
  "decrement PP = do {
     let s = Path PP;
     let REnd = getBeforeFront PP;
     Cur \<leftarrow> getCurrentTokenStartPos PP;
     let RStart = Cur - 1;
     (case State PP of
        PS_AtEnd \<Rightarrow> do {
          SepEnd \<leftarrow> consumeSeparator s (At RStart) REnd;
          (if SepEnd \<noteq> Null then
             (if SepEnd = At REnd then
                makeState PP (if RStart = REnd + 2 then PS_InRootName else PS_InRootDir)
                  (At 0) (At (RStart + 1))
              else do {
                PPB \<leftarrow> CreateBegin s;
                InRootDir \<leftarrow> (if State PPB = PS_InRootName
                  then map_option (\<lambda>b. At b = SepEnd) (view_back (RawEntry PPB)) else Some False);
                Start \<leftarrow> ptr_add SepEnd 1;
                makeState PP (if InRootDir then PS_InRootDir else PS_InTrailingSep)
                  Start (At (RStart + 1))
              })
           else do {
             TkStart \<leftarrow> consumeName s (At RStart) REnd;
             RootEnd \<leftarrow> (if TkStart = At (REnd + 2) then consumeSeparator s TkStart REnd
               else Some Null);
             (if RootEnd = At REnd then makeState PP PS_InRootName (At 0) (At (RStart + 1))
              else do {
                Start \<leftarrow> ptr_add TkStart 1;
                makeState PP PS_InFilenames Start (At (RStart + 1))
              })
           })
        }
      | PS_InTrailingSep \<Rightarrow> do {
          TkEnd \<leftarrow> consumeName s (At RStart) REnd;
          Start \<leftarrow> ptr_add TkEnd 1;
          makeState PP PS_InFilenames Start (At (RStart + 1))
        }
      | PS_InFilenames \<Rightarrow> do {
          SepEnd \<leftarrow> consumeSeparator s (At RStart) REnd;
          (if SepEnd = At REnd then
             makeState PP (if RStart = REnd + 2 then PS_InRootName else PS_InRootDir)
               (At 0) (At (RStart + 1))
           else do {
             TkEnd \<leftarrow> consumeName s SepEnd REnd;
             RootEnd \<leftarrow> (if TkEnd = At (REnd + 2) then consumeSeparator s TkEnd REnd
               else Some Null);
             Sep1 \<leftarrow> ptr_add SepEnd 1;
             (if RootEnd = At REnd then makeState PP PS_InRootDir Sep1 (At (RStart + 1))
              else do {
                Start \<leftarrow> ptr_add TkEnd 1;
                makeState PP PS_InFilenames Start Sep1
              })
           })
        }
      | PS_InRootDir \<Rightarrow> makeState PP PS_InRootName (At 0) (At (RStart + 1))
      | PS_InRootName \<Rightarrow> None
      | PS_BeforeBegin \<Rightarrow> None)
   }"

text \<open>\<open>operator*\<close> and \<open>operator bool\<close>.\<close>

definition deref_parser :: "path_parser \<Rightarrow> string" where
  "deref_parser PP = (case State PP of
     PS_BeforeBegin \<Rightarrow> []
   | PS_AtEnd \<Rightarrow> []
   | PS_InRootDir \<Rightarrow> ''/''
   | PS_InTrailingSep \<Rightarrow> ''.''
   | PS_InRootName \<Rightarrow> view_text (Path PP) (RawEntry PP)
   | PS_InFilenames \<Rightarrow> view_text (Path PP) (RawEntry PP))"

definition parser_valid :: "path_parser \<Rightarrow> bool" where
  "parser_valid PP \<longleftrightarrow> State PP \<noteq> PS_BeforeBegin \<and> State PP \<noteq> PS_AtEnd"

section \<open>Runs of characters\<close>

text \<open>The end of the path cannot be passed, nor its beginning.\<close>

lemma scan_forward:
  assumes "0 \<le> P" "P \<le> Q" "Q \<le> End" "End \<le> int (length s)"
    and "\<And>i. P \<le> i \<Longrightarrow> i < Q \<Longrightarrow> p (s ! nat i)" and "Q = End \<or> \<not> p (s ! nat Q)"
  shows "scan p s P End = Some Q"
  using assms
proof (induction "nat (Q - P)" arbitrary: P)
  case 0
  then have "P = Q" by simp
  with 0 show ?case by (auto simp: scan.simps [of p s Q] deref_def)
next
  case (Suc n)
  then have "scan p s (P + 1) End = Some Q" by (intro Suc.hyps(1)) auto
  with Suc show ?case by (simp add: scan.simps [of p s P] deref_def)
qed

lemma scan_backward:
  assumes "-1 \<le> End" "End \<le> Q" "Q \<le> P" "P < int (length s)"
    and "\<And>i. Q < i \<Longrightarrow> i \<le> P \<Longrightarrow> p (s ! nat i)" and "Q = End \<or> \<not> p (s ! nat Q)"
  shows "scan p s P End = Some Q"
  using assms
proof (induction "nat (P - Q)" arbitrary: P)
  case 0
  then have "P = Q" by simp
  with 0 show ?case by (auto simp: scan.simps [of p s Q] deref_def)
next
  case (Suc n)
  then have "scan p s (P - 1) End = Some Q" by (intro Suc.hyps(1)) auto
  with Suc show ?case by (simp add: scan.simps [of p s P] deref_def)
qed

text \<open>A maximal run of characters with property \<open>p\<close> from \<open>a\<close> up to, not including, \<open>b\<close>.\<close>

definition maxrun :: "(char \<Rightarrow> bool) \<Rightarrow> string \<Rightarrow> int \<Rightarrow> int \<Rightarrow> bool" where
  "maxrun p s a b \<longleftrightarrow> 0 \<le> a \<and> a < b \<and> b \<le> int (length s) \<and>
     (\<forall>i. a \<le> i \<and> i < b \<longrightarrow> p (s ! nat i)) \<and>
     (a = 0 \<or> \<not> p (s ! nat (a - 1))) \<and> (b = int (length s) \<or> \<not> p (s ! nat b))"

abbreviation "seps \<equiv> maxrun (\<lambda>c. c = sep)"
abbreviation "name \<equiv> maxrun (\<lambda>c. c \<noteq> sep)"

lemma maxrun_bounds: "maxrun p s a b \<Longrightarrow> 0 \<le> a \<and> a < b \<and> b \<le> int (length s)"
  by (simp add: maxrun_def)

lemma maxrun_at: "maxrun p s a b \<Longrightarrow> a \<le> i \<Longrightarrow> i < b \<Longrightarrow> p (s ! nat i)"
  by (simp add: maxrun_def)

lemma maxrun_unique:
  assumes "maxrun p s a c" and "maxrun p s b c"
  shows "a = b"
proof (rule ccontr)
  assume "a \<noteq> b"
  then consider "a < b" | "b < a" by linarith
  then show False
  proof cases
    case 1
    then show False
      using maxrun_at [OF assms(1), of "b - 1"] assms by (auto simp: maxrun_def)
  next
    case 2
    then show False
      using maxrun_at [OF assms(2), of "a - 1"] assms by (auto simp: maxrun_def)
  qed
qed

lemma ex_maxrun:
  assumes "0 \<le> a" "a < int (length s)" "p (s ! nat a)" "a = 0 \<or> \<not> p (s ! nat (a - 1))"
  obtains b where "maxrun p s a b"
proof -
  let ?w = "takeWhile p (drop (nat a) s)"
  have d: "drop (nat a) s = s ! nat a # drop (Suc (nat a)) s"
    using assms(1,2) by (intro Cons_nth_drop_Suc [symmetric]) linarith
  have len: "length ?w \<le> length s - nat a"
    using length_takeWhile_le [of p "drop (nat a) s"] by simp
  have "0 < length ?w"
    using assms(3) by (simp add: d)
  moreover have "p (s ! nat i)" if "a \<le> i" "i < a + int (length ?w)" for i
  proof -
    let ?k = "nat i - nat a"
    have "?k < length ?w" using that assms(1) by linarith
    then have "?w ! ?k = drop (nat a) s ! ?k" by (rule takeWhile_nth)
    moreover have "p (?w ! ?k)"
      using \<open>?k < length ?w\<close> nth_mem set_takeWhileD by metis
    moreover have "drop (nat a) s ! ?k = s ! nat i"
      using that assms(1,2) len by (subst nth_drop) (auto simp: nat_diff_distrib)
    ultimately show ?thesis by simp
  qed
  moreover have "\<not> p (s ! nat (a + int (length ?w)))" if "a + int (length ?w) \<noteq> int (length s)"
  proof -
    have "length ?w < length (drop (nat a) s)"
      using that len assms(1,2) by simp
    then have "\<not> p (drop (nat a) s ! length ?w)"
      by (rule nth_length_takeWhile)
    then show ?thesis
      using assms(1,2) by (simp add: nat_add_distrib)
  qed
  ultimately have "maxrun p s a (a + int (length ?w))"
    using assms len unfolding maxrun_def by auto
  then show ?thesis by (rule that)
qed

text \<open>What the two functions do at either end of a run and off it.\<close>

lemma consume_forward:
  "seps s a b \<Longrightarrow> a \<le> P \<Longrightarrow> P < b \<Longrightarrow> consumeSeparator s (At P) (int (length s)) = Some (At b)"
  "name s a b \<Longrightarrow> a \<le> P \<Longrightarrow> P < b \<Longrightarrow> consumeName s (At P) (int (length s)) = Some (At b)"
  by (auto simp: consumeSeparator_def consumeName_def deref_def maxrun_def intro!: scan_forward)

lemma consume_backward:
  "seps s a b \<Longrightarrow> a \<le> P \<Longrightarrow> P < b \<Longrightarrow> consumeSeparator s (At P) (-1) = Some (At (a - 1))"
  "name s a b \<Longrightarrow> a \<le> P \<Longrightarrow> P < b \<Longrightarrow> consumeName s (At P) (-1) = Some (At (a - 1))"
  by (auto simp: consumeSeparator_def consumeName_def deref_def maxrun_def intro!: scan_backward)

lemma consume_null:
  "name s a b \<Longrightarrow> a \<le> P \<Longrightarrow> P < b \<Longrightarrow> consumeSeparator s (At P) E = Some Null"
  "seps s a b \<Longrightarrow> a \<le> P \<Longrightarrow> P < b \<Longrightarrow> consumeName s (At P) E = Some Null"
  by (auto simp: consumeSeparator_def consumeName_def deref_def maxrun_def)

lemma consumeName_end: "consumeName s (At E) E = Some Null"
  by (simp add: consumeName_def)

section \<open>Elements and positions\<close>

text \<open>
  The root name of a path: exactly two separators and the name behind them.  An element of the path
  is a state with the interval it occupies.
\<close>

definition root_name :: "string \<Rightarrow> int \<Rightarrow> bool" where
  "root_name s e \<longleftrightarrow> seps s 0 2 \<and> (e = 2 \<and> int (length s) = 2 \<or> name s 2 e)"

inductive at_token :: "string \<Rightarrow> parser_state \<Rightarrow> int \<Rightarrow> int \<Rightarrow> bool" for s :: string where
  root_name: "root_name s e \<Longrightarrow> at_token s PS_InRootName 0 e"
| root_dir: "seps s 0 b \<Longrightarrow> b \<noteq> 2 \<Longrightarrow> at_token s PS_InRootDir 0 b"
| root_dir_behind: "root_name s a \<Longrightarrow> seps s a b \<Longrightarrow> at_token s PS_InRootDir a b"
| filename: "name s a b \<Longrightarrow> \<not> (a = 2 \<and> seps s 0 2) \<Longrightarrow> at_token s PS_InFilenames a b"
| trailing: "seps s a b \<Longrightarrow> b = int (length s) \<Longrightarrow> a \<noteq> 0 \<Longrightarrow> \<not> root_name s a \<Longrightarrow>
    at_token s PS_InTrailingSep a b"

inductive_cases at_token_nameE: "at_token s PS_InRootName a b"
inductive_simps at_token_simps: "at_token s st a b"

definition tok :: "string \<Rightarrow> parser_state \<Rightarrow> int \<Rightarrow> int \<Rightarrow> path_parser" where
  "tok s st a b = \<lparr>Path = s, RawEntry = View a (nat (b - a)), State = st\<rparr>"

lemma root_name_bounds: "root_name s e \<Longrightarrow> 2 \<le> e \<and> e \<le> int (length s)"
  by (auto simp: root_name_def maxrun_def)

lemma at_token_bounds: "at_token s st a b \<Longrightarrow> 0 \<le> a \<and> a < b \<and> b \<le> int (length s)"
  by (auto elim!: at_token.cases dest: maxrun_bounds root_name_bounds)

lemma makeState_tok:
  "Path PP = s \<Longrightarrow> a \<le> b \<Longrightarrow> makeState PP st (At a) (At b) = Some (tok s st a b)"
  by (cases PP) (simp add: makeState_def tok_def)

lemma Path_tok [simp]: "Path (tok s st a b) = s" "State (tok s st a b) = st"
  by (simp_all add: tok_def)

lemma view_tok:
  "a < b \<Longrightarrow> view_back (RawEntry (tok s st a b)) = Some (b - 1)"
  "a < b \<Longrightarrow> view_front (RawEntry (tok s st a b)) = Some a"
  by (simp_all add: tok_def)

lemma next_tok:
  "at_token s st a b \<Longrightarrow> getNextTokenStartPos (tok s st a b) = Some b"
  by (auto simp: getNextTokenStartPos_def getAfterBack_def view_tok elim!: at_token.cases
      dest: maxrun_bounds root_name_bounds)

lemma current_tok:
  "a < b \<Longrightarrow> s \<noteq> [] \<Longrightarrow> getCurrentTokenStartPos (tok s st a b) =
    (case st of PS_BeforeBegin \<Rightarrow> Some 0 | PS_InRootName \<Rightarrow> Some 0 | PS_AtEnd \<Rightarrow> Some (int (length s)) | _ \<Rightarrow> Some a)"
  by (cases st) (simp_all add: getCurrentTokenStartPos_def view_tok front_ptr_def back_ptr_def)

lemma current_end: "s \<noteq> [] \<Longrightarrow> getCurrentTokenStartPos (CreateEnd s) = Some (int (length s))"
  by (simp add: getCurrentTokenStartPos_def CreateEnd_def back_ptr_def)

text \<open>The first element.\<close>

lemma begin_eq:
  assumes "s \<noteq> []"
  shows "CreateBegin s = do {
     let PP = \<lparr>Path = s, RawEntry = Empty_view, State = PS_BeforeBegin\<rparr>;
     TkEnd \<leftarrow> consumeSeparator s (At 0) (int (length s));
     (if TkEnd = At 2 then do {
        NameEnd \<leftarrow> consumeName s TkEnd (int (length s));
        makeState PP PS_InRootName (At 0) (if NameEnd \<noteq> Null then NameEnd else TkEnd)
      }
      else if TkEnd \<noteq> Null then makeState PP PS_InRootDir (At 0) TkEnd
      else do {
        NameEnd \<leftarrow> consumeName s (At 0) (int (length s));
        makeState PP PS_InFilenames (At 0) NameEnd
      })
   }"
  using assms
  by (simp add: CreateBegin_def increment_def getNextTokenStartPos_def getAfterBack_def Let_def)

lemma begin_root_name:
  assumes "root_name s e"
  shows "CreateBegin s = Some (tok s PS_InRootName 0 e)"
proof -
  have "seps s 0 2" and len: "2 \<le> length s" and e: "2 \<le> e"
    using assms root_name_bounds [OF assms] by (auto simp: root_name_def)
  then have "consumeSeparator s (At 0) (int (length s)) = Some (At 2)"
    by (intro consume_forward) auto
  moreover have "consumeName s (At 2) (int (length s)) = Some (if int (length s) = 2 then Null else At e)"
    using assms consumeName_end [of s 2] consume_forward(2) [of s 2 e 2]
    by (auto simp: root_name_def dest: maxrun_bounds)
  moreover have "s \<noteq> []" using len by auto
  ultimately show ?thesis
    using assms e by (auto simp: begin_eq makeState_tok root_name_def dest: maxrun_bounds)
qed

lemma begin_at:
  assumes "at_token s st 0 b"
  shows "CreateBegin s = Some (tok s st 0 b)"
  using assms
proof cases
  case root_name
  then show ?thesis using begin_root_name by simp
next
  case root_dir
  have "s \<noteq> []" "0 < b" using maxrun_bounds [OF root_dir(2)] by auto
  then show ?thesis
    using consume_forward(1) [OF root_dir(2), of 0] root_dir by (simp add: begin_eq makeState_tok)
next
  case root_dir_behind
  then show ?thesis using root_name_bounds [of s 0] by simp
next
  case filename
  have "s \<noteq> []" "0 < b" using maxrun_bounds [OF filename(2)] by auto
  then show ?thesis
    using filename consume_forward(2) [OF filename(2), of 0]
      consume_null(1) [OF filename(2), of 0 "int (length s)"]
    by (simp add: begin_eq makeState_tok)
qed simp

lemma ex_first:
  assumes "s \<noteq> []"
  shows "\<exists>st b. at_token s st 0 b"
proof (cases "s ! 0 = sep")
  case True
  then obtain b where b: "seps s 0 b"
    using assms by (auto intro: ex_maxrun [of 0 s "\<lambda>c. c = sep"])
  show ?thesis
  proof (cases "b = 2 \<and> int (length s) \<noteq> 2")
    case False
    then show ?thesis
      using b at_token.root_name [of s 2] at_token.root_dir [of s b] by (auto simp: root_name_def)
  next
    case True
    then have "s ! nat 2 \<noteq> sep" "2 < int (length s)" "s ! nat (2 - 1) = sep"
      using b maxrun_at [OF b, of 1] by (auto simp: maxrun_def)
    then obtain e where "name s 2 e"
      using ex_maxrun [of 2 s "\<lambda>c. c \<noteq> sep"] by auto
    then have "root_name s e" using b True by (simp add: root_name_def)
    then show ?thesis by (blast intro: at_token.intros)
  qed
next
  case False
  then obtain b where "name s 0 b"
    using assms by (auto intro: ex_maxrun [of 0 s "\<lambda>c. c \<noteq> sep"])
  then have "at_token s PS_InFilenames 0 b" by (rule at_token.filename) simp
  then show ?thesis by blast
qed

lemma begin_token:
  assumes "s \<noteq> []"
  obtains st b where "at_token s st 0 b" and "CreateBegin s = Some (tok s st 0 b)"
  using ex_first [OF assms] begin_at by blast

lemma begin_empty: "CreateBegin [] = Some (CreateEnd [])"
  by (simp add: CreateBegin_def CreateEnd_def increment_def getNextTokenStartPos_def getAfterBack_def
      makeStateEmpty_def)

section \<open>Forwards and back\<close>

text \<open>One step over an element that is not the last, and the step back.\<close>

lemma run_behind:
  assumes "maxrun p s a b" and "b < int (length s)"
  shows "\<exists>c. maxrun (\<lambda>x. \<not> p x) s b c"
proof -
  have "\<not> p (s ! nat b)" "p (s ! nat (b - 1))"
    using assms maxrun_at [OF assms(1), of "b - 1"] by (auto simp: maxrun_def)
  then show ?thesis
    using assms maxrun_bounds [OF assms(1)] ex_maxrun [of b s "\<lambda>x. \<not> p x"] by auto
qed

lemma seps_behind: "name s a b \<Longrightarrow> b < int (length s) \<Longrightarrow> \<exists>c. seps s b c"
  using run_behind [of "\<lambda>c. c \<noteq> sep" s a b] by simp

lemma name_behind: "seps s a b \<Longrightarrow> b < int (length s) \<Longrightarrow> \<exists>c. name s b c"
  by (rule run_behind)

lemma nonempty: "b \<le> int (length s) \<Longrightarrow> 0 < b \<Longrightarrow> s \<noteq> []"
  by auto

lemma root_name_sep_back:
  assumes "root_name s e"
  shows "consumeSeparator s (At 1) (-1) = Some (At (-1))"
  using assms consume_backward(1) [of s 0 2 1] by (simp add: root_name_def)

text \<open>A name that is not the root name: the test for two separators in front of it fails.\<close>

lemma filename_no_root:
  assumes "name s a b" and "\<not> (a = 2 \<and> seps s 0 2)" and "a = 2"
  shows "consumeSeparator s (At 1) (-1) = Some (At 0)"
proof -
  have sep1: "s ! nat 1 = sep" and sep2: "s ! nat 2 \<noteq> sep" and len: "2 < int (length s)"
    using assms maxrun_at [OF assms(1), of 2] by (auto simp: maxrun_def)
  have "s ! nat 0 \<noteq> sep"
  proof
    assume sep0: "s ! nat 0 = sep"
    have "s ! nat i = sep" if "0 \<le> i" "i < 2" for i
    proof -
      have "i = 0 \<or> i = 1" using that by linarith
      then show ?thesis using sep0 sep1 by auto
    qed
    then have "seps s 0 2"
      using sep2 len unfolding maxrun_def by auto
    with assms show False by simp
  qed
  then have "scan (\<lambda>c. c = sep) s 0 (-1) = Some 0"
    using len by (intro scan_backward) auto
  with sep1 len show ?thesis
    by (simp add: consumeSeparator_def deref_def)
qed

text \<open>The element that follows another one.\<close>

inductive adjacent :: "string \<Rightarrow> parser_state \<Rightarrow> int \<Rightarrow> int \<Rightarrow> parser_state \<Rightarrow> int \<Rightarrow> int \<Rightarrow> bool"
  for s :: string where
  dir: "root_name s a \<Longrightarrow> seps s a b \<Longrightarrow> adjacent s PS_InRootName 0 a PS_InRootDir a b"
| first_name: "at_token s PS_InRootDir a b \<Longrightarrow> name s b c \<Longrightarrow>
    adjacent s PS_InRootDir a b PS_InFilenames b c"
| next_name: "at_token s PS_InFilenames a b \<Longrightarrow> seps s b c \<Longrightarrow> name s c d \<Longrightarrow>
    adjacent s PS_InFilenames a b PS_InFilenames c d"
| last_sep: "at_token s PS_InFilenames a b \<Longrightarrow> seps s b (int (length s)) \<Longrightarrow>
    adjacent s PS_InFilenames a b PS_InTrailingSep b (int (length s))"

lemma adjacent_tokens:
  assumes "adjacent s st a b st' a' b'"
  shows "at_token s st a b" and "at_token s st' a' b'" and "b \<le> a'" and "st \<noteq> PS_InTrailingSep"
proof -
  have all: "at_token s st a b \<and> at_token s st' a' b' \<and> b \<le> a' \<and> st \<noteq> PS_InTrailingSep"
    using assms
  proof cases
    case dir
    then show ?thesis by (auto intro: at_token.intros)
  next
    case first_name
    have "\<not> (b = 2 \<and> seps s 0 2)"
      using first_name at_token_bounds [OF first_name(4)]
      by (auto simp: at_token_simps dest: root_name_bounds)
    with first_name show ?thesis by (auto intro: at_token.intros)
  next
    case next_name
    have "\<not> (a' = 2 \<and> seps s 0 2)"
      using maxrun_unique [of _ s b 2 0] next_name at_token_bounds [OF next_name(3)] by auto
    with next_name show ?thesis
      using maxrun_bounds [OF next_name(4)] by (auto intro: at_token.intros)
  next
    case last_sep
    have b: "b \<noteq> 0" "b < int (length s)" "name s a b" "\<not> (a = 2 \<and> seps s 0 2)"
      using last_sep at_token_bounds [OF last_sep(5)] maxrun_bounds [OF last_sep(6)]
      by (auto simp: at_token_simps)
    have "\<not> root_name s b"
    proof
      assume r: "root_name s b"
      then have "name s 2 b" using b by (auto simp: root_name_def)
      then have "a = 2" using b(3) by (rule maxrun_unique [symmetric])
      with b(4) r show False by (simp add: root_name_def)
    qed
    then show ?thesis using last_sep b by (auto intro: at_token.intros)
  qed
  then show "at_token s st a b" "at_token s st' a' b'" "b \<le> a'" "st \<noteq> PS_InTrailingSep" by simp_all
qed

lemma ex_adjacent:
  assumes t: "at_token s st a b" and b: "b < int (length s)"
  shows "\<exists>st' a' b'. adjacent s st a b st' a' b'"
  using t
proof cases
  case root_name
  then have "name s 2 b" using b by (auto simp: root_name_def)
  then show ?thesis using seps_behind b root_name by (blast intro: adjacent.intros)
next
  case root_dir
  then show ?thesis using name_behind b t by (blast intro: adjacent.intros)
next
  case root_dir_behind
  then show ?thesis using name_behind b t by (blast intro: adjacent.intros)
next
  case filename
  then obtain c where c: "seps s b c" using seps_behind b by blast
  show ?thesis
  proof (cases "c = int (length s)")
    case True
    then show ?thesis using c filename t by (blast intro: adjacent.intros)
  next
    case False
    then obtain d where "name s c d" using name_behind [OF c] maxrun_bounds [OF c] by auto
    then show ?thesis using c filename t by (blast intro: adjacent.intros)
  qed
qed (use b in simp)

lemma adjacent_increment:
  assumes "adjacent s st a b st' a' b'"
  shows "increment (tok s st a b) = Some (tok s st' a' b')"
proof -
  note next_pos = next_tok [OF adjacent_tokens(1) [OF assms]]
  have bounds: "a < b" "b \<le> a'" "a' < b'" "b' \<le> int (length s)"
    using adjacent_tokens [OF assms] by (auto dest: at_token_bounds)
  from assms show ?thesis
  proof cases
    case dir
    then show ?thesis
      using next_pos bounds consume_forward(1) [OF dir(6), of a']
      by (simp add: increment_def Let_def getAfterBack_def makeState_tok)
  next
    case first_name
    then show ?thesis
      using next_pos bounds consume_forward(2) [OF first_name(5), of b]
      by (simp add: increment_def Let_def getAfterBack_def makeState_tok)
  next
    case next_name
    then show ?thesis
      using next_pos bounds maxrun_bounds [OF next_name(4)] consume_forward(1) [OF next_name(4), of b]
        consume_forward(2) [OF next_name(5), of a']
      by (simp add: increment_def Let_def getAfterBack_def makeState_tok)
  next
    case last_sep
    then show ?thesis
      using next_pos bounds consume_forward(1) [OF last_sep(6), of b]
      by (simp add: increment_def Let_def getAfterBack_def makeState_tok)
  qed
qed

lemma adjacent_decrement:
  assumes "adjacent s st a b st' a' b'"
  shows "decrement (tok s st' a' b') = Some (tok s st a b)"
proof -
  have bounds: "0 \<le> a" "a < b" "b \<le> a'" "a' < b'" and ne: "s \<noteq> []"
    using adjacent_tokens [OF assms] by (auto dest: at_token_bounds)
  from assms show ?thesis
  proof cases
    case dir
    then show ?thesis
      using bounds ne by (simp add: decrement_def Let_def current_tok makeState_tok)
  next
    case first_name
    have seps: "seps s a b" using first_name by (auto simp: at_token_simps)
    show ?thesis
    proof (cases "a = 0")
      case True
      then have "b \<noteq> 2" using first_name by (auto simp: at_token_simps dest: root_name_bounds)
      then show ?thesis
        using True first_name bounds ne consume_backward(1) [OF seps, of "b - 1"]
        by (simp add: decrement_def Let_def current_tok makeState_tok getBeforeFront_def)
    next
      case False
      then have r: "root_name s a" using first_name by (auto simp: at_token_simps)
      have "name s 2 a" using r bounds adjacent_tokens(2) [OF assms]
        by (auto simp: root_name_def dest: at_token_bounds)
      then have "consumeName s (At (a - 1)) (-1) = Some (At 1)"
        using consume_backward(2) [of s 2 a "a - 1"] maxrun_bounds [of _ s 2 a] by auto
      then show ?thesis
        using False first_name bounds ne consume_backward(1) [OF seps, of "b - 1"]
          root_name_sep_back [OF r]
        by (simp add: decrement_def Let_def current_tok makeState_tok getBeforeFront_def)
    qed
  next
    case next_name
    then have n: "name s a b" "\<not> (a = 2 \<and> seps s 0 2)" by (auto simp: at_token_simps)
    show ?thesis
      using next_name bounds ne maxrun_bounds [OF next_name(4)]
        consume_backward(1) [OF next_name(4), of "a' - 1"] consume_backward(2) [OF n(1), of "b - 1"]
        filename_no_root [OF n]
      by (simp add: decrement_def Let_def current_tok makeState_tok getBeforeFront_def)
  next
    case last_sep
    then have n: "name s a b" by (auto simp: at_token_simps)
    show ?thesis
      using last_sep bounds ne consume_backward(2) [OF n, of "b - 1"]
      by (simp add: decrement_def Let_def current_tok makeState_tok getBeforeFront_def)
  qed
qed

text \<open>The last element, and the end.\<close>

lemma increment_end:
  assumes t: "at_token s st a (int (length s))"
  shows "increment (tok s st a (int (length s))) = Some (CreateEnd s)"
  using next_tok [OF t]
  by (simp add: increment_def Let_def getAfterBack_def makeStateEmpty_def CreateEnd_def tok_def)

lemma decrement_CreateEnd:
  assumes "s \<noteq> []"
  shows "decrement (CreateEnd s) = do {
     let PP = CreateEnd s;
     let RStart = int (length s) - 1;
     SepEnd \<leftarrow> consumeSeparator s (At RStart) (-1);
     (if SepEnd \<noteq> Null then
        (if SepEnd = At (-1) then
           makeState PP (if RStart = -1 + 2 then PS_InRootName else PS_InRootDir) (At 0) (At (RStart + 1))
         else do {
           PPB \<leftarrow> CreateBegin s;
           InRootDir \<leftarrow> (if State PPB = PS_InRootName
             then map_option (\<lambda>b. At b = SepEnd) (view_back (RawEntry PPB)) else Some False);
           Start \<leftarrow> ptr_add SepEnd 1;
           makeState PP (if InRootDir then PS_InRootDir else PS_InTrailingSep) Start (At (RStart + 1))
         })
      else do {
        TkStart \<leftarrow> consumeName s (At RStart) (-1);
        RootEnd \<leftarrow> (if TkStart = At (-1 + 2) then consumeSeparator s TkStart (-1) else Some Null);
        (if RootEnd = At (-1) then makeState PP PS_InRootName (At 0) (At (RStart + 1))
         else do {
           Start \<leftarrow> ptr_add TkStart 1;
           makeState PP PS_InFilenames Start (At (RStart + 1))
         })
      })
   }"
  using current_end [OF assms] by (simp add: decrement_def getBeforeFront_def CreateEnd_def Let_def)

lemma makeState_end:
  "a \<le> b \<Longrightarrow> makeState (CreateEnd s) st (At a) (At b) = Some (tok s st a b)"
  by (rule makeState_tok) (simp_all add: CreateEnd_def)

lemma decrement_end:
  assumes t: "at_token s st a (int (length s))"
  shows "decrement (CreateEnd s) = Some (tok s st a (int (length s)))"
proof -
  have ab: "0 \<le> a" "a < int (length s)" and ne: "s \<noteq> []"
    using at_token_bounds [OF t] by auto
  let ?n = "int (length s)"
  from t show ?thesis
  proof cases
    case root_name
    show ?thesis
    proof (cases "?n = 2")
      case True
      then have "consumeSeparator s (At (?n - 1)) (-1) = Some (At (-1))"
        using root_name_sep_back [OF root_name(3)] by simp
      then show ?thesis using True ne root_name by (simp add: decrement_CreateEnd makeState_end)
    next
      case False
      then have n: "name s 2 ?n" using root_name by (auto simp: root_name_def)
      have "consumeSeparator s (At (?n - 1)) (-1) = Some Null"
        using n maxrun_bounds [OF n] by (intro consume_null) auto
      moreover have "consumeName s (At (?n - 1)) (-1) = Some (At 1)"
        using consume_backward(2) [OF n, of "?n - 1"] maxrun_bounds [OF n] by simp
      ultimately show ?thesis
        using ne root_name root_name_sep_back [OF root_name(3)] ab
        by (simp add: decrement_CreateEnd makeState_end)
    qed
  next
    case root_dir
    then have "consumeSeparator s (At (?n - 1)) (-1) = Some (At (-1))"
      using consume_backward(1) [of s 0 ?n "?n - 1"] ab by simp
    then show ?thesis using ne root_dir by (simp add: decrement_CreateEnd makeState_end)
  next
    case root_dir_behind
    have "2 \<le> a" using root_name_bounds [OF root_dir_behind(2)] by simp
    have "consumeSeparator s (At (?n - 1)) (-1) = Some (At (a - 1))"
      using root_dir_behind ab by (intro consume_backward) auto
    then show ?thesis
      using ne root_dir_behind \<open>2 \<le> a\<close> ab begin_root_name [OF root_dir_behind(2)]
      by (simp add: decrement_CreateEnd makeState_end view_tok)
  next
    case filename
    have "consumeSeparator s (At (?n - 1)) (-1) = Some Null"
      using filename ab by (intro consume_null) auto
    moreover have "consumeName s (At (?n - 1)) (-1) = Some (At (a - 1))"
      using filename ab by (intro consume_backward) auto
    ultimately show ?thesis
      using ne ab filename filename_no_root [OF filename(2,3)]
      by (simp add: decrement_CreateEnd makeState_end)
  next
    case trailing
    have sepend: "consumeSeparator s (At (?n - 1)) (-1) = Some (At (a - 1))"
      using trailing ab by (intro consume_backward) auto
    obtain st' e where b: "at_token s st' 0 e" "CreateBegin s = Some (tok s st' 0 e)"
      using begin_token [OF ne] by blast
    have "\<not> (st' = PS_InRootName \<and> e = a)"
      using b(1) trailing by (auto simp: at_token_simps)
    then show ?thesis
      using ne ab trailing sepend b at_token_bounds [OF b(1)]
      by (auto simp: decrement_CreateEnd makeState_end view_tok)
  qed
qed

section \<open>Reachable states\<close>

text \<open>The states a parser can be in: an element of the path, or the end.\<close>

inductive reached :: "string \<Rightarrow> path_parser \<Rightarrow> bool" for s :: string where
  first: "CreateBegin s = Some PP \<Longrightarrow> reached s PP"
| step: "reached s PP \<Longrightarrow> State PP \<noteq> PS_AtEnd \<Longrightarrow> increment PP = Some QQ \<Longrightarrow> reached s QQ"

lemma token_step:
  assumes "at_token s st a b"
  shows "b = int (length s) \<and> increment (tok s st a b) = Some (CreateEnd s) \<and>
      decrement (CreateEnd s) = Some (tok s st a b) \<or>
    (\<exists>st' a' b'. adjacent s st a b st' a' b' \<and> at_token s st' a' b' \<and>
      increment (tok s st a b) = Some (tok s st' a' b') \<and>
      decrement (tok s st' a' b') = Some (tok s st a b))"
proof (cases "b = int (length s)")
  case True
  then show ?thesis using assms increment_end decrement_end by blast
next
  case False
  then have "b < int (length s)" using at_token_bounds [OF assms] by simp
  then obtain st' a' b' where adj: "adjacent s st a b st' a' b'" using ex_adjacent [OF assms] by blast
  then show ?thesis
    using adjacent_tokens(2) [OF adj] adjacent_increment [OF adj] adjacent_decrement [OF adj] by blast
qed

lemma reached_cases:
  assumes "reached s PP"
  shows "PP = CreateEnd s \<or> (\<exists>st a b. at_token s st a b \<and> PP = tok s st a b)"
  using assms
proof induction
  case (first PP)
  then show ?case
    using begin_token [of s] begin_empty by (cases "s = []") auto
next
  case (step PP QQ)
  then show ?case
    using token_step by (fastforce simp: CreateEnd_def)
qed

lemma at_token_not_end: "at_token s st a b \<Longrightarrow> st \<noteq> PS_AtEnd \<and> st \<noteq> PS_BeforeBegin"
  by (auto elim: at_token.cases)

lemma inc_dec:
  assumes "reached s PP" and "State PP \<noteq> PS_AtEnd"
  shows "\<exists>QQ. increment PP = Some QQ \<and> decrement QQ = Some PP"
  using reached_cases [OF assms(1)] assms(2) token_step by (fastforce simp: CreateEnd_def)

end
