(* ===== verification/Path_Ops.thy ===== *)
theory Path_Ops
  imports Path_Parser "HOL-Library.List_Lexorder" "HOL-Library.Char_ord"
begin

text \<open>
  The operations of \<open>path\<close> in \<open>src/src/experimental/filesystem/path.cpp\<close> (lines 247 to 448) on top
  of \<open>PathParser\<close>: decomposition, comparison, hashing, \<open>replace_extension\<close> and the iterator.  A
  path is its native string.  As in \<open>Path_Parser\<close>, \<open>None\<close> is undefined behaviour; for the loops,
  which are partial functions, it is also divergence, so a result \<open>Some\<close> is termination too.
\<close>

section \<open>File names\<close>

fun find_last_of :: "char \<Rightarrow> string \<Rightarrow> nat option" where
  "find_last_of c [] = None"
| "find_last_of c (x # xs) = (case find_last_of c xs of
     Some i \<Rightarrow> Some (Suc i)
   | None \<Rightarrow> if x = c then Some 0 else None)"

definition separate_filename :: "string \<Rightarrow> string \<times> string" where
  "separate_filename s =
     (if s = ''.'' \<or> s = ''..'' \<or> s = [] then (s, [])
      else case find_last_of (CHR ''.'') s of
        None \<Rightarrow> (s, [])
      | Some pos \<Rightarrow> (take pos s, drop pos s))"

section \<open>Decomposition\<close>

text \<open>\<open>createView(S, E)\<close>: the characters from \<open>S\<close> to \<open>E\<close>, both included.\<close>

definition createView :: "string \<Rightarrow> ptr \<Rightarrow> int \<Rightarrow> string option" where
  "createView s S E = (case S of
     Null \<Rightarrow> None
   | At a \<Rightarrow> if 0 \<le> a \<and> a \<le> E + 1 \<and> E < int (length s) then Some (take (nat (E - a + 1)) (drop (nat a) s))
            else None)"

fun view_data :: "view \<Rightarrow> ptr" where
  "view_data (View a n) = At a"
| "view_data Empty_view = Null"

definition path_root_name :: "string \<Rightarrow> string option" where
  "path_root_name pn = do {
     PP \<leftarrow> CreateBegin pn;
     Some (if State PP = PS_InRootName then deref_parser PP else [])
   }"

definition path_root_directory :: "string \<Rightarrow> string option" where
  "path_root_directory pn = do {
     PP \<leftarrow> CreateBegin pn;
     PP \<leftarrow> (if State PP = PS_InRootName then increment PP else Some PP);
     Some (if State PP = PS_InRootDir then deref_parser PP else [])
   }"

definition path_root_path_raw :: "string \<Rightarrow> string option" where
  "path_root_path_raw pn = do {
     PP \<leftarrow> CreateBegin pn;
     (if State PP = PS_InRootName then do {
        NextCh \<leftarrow> peek PP;
        InDir \<leftarrow> (case NextCh of Null \<Rightarrow> Some False | At P \<Rightarrow> map_option (\<lambda>c. c = sep) (deref pn P));
        (if InDir then do {
           PP \<leftarrow> increment PP;
           b \<leftarrow> view_back (RawEntry PP);
           createView pn (At 0) b
         }
         else Some (view_text pn (RawEntry PP)))
      }
      else Some (if State PP = PS_InRootDir then deref_parser PP else []))
   }"

text \<open>\<open>while (PP.State <= PS_InRootDir) ++PP;\<close>\<close>

partial_function (option) skip_root :: "path_parser \<Rightarrow> path_parser option" where
  "skip_root PP =
     (if State PP \<le> PS_InRootDir then Option.bind (increment PP) skip_root else Some PP)"

definition path_relative_path :: "string \<Rightarrow> string option" where
  "path_relative_path pn = do {
     PP \<leftarrow> CreateBegin pn;
     PP \<leftarrow> skip_root PP;
     (if State PP = PS_AtEnd then Some []
      else do {
        b \<leftarrow> back_ptr pn;
        createView pn (view_data (RawEntry PP)) b
      })
   }"

definition path_parent_path :: "string \<Rightarrow> string option" where
  "path_parent_path pn =
     (if pn = [] then Some []
      else do {
        PP \<leftarrow> decrement (CreateEnd pn);
        (if view_data (RawEntry PP) = At 0 then Some []
         else do {
           PP \<leftarrow> decrement PP;
           b \<leftarrow> view_back (RawEntry PP);
           createView pn (At 0) b
         })
      })"

definition path_filename :: "string \<Rightarrow> string option" where
  "path_filename pn =
     (if pn = [] then Some [] else map_option deref_parser (decrement (CreateEnd pn)))"

definition path_stem :: "string \<Rightarrow> string option" where
  "path_stem pn = map_option (\<lambda>f. fst (separate_filename f)) (path_filename pn)"

definition path_extension :: "string \<Rightarrow> string option" where
  "path_extension pn = map_option (\<lambda>f. snd (separate_filename f)) (path_filename pn)"

text \<open>\<open>erase(pos)\<close> throws \<open>out_of_range\<close> behind the end; here \<open>None\<close>.\<close>

definition erase_from :: "string \<Rightarrow> int \<Rightarrow> string option" where
  "erase_from s pos = (if 0 \<le> pos \<and> pos \<le> int (length s) then Some (take (nat pos) s) else None)"

definition replace_extension :: "string \<Rightarrow> string \<Rightarrow> string option" where
  "replace_extension pn replacement = do {
     p \<leftarrow> path_extension pn;
     pn' \<leftarrow> (if p \<noteq> [] then erase_from pn (int (length pn) - int (length p)) else Some pn);
     Some (if replacement \<noteq> [] then
         (if replacement ! 0 \<noteq> CHR ''.'' then pn' @ ''.'' else pn') @ replacement
       else pn')
   }"

section \<open>Comparison and hashing\<close>

text \<open>\<open>string_view::compare\<close>; the sign of \<open>memcmp\<close> is all that is used of it.\<close>

fun traits_compare :: "string \<Rightarrow> string \<Rightarrow> nat \<Rightarrow> int" where
  "traits_compare (x # xs) (y # ys) (Suc n) =
     (if x < y then -1 else if y < x then 1 else traits_compare xs ys n)"
| "traits_compare xs ys n = 0"

definition view_compare :: "string \<Rightarrow> string \<Rightarrow> int" where
  "view_compare s t =
     (let r = traits_compare s t (min (length s) (length t)) in
      if r = 0 then (if length s = length t then 0 else if length s < length t then -1 else 1) else r)"

partial_function (option) compare_loop :: "path_parser \<Rightarrow> path_parser \<Rightarrow> int option" where
  "compare_loop PP PP2 =
     (if parser_valid PP \<and> parser_valid PP2 then
        let res = view_compare (deref_parser PP) (deref_parser PP2) in
        if res \<noteq> 0 then Some res
        else Option.bind (increment PP) (\<lambda>PP. Option.bind (increment PP2) (\<lambda>PP2. compare_loop PP PP2))
      else Some (if State PP = State PP2 \<and> State PP = PS_AtEnd then 0
        else if State PP = PS_AtEnd then -1 else 1))"

definition path_compare :: "string \<Rightarrow> string \<Rightarrow> int option" where
  "path_compare pn s = do {
     PP \<leftarrow> CreateBegin pn;
     PP2 \<leftarrow> CreateBegin s;
     compare_loop PP PP2
   }"

text \<open>\<open>hash_value\<close>, for a string hash and the combination of two hashes as parameters.\<close>

partial_function (option) hash_loop ::
  "(string \<Rightarrow> u64) \<Rightarrow> (u64 \<Rightarrow> u64 \<Rightarrow> u64) \<Rightarrow> path_parser \<Rightarrow> u64 \<Rightarrow> u64 option" where
  "hash_loop hasher hash_combine PP h =
     (if parser_valid PP then
        Option.bind (increment PP) (\<lambda>QQ.
          hash_loop hasher hash_combine QQ (hash_combine h (hasher (deref_parser PP))))
      else Some h)"

definition hash_value :: "(string \<Rightarrow> u64) \<Rightarrow> (u64 \<Rightarrow> u64 \<Rightarrow> u64) \<Rightarrow> string \<Rightarrow> u64 option" where
  "hash_value hasher hash_combine p = do {
     PP \<leftarrow> CreateBegin p;
     hash_loop hasher hash_combine PP 0
   }"

section \<open>Iterators\<close>

text \<open>A default constructed iterator has the state 0 (\<open>__singular\<close>) and a null path.\<close>

record path_iterator =
  path_ptr :: "string option"
  entry :: view
  it_state :: nat
  stashed :: string

fun parser_state_of :: "nat \<Rightarrow> parser_state option" where
  "parser_state_of n =
     (if n = 1 then Some PS_BeforeBegin else if n = 2 then Some PS_InRootName
      else if n = 3 then Some PS_InRootDir else if n = 4 then Some PS_InFilenames
      else if n = 5 then Some PS_InTrailingSep else if n = 6 then Some PS_AtEnd else None)"

definition singular_iterator :: path_iterator where
  "singular_iterator = \<lparr>path_ptr = None, entry = Empty_view, it_state = 0, stashed = []\<rparr>"

definition path_begin :: "string \<Rightarrow> path_iterator option" where
  "path_begin pn = do {
     PP \<leftarrow> CreateBegin pn;
     Some (singular_iterator
       \<lparr>path_ptr := Some pn, it_state := state_value (State PP), entry := RawEntry PP,
        stashed := deref_parser PP\<rparr>)
   }"

definition path_end :: "string \<Rightarrow> path_iterator" where
  "path_end pn = singular_iterator\<lparr>it_state := state_value PS_AtEnd, path_ptr := Some pn\<rparr>"

definition iterator_parser :: "path_iterator \<Rightarrow> path_parser option" where
  "iterator_parser it = do {
     s \<leftarrow> path_ptr it;
     st \<leftarrow> parser_state_of (it_state it);
     Some \<lparr>Path = s, RawEntry = entry it, State = st\<rparr>
   }"

definition iterator_update :: "path_iterator \<Rightarrow> path_parser \<Rightarrow> path_iterator" where
  "iterator_update it PP =
     it\<lparr>it_state := state_value (State PP), entry := RawEntry PP, stashed := deref_parser PP\<rparr>"

definition iterator_increment :: "path_iterator \<Rightarrow> path_iterator option" where
  "iterator_increment it = do {
     PP \<leftarrow> iterator_parser it;
     PP \<leftarrow> increment PP;
     Some (iterator_update it PP)
   }"

definition iterator_decrement :: "path_iterator \<Rightarrow> path_iterator option" where
  "iterator_decrement it = do {
     PP \<leftarrow> iterator_parser it;
     PP \<leftarrow> decrement PP;
     Some (iterator_update it PP)
   }"

declare skip_root.simps [code] and compare_loop.simps [code] and hash_loop.simps [code]

section \<open>The elements of a path\<close>

text \<open>
  The reference: a path is a root name (two separators and a name), a root directory and file names,
  with runs of separators between them; a final run stands for the name \<open>.\<close>.
\<close>

function path_names :: "string \<Rightarrow> string list" where
  "path_names t =
     (if t = [] then []
      else let r = dropWhile (\<lambda>c. c \<noteq> sep) t; t' = dropWhile (\<lambda>c. c = sep) r in
        takeWhile (\<lambda>c. c \<noteq> sep) t #
          (if r = [] then [] else if t' = [] then [''.''] else path_names t'))"
  by pat_completeness auto
termination
proof (relation "measure length")
  fix t :: string and r t'
  assume r: "r = dropWhile (\<lambda>c. c \<noteq> sep) t" and t': "t' = dropWhile (\<lambda>c. c = sep) r" and "r \<noteq> []"
  then have "hd r = sep" using hd_dropWhile [of "\<lambda>c. c \<noteq> sep" t] by auto
  with \<open>r \<noteq> []\<close> have "length t' < length r"
    unfolding t' by (cases r) (simp_all add: less_Suc_eq_le length_dropWhile_le)
  also have "length r \<le> length t" unfolding r by (rule length_dropWhile_le)
  finally show "(t', t) \<in> measure length" by simp
qed simp

declare path_names.simps [simp del]

definition path_elements :: "string \<Rightarrow> string list" where
  "path_elements s =
     (let lead = takeWhile (\<lambda>c. c = sep) s; t = dropWhile (\<lambda>c. c = sep) s in
      if length lead = 2 then
        (lead @ takeWhile (\<lambda>c. c \<noteq> sep) t) #
          (let r = dropWhile (\<lambda>c. c \<noteq> sep) t in
           if r = [] then [] else ''/'' # path_names (dropWhile (\<lambda>c. c = sep) r))
      else if lead \<noteq> [] then ''/'' # path_names t
      else path_names t)"

text \<open>The elements that a parser still has to show, from its current one on.\<close>

partial_function (option) walk :: "path_parser \<Rightarrow> string list option" where
  "walk PP =
     (if parser_valid PP
      then Option.bind (increment PP) (\<lambda>QQ. Option.bind (walk QQ) (\<lambda>xs. Some (deref_parser PP # xs)))
      else Some [])"

declare walk.simps [code]

lemma run_take:
  assumes "maxrun p s a b"
  shows "takeWhile p (drop (nat a) s) = take (nat (b - a)) (drop (nat a) s)"
    and "dropWhile p (drop (nat a) s) = drop (nat b) s"
proof -
  define x y where "x = take (nat (b - a)) (drop (nat a) s)" and "y = drop (nat b) s"
  have b: "0 \<le> a" "a < b" "b \<le> int (length s)" using maxrun_bounds [OF assms] by auto
  then have "nat (b - a) + nat a = nat b" by linarith
  then have split: "drop (nat a) s = x @ y"
    unfolding x_def y_def by (metis append_take_drop_id drop_drop)
  have all: "p c" if "c \<in> set x" for c
  proof -
    obtain i where "i < length x" "c = x ! i" using \<open>c \<in> set x\<close> by (auto simp: in_set_conv_nth)
    then have i: "i < nat (b - a)" and "c = s ! (nat a + i)" using b by (auto simp: x_def)
    then have "c = s ! nat (a + int i)" using b by (simp add: nat_add_distrib)
    then show ?thesis using maxrun_at [OF assms, of "a + int i"] i b by simp
  qed
  have stop: "y = [] \<or> \<not> p (hd y)"
    using assms b by (auto simp: y_def maxrun_def hd_drop_conv_nth)
  have tw: "takeWhile p (x @ y) = x" and dw: "dropWhile p (x @ y) = y"
    using all stop by (cases y; auto simp: takeWhile_append dropWhile_append)+
  show "takeWhile p (drop (nat a) s) = take (nat (b - a)) (drop (nat a) s)"
    using tw [folded split] unfolding x_def .
  show "dropWhile p (drop (nat a) s) = drop (nat b) s"
    using dw [folded split] unfolding y_def .
qed

lemma text_tok:
  "deref_parser (tok s PS_InFilenames a b) = take (nat (b - a)) (drop (nat a) s)"
  "deref_parser (tok s PS_InRootName a b) = take (nat (b - a)) (drop (nat a) s)"
  "deref_parser (tok s PS_InRootDir a b) = ''/''"
  "deref_parser (tok s PS_InTrailingSep a b) = ''.''"
  by (simp_all add: deref_parser_def tok_def)

lemma valid_tok: "at_token s st a b \<Longrightarrow> parser_valid (tok s st a b)"
  using at_token_not_end by (simp add: parser_valid_def)

lemma walk_end [simp]: "walk (CreateEnd s) = Some []"
  by (simp add: walk.simps parser_valid_def CreateEnd_def)

lemma walk_last:
  "at_token s st a (int (length s)) \<Longrightarrow> walk (tok s st a (int (length s))) = Some [deref_parser (tok s st a (int (length s)))]"
  by (simp add: walk.simps [of "tok s st a (int (length s))"] valid_tok increment_end)

lemma walk_step:
  "at_token s st a b \<Longrightarrow> increment (tok s st a b) = Some QQ \<Longrightarrow> walk QQ = Some xs \<Longrightarrow>
    walk (tok s st a b) = Some (deref_parser (tok s st a b) # xs)"
  by (simp add: walk.simps [of "tok s st a b"] valid_tok)

lemma walk_filename:
  assumes "name s a b" and "\<not> (a = 2 \<and> seps s 0 2)"
  shows "walk (tok s PS_InFilenames a b) = Some (path_names (drop (nat a) s))"
  using assms
proof (induction "nat (int (length s) - b)" arbitrary: a b rule: less_induct)
  case less
  have ab: "0 \<le> a" "a < b" "b \<le> int (length s)" using maxrun_bounds [OF less.prems(1)] by auto
  have ne: "drop (nat a) s \<noteq> []" using ab by simp
  note t = at_token.filename [OF less.prems]
  note run = run_take [OF less.prems(1)]
  show ?case
  proof (cases "b = int (length s)")
    case True
    then show ?thesis
      using walk_last [of s PS_InFilenames a] t ne
      by (simp add: path_names.simps [of "drop (nat a) s"] text_tok run)
  next
    case False
    then have b: "b < int (length s)" using ab by simp
    have ne': "drop (nat b) s \<noteq> []" using b ab by simp
    from ex_adjacent [OF t b] obtain st' c d where adj: "adjacent s PS_InFilenames a b st' c d" by blast
    note inc = adjacent_increment [OF adj] and d = adjacent_tokens(2) [OF adj]
    from adj show ?thesis
    proof cases
      case next_name
      have "walk (tok s PS_InFilenames c d) = Some (path_names (drop (nat c) s))"
        using d next_name maxrun_bounds [OF next_name(3)] ab
        by (intro less.hyps) (auto simp: at_token_simps dest: maxrun_bounds)
      moreover have "drop (nat c) s \<noteq> []"
        using at_token_bounds [OF d] by (auto simp: nat_less_iff not_le)
      ultimately show ?thesis
        using walk_step [OF t inc] ne ne' next_name
        by (simp add: path_names.simps [of "drop (nat a) s"] text_tok run run_take [OF next_name(3)])
    next
      case last_sep
      then show ?thesis
        using walk_step [OF t inc] walk_last [of s PS_InTrailingSep b] d ne ne'
        by (simp add: path_names.simps [of "drop (nat a) s"] text_tok run run_take [OF last_sep(5)])
    qed
  qed
qed

lemma path_names_Nil [simp]: "path_names [] = []"
  by (simp add: path_names.simps)

lemma walk_root_dir:
  assumes t: "at_token s PS_InRootDir a b"
  shows "walk (tok s PS_InRootDir a b) = Some (''/'' # path_names (drop (nat b) s))"
proof (cases "b = int (length s)")
  case True
  then show ?thesis using walk_last [of s PS_InRootDir a] t by (simp add: text_tok)
next
  case False
  then have "b < int (length s)" using at_token_bounds [OF t] by simp
  from ex_adjacent [OF t this] obtain c where adj: "adjacent s PS_InRootDir a b PS_InFilenames b c"
    by (auto elim: adjacent.cases)
  note c = adjacent_tokens(2) [OF adj] adjacent_increment [OF adj]
  have "walk (tok s PS_InFilenames b c) = Some (path_names (drop (nat b) s))"
    using c(1) by (intro walk_filename) (auto simp: at_token_simps)
  from walk_step [OF t c(2) this] show ?thesis by (simp add: text_tok)
qed

lemma walk_root_name:
  assumes r: "root_name s a"
  shows "walk (tok s PS_InRootName 0 a) = Some (take (nat a) s #
    (if a = int (length s) then [] else ''/'' # path_names (dropWhile (\<lambda>c. c = sep) (drop (nat a) s))))"
proof (cases "a = int (length s)")
  case True
  then show ?thesis using walk_last [of s PS_InRootName 0] at_token.root_name [OF r] by (simp add: text_tok)
next
  case False
  then have "a < int (length s)" using root_name_bounds [OF r] by simp
  from ex_adjacent [OF at_token.root_name [OF r] this] obtain b where
    adj: "adjacent s PS_InRootName 0 a PS_InRootDir a b"
    by (auto elim: adjacent.cases)
  note b = adjacent_tokens(2) [OF adj] adjacent_increment [OF adj]
  have "seps s a b" using adj by (auto elim: adjacent.cases)
  from run_take(2) [OF this] walk_step [OF at_token.root_name [OF r] b(2) walk_root_dir [OF b(1)]] False
  show ?thesis by (simp add: text_tok)
qed

lemma walk_begin:
  "\<exists>PP. CreateBegin s = Some PP \<and> reached s PP \<and> walk PP = Some (path_elements s)"
proof (cases "s = []")
  case True
  then show ?thesis
    using begin_empty reached.first [of s] by (auto simp: path_elements_def)
next
  case False
  then obtain st b where t: "at_token s st 0 b" and c: "CreateBegin s = Some (tok s st 0 b)"
    by (rule begin_token)
  have "walk (tok s st 0 b) = Some (path_elements s)"
    using t
  proof cases
    case root_name
    then have lead: "seps s 0 2" by (simp add: root_name_def)
    have l: "takeWhile (\<lambda>c. c = sep) s = take 2 s" "dropWhile (\<lambda>c. c = sep) s = drop 2 s"
      "2 \<le> length s"
      using run_take [OF lead] maxrun_bounds [OF lead] by simp_all
    show ?thesis
    proof (cases "int (length s) = 2")
      case True
      then have "b = int (length s)" using root_name root_name_bounds [of s b] by simp
      then show ?thesis using walk_root_name [of s b] root_name True l(3)
        by (simp add: path_elements_def l(1,2))
    next
      case False
      then have n: "name s 2 b" using root_name by (auto simp: root_name_def)
      have b: "2 < b" "b \<le> int (length s)" using maxrun_bounds [OF n] by auto
      then have nat_b: "nat b = 2 + nat (b - 2)" by linarith
      have "take 2 s @ take (nat (b - 2)) (drop 2 s) = take (nat b) s"
        unfolding nat_b take_add by (rule refl)
      moreover have "length s \<le> nat b \<longleftrightarrow> b = int (length s)" using b by linarith
      ultimately show ?thesis
        using walk_root_name [of s b] root_name l(3) b
        by (simp add: path_elements_def Let_def l(1,2) run_take [OF n, simplified])
    qed
  next
    case root_dir
    then have l: "takeWhile (\<lambda>c. c = sep) s = take (nat b) s" "dropWhile (\<lambda>c. c = sep) s = drop (nat b) s"
      using run_take [of "\<lambda>c. c = sep" s 0 b] by simp_all
    have "length (take (nat b) s) \<noteq> 2" "take (nat b) s \<noteq> []"
      using root_dir maxrun_bounds [OF root_dir(2)] by auto
    then show ?thesis
      using walk_root_dir [OF t [unfolded root_dir]] root_dir by (simp add: path_elements_def l)
  next
    case root_dir_behind
    then show ?thesis using root_name_bounds [of s 0] by simp
  next
    case filename
    then have "s ! 0 \<noteq> sep" by (auto simp: maxrun_def)
    then have "takeWhile (\<lambda>c. c = sep) s = []" "dropWhile (\<lambda>c. c = sep) s = s"
      using False by (cases s; simp)+
    then show ?thesis
      using walk_filename [of s 0 b] filename by (simp add: path_elements_def)
  qed simp
  with c show ?thesis using reached.first [OF c] by blast
qed

section \<open>What the loops compute\<close>

lemma view_compare_simps:
  "view_compare [] [] = 0" "view_compare [] (y # ys) = -1" "view_compare (x # xs) [] = 1"
  "view_compare (x # xs) (y # ys) = (if x < y then -1 else if y < x then 1 else view_compare xs ys)"
  by (simp_all add: view_compare_def Let_def)

lemma view_compare_iff:
  "(view_compare s t < 0 \<longleftrightarrow> s < t) \<and> (view_compare s t = 0 \<longleftrightarrow> s = t)"
proof (induction s arbitrary: t)
  case Nil
  then show ?case by (cases t) (simp_all add: view_compare_simps)
next
  case (Cons x xs)
  then show ?case by (cases t) (auto simp: view_compare_simps)
qed

lemma reached_step:
  assumes "reached s PP" and "parser_valid PP"
  shows "\<exists>QQ. increment PP = Some QQ \<and> reached s QQ"
  using inc_dec [OF assms(1)] assms reached.step [OF assms(1)] by (auto simp: parser_valid_def)

lemma reached_not_begin: "reached s PP \<Longrightarrow> State PP \<noteq> PS_BeforeBegin"
  using reached_cases [of s PP] at_token_not_end by (auto simp: CreateEnd_def)

lemma walk_cases:
  assumes "walk PP = Some xs" and "reached s PP"
  shows "xs = [] \<and> State PP = PS_AtEnd \<and> \<not> parser_valid PP \<or>
    (\<exists>QQ zs. xs = deref_parser PP # zs \<and> parser_valid PP \<and> State PP \<noteq> PS_AtEnd \<and>
      increment PP = Some QQ \<and> reached s QQ \<and> walk QQ = Some zs)"
proof (cases "parser_valid PP")
  case True
  then obtain QQ where "increment PP = Some QQ" "reached s QQ"
    using reached_step [OF assms(2)] by blast
  then show ?thesis
    using True assms(1) by (auto simp: walk.simps [of PP] parser_valid_def split: Option.bind_splits)
next
  case False
  then show ?thesis
    using assms reached_not_begin [OF assms(2)] by (auto simp: walk.simps [of PP] parser_valid_def)
qed

lemma compare_loop_walk:
  assumes "walk PP = Some xs" "walk QQ = Some ys" "reached s PP" "reached t QQ"
  shows "\<exists>c. compare_loop PP QQ = Some c \<and> (c < 0 \<longleftrightarrow> xs < ys) \<and> (c = 0 \<longleftrightarrow> xs = ys)"
  using assms
proof (induction xs arbitrary: PP QQ ys)
  case Nil
  then show ?case
    using walk_cases [of PP "[]" s] walk_cases [of QQ ys t]
    by (auto simp: compare_loop.simps [of PP QQ])
next
  case (Cons x xs)
  from walk_cases [OF Cons.prems(1,3)] obtain PP' where P: "x = deref_parser PP" "parser_valid PP"
    "State PP \<noteq> PS_AtEnd" "increment PP = Some PP'" "reached s PP'" "walk PP' = Some xs" by auto
  show ?case
  proof (cases ys)
    case Nil
    then show ?thesis
      using walk_cases [OF Cons.prems(2,4)] P by (auto simp: compare_loop.simps [of PP QQ])
  next
    case (Cons y zs)
    with walk_cases [OF Cons.prems(2,4)] obtain QQ' where Q: "y = deref_parser QQ" "parser_valid QQ"
      "increment QQ = Some QQ'" "reached t QQ'" "walk QQ' = Some zs" by auto
    show ?thesis
      using Cons.IH [OF P(6) Q(5) P(5) Q(4)] view_compare_iff [of x y] P Q Cons
      by (cases "x = y") (auto simp: compare_loop.simps [of PP QQ] Let_def)
  qed
qed

lemma path_compare_elements:
  "\<exists>c. path_compare s t = Some c \<and> (c < 0 \<longleftrightarrow> path_elements s < path_elements t) \<and>
    (c = 0 \<longleftrightarrow> path_elements s = path_elements t)"
  using walk_begin [of s] walk_begin [of t] compare_loop_walk
  by (auto simp: path_compare_def)

lemma hash_loop_walk:
  assumes "walk PP = Some xs" "reached s PP"
  shows "hash_loop f g PP h = Some (foldl (\<lambda>h x. g h (f x)) h xs)"
  using assms
proof (induction xs arbitrary: PP h)
  case Nil
  then show ?case using walk_cases [OF Nil] by (auto simp: hash_loop.simps [of f g PP])
next
  case (Cons x xs)
  from walk_cases [OF Cons.prems] Cons.IH show ?case
    by (auto simp: hash_loop.simps [of f g PP])
qed

lemma hash_value_elements:
  "hash_value f g s = Some (foldl (\<lambda>h x. g h (f x)) 0 (path_elements s))"
  using walk_begin [of s] hash_loop_walk by (auto simp: hash_value_def)

section \<open>The last elements\<close>

text \<open>The states of a parser with the elements it has shown before.\<close>

inductive passed :: "string \<Rightarrow> path_parser \<Rightarrow> string list \<Rightarrow> bool" for s :: string where
  first: "CreateBegin s = Some PP \<Longrightarrow> passed s PP []"
| step: "passed s PP xs \<Longrightarrow> parser_valid PP \<Longrightarrow> increment PP = Some QQ \<Longrightarrow>
    passed s QQ (xs @ [deref_parser PP])"

lemma passed_reached: "passed s PP xs \<Longrightarrow> reached s PP"
  by (induction rule: passed.induct) (auto simp: parser_valid_def intro: reached.intros)

lemma passed_walk: "passed s PP xs \<Longrightarrow> \<exists>ys. walk PP = Some ys \<and> path_elements s = xs @ ys"
proof (induction rule: passed.induct)
  case (first PP)
  then show ?case using walk_begin [of s] by auto
next
  case (step PP xs QQ)
  then show ?case
    by (auto simp: walk.simps [of PP] split: Option.bind_splits)
qed

lemma passed_end:
  assumes "walk PP = Some ys" and "passed s PP xs"
  shows "passed s (CreateEnd s) (xs @ ys)"
  using assms
proof (induction ys arbitrary: PP xs)
  case Nil
  then have "PP = CreateEnd s"
    using walk_cases [OF Nil.prems(1) passed_reached [OF Nil.prems(2)]]
      reached_cases [OF passed_reached [OF Nil.prems(2)]] at_token_not_end
    by auto
  with Nil show ?case by simp
next
  case (Cons y ys)
  from walk_cases [OF Cons.prems(1) passed_reached [OF Cons.prems(2)]] obtain QQ where
    Q: "y = deref_parser PP" "parser_valid PP" "increment PP = Some QQ" "walk QQ = Some ys" by auto
  then have "passed s QQ (xs @ [y])" using passed.step [OF Cons.prems(2)] by simp
  from Cons.IH [OF Q(4) this] show ?case by simp
qed

lemma passed_token:
  assumes "passed s PP xs" and "PP \<noteq> CreateEnd s"
  obtains st a b where "at_token s st a b" and "PP = tok s st a b"
  using reached_cases [OF passed_reached [OF assms(1)]] assms(2) that by blast

lemma tok_inject: "at_token s st a b \<Longrightarrow> at_token s st' a' b' \<Longrightarrow> tok s st a b = tok s st' a' b' \<Longrightarrow>
    st = st' \<and> a = a' \<and> b = b'"
  by (auto simp: tok_def dest: at_token_bounds)

lemma tok_not_end: "at_token s st a b \<Longrightarrow> tok s st a b \<noteq> CreateEnd s"
  using at_token_not_end by (auto simp: tok_def CreateEnd_def)

text \<open>The element in front of another one.\<close>

lemma passed_before:
  assumes "passed s (tok s st a b) xs" and "at_token s st a b"
  shows "a = 0 \<and> xs = [] \<or> (\<exists>st' a' b' zs. adjacent s st' a' b' st a b \<and>
    passed s (tok s st' a' b') zs \<and> xs = zs @ [deref_parser (tok s st' a' b')])"
  using assms(1)
proof cases
  case first
  have "s \<noteq> []" using at_token_bounds [OF assms(2)] by auto
  then show ?thesis
    using first begin_token [of s] tok_inject [OF assms(2)] by (metis option.inject)
next
  case (step PP zs)
  have "PP \<noteq> CreateEnd s" using step(3) by (auto simp: CreateEnd_def parser_valid_def)
  then obtain st' a' b' where t: "at_token s st' a' b'" "PP = tok s st' a' b'"
    using passed_token [OF step(2)] by blast
  from token_step [OF t(1)] step(4) t(2) tok_not_end [OF assms(2)]
  obtain x y z where adj: "adjacent s st' a' b' x y z" "tok s x y z = tok s st a b"
    by auto
  then have "x = st \<and> y = a \<and> z = b"
    using tok_inject [OF adjacent_tokens(2) [OF adj(1)] assms(2)] by blast
  with adj(1) step t show ?thesis by blast
qed

lemma last_element:
  assumes "s \<noteq> []"
  obtains st a xs where "at_token s st a (int (length s))"
    and "passed s (tok s st a (int (length s))) xs"
    and "decrement (CreateEnd s) = Some (tok s st a (int (length s)))"
    and "path_elements s = xs @ [deref_parser (tok s st a (int (length s)))]"
proof -
  obtain PP where P: "CreateBegin s = Some PP" "walk PP = Some (path_elements s)"
    using walk_begin [of s] by blast
  from passed_end [OF P(2) passed.first [OF P(1)]] have e: "passed s (CreateEnd s) (path_elements s)"
    by simp
  then show ?thesis
  proof cases
    case first
    then show ?thesis using begin_token [OF assms] tok_not_end by (metis option.inject)
  next
    case (step QQ xs)
    have "QQ \<noteq> CreateEnd s" using step(3) by (auto simp: CreateEnd_def parser_valid_def)
    then obtain st a b where t: "at_token s st a b" "QQ = tok s st a b"
      using passed_token [OF step(2)] by blast
    have "b = int (length s)" "decrement (CreateEnd s) = Some (tok s st a b)"
      using token_step [OF t(1)] step(4) t(2) tok_not_end adjacent_tokens(2) by (auto; metis)+
    with t step show ?thesis by (intro that) auto
  qed
qed

lemma path_filename_last: "path_filename s = Some (if s = [] then [] else last (path_elements s))"
proof (cases "s = []")
  case False
  then obtain st a xs where "decrement (CreateEnd s) = Some (tok s st a (int (length s)))"
    "path_elements s = xs @ [deref_parser (tok s st a (int (length s)))]" by (rule last_element)
  with False show ?thesis by (simp add: path_filename_def)
qed (simp add: path_filename_def)

text \<open>A path that ends behind an element has the elements up to it.\<close>

lemma maxrun_take:
  "maxrun p s a b \<Longrightarrow> b \<le> int m \<Longrightarrow> m \<le> length s \<Longrightarrow> maxrun p (take m s) a b"
  unfolding maxrun_def by auto

lemma maxrun_untake:
  "maxrun p (take m s) a b \<Longrightarrow> b < int m \<Longrightarrow> m \<le> length s \<Longrightarrow> maxrun p s a b"
  unfolding maxrun_def by auto

lemma root_name_take:
  "root_name s e \<Longrightarrow> e \<le> int m \<Longrightarrow> m \<le> length s \<Longrightarrow> root_name (take m s) e"
  using root_name_bounds [of s e] by (auto simp: root_name_def intro: maxrun_take)

lemma at_token_take:
  assumes "at_token s st a b" and "st \<noteq> PS_InTrailingSep" and m: "b \<le> int m" "m \<le> length s"
  shows "at_token (take m s) st a b"
  using assms(1)
proof cases
  case root_name
  then show ?thesis using m root_name_take by (auto intro: at_token.intros)
next
  case root_dir
  then show ?thesis using m maxrun_take by (auto intro: at_token.intros)
next
  case root_dir_behind
  then have "a \<le> int m" using m maxrun_bounds [OF root_dir_behind(3)] by simp
  then show ?thesis
    using root_dir_behind m root_name_take [of s a m] maxrun_take by (auto intro: at_token.intros)
next
  case filename
  have "\<not> (a = 2 \<and> seps (take m s) 0 2)"
    using filename maxrun_bounds [OF filename(2)] m maxrun_untake [of _ m s 0 2] by auto
  then show ?thesis
    using filename maxrun_take m by (auto intro: at_token.intros)
qed (use assms in simp)

lemma adjacent_take:
  assumes "adjacent s st a b st' a' b'" and "st' \<noteq> PS_InTrailingSep" and m: "b' \<le> int m" "m \<le> length s"
  shows "adjacent (take m s) st a b st' a' b'"
proof -
  note adj = adjacent_tokens [OF assms(1)]
  have "a' \<le> int m" "b \<le> int m"
    using at_token_bounds [OF adj(2)] adj(3) m by linarith+
  then have t: "at_token (take m s) st a b" "at_token (take m s) st' a' b'"
    using adj assms(2) m by (auto intro: at_token_take)
  from assms(1) show ?thesis
  proof cases
    case dir
    then show ?thesis
      using root_name_take [of s a' m] maxrun_take m \<open>a' \<le> int m\<close> by (auto intro: adjacent.intros)
  next
    case first_name
    then show ?thesis using t maxrun_take m by (auto intro: adjacent.intros)
  next
    case next_name
    then show ?thesis using t maxrun_take m \<open>a' \<le> int m\<close> by (auto intro: adjacent.intros)
  qed (use assms(2) in simp)
qed

lemma deref_take:
  "at_token s st a b \<Longrightarrow> b \<le> int m \<Longrightarrow> deref_parser (tok (take m s) st a b) = deref_parser (tok s st a b)"
  using at_token_bounds [of s st a b]
  by (cases st) (auto simp: deref_parser_def tok_def drop_take min_def nat_le_iff)

lemma passed_take:
  assumes "passed s (tok s st a b) xs" and "at_token s st a b" and "st \<noteq> PS_InTrailingSep"
    and m: "b \<le> int m" "m \<le> length s"
  shows "passed (take m s) (tok (take m s) st a b) xs"
  using assms
proof (induction "nat b" arbitrary: st a b xs rule: less_induct)
  case less
  from passed_before [OF less.prems(1,2)] show ?case
  proof (elim disjE exE conjE)
    assume "a = 0" "xs = []"
    then show ?thesis
      using begin_at [of "take m s" st b] at_token_take [OF less.prems(2,3) less.prems(4,5)]
      by (auto intro: passed.first)
  next
    fix st' a' b' zs
    assume adj: "adjacent s st' a' b' st a b" and zs: "passed s (tok s st' a' b') zs"
      and xs: "xs = zs @ [deref_parser (tok s st' a' b')]"
    have t: "at_token s st' a' b'" "st' \<noteq> PS_InTrailingSep" "b' < b" "0 \<le> b'" "b' \<le> int m"
      using adjacent_tokens [OF adj] less.prems(4) by (auto dest!: at_token_bounds)
    have "passed (take m s) (tok (take m s) st' a' b') zs"
      using less.hyps [of b' st' a' zs] t zs less.prems(5) by simp
    moreover have adj': "adjacent (take m s) st' a' b' st a b"
      using adj less.prems(3-5) by (rule adjacent_take)
    ultimately show ?thesis
      using passed.step [of "take m s" "tok (take m s) st' a' b'" zs] xs deref_take [OF t(1,5)]
        adjacent_increment [OF adj'] valid_tok [OF adjacent_tokens(1) [OF adj']]
      by simp
  qed
qed

lemma path_parent_butlast:
  "\<exists>p. path_parent_path s = Some p \<and> path_elements p = butlast (path_elements s) \<and> (\<exists>q. s = p @ q)"
proof (cases "s = []")
  case True
  then show ?thesis by (simp add: path_parent_path_def path_elements_def)
next
  case False
  then obtain st a xs where t: "at_token s st a (int (length s))"
    and p: "passed s (tok s st a (int (length s))) xs"
    and dec: "decrement (CreateEnd s) = Some (tok s st a (int (length s)))"
    and el: "path_elements s = xs @ [deref_parser (tok s st a (int (length s)))]" by (rule last_element)
  from passed_before [OF p t] show ?thesis
  proof (elim disjE exE conjE)
    assume "a = 0" "xs = []"
    then show ?thesis
      using False dec el by (simp add: path_parent_path_def tok_def path_elements_def)
  next
    fix st' a' b' zs
    assume adj: "adjacent s st' a' b' st a (int (length s))" and zs: "passed s (tok s st' a' b') zs"
      and xs: "xs = zs @ [deref_parser (tok s st' a' b')]"
    have b: "at_token s st' a' b'" "0 \<le> a'" "a' < b'" "b' \<le> a" "b' \<le> int (length s)"
      using adjacent_tokens [OF adj] by (auto dest!: at_token_bounds)
    define m where "m = nat b'"
    have m: "int m = b'" "m \<le> length s" using b by (simp_all add: m_def)
    have "createView s (At 0) (b' - 1) = Some (take m s)"
      using b by (simp add: createView_def m_def)
    then have "path_parent_path s = Some (take m s)"
      using False dec b adjacent_decrement [OF adj] view_tok(1) [of a' b' s st']
      by (simp add: path_parent_path_def tok_def)
    moreover have "passed (take m s) (tok (take m s) st' a' b') zs"
      using zs b adjacent_tokens(4) [OF adj] m by (intro passed_take) auto
    moreover have "at_token (take m s) st' a' b'"
      using b adjacent_tokens(4) [OF adj] m by (intro at_token_take) auto
    moreover have "int (length (take m s)) = b'" using m by simp
    note last = walk_last [of "take m s" st' a', unfolded this]
    ultimately have "path_elements (take m s) = zs @ [deref_parser (tok (take m s) st' a' b')]"
      using passed_walk [of "take m s" "tok (take m s) st' a' b'" zs] by auto
    then show ?thesis
      using \<open>path_parent_path s = Some (take m s)\<close> el xs deref_take [OF b(1), of m] m
      by (auto simp: butlast_append intro!: exI [of _ "drop m s"])
  qed
qed

section \<open>Walking with iterators\<close>

definition iterator_at :: "string \<Rightarrow> path_parser \<Rightarrow> path_iterator" where
  "iterator_at s PP = \<lparr>path_ptr = Some s, entry = RawEntry PP, it_state = state_value (State PP),
     stashed = deref_parser PP\<rparr>"

lemma parser_state_of_value: "parser_state_of (state_value st) = Some st"
  by (cases st) simp_all

lemma iterator_parser_at: "Path PP = s \<Longrightarrow> iterator_parser (iterator_at s PP) = Some PP"
  by (cases PP) (simp add: iterator_parser_def iterator_at_def parser_state_of_value del: parser_state_of.simps)

lemma makeState_Path: "makeState PP st a b = Some QQ \<Longrightarrow> Path QQ = Path PP"
  by (auto simp: makeState_def split: ptr.splits if_splits)

lemma reached_Path: "reached s PP \<Longrightarrow> Path PP = s"
  using reached_cases [of s PP] by (auto simp: CreateEnd_def)

lemma iterator_ops:
  assumes "Path PP = s"
  shows "iterator_increment (iterator_at s PP) = map_option (iterator_at s) (increment PP)"
    and "iterator_decrement (iterator_at s PP) = map_option (iterator_at s) (decrement PP)"
  using iterator_parser_at [OF assms]
  by (cases "increment PP"; cases "decrement PP";
      simp add: iterator_increment_def iterator_decrement_def iterator_update_def iterator_at_def)+

lemma path_begin_at: "path_begin s = map_option (iterator_at s) (CreateBegin s)"
  by (cases "CreateBegin s") (simp_all add: path_begin_def iterator_at_def singular_iterator_def)

lemma path_end_at: "path_end s = iterator_at s (CreateEnd s)"
  by (simp add: path_end_def iterator_at_def singular_iterator_def CreateEnd_def deref_parser_def)

lemma walk_chain:
  assumes "walk PP = Some xs" and "reached s PP"
  shows "\<exists>ps. ps \<noteq> [] \<and> hd ps = PP \<and> last ps = CreateEnd s \<and> (\<forall>p\<in>set ps. Path p = s) \<and>
    map deref_parser (butlast ps) = xs \<and> map increment (butlast ps) = map Some (tl ps) \<and>
    map decrement (tl ps) = map Some (butlast ps)"
  using assms
proof (induction xs arbitrary: PP)
  case Nil
  then have "PP = CreateEnd s"
    using walk_cases [OF Nil] reached_cases [OF Nil.prems(2)] at_token_not_end by auto
  then show ?case by (intro exI [of _ "[PP]"]) (simp add: CreateEnd_def)
next
  case (Cons x xs)
  from walk_cases [OF Cons.prems] obtain QQ where Q: "x = deref_parser PP" "State PP \<noteq> PS_AtEnd"
    "increment PP = Some QQ" "reached s QQ" "walk QQ = Some xs" by auto
  from Cons.IH [OF Q(5,4)] obtain ps where ps: "ps \<noteq> []" "hd ps = QQ" "last ps = CreateEnd s"
    "\<forall>p\<in>set ps. Path p = s" "map deref_parser (butlast ps) = xs"
    "map increment (butlast ps) = map Some (tl ps)" "map decrement (tl ps) = map Some (butlast ps)" by blast
  have "decrement QQ = Some PP" using inc_dec [OF Cons.prems(2) Q(2)] Q(3) by auto
  moreover obtain qs where "ps = QQ # qs" using ps(1,2) by (cases ps) auto
  ultimately show ?case
    using ps Q reached_Path [OF Cons.prems(2)] by (intro exI [of _ "PP # ps"]) auto
qed

section \<open>Extensions\<close>

lemma find_last_of_append: "c \<notin> set y \<Longrightarrow> find_last_of c (x @ c # y) = Some (length x)"
proof (induction x)
  case Nil
  have "find_last_of c y = None" using Nil by (induction y) auto
  then show ?case by simp
qed simp

lemma separate_filename_append: "fst (separate_filename f) @ snd (separate_filename f) = f"
  by (simp add: separate_filename_def split: option.split)

lemma token_suffix:
  assumes "at_token s st a (int (length s))" and "snd (separate_filename (deref_parser (tok s st a (int (length s))))) \<noteq> []"
  shows "\<exists>x. s = x @ deref_parser (tok s st a (int (length s)))"
proof -
  have "snd (separate_filename ''/'') = []" "snd (separate_filename ''.'') = []"
    by (simp_all add: separate_filename_def)
  then have "st = PS_InFilenames \<or> st = PS_InRootName"
    using assms at_token_not_end [OF assms(1)] by (cases st) (auto simp: text_tok)
  then have "deref_parser (tok s st a (int (length s))) = drop (nat a) s"
    using at_token_bounds [OF assms(1)] by (auto simp: text_tok)
  then show ?thesis by (metis append_take_drop_id)
qed

lemma extension_suffix:
  "\<exists>x e. path_extension s = Some e \<and> s = x @ e"
proof (cases "s = []")
  case True
  then show ?thesis by (simp add: path_extension_def path_filename_def separate_filename_def)
next
  case False
  then obtain st a xs where t: "at_token s st a (int (length s))"
    and dec: "decrement (CreateEnd s) = Some (tok s st a (int (length s)))" by (rule last_element)
  let ?f = "deref_parser (tok s st a (int (length s)))"
  have ext: "path_extension s = Some (snd (separate_filename ?f))"
    using False dec by (simp add: path_extension_def path_filename_def)
  show ?thesis
  proof (cases "snd (separate_filename ?f) = []")
    case False
    from token_suffix [OF t this] obtain x where x: "s = x @ ?f" by blast
    have "s = (x @ fst (separate_filename ?f)) @ snd (separate_filename ?f)"
      unfolding append_assoc separate_filename_append by (rule x)
    with ext show ?thesis by blast
  qed (use ext in simp)
qed

definition dotted :: "string \<Rightarrow> string" where
  "dotted r = (if r = [] \<or> hd r = CHR ''.'' then r else CHR ''.'' # r)"

lemma replace_extension_eq:
  assumes "path_extension (x @ e) = Some e"
  shows "replace_extension (x @ e) r = Some (x @ dotted r)"
  using assms
  by (simp add: replace_extension_def erase_from_def dotted_def hd_conv_nth flip: of_nat_diff)

lemma last_with_suffix:
  assumes "r \<noteq> []" and "sep \<notin> set r"
  shows "\<exists>y. path_filename (x @ r) = Some (y @ r)"
proof -
  let ?s = "x @ r" let ?n = "int (length ?s)"
  have "?s \<noteq> []" using assms(1) by simp
  then obtain st a xs where t: "at_token ?s st a ?n"
    and dec: "decrement (CreateEnd ?s) = Some (tok ?s st a ?n)" by (rule last_element)
  have ab: "0 \<le> a" "a < ?n" using at_token_bounds [OF t] by auto
  have in_r: "?s ! nat i \<noteq> sep" if "int (length x) \<le> i" "i < ?n" for i
  proof -
    have "nat i - length x < length r" "\<not> nat i < length x" using that by auto
    then have "?s ! nat i \<in> set r" by (simp add: nth_append)
    with assms(2) show ?thesis by metis
  qed
  have "?s ! nat (?n - 1) \<noteq> sep" using assms(1) by (intro in_r) auto
  then have not_sep: "\<not> seps ?s a ?n" using ab maxrun_at [of _ ?s a ?n "?n - 1"] by auto
  have "deref_parser (tok ?s st a ?n) = drop (nat a) ?s \<and> a \<le> int (length x)"
    using t
  proof cases
    case filename
    have "a \<le> int (length x)"
    proof (rule ccontr)
      assume "\<not> a \<le> int (length x)"
      then have "?s ! nat (a - 1) \<noteq> sep" using ab by (intro in_r) auto
      with filename ab \<open>\<not> a \<le> int (length x)\<close> show False by (auto simp: maxrun_def)
    qed
    then show ?thesis using filename ab by (simp add: text_tok)
  qed (use not_sep ab in \<open>auto simp: text_tok\<close>)
  then have "deref_parser (tok ?s st a ?n) = drop (nat a) x @ r" by auto
  then show ?thesis using \<open>?s \<noteq> []\<close> dec by (auto simp: path_filename_def)
qed

lemma extension_of_dotted:
  assumes "e \<noteq> []" and "sep \<notin> set e" and "CHR ''.'' \<notin> set e"
  shows "path_extension (x @ CHR ''.'' # e) = Some (CHR ''.'' # e)"
proof -
  obtain y where y: "path_filename (x @ CHR ''.'' # e) = Some (y @ CHR ''.'' # e)"
    using last_with_suffix [of "CHR ''.'' # e" x] assms by (auto simp: sep_def)
  have "y @ CHR ''.'' # e \<noteq> ''.''" "y @ CHR ''.'' # e \<noteq> ''..''"
    using assms by (cases y; auto simp: append_eq_Cons_conv)+
  then show ?thesis
    using y find_last_of_append [OF assms(3), of y] by (simp add: path_extension_def separate_filename_def)
qed

section \<open>Decomposition\<close>

lemma skip_root_stop: "\<not> State PP \<le> PS_InRootDir \<Longrightarrow> skip_root PP = Some PP"
  by (simp add: skip_root.simps)

lemma skip_root_end [simp]: "skip_root (CreateEnd s) = Some (CreateEnd s)"
  by (rule skip_root_stop) (simp add: CreateEnd_def less_eq_parser_state_def)

lemma skip_root_name [simp]: "skip_root (tok s PS_InFilenames a b) = Some (tok s PS_InFilenames a b)"
  by (rule skip_root_stop) (simp add: less_eq_parser_state_def)

lemma skip_root_step:
  "st \<le> PS_InRootDir \<Longrightarrow> increment (tok s st a b) = Some QQ \<Longrightarrow> skip_root (tok s st a b) = skip_root QQ"
  by (simp add: skip_root.simps [of "tok s st a b"])

text \<open>What is left of a path behind its root.\<close>

definition relative_from :: "string \<Rightarrow> path_parser \<Rightarrow> string option" where
  "relative_from s PP =
     (if State PP = PS_AtEnd then Some []
      else do { b \<leftarrow> back_ptr s; createView s (view_data (RawEntry PP)) b })"

lemma State_CreateEnd [simp]: "State (CreateEnd s) = PS_AtEnd"
  by (simp add: CreateEnd_def)

lemma relative_from_end [simp]: "relative_from s (CreateEnd s) = Some []"
  by (simp add: relative_from_def CreateEnd_def)

lemma relative_from_name:
  "at_token s PS_InFilenames a b \<Longrightarrow> relative_from s (tok s PS_InFilenames a b) = Some (drop (nat a) s)"
  using at_token_bounds [of s PS_InFilenames a b]
  by (auto simp: relative_from_def back_ptr_def createView_def tok_def)

lemma relative_root_dir:
  assumes t: "at_token s PS_InRootDir a b"
  shows "Option.bind (skip_root (tok s PS_InRootDir a b)) (relative_from s) = Some (drop (nat b) s)"
proof (cases "b = int (length s)")
  case True
  then show ?thesis
    using skip_root_step [OF _ increment_end] t by (simp add: less_eq_parser_state_def)
next
  case False
  then have "b < int (length s)" using at_token_bounds [OF t] by simp
  from ex_adjacent [OF t this] obtain c where adj: "adjacent s PS_InRootDir a b PS_InFilenames b c"
    by (auto elim: adjacent.cases)
  then show ?thesis
    using skip_root_step [OF _ adjacent_increment [OF adj]] relative_from_name [OF adjacent_tokens(2) [OF adj]]
    by (simp add: less_eq_parser_state_def)
qed

lemma path_relative_path_eq:
  "path_relative_path s = Option.bind (CreateBegin s) (\<lambda>PP. Option.bind (skip_root PP) (relative_from s))"
  by (simp add: path_relative_path_def relative_from_def [abs_def])

lemma path_decompose:
  "\<exists>n d k. path_root_name s = Some n \<and> path_root_directory s = Some d \<and>
    path_relative_path s = Some (drop k s) \<and>
    path_elements s = (if n = [] then [] else [n]) @ (if d = [] then [] else [d]) @ path_names (drop k s)"
proof (cases "s = []")
  case True
  then show ?thesis
    by (auto simp: path_root_name_def path_root_directory_def path_relative_path_eq begin_empty
        path_elements_def)
next
  case False
  then obtain st b where t: "at_token s st 0 b" and c: "CreateBegin s = Some (tok s st 0 b)"
    by (rule begin_token)
  have w: "walk (tok s st 0 b) = Some (path_elements s)"
    using walk_begin [of s] c by simp
  have b: "0 < b" "b \<le> int (length s)" using at_token_bounds [OF t] by auto
  from t show ?thesis
  proof cases
    case root_name
    have n: "deref_parser (tok s PS_InRootName 0 b) = take (nat b) s" "take (nat b) s \<noteq> []"
      using b by (auto simp: text_tok)
    show ?thesis
    proof (cases "b = int (length s)")
      case True
      then have "increment (tok s PS_InRootName 0 b) = Some (CreateEnd s)"
        using t root_name increment_end by simp
      then show ?thesis
        using c w root_name n True walk_root_name [of s b] skip_root_step [of PS_InRootName s 0 b]
        by (auto simp: path_root_name_def path_root_directory_def path_relative_path_eq
            less_eq_parser_state_def intro!: exI [of _ "length s"])
    next
      case False
      then have "b < int (length s)" using b by simp
      from ex_adjacent [OF t this] obtain d where adj: "adjacent s PS_InRootName 0 b PS_InRootDir b d"
        using root_name by (auto elim: adjacent.cases)
      note inc = adjacent_increment [OF adj] and dir = adjacent_tokens(2) [OF adj]
      have "walk (tok s PS_InRootName 0 b) = Some (take (nat b) s # ''/'' # path_names (drop (nat d) s))"
        using walk_step [OF _ inc walk_root_dir [OF dir]] t root_name n by simp
      then show ?thesis
        using c w root_name n inc skip_root_step [OF _ inc] relative_root_dir [OF dir]
        by (auto simp: path_root_name_def path_root_directory_def path_relative_path_eq
            less_eq_parser_state_def text_tok intro!: exI [of _ "nat d"])
    qed
  next
    case root_dir
    then show ?thesis
      using c w t walk_root_dir [of s 0 b] relative_root_dir [of s 0 b]
      by (auto simp: path_root_name_def path_root_directory_def path_relative_path_eq text_tok
          intro!: exI [of _ "nat b"])
  next
    case root_dir_behind
    then show ?thesis using root_name_bounds [of s 0] by simp
  next
    case filename
    then show ?thesis
      using c w t walk_filename [of s 0 b] relative_from_name [of s 0 b]
      by (auto simp: path_root_name_def path_root_directory_def path_relative_path_eq
          intro!: exI [of _ 0])
  qed simp
qed

section \<open>Properties\<close>

text \<open>
  C4: The iterators of every path run through its elements: from \<open>begin()\<close> each increment is
  defined and ends, after as many steps as the reference decomposition has elements, at \<open>end()\<close>;
  the iterators passed show exactly these elements; and every decrement takes the increment back.
\<close>

theorem path_iteration:
  "\<exists>its. its \<noteq> [] \<and> path_begin s = Some (hd its) \<and> last its = path_end s \<and>
    map stashed (butlast its) = path_elements s \<and>
    map iterator_increment (butlast its) = map Some (tl its) \<and>
    map iterator_decrement (tl its) = map Some (butlast its)"
proof -
  obtain PP where P: "CreateBegin s = Some PP" "reached s PP" "walk PP = Some (path_elements s)"
    using walk_begin [of s] by blast
  from walk_chain [OF P(3,2)] obtain ps where ps: "ps \<noteq> []" "hd ps = PP" "last ps = CreateEnd s"
    "\<forall>p\<in>set ps. Path p = s" "map deref_parser (butlast ps) = path_elements s"
    "map increment (butlast ps) = map Some (tl ps)" "map decrement (tl ps) = map Some (butlast ps)" by blast
  let ?its = "map (iterator_at s) ps"
  have path: "Path p = s" if "p \<in> set (butlast ps) \<or> p \<in> set (tl ps)" for p
    using that ps(4) in_set_butlastD [of p ps] list.set_sel(2) [OF ps(1)] by blast
  have "map iterator_increment (butlast ?its) = map (map_option (iterator_at s)) (map increment (butlast ps))"
    using path by (simp add: map_butlast [symmetric] iterator_ops)
  also have "\<dots> = map Some (tl ?its)"
    by (simp only: ps(6)) (simp add: map_tl comp_def)
  finally have inc: "map iterator_increment (butlast ?its) = map Some (tl ?its)" .
  have "map iterator_decrement (tl ?its) = map (map_option (iterator_at s)) (map decrement (tl ps))"
    using path by (simp add: map_tl [symmetric] iterator_ops)
  also have "\<dots> = map Some (butlast ?its)"
    by (simp only: ps(7)) (simp add: map_butlast comp_def)
  finally have dec: "map iterator_decrement (tl ?its) = map Some (butlast ?its)" .
  have "map stashed (butlast ?its) = map deref_parser (butlast ps)"
    by (simp add: map_butlast [symmetric] iterator_at_def)
  with inc dec ps P(1) show ?thesis
    by (intro exI [of _ ?its]) (simp add: path_begin_at path_end_at hd_map last_map)
qed

text \<open>
  C5: Walking backwards is the inverse of walking forwards: in every state of the parser that is
  reached from the beginning, before the end, \<open>increment\<close> is defined (it never reads outside of the
  path, uses a null pointer or runs into \<open>_LIBCPP_UNREACHABLE\<close>) and \<open>decrement\<close> restores the state
  and the element exactly.
\<close>

theorem decrement_increment:
  assumes "reached s PP" and "State PP \<noteq> PS_AtEnd"
  shows "\<exists>QQ. increment PP = Some QQ \<and> reached s QQ \<and> decrement QQ = Some PP"
  using inc_dec [OF assms] reached.step [OF assms] by blast

theorem decrement_increment_witness:
  "\<exists>QQ. increment (tok ''//net/a'' PS_InRootName 0 5) = Some QQ \<and> reached ''//net/a'' QQ \<and>
    decrement QQ = Some (tok ''//net/a'' PS_InRootName 0 5)"
proof (rule decrement_increment)
  have "CreateBegin ''//net/a'' = Some (tok ''//net/a'' PS_InRootName 0 5)" by code_simp
  then show "reached ''//net/a'' (tok ''//net/a'' PS_InRootName 0 5)" by (rule reached.first)
qed simp

text \<open>
  C35: Comparison is total and compares the elements: the result is negative, zero or positive
  exactly if the list of elements of the first path is lexicographically before, equal to or behind
  that of the second, so runs of separators do not count and the order of paths is linear.  The hash value
  folds the hashes of the elements, so paths that compare equal have the same, whatever the string hash is.
\<close>

theorem path_compare_correct:
  "(\<exists>c. path_compare s t = Some c \<and> (c < 0 \<longleftrightarrow> path_elements s < path_elements t) \<and>
      (c = 0 \<longleftrightarrow> path_elements s = path_elements t) \<and> (0 < c \<longleftrightarrow> path_elements t < path_elements s)) \<and>
   hash_value hasher hash_combine s = Some (foldl (\<lambda>h x. hash_combine h (hasher x)) 0 (path_elements s))"
  using path_compare_elements [of s t] hash_value_elements [of hasher hash_combine s] by force

text \<open>
  A path is made of its root name, its root directory and its relative path: the elements of the
  path are these two, as far as they are present, and the names of the relative path, which is an
  end of the native string.
\<close>

lemma path_decomposition:
  "\<exists>n d k. path_root_name s = Some n \<and> path_root_directory s = Some d \<and>
    path_relative_path s = Some (drop k s) \<and>
    path_elements s = (if n = [] then [] else [n]) @ (if d = [] then [] else [d]) @ path_names (drop k s)"
  by (rule path_decompose)

text \<open>
  \<open>filename()\<close> is the last element of a path, and \<open>parent_path()\<close> a beginning of its native
  string that has all its elements but the last.
\<close>

lemma parent_and_filename:
  "(\<exists>p q. path_parent_path s = Some p \<and> s = p @ q \<and> path_elements p = butlast (path_elements s)) \<and>
   path_filename s = Some (if s = [] then [] else last (path_elements s))"
  using path_parent_butlast [of s] path_filename_last [of s] by blast

text \<open>
  \<open>replace_extension\<close> never throws: it removes the extension, which is an end of the native
  string, and appends the replacement, with a dot in front if it does not begin with one.
\<close>

lemma replace_extension_split:
  "\<exists>x e. path_extension s = Some e \<and> s = x @ e \<and> replace_extension s r = Some (x @ dotted r)"
  using extension_suffix [of s] replace_extension_eq by blast

text \<open>
  After \<open>replace_extension\<close> with a new extension (characters other than separators and dots,
  with or without the leading dot) \<open>extension()\<close> returns it.
\<close>

lemma replace_extension_sets:
  assumes "e \<noteq> []" and "sep \<notin> set e" and "CHR ''.'' \<notin> set e" and "r = e \<or> r = CHR ''.'' # e"
  shows "\<exists>t. replace_extension s r = Some t \<and> path_extension t = Some (CHR ''.'' # e)"
proof -
  have "dotted r = CHR ''.'' # e" using assms by (cases e) (auto simp: dotted_def)
  then show ?thesis
    using extension_suffix [of s] replace_extension_eq [of _ _ r] extension_of_dotted [OF assms(1-3)] by metis
qed

text \<open>
  C36: A path is made of its root name, its root directory and its relative path: its elements are these
  two, as far as they are present, and the names of the relative path, which is an end of the native
  string.  \<open>filename()\<close> is its last element, and \<open>parent_path()\<close> a beginning of its native string that has all
  its elements but the last.  \<open>replace_extension\<close> never throws: it removes the extension, which is an end of the native
  string, and appends the replacement, with a dot in front if it does not begin with one; and with a
  replacement of characters other than separators and dots, with or without the leading dot, \<open>extension()\<close>
  returns it afterwards.
\<close>

theorem path_parts:
  "(\<exists>n d k. path_root_name s = Some n \<and> path_root_directory s = Some d \<and>
     path_relative_path s = Some (drop k s) \<and>
     path_elements s = (if n = [] then [] else [n]) @ (if d = [] then [] else [d]) @ path_names (drop k s)) \<and>
   (\<exists>p q. path_parent_path s = Some p \<and> s = p @ q \<and> path_elements p = butlast (path_elements s)) \<and>
   path_filename s = Some (if s = [] then [] else last (path_elements s)) \<and>
   (\<exists>x e. path_extension s = Some e \<and> s = x @ e \<and> replace_extension s r = Some (x @ dotted r)) \<and>
   (e' \<noteq> [] \<and> sep \<notin> set e' \<and> CHR ''.'' \<notin> set e' \<and> (r = e' \<or> r = CHR ''.'' # e') \<longrightarrow>
     (\<exists>t. replace_extension s r = Some t \<and> path_extension t = Some (CHR ''.'' # e')))"
  using path_decomposition [of s] parent_and_filename [of s] replace_extension_split [of s r] replace_extension_sets [of e' r s]
  by (intro conjI) blast+

theorem path_parts_witness:
  "\<exists>t. replace_extension ''/a.b/c.tar.gz'' ''txt'' = Some t \<and> path_extension t = Some ''.txt''"
proof -
  have "''txt'' \<noteq> [] \<and> sep \<notin> set ''txt'' \<and> CHR ''.'' \<notin> set ''txt''" by (simp add: sep_def)
  then show ?thesis using path_parts [of "''/a.b/c.tar.gz''" "''txt''" "''txt''"] by blast
qed

end
