(* ===== verification/Debug_Db.thy ===== *)
theory Debug_Db
  imports Prelude
begin

text \<open>
  The iterator debugging database \<open>__libcpp_db\<close> of \<open>src/src/debug.cpp\<close>: two chained hash tables,
  of the containers (\<open>__c_node\<close>) and of the iterators (\<open>__i_node\<close>) of a program in debug mode,
  linked with each other: an iterator node points to the node of its container, a container node
  has an array of pointers to the nodes of its iterators.

  Nodes are identified by their address in memory.  A chain of \<open>__next_\<close> pointers is the list of
  the nodes in it, an array \<open>[beg_, end_)\<close> the list of its pointers, with the capacity
  \<open>cap_ - beg_\<close> kept beside it.  The locks are left out: every operation holds the one mutex from
  its beginning to its end.  Every allocation is a parameter that says whether it succeeds, so the
  states left behind by \<open>__throw_bad_alloc\<close> are part of the model.  The hash function and
  \<open>__next_prime\<close> are parameters.
\<close>

section \<open>State\<close>

record i_node =
  i_addr :: nat
  i_cont :: "nat option"

record c_node =
  c_addr :: nat
  c_its :: "nat list"
  c_cap :: nat

record db =
  c_table :: "nat list list"
  c_nodes :: "nat \<rightharpoonup> c_node"
  csz :: nat
  i_table :: "nat list list"
  i_nodes :: "nat \<rightharpoonup> i_node"
  isz :: nat

text \<open>
  A call returns, throws \<open>bad_alloc\<close> (with the state it leaves), or fails an assertion
  (\<open>debug mode internal logic error\<close>).
\<close>

datatype 'a call = Returns 'a db | Throws db | Logic_error

definition empty_db :: db where
  "empty_db = \<lparr>c_table = [], c_nodes = Map.empty, csz = 0, i_table = [], i_nodes = Map.empty, isz = 0\<rparr>"

definition i_at :: "db \<Rightarrow> nat \<Rightarrow> i_node" where "i_at d q = the (i_nodes d q)"
definition c_at :: "db \<Rightarrow> nat \<Rightarrow> c_node" where "c_at d q = the (c_nodes d q)"

section \<open>Chained tables\<close>

text \<open>
  What the operations on both tables have in common; \<open>k\<close> reads the address of a node.  \<open>lookup\<close>
  is the search loop over one chain, \<open>grow\<close> the loop that moves every node to the front of its
  chain in a new array of \<open>nc\<close> chains.
\<close>

definition chain_of :: "(nat \<Rightarrow> nat) \<Rightarrow> nat list list \<Rightarrow> nat \<Rightarrow> nat" where
  "chain_of hsh tab a = hsh a mod length tab"

definition lookup :: "(nat \<Rightarrow> nat) \<Rightarrow> (nat \<Rightarrow> nat) \<Rightarrow> nat list list \<Rightarrow> nat \<Rightarrow> nat option" where
  "lookup hsh k tab a =
     (if tab = [] then None else find (\<lambda>q. k q = a) (tab ! chain_of hsh tab a))"

definition push :: "(nat \<Rightarrow> nat) \<Rightarrow> nat list list \<Rightarrow> nat \<Rightarrow> nat \<Rightarrow> nat list list" where
  "push hsh tab a q = tab[chain_of hsh tab a := q # tab ! chain_of hsh tab a]"

definition grow :: "(nat \<Rightarrow> nat) \<Rightarrow> (nat \<Rightarrow> nat) \<Rightarrow> nat list list \<Rightarrow> nat \<Rightarrow> nat list list" where
  "grow hsh k tab nc = foldl (\<lambda>t q. push hsh t (k q) q) (replicate nc []) (concat tab)"

definition unlink :: "(nat \<Rightarrow> nat) \<Rightarrow> nat list list \<Rightarrow> nat \<Rightarrow> nat \<Rightarrow> nat list list" where
  "unlink hsh tab a q = tab[chain_of hsh tab a := remove1 q (tab ! chain_of hsh tab a)]"

section \<open>Container nodes\<close>

definition c_node_add :: "bool \<Rightarrow> nat \<Rightarrow> c_node \<Rightarrow> c_node option" where
  "c_node_add malloc i n =
     (if length (c_its n) = c_cap n then
        (let nc = (if 2 * c_cap n = 0 then 1 else 2 * c_cap n) in
         if \<not> malloc then None
         else Some (n\<lparr>c_its := c_its n @ [i], c_cap := nc\<rparr>))
      else Some (n\<lparr>c_its := c_its n @ [i]\<rparr>))"

definition c_node_remove :: "nat \<Rightarrow> c_node \<Rightarrow> c_node option" where
  "c_node_remove i n = (if i \<in> set (c_its n) then Some (n\<lparr>c_its := remove1 i (c_its n)\<rparr>) else None)"

section \<open>The operations\<close>

definition find_iterator :: "(nat \<Rightarrow> nat) \<Rightarrow> db \<Rightarrow> nat \<Rightarrow> nat option" where
  "find_iterator hsh d i = lookup hsh (\<lambda>q. i_addr (i_at d q)) (i_table d) i"

definition find_container :: "(nat \<Rightarrow> nat) \<Rightarrow> db \<Rightarrow> nat \<Rightarrow> nat option" where
  "find_container hsh d c = lookup hsh (\<lambda>q. c_addr (c_at d q)) (c_table d) c"

text \<open>
  \<open>__insert_iterator\<close>: \<open>calloc\<close> says whether the new array is allocated, \<open>new\<close> is the address of
  the new node, if it is.  When it is not, the chain has been overwritten with the null pointer.
\<close>

definition insert_iterator ::
  "(nat \<Rightarrow> nat) \<Rightarrow> (nat \<Rightarrow> nat) \<Rightarrow> bool \<Rightarrow> nat option \<Rightarrow> nat \<Rightarrow> db \<Rightarrow> nat call" where
  "insert_iterator hsh next_prime calloc new i d =
     (let full = isz d + 1 > length (i_table d) in
      if full \<and> \<not> calloc then Throws d
      else
        let tab = (if full
              then grow hsh (\<lambda>q. i_addr (i_at d q)) (i_table d) (next_prime (2 * length (i_table d) + 1))
              else i_table d) in
        case new of
          None \<Rightarrow> Throws (d\<lparr>i_table := tab[chain_of hsh tab i := []]\<rparr>)
        | Some r \<Rightarrow> Returns r (d\<lparr>i_table := push hsh tab i r,
            i_nodes := (i_nodes d)(r \<mapsto> \<lparr>i_addr = i, i_cont = None\<rparr>), isz := isz d + 1\<rparr>))"

definition insert_i ::
  "(nat \<Rightarrow> nat) \<Rightarrow> (nat \<Rightarrow> nat) \<Rightarrow> bool \<Rightarrow> nat option \<Rightarrow> nat \<Rightarrow> db \<Rightarrow> nat call" where
  "insert_i hsh next_prime calloc new i d = insert_iterator hsh next_prime calloc new i d"

text \<open>\<open>__insert_c\<close>, with the constructor \<open>__c_node(__c, __next)\<close> that its template runs on the node.\<close>

definition insert_c ::
  "(nat \<Rightarrow> nat) \<Rightarrow> (nat \<Rightarrow> nat) \<Rightarrow> bool \<Rightarrow> nat option \<Rightarrow> nat \<Rightarrow> db \<Rightarrow> nat call" where
  "insert_c hsh next_prime calloc new c d =
     (let full = csz d + 1 > length (c_table d) in
      if full \<and> \<not> calloc then Throws d
      else
        let tab = (if full
              then grow hsh (\<lambda>q. c_addr (c_at d q)) (c_table d) (next_prime (2 * length (c_table d) + 1))
              else c_table d) in
        case new of
          None \<Rightarrow> Throws (d\<lparr>c_table := tab[chain_of hsh tab c := []]\<rparr>)
        | Some r \<Rightarrow> Returns r (d\<lparr>c_table := push hsh tab c r,
            c_nodes := (c_nodes d)(r \<mapsto> \<lparr>c_addr = c, c_its = [], c_cap = 0\<rparr>), csz := csz d + 1\<rparr>))"

definition set_cont :: "nat option \<Rightarrow> nat \<Rightarrow> db \<Rightarrow> db" where
  "set_cont c i d = d\<lparr>i_nodes := (i_nodes d)(i \<mapsto> (i_at d i)\<lparr>i_cont := c\<rparr>)\<rparr>"

definition set_cnode :: "nat \<Rightarrow> c_node \<Rightarrow> db \<Rightarrow> db" where
  "set_cnode c n d = d\<lparr>c_nodes := (c_nodes d)(c \<mapsto> n)\<rparr>"

definition insert_ic ::
  "(nat \<Rightarrow> nat) \<Rightarrow> (nat \<Rightarrow> nat) \<Rightarrow> bool \<Rightarrow> nat option \<Rightarrow> bool \<Rightarrow> nat \<Rightarrow> nat \<Rightarrow> db \<Rightarrow> unit call" where
  "insert_ic hsh next_prime calloc new malloc i c d =
     (case find_container hsh d c of
        None \<Rightarrow> Returns () d
      | Some cn \<Rightarrow>
          (case insert_iterator hsh next_prime calloc new i d of
             Logic_error \<Rightarrow> Logic_error
           | Throws d \<Rightarrow> Throws d
           | Returns r d \<Rightarrow>
               (case c_node_add malloc r (c_at d cn) of
                  None \<Rightarrow> Throws d
                | Some n \<Rightarrow> Returns () (set_cont (Some cn) r (set_cnode cn n d)))))"

definition erase_i :: "(nat \<Rightarrow> nat) \<Rightarrow> nat \<Rightarrow> db \<Rightarrow> unit call" where
  "erase_i hsh i d =
     (case find_iterator hsh d i of
        None \<Rightarrow> Returns () d
      | Some p \<Rightarrow>
          let c = i_cont (i_at d p);
              d' = d\<lparr>i_table := unlink hsh (i_table d) i p, isz := isz d - 1\<rparr> in
          (case c of
             None \<Rightarrow> Returns () (d'\<lparr>i_nodes := (i_nodes d')(p := None)\<rparr>)
           | Some cn \<Rightarrow>
               (case c_node_remove p (c_at d' cn) of
                  None \<Rightarrow> Logic_error
                | Some n \<Rightarrow> Returns () ((set_cnode cn n d')\<lparr>i_nodes := (i_nodes d')(p := None)\<rparr>))))"

text \<open>The loop \<open>while (p->end_ != p->beg_) { --p->end_; (*p->end_)->__c_ = nullptr; }\<close>.\<close>

definition detach_all :: "nat \<Rightarrow> db \<Rightarrow> db" where
  "detach_all cn d =
     (let n = c_at d cn in set_cnode cn (n\<lparr>c_its := []\<rparr>) (foldr (set_cont None) (c_its n) d))"

definition invalidate_all :: "(nat \<Rightarrow> nat) \<Rightarrow> nat \<Rightarrow> db \<Rightarrow> db" where
  "invalidate_all hsh c d =
     (case find_container hsh d c of None \<Rightarrow> d | Some cn \<Rightarrow> detach_all cn d)"

text \<open>\<open>__find_c_and_lock\<close> returns null for an unknown container, \<open>__find_c\<close> fails an assertion.\<close>

definition find_c_and_lock :: "(nat \<Rightarrow> nat) \<Rightarrow> nat \<Rightarrow> db \<Rightarrow> nat option" where
  "find_c_and_lock hsh c d = find_container hsh d c"

definition find_c :: "(nat \<Rightarrow> nat) \<Rightarrow> nat \<Rightarrow> db \<Rightarrow> nat call" where
  "find_c hsh c d = (case find_container hsh d c of None \<Rightarrow> Logic_error | Some cn \<Rightarrow> Returns cn d)"

definition erase_c :: "(nat \<Rightarrow> nat) \<Rightarrow> nat \<Rightarrow> db \<Rightarrow> db" where
  "erase_c hsh c d =
     (case find_container hsh d c of
        None \<Rightarrow> d
      | Some cn \<Rightarrow>
          let d' = detach_all cn (d\<lparr>c_table := unlink hsh (c_table d) c cn\<rparr>) in
          d'\<lparr>c_nodes := (c_nodes d')(cn := None), csz := csz d' - 1\<rparr>)"

definition find_c_from_i :: "(nat \<Rightarrow> nat) \<Rightarrow> nat \<Rightarrow> db \<Rightarrow> nat option call" where
  "find_c_from_i hsh i d =
     (case find_iterator hsh d i of
        None \<Rightarrow> Logic_error
      | Some p \<Rightarrow> Returns (map_option (\<lambda>cn. c_addr (c_at d cn)) (i_cont (i_at d p))) d)"

text \<open>
  The end of \<open>__iterator_copy\<close>, for the node \<open>i\<close> with the container \<open>c\<close> and the container
  \<open>c0\<close> to be copied: \<open>__c_\<close> is set to \<open>c0\<close> before the node is added to the array of \<open>c0\<close>.
\<close>

definition copy_cont :: "bool \<Rightarrow> nat \<Rightarrow> nat option \<Rightarrow> nat option \<Rightarrow> db \<Rightarrow> unit call" where
  "copy_cont malloc i c c0 d =
     (if c = c0 then Returns () d
      else
        (case (case c of
                 None \<Rightarrow> Some d
               | Some cn \<Rightarrow> map_option (\<lambda>n. set_cnode cn n d) (c_node_remove i (c_at d cn))) of
           None \<Rightarrow> Logic_error
         | Some d1 \<Rightarrow>
             let d2 = set_cont None i d1 in
             (case c0 of
                None \<Rightarrow> Returns () d2
              | Some cn \<Rightarrow>
                  let d3 = set_cont (Some cn) i d2 in
                  (case c_node_add malloc i (c_at d3 cn) of
                     None \<Rightarrow> Throws d3
                   | Some n \<Rightarrow> Returns () (set_cnode cn n d3)))))"

definition iterator_copy ::
  "(nat \<Rightarrow> nat) \<Rightarrow> (nat \<Rightarrow> nat) \<Rightarrow> bool \<Rightarrow> nat option \<Rightarrow> bool \<Rightarrow> nat \<Rightarrow> nat \<Rightarrow> db \<Rightarrow> unit call" where
  "iterator_copy hsh next_prime calloc new malloc i i0 d =
     (let fi = find_iterator hsh d i; fi0 = find_iterator hsh d i0;
          c0 = Option.bind fi0 (\<lambda>q. i_cont (i_at d q)) in
      case fi of
        Some q \<Rightarrow> copy_cont malloc q (i_cont (i_at d q)) c0 d
      | None \<Rightarrow>
          if fi0 = None then Returns () d
          else (case insert_iterator hsh next_prime calloc new i d of
                  Logic_error \<Rightarrow> Logic_error
                | Throws d \<Rightarrow> Throws d
                | Returns q d \<Rightarrow> copy_cont malloc q (i_cont (i_at d q)) c0 d))"

text \<open>
  The queries \<open>__dereferenceable\<close>, \<open>__decrementable\<close>, \<open>__addable\<close> and \<open>__subscriptable\<close>;
  \<open>check\<close> is the answer of the container, which the virtual function of its node asks for.
\<close>

definition queryable :: "(nat \<Rightarrow> nat) \<Rightarrow> (nat \<Rightarrow> nat \<Rightarrow> bool) \<Rightarrow> nat \<Rightarrow> db \<Rightarrow> bool" where
  "queryable hsh check i d =
     (case find_iterator hsh d i of
        None \<Rightarrow> False
      | Some q \<Rightarrow> (case i_cont (i_at d q) of None \<Rightarrow> False | Some cn \<Rightarrow> check (c_addr (c_at d cn)) i))"

definition less_than_comparable :: "(nat \<Rightarrow> nat) \<Rightarrow> nat \<Rightarrow> nat \<Rightarrow> db \<Rightarrow> bool" where
  "less_than_comparable hsh i j d =
     (let ci = Option.bind (find_iterator hsh d i) (\<lambda>q. i_cont (i_at d q));
          cj = Option.bind (find_iterator hsh d j) (\<lambda>q. i_cont (i_at d q)) in
      ci \<noteq> None \<and> ci = cj)"

definition db_swap :: "(nat \<Rightarrow> nat) \<Rightarrow> nat \<Rightarrow> nat \<Rightarrow> db \<Rightarrow> unit call" where
  "db_swap hsh c1 c2 d =
     (case (find_container hsh d c1, find_container hsh d c2) of
        (Some p1, Some p2) \<Rightarrow>
          let n1 = c_at d p1; n2 = c_at d p2;
              d = set_cnode p1 (n1\<lparr>c_its := c_its n2, c_cap := c_cap n2\<rparr>) d;
              d = set_cnode p2 ((c_at d p2)\<lparr>c_its := c_its n1, c_cap := c_cap n1\<rparr>) d;
              d = foldl (\<lambda>d q. set_cont (Some p1) q d) d (c_its (c_at d p1));
              d = foldl (\<lambda>d q. set_cont (Some p2) q d) d (c_its (c_at d p2)) in
          Returns () d
      | _ \<Rightarrow> Logic_error)"

section \<open>Chained tables hold a set of nodes\<close>

definition chains :: "(nat \<Rightarrow> nat) \<Rightarrow> (nat \<Rightarrow> nat) \<Rightarrow> nat set \<Rightarrow> nat list list \<Rightarrow> bool" where
  "chains hsh k N tab \<longleftrightarrow>
     inj_on k N \<and> (tab = [] \<longrightarrow> N = {}) \<and>
     (\<forall>h<length tab. distinct (tab ! h) \<and> set (tab ! h) = {q \<in> N. chain_of hsh tab (k q) = h})"

definition table_ok ::
  "(nat \<Rightarrow> nat) \<Rightarrow> (nat \<Rightarrow> nat) \<Rightarrow> nat set \<Rightarrow> nat list list \<Rightarrow> nat \<Rightarrow> bool" where
  "table_ok hsh k N tab n \<longleftrightarrow> chains hsh k N tab \<and> finite N \<and> n = card N \<and> n \<le> length tab"

lemma chain_of_less: "tab \<noteq> [] \<Longrightarrow> chain_of hsh tab a < length tab"
  by (simp add: chain_of_def)

lemma chain_of_same_length: "length tab = length tab' \<Longrightarrow> chain_of hsh tab a = chain_of hsh tab' a"
  by (simp add: chain_of_def)

lemma length_push [simp]: "length (push hsh tab a q) = length tab"
  by (simp add: push_def)

lemma length_unlink [simp]: "length (unlink hsh tab a q) = length tab"
  by (simp add: unlink_def)

lemma lookup_Some_iff:
  assumes "chains hsh k N tab"
  shows "lookup hsh k tab a = Some q \<longleftrightarrow> q \<in> N \<and> k q = a"
proof (cases "tab = []")
  case True
  then show ?thesis using assms by (auto simp: lookup_def chains_def)
next
  case False
  let ?t = "tab ! chain_of hsh tab a"
  have t: "set ?t = {q \<in> N. chain_of hsh tab (k q) = chain_of hsh tab a}" and inj: "inj_on k N"
    using assms chain_of_less [OF False, of hsh a] by (auto simp: chains_def)
  have "find (\<lambda>q. k q = a) ?t = Some q \<longleftrightarrow> q \<in> set ?t \<and> k q = a" (is "?l \<longleftrightarrow> ?r")
  proof
    show "?l \<Longrightarrow> ?r" by (auto simp: find_Some_iff)
  next
    assume r: ?r
    then obtain q' where f: "find (\<lambda>q. k q = a) ?t = Some q'"
      by (cases "find (\<lambda>q. k q = a) ?t") (auto simp: find_None_iff)
    then have "q' \<in> set ?t \<and> k q' = a" by (auto simp: find_Some_iff)
    with r t inj have "q' = q" by (auto dest: inj_onD)
    with f show ?l by simp
  qed
  with False t show ?thesis by (auto simp: lookup_def)
qed

lemma lookup_None_iff:
  assumes "chains hsh k N tab"
  shows "lookup hsh k tab a = None \<longleftrightarrow> a \<notin> k ` N"
proof -
  have "(\<exists>q. lookup hsh k tab a = Some q) \<longleftrightarrow> a \<in> k ` N"
    using lookup_Some_iff [OF assms, of a] by auto
  then show ?thesis by (metis not_Some_eq)
qed

lemma chains_cong:
  assumes "chains hsh k N tab" and "\<And>q. q \<in> N \<Longrightarrow> k' q = k q"
  shows "chains hsh k' N tab"
proof -
  have "inj_on k' N \<longleftrightarrow> inj_on k N" by (rule inj_on_cong) (rule assms(2))
  moreover have "{q \<in> N. chain_of hsh tab (k' q) = h} = {q \<in> N. chain_of hsh tab (k q) = h}" for h
    using assms(2) by auto
  ultimately show ?thesis using assms(1) by (simp add: chains_def)
qed

lemma chains_push:
  assumes "chains hsh k N tab" and "tab \<noteq> []" and "q \<notin> N" and "k q \<notin> k ` N"
  shows "chains hsh k (insert q N) (push hsh tab (k q) q)"
proof -
  let ?c = "chain_of hsh tab (k q)"
  have inj: "inj_on k (insert q N)" using assms by (auto simp: chains_def)
  have old: "\<And>h. h < length tab \<Longrightarrow> distinct (tab ! h) \<and> set (tab ! h) = {r \<in> N. chain_of hsh tab (k r) = h}"
    using assms by (auto simp: chains_def)
  have c: "chain_of hsh (push hsh tab (k q) q) = chain_of hsh tab"
    by (rule ext) (simp add: chain_of_def)
  have new: "distinct (push hsh tab (k q) q ! h) \<and> set (push hsh tab (k q) q ! h) =
      {r \<in> insert q N. chain_of hsh tab (k r) = h}" if "h < length tab" for h
    using old [OF that] that assms(3) by (cases "h = ?c") (auto simp: push_def)
  with inj assms(2) show ?thesis
    by (simp add: chains_def c) (simp add: push_def)
qed

lemma chains_unlink:
  assumes "chains hsh k N tab" and "q \<in> N"
  shows "chains hsh k (N - {q}) (unlink hsh tab (k q) q)"
proof -
  let ?c = "chain_of hsh tab (k q)"
  have ne: "tab \<noteq> []" and inj: "inj_on k N"
    and old: "\<And>h. h < length tab \<Longrightarrow> distinct (tab ! h) \<and> set (tab ! h) = {r \<in> N. chain_of hsh tab (k r) = h}"
    using assms by (auto simp: chains_def)
  have c: "chain_of hsh (unlink hsh tab (k q) q) = chain_of hsh tab"
    by (rule ext) (simp add: chain_of_def)
  have new: "distinct (unlink hsh tab (k q) q ! h) \<and> set (unlink hsh tab (k q) q ! h) =
      {r \<in> N - {q}. chain_of hsh tab (k r) = h}" if "h < length tab" for h
    using old [OF that] that by (cases "h = ?c") (auto simp: unlink_def)
  have "inj_on k (N - {q})" using inj by (rule inj_on_subset) blast
  with new ne show ?thesis
    by (simp add: chains_def c) (simp add: unlink_def)
qed

lemma distinct_concatI:
  assumes "\<And>h. h < length tab \<Longrightarrow> distinct (tab ! h)"
    and "\<And>h h'. h < length tab \<Longrightarrow> h' < length tab \<Longrightarrow> h \<noteq> h' \<Longrightarrow> set (tab ! h) \<inter> set (tab ! h') = {}"
  shows "distinct (concat tab)"
  using assms
proof (induction tab)
  case (Cons t tab)
  have "distinct (concat tab)"
  proof (rule Cons.IH)
    show "distinct (tab ! h)" if "h < length tab" for h
      using Cons.prems(1) [of "Suc h"] that by simp
    show "set (tab ! h) \<inter> set (tab ! h') = {}" if "h < length tab" "h' < length tab" "h \<noteq> h'" for h h'
      using Cons.prems(2) [of "Suc h" "Suc h'"] that by simp
  qed
  moreover have "set t \<inter> set u = {}" if "u \<in> set tab" for u
  proof -
    from that obtain h where "h < length tab" "tab ! h = u" unfolding in_set_conv_nth by (elim exE conjE)
    then show ?thesis using Cons.prems(2) [of 0 "Suc h"] by fastforce
  qed
  ultimately show ?case using Cons.prems(1) [of 0] by auto
qed simp

lemma chains_concat:
  assumes "chains hsh k N tab"
  shows "distinct (concat tab)" and "set (concat tab) = N"
proof -
  show "distinct (concat tab)"
    using assms by (intro distinct_concatI) (auto simp: chains_def)
  show "set (concat tab) = N"
  proof (rule equalityI; rule subsetI)
    fix q assume "q \<in> set (concat tab)"
    then obtain h where "h < length tab" "q \<in> set (tab ! h)"
      by (metis UN_E in_set_conv_nth set_concat)
    then show "q \<in> N" using assms by (auto simp: chains_def)
  next
    fix q assume "q \<in> N"
    then have "tab \<noteq> []" using assms by (auto simp: chains_def)
    from chain_of_less [OF this, of hsh "k q"] have "q \<in> set (tab ! chain_of hsh tab (k q))"
        "tab ! chain_of hsh tab (k q) \<in> set tab"
      using assms \<open>q \<in> N\<close> by (auto simp: chains_def)
    then show "q \<in> set (concat tab)" by auto
  qed
qed

lemma chains_pushes:
  assumes "chains hsh k N tab" and "tab \<noteq> []" and "distinct qs" and "set qs \<inter> N = {}"
    and "inj_on k (N \<union> set qs)"
  shows "chains hsh k (N \<union> set qs) (foldl (\<lambda>t q. push hsh t (k q) q) tab qs)"
  using assms
proof (induction qs arbitrary: N tab)
  case (Cons q qs)
  have "chains hsh k (insert q N) (push hsh tab (k q) q)"
    using Cons.prems by (intro chains_push) (auto simp: inj_on_def)
  moreover have "push hsh tab (k q) q \<noteq> []" using Cons.prems(2) by (simp add: push_def)
  ultimately have "chains hsh k (insert q N \<union> set qs)
      (foldl (\<lambda>t q. push hsh t (k q) q) (push hsh tab (k q) q) qs)"
    using Cons.prems by (intro Cons.IH) (auto simp: insert_commute)
  then show ?case by simp
qed simp

lemma length_pushes [simp]: "length (foldl (\<lambda>t q. push hsh t (k q) q) tab qs) = length tab"
  by (induction qs arbitrary: tab) simp_all

lemma length_grow [simp]: "length (grow hsh k tab nc) = nc"
  by (simp add: grow_def)

lemma chains_grow:
  assumes "chains hsh k N tab" and "0 < nc"
  shows "chains hsh k N (grow hsh k tab nc)"
proof -
  have "chains hsh k {} (replicate nc [])" by (simp add: chains_def)
  with assms chains_pushes [of hsh k "{}" "replicate nc []" "concat tab"] chains_concat [OF assms(1)]
  show ?thesis by (auto simp: grow_def chains_def)
qed

end
