(* ===== verification/Debug_Invariant.thy ===== *)
theory Debug_Invariant
  imports Debug_Db
begin

text \<open>
  The invariant of the database of \<open>Debug_Db\<close> and what it means to its user: a set of containers and
  a map from the iterators to their containers.  Every operation preserves the invariant, fails no
  assertion in a state that satisfies it and implements a simple operation on the two.
\<close>

section \<open>The invariant\<close>

definition i_key :: "db \<Rightarrow> nat \<Rightarrow> nat" where "i_key d q = i_addr (i_at d q)"
definition c_key :: "db \<Rightarrow> nat \<Rightarrow> nat" where "c_key d q = c_addr (c_at d q)"
definition cont :: "db \<Rightarrow> nat \<Rightarrow> nat option" where "cont d q = i_cont (i_at d q)"

definition linked :: "db \<Rightarrow> bool" where
  "linked d \<longleftrightarrow>
     (\<forall>cn \<in> dom (c_nodes d). distinct (c_its (c_at d cn)) \<and>
        length (c_its (c_at d cn)) \<le> c_cap (c_at d cn) \<and>
        set (c_its (c_at d cn)) = {q \<in> dom (i_nodes d). cont d q = Some cn}) \<and>
     (\<forall>q \<in> dom (i_nodes d). \<forall>cn. cont d q = Some cn \<longrightarrow> cn \<in> dom (c_nodes d))"

definition db_ok :: "(nat \<Rightarrow> nat) \<Rightarrow> db \<Rightarrow> bool" where
  "db_ok hsh d \<longleftrightarrow>
     table_ok hsh (i_key d) (dom (i_nodes d)) (i_table d) (isz d) \<and>
     table_ok hsh (c_key d) (dom (c_nodes d)) (c_table d) (csz d) \<and> linked d"

section \<open>The abstract state\<close>

text \<open>\<open>owner hsh d i\<close> is \<open>None\<close> for an unknown iterator, \<open>Some None\<close> for a singular one.\<close>

definition owner :: "(nat \<Rightarrow> nat) \<Rightarrow> db \<Rightarrow> nat \<rightharpoonup> nat option" where
  "owner hsh d i = map_option (\<lambda>q. map_option (c_key d) (cont d q)) (find_iterator hsh d i)"

definition containers :: "(nat \<Rightarrow> nat) \<Rightarrow> db \<Rightarrow> nat set" where
  "containers hsh d = {c. find_container hsh d c \<noteq> None}"

lemma find_iterator_eq: "find_iterator hsh d i = lookup hsh (i_key d) (i_table d) i"
  by (simp add: find_iterator_def i_key_def [abs_def])

lemma find_container_eq: "find_container hsh d c = lookup hsh (c_key d) (c_table d) c"
  by (simp add: find_container_def c_key_def [abs_def])

lemma find_iterator_iff:
  "db_ok hsh d \<Longrightarrow> find_iterator hsh d i = Some q \<longleftrightarrow> q \<in> dom (i_nodes d) \<and> i_key d q = i"
  unfolding find_iterator_eq by (rule lookup_Some_iff) (simp add: db_ok_def table_ok_def)

lemma find_container_iff:
  "db_ok hsh d \<Longrightarrow> find_container hsh d c = Some q \<longleftrightarrow> q \<in> dom (c_nodes d) \<and> c_key d q = c"
  unfolding find_container_eq by (rule lookup_Some_iff) (simp add: db_ok_def table_ok_def)

lemma find_iterator_node [simp]:
  "db_ok hsh d \<Longrightarrow> q \<in> dom (i_nodes d) \<Longrightarrow> find_iterator hsh d (i_key d q) = Some q"
  by (simp only: find_iterator_iff)

lemma owner_node:
  "db_ok hsh d \<Longrightarrow> q \<in> dom (i_nodes d) \<Longrightarrow>
    owner hsh d (i_key d q) = Some (map_option (c_key d) (cont d q))"
  by (simp add: owner_def)

lemma dom_owner: "db_ok hsh d \<Longrightarrow> dom (owner hsh d) = i_key d ` dom (i_nodes d)"
proof -
  assume ok: "db_ok hsh d"
  have "i \<in> dom (owner hsh d) \<longleftrightarrow> (\<exists>q. find_iterator hsh d i = Some q)" for i
    by (auto simp: owner_def)
  then show ?thesis unfolding find_iterator_iff [OF ok] by (intro set_eqI) (metis image_iff)
qed

lemma containers_eq: "db_ok hsh d \<Longrightarrow> containers hsh d = c_key d ` dom (c_nodes d)"
proof -
  assume ok: "db_ok hsh d"
  have "c \<in> containers hsh d \<longleftrightarrow> (\<exists>q. find_container hsh d c = Some q)" for c
    by (simp add: containers_def)
  then show ?thesis unfolding find_container_iff [OF ok] by (intro set_eqI) (metis image_iff)
qed

text \<open>Two maps from addresses are equal if they agree on the nodes.\<close>

lemma owner_eqI:
  assumes "db_ok hsh d" and "dom m \<subseteq> i_key d ` dom (i_nodes d)"
    and "\<And>q. q \<in> dom (i_nodes d) \<Longrightarrow> m (i_key d q) = Some (map_option (c_key d) (cont d q))"
  shows "owner hsh d = m"
proof (rule ext)
  fix i
  show "owner hsh d i = m i"
  proof (cases "i \<in> i_key d ` dom (i_nodes d)")
    case True
    then obtain q where "q \<in> dom (i_nodes d)" "i = i_key d q" by (rule imageE) 
    then show ?thesis using owner_node [OF assms(1)] assms(3) by simp
  next
    case False
    then have "i \<notin> dom (owner hsh d)" "i \<notin> dom m" using dom_owner [OF assms(1)] assms(2) by auto
    then show ?thesis by (metis domIff)
  qed
qed

lemma i_key_inj:
  "db_ok hsh d \<Longrightarrow> q \<in> dom (i_nodes d) \<Longrightarrow> r \<in> dom (i_nodes d) \<Longrightarrow> i_key d q = i_key d r \<longleftrightarrow> q = r"
  by (auto simp: db_ok_def table_ok_def chains_def dest: inj_onD)

lemma c_key_inj:
  "db_ok hsh d \<Longrightarrow> q \<in> dom (c_nodes d) \<Longrightarrow> r \<in> dom (c_nodes d) \<Longrightarrow> c_key d q = c_key d r \<longleftrightarrow> q = r"
  by (auto simp: db_ok_def table_ok_def chains_def dest: inj_onD)

lemma db_okD:
  assumes "db_ok hsh d"
  shows "linked d"
    and "cn \<in> dom (c_nodes d) \<Longrightarrow> set (c_its (c_at d cn)) = {q \<in> dom (i_nodes d). cont d q = Some cn}"
    and "q \<in> dom (i_nodes d) \<Longrightarrow> cont d q = Some cn \<Longrightarrow> cn \<in> dom (c_nodes d)"
  using assms by (auto simp: db_ok_def linked_def)

section \<open>The assignments\<close>

lemma set_cont_simps [simp]:
  "i_table (set_cont c p d) = i_table d" "isz (set_cont c p d) = isz d"
  "c_table (set_cont c p d) = c_table d" "csz (set_cont c p d) = csz d"
  "c_nodes (set_cont c p d) = c_nodes d" "dom (i_nodes (set_cont c p d)) = insert p (dom (i_nodes d))"
  "c_at (set_cont c p d) cn = c_at d cn" "c_key (set_cont c p d) cn = c_key d cn"
  "i_key (set_cont c p d) q = i_key d q"
  "cont (set_cont c p d) q = (if q = p then c else cont d q)"
  by (simp_all add: set_cont_def c_at_def c_key_def i_key_def cont_def i_at_def)

lemma set_cnode_simps [simp]:
  "i_table (set_cnode cn n d) = i_table d" "isz (set_cnode cn n d) = isz d"
  "c_table (set_cnode cn n d) = c_table d" "csz (set_cnode cn n d) = csz d"
  "i_nodes (set_cnode cn n d) = i_nodes d" "dom (c_nodes (set_cnode cn n d)) = insert cn (dom (c_nodes d))"
  "c_at (set_cnode cn n d) cm = (if cm = cn then n else c_at d cm)"
  "c_key (set_cnode cn n d) cm = (if cm = cn then c_addr n else c_key d cm)"
  "i_at (set_cnode cn n d) q = i_at d q" "i_key (set_cnode cn n d) q = i_key d q"
  "cont (set_cnode cn n d) q = cont d q"
  by (simp_all add: set_cnode_def c_at_def c_key_def i_key_def cont_def i_at_def)

lemma set_conts_simps [simp]:
  "i_table (fold (set_cont c) ps d) = i_table d" "isz (fold (set_cont c) ps d) = isz d"
  "c_table (fold (set_cont c) ps d) = c_table d" "csz (fold (set_cont c) ps d) = csz d"
  "c_nodes (fold (set_cont c) ps d) = c_nodes d"
  "dom (i_nodes (fold (set_cont c) ps d)) = set ps \<union> dom (i_nodes d)"
  "c_at (fold (set_cont c) ps d) cn = c_at d cn" "c_key (fold (set_cont c) ps d) cn = c_key d cn"
  "i_key (fold (set_cont c) ps d) q = i_key d q"
  "cont (fold (set_cont c) ps d) q = (if q \<in> set ps then c else cont d q)"
  by (induction ps arbitrary: d) auto

text \<open>Records that do not change the nodes or the tables.\<close>

lemma update_simps [simp]:
  "c_at (d\<lparr>c_table := t\<rparr>) = c_at d" "c_at (d\<lparr>csz := n\<rparr>) = c_at d" "c_at (d\<lparr>i_table := t\<rparr>) = c_at d"
  "c_at (d\<lparr>isz := n\<rparr>) = c_at d" "c_at (d\<lparr>i_nodes := f\<rparr>) = c_at d"
  "c_key (d\<lparr>c_table := t\<rparr>) = c_key d" "c_key (d\<lparr>csz := n\<rparr>) = c_key d"
  "c_key (d\<lparr>i_table := t\<rparr>) = c_key d" "c_key (d\<lparr>isz := n\<rparr>) = c_key d" "c_key (d\<lparr>i_nodes := f\<rparr>) = c_key d"
  "i_at (d\<lparr>c_table := t\<rparr>) = i_at d" "i_at (d\<lparr>csz := n\<rparr>) = i_at d" "i_at (d\<lparr>i_table := t\<rparr>) = i_at d"
  "i_at (d\<lparr>isz := n\<rparr>) = i_at d" "i_at (d\<lparr>c_nodes := g\<rparr>) = i_at d"
  "i_key (d\<lparr>c_table := t\<rparr>) = i_key d" "i_key (d\<lparr>csz := n\<rparr>) = i_key d"
  "i_key (d\<lparr>i_table := t\<rparr>) = i_key d" "i_key (d\<lparr>isz := n\<rparr>) = i_key d" "i_key (d\<lparr>c_nodes := g\<rparr>) = i_key d"
  "cont (d\<lparr>c_table := t\<rparr>) = cont d" "cont (d\<lparr>csz := n\<rparr>) = cont d"
  "cont (d\<lparr>i_table := t\<rparr>) = cont d" "cont (d\<lparr>isz := n\<rparr>) = cont d" "cont (d\<lparr>c_nodes := g\<rparr>) = cont d"
  by (simp_all add: c_at_def [abs_def] c_key_def [abs_def] i_at_def [abs_def] i_key_def [abs_def] cont_def [abs_def])

lemma remove_node_simps [simp]:
  "q \<noteq> p \<Longrightarrow> i_key (d\<lparr>i_nodes := (i_nodes d)(p := x)\<rparr>) q = i_key d q"
  "q \<noteq> p \<Longrightarrow> cont (d\<lparr>i_nodes := (i_nodes d)(p := x)\<rparr>) q = cont d q"
  "cm \<noteq> cn \<Longrightarrow> c_key (d\<lparr>c_nodes := (c_nodes d)(cn := y)\<rparr>) cm = c_key d cm"
  "cm \<noteq> cn \<Longrightarrow> c_at (d\<lparr>c_nodes := (c_nodes d)(cn := y)\<rparr>) cm = c_at d cm"
  by (simp_all add: i_key_def cont_def i_at_def c_key_def c_at_def)

lemma table_ok_cong:
  "table_ok hsh k N tab n \<Longrightarrow> (\<And>q. q \<in> N \<Longrightarrow> k' q = k q) \<Longrightarrow> table_ok hsh k' N tab n"
  unfolding table_ok_def using chains_cong by blast

section \<open>Elementary steps\<close>

text \<open>A new iterator node, not linked with a container.\<close>

lemma insert_iterator_correct:
  assumes ok: "db_ok hsh d" and fresh: "r \<notin> dom (i_nodes d)" and unknown: "i \<notin> dom (owner hsh d)"
    and np: "\<And>n. n \<le> next_prime n"
  shows "\<exists>d'. insert_iterator hsh next_prime True (Some r) i d = Returns r d' \<and> db_ok hsh d' \<and>
    dom (i_nodes d') = insert r (dom (i_nodes d)) \<and> i_key d' r = i \<and> cont d' r = None \<and>
    (\<forall>q \<in> dom (i_nodes d). i_key d' q = i_key d q \<and> cont d' q = cont d q) \<and>
    c_nodes d' = c_nodes d \<and> c_table d' = c_table d \<and> csz d' = csz d"
proof -
  let ?full = "length (i_table d) < isz d + 1"
  define tab where "tab = (if ?full
      then grow hsh (i_key d) (i_table d) (next_prime (2 * length (i_table d) + 1)) else i_table d)"
  define d' where "d' = d\<lparr>i_table := push hsh tab i r,
      i_nodes := (i_nodes d)(r \<mapsto> \<lparr>i_addr = i, i_cont = None\<rparr>), isz := isz d + 1\<rparr>"
  have ins: "insert_iterator hsh next_prime True (Some r) i d = Returns r d'"
    by (simp add: insert_iterator_def d'_def tab_def i_key_def [abs_def] Let_def)
  have T: "chains hsh (i_key d) (dom (i_nodes d)) (i_table d)" "finite (dom (i_nodes d))"
      "isz d = card (dom (i_nodes d))" "isz d \<le> length (i_table d)"
    using ok by (auto simp: db_ok_def table_ok_def)
  have nc: "2 * length (i_table d) + 1 \<le> next_prime (2 * length (i_table d) + 1)" by (rule np)
  have keys: "i_key d' q = (if q = r then i else i_key d q)"
    "cont d' q = (if q = r then None else cont d q)" for q
    by (simp_all add: d'_def i_key_def cont_def i_at_def)
  have c: "c_nodes d' = c_nodes d" "c_table d' = c_table d" "csz d' = csz d" "c_at d' = c_at d" "c_key d' = c_key d"
    by (simp_all add: d'_def c_at_def [abs_def] c_key_def [abs_def])
  have "chains hsh (i_key d) (dom (i_nodes d)) tab"
    using T(1) nc by (simp add: tab_def chains_grow)
  then have t: "chains hsh (i_key d') (dom (i_nodes d)) tab"
    by (rule chains_cong) (use fresh keys in auto)
  have len: "isz d + 1 \<le> length tab" using T(4) nc by (simp add: tab_def)
  have i: "i_key d' r = i" by (simp add: keys)
  have "i_key d' r \<notin> i_key d' ` dom (i_nodes d)"
    using unknown fresh dom_owner [OF ok] by (auto simp: keys split: if_splits)
  moreover have "tab \<noteq> []" using len by auto
  ultimately have "chains hsh (i_key d') (insert r (dom (i_nodes d))) (push hsh tab i r)"
    using chains_push [OF t _ fresh] i by metis
  then have "table_ok hsh (i_key d') (dom (i_nodes d')) (i_table d') (isz d')"
    using T(2,3) len fresh by (simp add: table_ok_def d'_def)
  moreover have "linked d'"
  proof -
    have dom: "dom (i_nodes d') = insert r (dom (i_nodes d))" by (simp add: d'_def)
    have "{q \<in> dom (i_nodes d'). cont d' q = Some cn} = {q \<in> dom (i_nodes d). cont d q = Some cn}" for cn
      using fresh by (auto simp: dom keys)
    then show ?thesis
      using db_okD(1) [OF ok] by (auto simp: linked_def c keys dom)
  qed
  ultimately have "db_ok hsh d'" using ok by (simp add: db_ok_def c)
  with ins c keys fresh show ?thesis by (auto simp: d'_def)
qed

lemma c_node_add_correct:
  assumes "length (c_its n) \<le> c_cap n"
  shows "\<exists>n'. c_node_add True q n = Some n' \<and> c_its n' = c_its n @ [q] \<and> c_addr n' = c_addr n \<and>
    length (c_its n') \<le> c_cap n'"
  using assms by (auto simp: c_node_add_def Let_def)

text \<open>Linking an iterator node that has no container, and unlinking one.\<close>

text \<open>A step that keeps the nodes and their addresses acts on the containers of the iterators.\<close>

lemma owner_step:
  assumes ok: "db_ok hsh d" and ok': "db_ok hsh d'"
    and dom: "dom (i_nodes d') = dom (i_nodes d)" and key: "\<And>q. i_key d' q = i_key d q"
    and g: "\<And>q. q \<in> dom (i_nodes d) \<Longrightarrow>
      map_option (c_key d') (cont d' q) = g (i_key d q) (map_option (c_key d) (cont d q))"
  shows "owner hsh d' = (\<lambda>i. map_option (g i) (owner hsh d i))"
proof (rule owner_eqI [OF ok'])
  have key': "i_key d' = i_key d" by (rule ext) (rule key)
  show "dom (\<lambda>i. map_option (g i) (owner hsh d i)) \<subseteq> i_key d' ` dom (i_nodes d')"
    using dom_owner [OF ok] unfolding dom key' by (auto simp: dom_def)
  show "map_option (g (i_key d' q)) (owner hsh d (i_key d' q)) = Some (map_option (c_key d') (cont d' q))"
    if "q \<in> dom (i_nodes d')" for q
    using that unfolding dom by (simp add: key owner_node [OF ok] g)
qed

lemma upd_known: "i \<in> dom m \<Longrightarrow> m(i \<mapsto> x) = (\<lambda>j. map_option (\<lambda>y. if j = i then x else y) (m j))"
  by (rule ext) (auto simp: option.map_id [unfolded id_def])

lemma owner_assign:
  assumes ok: "db_ok hsh d" and ok': "db_ok hsh d'" and q: "q \<in> dom (i_nodes d)"
    and dom: "dom (i_nodes d') = dom (i_nodes d)" and key: "\<And>q. i_key d' q = i_key d q"
    and "\<And>p. p \<in> dom (i_nodes d) \<Longrightarrow> p \<noteq> q \<Longrightarrow> map_option (c_key d') (cont d' p) = map_option (c_key d) (cont d p)"
    and "map_option (c_key d') (cont d' q) = x"
  shows "owner hsh d' = (owner hsh d)(i_key d q \<mapsto> x)"
proof -
  have "i_key d q \<in> dom (owner hsh d)" using q dom_owner [OF ok] by blast
  moreover have "owner hsh d' = (\<lambda>i. map_option (\<lambda>y. if i = i_key d q then x else y) (owner hsh d i))"
    using assms(6,7) i_key_inj [OF ok _ q] by (intro owner_step [OF ok ok' dom key]) auto
  ultimately show ?thesis by (simp only: upd_known)
qed

lemma link_correct:
  assumes ok: "db_ok hsh d" and q: "q \<in> dom (i_nodes d)" "cont d q = None" and cn: "cn \<in> dom (c_nodes d)"
    and n: "c_its n = c_its (c_at d cn) @ [q]" "c_addr n = c_key d cn" "length (c_its n) \<le> c_cap n"
    and d': "d' = set_cont (Some cn) q (set_cnode cn n d)"
  shows "db_ok hsh d'" and "owner hsh d' = (owner hsh d)(i_key d q \<mapsto> Some (c_key d cn))"
    and "containers hsh d' = containers hsh d"
proof -
  have c_key: "c_key d' = c_key d" and i_key: "i_key d' = i_key d"
    by (rule ext, simp add: n(2) d')+
  have cont: "cont d' p = (if p = q then Some cn else cont d p)" for p by (simp add: d')
  have dom: "dom (i_nodes d') = dom (i_nodes d)" "dom (c_nodes d') = dom (c_nodes d)"
    using q cn by (auto simp: d')
  have "linked d'"
    using db_okD(1) [OF ok] q cn n unfolding linked_def dom cont by (auto simp: d')
  then show ok': "db_ok hsh d'" using ok unfolding db_ok_def dom c_key i_key by (simp add: d')
  show "owner hsh d' = (owner hsh d)(i_key d q \<mapsto> Some (c_key d cn))"
    by (rule owner_assign [OF ok ok' q(1) dom(1)]) (simp_all add: cont c_key i_key)
  show "containers hsh d' = containers hsh d"
    unfolding containers_eq [OF ok'] containers_eq [OF ok] dom by (simp only: c_key)
qed

lemma unlink_correct:
  assumes ok: "db_ok hsh d" and q: "q \<in> dom (i_nodes d)" "cont d q = Some cn"
  shows "\<exists>n. c_node_remove q (c_at d cn) = Some n \<and> db_ok hsh (set_cont None q (set_cnode cn n d)) \<and>
    owner hsh (set_cont None q (set_cnode cn n d)) = (owner hsh d)(i_key d q \<mapsto> None) \<and>
    containers hsh (set_cont None q (set_cnode cn n d)) = containers hsh d"
proof -
  define n where "n = (c_at d cn)\<lparr>c_its := remove1 q (c_its (c_at d cn))\<rparr>"
  define d' where "d' = set_cont None q (set_cnode cn n d)"
  have cn: "cn \<in> dom (c_nodes d)" using db_okD(3) [OF ok q] .
  have "q \<in> set (c_its (c_at d cn))" using db_okD(2) [OF ok cn] q by simp
  then have rem: "c_node_remove q (c_at d cn) = Some n" by (simp add: c_node_remove_def n_def)
  have c_key: "c_key d' = c_key d" and i_key: "i_key d' = i_key d"
    by (auto simp: d'_def n_def c_key_def fun_eq_iff)
  have cont: "cont d' p = (if p = q then None else cont d p)" for p by (simp add: d'_def)
  have dom: "dom (i_nodes d') = dom (i_nodes d)" "dom (c_nodes d') = dom (c_nodes d)"
    using q cn by (auto simp: d'_def)
  have len: "length (remove1 q xs) \<le> m" if "length xs \<le> m" for xs and m :: nat
    using that by (auto simp: length_remove1)
  have "linked d'"
    using db_okD(1) [OF ok] q cn unfolding linked_def dom cont by (auto simp: d'_def n_def len)
  then have ok': "db_ok hsh d'" using ok unfolding db_ok_def dom c_key i_key by (simp add: d'_def)
  moreover have "owner hsh d' = (owner hsh d)(i_key d q \<mapsto> None)"
    by (rule owner_assign [OF ok ok' q(1) dom(1)]) (simp_all add: cont c_key i_key)
  moreover have "containers hsh d' = containers hsh d"
    unfolding containers_eq [OF ok'] containers_eq [OF ok] dom by (simp only: c_key)
  ultimately show ?thesis using rem by (auto simp: d'_def)
qed

lemma detach_all_correct:
  assumes ok: "db_ok hsh d" and cn: "cn \<in> dom (c_nodes d)"
  shows "db_ok hsh (detach_all cn d)" and "containers hsh (detach_all cn d) = containers hsh d"
    and "owner hsh (detach_all cn d) =
      (\<lambda>i. map_option (\<lambda>x. if x = Some (c_key d cn) then None else x) (owner hsh d i))"
    and "c_its (c_at (detach_all cn d) cn) = []"
proof -
  define d' where "d' = detach_all cn d"
  have its: "set (c_its (c_at d cn)) = {q \<in> dom (i_nodes d). cont d q = Some cn}"
    using db_okD(2) [OF ok cn] .
  have d': "d' = set_cnode cn ((c_at d cn)\<lparr>c_its := []\<rparr>) (fold (set_cont None) (rev (c_its (c_at d cn))) d)"
    by (simp add: d'_def detach_all_def Let_def foldr_conv_fold)
  have c_key: "c_key d' = c_key d" and i_key: "i_key d' = i_key d"
    by (auto simp: d' c_key_def fun_eq_iff)
  have cont: "cont d' q = (if q \<in> set (c_its (c_at d cn)) then None else cont d q)" for q
    by (simp add: d')
  have dom: "dom (i_nodes d') = dom (i_nodes d)" "dom (c_nodes d') = dom (c_nodes d)"
    using its cn by (auto simp: d')
  have "linked d'"
    using db_okD(1) [OF ok] cn unfolding linked_def dom cont its by (auto simp: d')
  then have ok': "db_ok hsh d'" using ok unfolding db_ok_def dom c_key i_key by (simp add: d')
  moreover have "owner hsh d' =
      (\<lambda>i. map_option (\<lambda>x. if x = Some (c_key d cn) then None else x) (owner hsh d i))"
    using db_okD(3) [OF ok] c_key_inj [OF ok _ cn]
    by (intro owner_step [OF ok ok' dom(1)]) (auto simp: cont c_key i_key its split: option.splits)
  moreover have "containers hsh d' = containers hsh d"
    unfolding containers_eq [OF ok'] containers_eq [OF ok] dom by (simp only: c_key)
  moreover have "c_its (c_at d' cn) = []" by (simp add: d')
  ultimately show "db_ok hsh (detach_all cn d)" "containers hsh (detach_all cn d) = containers hsh d"
    "owner hsh (detach_all cn d) =
      (\<lambda>i. map_option (\<lambda>x. if x = Some (c_key d cn) then None else x) (owner hsh d i))"
    "c_its (c_at (detach_all cn d) cn) = []"
    by (simp_all add: d'_def)
qed

text \<open>Dropping a node without links.\<close>

lemma drop_iterator:
  assumes ok: "db_ok hsh d" and q: "q \<in> dom (i_nodes d)" "cont d q = None"
    and d': "d' = d\<lparr>i_table := unlink hsh (i_table d) (i_key d q) q, isz := isz d - 1,
      i_nodes := (i_nodes d)(q := None)\<rparr>"
  shows "db_ok hsh d'" and "owner hsh d' = (owner hsh d)(i_key d q := None)"
    and "containers hsh d' = containers hsh d"
proof -
  have dom: "dom (i_nodes d') = dom (i_nodes d) - {q}" by (simp add: d')
  have c: "c_nodes d' = c_nodes d" "c_table d' = c_table d" "csz d' = csz d" "c_at d' = c_at d" "c_key d' = c_key d"
    by (simp_all add: d' c_at_def [abs_def] c_key_def [abs_def])
  have keys: "i_key d' p = i_key d p" "cont d' p = cont d p" if "p \<noteq> q" for p
    using that by (simp_all add: d' i_key_def cont_def i_at_def)
  have T: "chains hsh (i_key d) (dom (i_nodes d)) (i_table d)" "finite (dom (i_nodes d))"
      "isz d = card (dom (i_nodes d))" "isz d \<le> length (i_table d)"
    using ok by (auto simp: db_ok_def table_ok_def)
  have "table_ok hsh (i_key d) (dom (i_nodes d')) (i_table d') (isz d')"
    using T chains_unlink [OF T(1) q(1)] q(1) unfolding dom by (simp add: table_ok_def d')
  then have "table_ok hsh (i_key d') (dom (i_nodes d')) (i_table d') (isz d')"
    by (rule table_ok_cong) (simp add: keys dom)
  moreover have "linked d'"
  proof -
    have "{p \<in> dom (i_nodes d'). cont d' p = Some cn} = {p \<in> dom (i_nodes d). cont d p = Some cn}" for cn
    proof -
      have "p \<noteq> q" if "cont d p = Some cn" for p using q that by auto
      then show ?thesis by (auto simp: dom keys)
    qed
    then show ?thesis using db_okD(1) [OF ok] by (simp add: linked_def c) (auto simp: dom keys)
  qed
  ultimately show ok': "db_ok hsh d'" using ok by (simp add: db_ok_def c)
  show "containers hsh d' = containers hsh d"
    by (simp only: containers_eq [OF ok'] containers_eq [OF ok] c)
  have dom_o: "dom ((owner hsh d)(i_key d q := None)) \<subseteq> i_key d' ` dom (i_nodes d')"
  proof
    fix i assume "i \<in> dom ((owner hsh d)(i_key d q := None))"
    then have "i \<noteq> i_key d q" "i \<in> i_key d ` dom (i_nodes d)"
      using dom_owner [OF ok] by (auto split: if_splits)
    then obtain p where p: "p \<in> dom (i_nodes d)" "i = i_key d p" "p \<noteq> q" by blast
    then have "i = i_key d' p" "p \<in> dom (i_nodes d')" by (simp_all add: keys dom)
    then show "i \<in> i_key d' ` dom (i_nodes d')" by blast
  qed
  show "owner hsh d' = (owner hsh d)(i_key d q := None)"
  proof (rule owner_eqI [OF ok' dom_o])
    fix p assume "p \<in> dom (i_nodes d')"
    then have p: "p \<in> dom (i_nodes d)" "p \<noteq> q" unfolding dom by auto
    then show "((owner hsh d)(i_key d q := None)) (i_key d' p) = Some (map_option (c_key d') (cont d' p))"
      using i_key_inj [OF ok p(1) q(1)] by (simp add: keys owner_node [OF ok] c)
  qed
qed

lemma drop_container:
  assumes ok: "db_ok hsh d" and cn: "cn \<in> dom (c_nodes d)" "c_its (c_at d cn) = []"
    and d': "d' = d\<lparr>c_table := unlink hsh (c_table d) (c_key d cn) cn, csz := csz d - 1,
      c_nodes := (c_nodes d)(cn := None)\<rparr>"
  shows "db_ok hsh d'" and "owner hsh d' = owner hsh d"
    and "containers hsh d' = containers hsh d - {c_key d cn}"
proof -
  have dom: "dom (c_nodes d') = dom (c_nodes d) - {cn}" by (simp add: d')
  have i: "i_nodes d' = i_nodes d" "i_table d' = i_table d" "isz d' = isz d" "i_key d' = i_key d" "cont d' = cont d"
    by (simp_all add: d' i_at_def [abs_def] i_key_def [abs_def] cont_def [abs_def])
  have keys: "c_key d' cm = c_key d cm" "c_at d' cm = c_at d cm" if "cm \<noteq> cn" for cm
    using that by (simp_all add: d' c_key_def c_at_def)
  have T: "chains hsh (c_key d) (dom (c_nodes d)) (c_table d)" "finite (dom (c_nodes d))"
      "csz d = card (dom (c_nodes d))" "csz d \<le> length (c_table d)"
    using ok by (auto simp: db_ok_def table_ok_def)
  have "table_ok hsh (c_key d) (dom (c_nodes d')) (c_table d') (csz d')"
    using T chains_unlink [OF T(1) cn(1)] cn(1) unfolding dom by (simp add: table_ok_def d')
  then have "table_ok hsh (c_key d') (dom (c_nodes d')) (c_table d') (csz d')"
    by (rule table_ok_cong) (simp add: keys dom)
  moreover have no: "cont d q \<noteq> Some cn" if "q \<in> dom (i_nodes d)" for q
    using db_okD(2) [OF ok cn(1)] cn(2) that by auto
  then have "linked d'"
    using db_okD(1) [OF ok] unfolding linked_def i dom by (auto simp: keys)
  ultimately show ok': "db_ok hsh d'" using ok by (simp add: db_ok_def i)
  have "owner hsh d' = (\<lambda>i. map_option (\<lambda>x. x) (owner hsh d i))"
  proof (rule owner_step [OF ok ok'])
    fix q assume "q \<in> dom (i_nodes d)"
    then have "cont d q \<noteq> Some cn" by (rule no)
    then show "map_option (c_key d') (cont d' q) = map_option (c_key d) (cont d q)"
      by (cases "cont d q") (simp_all add: i keys(1))
  qed (simp_all add: i)
  then show "owner hsh d' = owner hsh d" by (simp add: option.map_ident)
  show "containers hsh d' = containers hsh d - {c_key d cn}"
    using c_key_inj [OF ok _ cn(1)] unfolding containers_eq [OF ok'] containers_eq [OF ok] dom
    by (auto simp: keys)
qed

section \<open>The operations\<close>

text \<open>What an operation promises: a state that satisfies the invariant and has the given meaning.\<close>

definition becomes :: "(nat \<Rightarrow> nat) \<Rightarrow> (nat \<rightharpoonup> nat option) \<Rightarrow> nat set \<Rightarrow> db \<Rightarrow> bool" where
  "becomes hsh own cs d \<longleftrightarrow> db_ok hsh d \<and> owner hsh d = own \<and> containers hsh d = cs"

lemma container_cases:
  assumes "db_ok hsh d"
  obtains (unknown) "find_container hsh d c = None" "c \<notin> containers hsh d"
  | (known) cn where "find_container hsh d c = Some cn" "c \<in> containers hsh d" "cn \<in> dom (c_nodes d)"
      "c_key d cn = c"
proof (cases "find_container hsh d c")
  case None
  then show thesis by (intro unknown) (simp_all add: containers_def)
next
  case (Some cn)
  then have "cn \<in> dom (c_nodes d) \<and> c_key d cn = c" using find_container_iff [OF assms] by blast
  with Some show thesis by (intro known [of cn]) (simp_all add: containers_def)
qed

lemma container_known:
  assumes "db_ok hsh d" and "c \<in> containers hsh d"
  obtains cn where "find_container hsh d c = Some cn" "cn \<in> dom (c_nodes d)" "c_key d cn = c"
  by (rule container_cases [OF assms(1), of c]) (use assms(2) that in blast)+

lemma iterator_cases:
  assumes "db_ok hsh d"
  obtains (unknown) "find_iterator hsh d i = None" "owner hsh d i = None"
  | (known) q where "find_iterator hsh d i = Some q" "q \<in> dom (i_nodes d)" "i_key d q = i"
      "owner hsh d i = Some (map_option (c_key d) (cont d q))"
proof (cases "find_iterator hsh d i")
  case None
  then show thesis by (intro unknown) (simp_all add: owner_def)
next
  case (Some q)
  then have "q \<in> dom (i_nodes d) \<and> i_key d q = i" using find_iterator_iff [OF assms] by blast
  with Some show thesis by (intro known [of q]) (simp_all add: owner_def)
qed

lemma owner_in_containers:
  assumes ok: "db_ok hsh d" and i: "owner hsh d i = Some (Some c)"
  shows "c \<in> containers hsh d"
proof (cases rule: iterator_cases [OF ok, of i, case_names unknown known])
  case (known q)
  then obtain cn where "cont d q = Some cn" "c_key d cn = c" using i by (cases "cont d q") auto
  then show ?thesis using db_okD(3) [OF ok known(2)] containers_eq [OF ok] by blast
qed (use i in simp)

lemma empty_db_becomes: "becomes hsh Map.empty {} empty_db"
  by (simp add: becomes_def empty_db_def db_ok_def table_ok_def chains_def linked_def owner_def
      containers_def find_iterator_def find_container_def lookup_def fun_eq_iff)

lemma insert_i_becomes:
  assumes "db_ok hsh d" and "r \<notin> dom (i_nodes d)" and "i \<notin> dom (owner hsh d)"
    and "\<And>n. n \<le> next_prime n"
  shows "\<exists>d'. insert_i hsh next_prime True (Some r) i d = Returns r d' \<and>
    becomes hsh ((owner hsh d)(i \<mapsto> None)) (containers hsh d) d' \<and>
    r \<in> dom (i_nodes d') \<and> i_key d' r = i \<and> cont d' r = None \<and> c_nodes d' = c_nodes d"
proof -
  obtain d' where d': "insert_iterator hsh next_prime True (Some r) i d = Returns r d'" "db_ok hsh d'"
      "dom (i_nodes d') = insert r (dom (i_nodes d))" "i_key d' r = i" "cont d' r = None"
      "\<And>q. q \<in> dom (i_nodes d) \<Longrightarrow> i_key d' q = i_key d q \<and> cont d' q = cont d q"
      "c_nodes d' = c_nodes d" "c_table d' = c_table d" "csz d' = csz d"
    using insert_iterator_correct [OF assms] by blast
  have c: "c_key d' = c_key d" by (simp add: c_key_def [abs_def] c_at_def d')
  have "owner hsh d' = (owner hsh d)(i \<mapsto> None)"
  proof (rule owner_eqI [OF d'(2)])
    show "dom ((owner hsh d)(i \<mapsto> None)) \<subseteq> i_key d' ` dom (i_nodes d')"
      using dom_owner [OF assms(1)] d'(4,6) by (auto simp: d'(3))
    fix q assume "q \<in> dom (i_nodes d')"
    then consider "q = r" | "q \<in> dom (i_nodes d)" "i_key d q \<noteq> i"
      using assms(3) dom_owner [OF assms(1)] by (auto simp: d'(3))
    then show "((owner hsh d)(i \<mapsto> None)) (i_key d' q) = Some (map_option (c_key d') (cont d' q))"
      by cases (simp_all add: d'(4,5) d'(6) owner_node [OF assms(1)] c)
  qed
  moreover have "containers hsh d' = containers hsh d"
    by (simp only: containers_eq [OF assms(1)] containers_eq [OF d'(2)] d'(7) c)
  ultimately show ?thesis using d' by (auto simp: insert_i_def becomes_def)
qed

lemma insert_ic_becomes:
  assumes ok: "db_ok hsh d" and fresh: "r \<notin> dom (i_nodes d)" and unknown: "i \<notin> dom (owner hsh d)"
    and np: "\<And>n. n \<le> next_prime n"
  shows "\<exists>d'. insert_ic hsh next_prime True (Some r) True i c d = Returns () d' \<and>
    becomes hsh (if c \<in> containers hsh d then (owner hsh d)(i \<mapsto> Some c) else owner hsh d)
      (containers hsh d) d'"
proof (cases rule: container_cases [OF ok, of c, case_names unknown known])
  case unknown
  then show ?thesis using ok by (simp add: insert_ic_def becomes_def)
next
  case (known cn)
  obtain d1 where d1: "insert_iterator hsh next_prime True (Some r) i d = Returns r d1"
      "becomes hsh ((owner hsh d)(i \<mapsto> None)) (containers hsh d) d1"
      "r \<in> dom (i_nodes d1)" "i_key d1 r = i" "cont d1 r = None" "c_nodes d1 = c_nodes d"
    using insert_i_becomes [OF assms] unfolding insert_i_def by blast
  have ok1: "db_ok hsh d1" and cn: "cn \<in> dom (c_nodes d1)" "c_key d1 cn = c"
    using d1 known by (auto simp: becomes_def c_key_def c_at_def)
  then have "length (c_its (c_at d1 cn)) \<le> c_cap (c_at d1 cn)" by (auto simp: db_ok_def linked_def)
  from c_node_add_correct [OF this] obtain n where n: "c_node_add True r (c_at d1 cn) = Some n"
      "c_its n = c_its (c_at d1 cn) @ [r]" "c_addr n = c_key d1 cn" "length (c_its n) \<le> c_cap n"
    unfolding c_key_def by blast
  from link_correct [OF ok1 d1(3,5) cn(1) n(2-4) refl] d1 n(1) known cn(2) show ?thesis
    by (simp add: insert_ic_def becomes_def)
qed

lemma erase_i_becomes:
  assumes ok: "db_ok hsh d"
  shows "\<exists>d'. erase_i hsh i d = Returns () d' \<and>
    becomes hsh ((owner hsh d)(i := None)) (containers hsh d) d'"
proof (cases rule: iterator_cases [OF ok, of i, case_names unknown known])
  case unknown
  then show ?thesis using ok by (simp add: erase_i_def becomes_def fun_upd_idem)
next
  case (known q)
  show ?thesis
  proof (cases "cont d q")
    case None
    from drop_iterator [OF ok known(2) None refl] known None show ?thesis
      by (simp add: erase_i_def becomes_def cont_def Let_def)
  next
    case (Some cn)
    obtain n where n: "c_node_remove q (c_at d cn) = Some n" "db_ok hsh (set_cont None q (set_cnode cn n d))"
        "owner hsh (set_cont None q (set_cnode cn n d)) = (owner hsh d)(i_key d q \<mapsto> None)"
        "containers hsh (set_cont None q (set_cnode cn n d)) = containers hsh d"
      using unlink_correct [OF ok known(2) Some] by blast
    let ?d = "set_cont None q (set_cnode cn n d)"
    define d' where "d' = ?d\<lparr>i_table := unlink hsh (i_table ?d) (i_key ?d q) q, isz := isz ?d - 1,
        i_nodes := (i_nodes ?d)(q := None)\<rparr>"
    have "q \<in> dom (i_nodes ?d)" "cont ?d q = None" by simp_all
    from drop_iterator [OF n(2) this d'_def] have "becomes hsh ((owner hsh d)(i := None)) (containers hsh d) d'"
      using n known by (simp add: becomes_def)
    moreover have "erase_i hsh i d = Returns () d'"
      using n(1) known Some
      by (simp add: erase_i_def Let_def cont_def [symmetric] d'_def) (simp add: set_cont_def set_cnode_def)
    ultimately show ?thesis by blast
  qed
qed

lemma erase_c_becomes:
  assumes ok: "db_ok hsh d"
  shows "becomes hsh (\<lambda>i. map_option (\<lambda>x. if x = Some c then None else x) (owner hsh d i))
    (containers hsh d - {c}) (erase_c hsh c d)"
proof (cases rule: container_cases [OF ok, of c, case_names unknown known])
  case unknown
  have "owner hsh d i \<noteq> Some (Some c)" for i
    using unknown(2) owner_in_containers [OF ok] by blast
  then have "(\<lambda>i. map_option (\<lambda>x. if x = Some c then None else x) (owner hsh d i)) = owner hsh d"
    by (intro ext) (auto simp: map_option_case split: option.splits)
  with unknown ok show ?thesis by (simp add: erase_c_def becomes_def)
next
  case (known cn)
  note a = detach_all_correct [OF ok known(3)]
  let ?d = "detach_all cn d"
  define d' where "d' = ?d\<lparr>c_table := unlink hsh (c_table ?d) (c_key ?d cn) cn, csz := csz ?d - 1,
      c_nodes := (c_nodes ?d)(cn := None)\<rparr>"
  have key: "c_key ?d cn = c" "cn \<in> dom (c_nodes ?d)"
    using known by (simp_all add: detach_all_def Let_def foldr_conv_fold c_key_def)
  from drop_container [OF a(1) key(2) a(4) d'_def] a key(1) known(4)
  have "becomes hsh (\<lambda>i. map_option (\<lambda>x. if x = Some c then None else x) (owner hsh d i))
      (containers hsh d - {c}) d'"
    by (simp add: becomes_def)
  moreover have "erase_c hsh c d = d'"
  proof -
    have "set_cont None q (d\<lparr>c_table := t\<rparr>) = (set_cont None q d)\<lparr>c_table := t\<rparr>" for q d t
      by (simp add: set_cont_def)
    then have "fold (set_cont None) ps (d\<lparr>c_table := t\<rparr>) = (fold (set_cont None) ps d)\<lparr>c_table := t\<rparr>" for ps t
      by (induction ps arbitrary: d) simp_all
    then show ?thesis
      using known key
      by (simp add: erase_c_def d'_def detach_all_def Let_def foldr_conv_fold set_cnode_def)
  qed
  ultimately show ?thesis by simp
qed

lemma invalidate_all_becomes:
  assumes ok: "db_ok hsh d"
  shows "becomes hsh (\<lambda>i. map_option (\<lambda>x. if x = Some c then None else x) (owner hsh d i))
    (containers hsh d) (invalidate_all hsh c d)"
proof (cases rule: container_cases [OF ok, of c, case_names unknown known])
  case unknown
  then have "owner hsh d i \<noteq> Some (Some c)" for i
    using owner_in_containers [OF ok] by blast
  then have "(\<lambda>i. map_option (\<lambda>x. if x = Some c then None else x) (owner hsh d i)) = owner hsh d"
    by (intro ext) (auto simp: map_option_case split: option.splits)
  with unknown ok show ?thesis by (simp add: invalidate_all_def becomes_def)
next
  case (known cn)
  then show ?thesis using detach_all_correct [OF ok known(3)] by (simp add: invalidate_all_def becomes_def)
qed

lemma insert_c_becomes:
  assumes ok: "db_ok hsh d" and fresh: "r \<notin> dom (c_nodes d)" and unknown: "c \<notin> containers hsh d"
    and np: "\<And>n. n \<le> next_prime n"
  shows "\<exists>d'. insert_c hsh next_prime True (Some r) c d = Returns r d' \<and>
    becomes hsh (owner hsh d) (insert c (containers hsh d)) d'"
proof -
  let ?full = "length (c_table d) < csz d + 1"
  define tab where "tab = (if ?full
      then grow hsh (c_key d) (c_table d) (next_prime (2 * length (c_table d) + 1)) else c_table d)"
  define d' where "d' = d\<lparr>c_table := push hsh tab c r,
      c_nodes := (c_nodes d)(r \<mapsto> \<lparr>c_addr = c, c_its = [], c_cap = 0\<rparr>), csz := csz d + 1\<rparr>"
  have ins: "insert_c hsh next_prime True (Some r) c d = Returns r d'"
    by (simp add: insert_c_def d'_def tab_def c_key_def [abs_def] Let_def)
  have T: "chains hsh (c_key d) (dom (c_nodes d)) (c_table d)" "finite (dom (c_nodes d))"
      "csz d = card (dom (c_nodes d))" "csz d \<le> length (c_table d)"
    using ok by (auto simp: db_ok_def table_ok_def)
  have nc: "2 * length (c_table d) + 1 \<le> next_prime (2 * length (c_table d) + 1)" by (rule np)
  have keys: "c_key d' q = (if q = r then c else c_key d q)"
    "c_at d' q = (if q = r then \<lparr>c_addr = c, c_its = [], c_cap = 0\<rparr> else c_at d q)" for q
    by (simp_all add: d'_def c_key_def c_at_def)
  have i: "i_nodes d' = i_nodes d" "i_table d' = i_table d" "isz d' = isz d" "i_key d' = i_key d" "cont d' = cont d"
    by (simp_all add: d'_def i_at_def [abs_def] i_key_def [abs_def] cont_def [abs_def])
  have dom: "dom (c_nodes d') = insert r (dom (c_nodes d))" by (simp add: d'_def)
  have "chains hsh (c_key d) (dom (c_nodes d)) tab"
    using T(1) nc by (simp add: tab_def chains_grow)
  then have t: "chains hsh (c_key d') (dom (c_nodes d)) tab"
    by (rule chains_cong) (use fresh keys in auto)
  have len: "csz d + 1 \<le> length tab" using T(4) nc by (simp add: tab_def)
  have r: "c_key d' r = c" by (simp add: keys)
  have "c_key d' r \<notin> c_key d' ` dom (c_nodes d)"
    using unknown fresh containers_eq [OF ok] by (auto simp: keys split: if_splits)
  moreover have "tab \<noteq> []" using len by auto
  ultimately have "chains hsh (c_key d') (insert r (dom (c_nodes d))) (push hsh tab c r)"
    using chains_push [OF t _ fresh] r by metis
  then have "table_ok hsh (c_key d') (dom (c_nodes d')) (c_table d') (csz d')"
    using T(2,3) len fresh by (simp add: table_ok_def d'_def)
  moreover have no: "cont d q \<noteq> Some r" if "q \<in> dom (i_nodes d)" for q
    using db_okD(3) [OF ok that] fresh by blast
  then have "linked d'"
    using db_okD(1) [OF ok] unfolding linked_def dom i by (auto simp: keys)
  ultimately have ok': "db_ok hsh d'" using ok by (simp add: db_ok_def i)
  have "owner hsh d' = (\<lambda>i. map_option (\<lambda>x. x) (owner hsh d i))"
  proof (rule owner_step [OF ok ok'])
    fix q assume "q \<in> dom (i_nodes d)"
    then have "cont d q \<noteq> Some r" by (rule no)
    then show "map_option (c_key d') (cont d' q) = map_option (c_key d) (cont d q)"
      by (cases "cont d q") (simp_all add: i keys(1))
  qed (simp_all add: i)
  then have "owner hsh d' = owner hsh d" by (simp add: option.map_ident)
  moreover have "containers hsh d' = insert c (containers hsh d)"
    using fresh unfolding containers_eq [OF ok] containers_eq [OF ok'] dom by (auto simp: keys)
  ultimately show ?thesis using ins ok' by (simp add: becomes_def)
qed

lemma set_commute: "set_cont c q (set_cnode cn n d) = set_cnode cn n (set_cont c q d)"
  by (simp add: set_cont_def set_cnode_def)

lemma set_cont_idem: "q \<in> dom (i_nodes d) \<Longrightarrow> cont d q = c \<Longrightarrow> set_cont c q d = d"
  by (auto simp: set_cont_def i_at_def cont_def fun_upd_idem_iff)

lemma copy_cont_becomes:
  assumes ok: "db_ok hsh d" and q: "q \<in> dom (i_nodes d)"
    and c0: "\<And>cn. c0 = Some cn \<Longrightarrow> cn \<in> dom (c_nodes d)"
  shows "\<exists>d'. copy_cont True q (cont d q) c0 d = Returns () d' \<and>
    becomes hsh ((owner hsh d)(i_key d q \<mapsto> map_option (c_key d) c0)) (containers hsh d) d'"
proof (cases "cont d q = c0")
  case True
  then have "(owner hsh d)(i_key d q \<mapsto> map_option (c_key d) c0) = owner hsh d"
    using owner_node [OF ok q] by (simp add: fun_upd_idem)
  with True ok show ?thesis by (simp add: copy_cont_def becomes_def)
next
  case False
  obtain d1 where d1: "(case cont d q of None \<Rightarrow> Some d
      | Some cn \<Rightarrow> map_option (\<lambda>n. set_cnode cn n d) (c_node_remove q (c_at d cn))) = Some d1"
    and d2: "db_ok hsh (set_cont None q d1)"
      "owner hsh (set_cont None q d1) = (owner hsh d)(i_key d q \<mapsto> None)"
      "containers hsh (set_cont None q d1) = containers hsh d"
      "c_key d1 = c_key d" "i_key d1 = i_key d" "dom (c_nodes d1) = dom (c_nodes d)"
      "dom (i_nodes d1) = dom (i_nodes d)"
  proof (cases "cont d q")
    case None
    then show thesis
      using ok q owner_node [OF ok q] that [of d] by (simp add: set_cont_idem fun_upd_idem)
  next
    case (Some cn)
    with db_okD(3) [OF ok q] have cn: "cn \<in> dom (c_nodes d)" by blast
    obtain n where n: "c_node_remove q (c_at d cn) = Some n" "db_ok hsh (set_cont None q (set_cnode cn n d))"
        "owner hsh (set_cont None q (set_cnode cn n d)) = (owner hsh d)(i_key d q \<mapsto> None)"
        "containers hsh (set_cont None q (set_cnode cn n d)) = containers hsh d"
      using unlink_correct [OF ok q Some] by blast
    have "c_addr n = c_key d cn"
      using n(1) by (auto simp: c_node_remove_def c_key_def split: if_splits)
    then have "c_key (set_cnode cn n d) = c_key d" by (simp add: fun_eq_iff)
    then show thesis
      using n cn Some by (intro that [of "set_cnode cn n d"]) (auto simp: fun_eq_iff)
  qed
  let ?d = "set_cont None q d1"
  show ?thesis
  proof (cases c0)
    case None
    then have "copy_cont True q (cont d q) c0 d = Returns () ?d"
      unfolding copy_cont_def d1 using False by (cases "cont d q") simp_all
    with None d2 show ?thesis by (simp add: becomes_def)
  next
    case (Some cn)
    then have cn: "cn \<in> dom (c_nodes ?d)" using c0 d2 by simp
    then have "length (c_its (c_at ?d cn)) \<le> c_cap (c_at ?d cn)"
      using d2(1) by (auto simp: db_ok_def linked_def)
    from c_node_add_correct [OF this] obtain n where n: "c_node_add True q (c_at ?d cn) = Some n"
        "c_its n = c_its (c_at ?d cn) @ [q]" "c_addr n = c_key ?d cn" "length (c_its n) \<le> c_cap n"
      unfolding c_key_def by blast
    have q': "q \<in> dom (i_nodes ?d)" "cont ?d q = None" by simp_all
    have copy: "copy_cont True q (cont d q) c0 d = Returns () (set_cnode cn n (set_cont (Some cn) q ?d))"
      using False d1 n(1) Some by (simp add: copy_cont_def Let_def)
    from link_correct [OF d2(1) q' cn n(2-4) set_commute [symmetric]] d2 Some copy show ?thesis
      by (simp add: becomes_def)
  qed
qed

lemma iterator_copy_becomes:
  assumes ok: "db_ok hsh d" and fresh: "r \<notin> dom (i_nodes d)" and np: "\<And>n. n \<le> next_prime n"
  shows "\<exists>d'. iterator_copy hsh next_prime True (Some r) True i i0 d = Returns () d' \<and>
    becomes hsh (case owner hsh d i0 of
        Some x \<Rightarrow> (owner hsh d)(i \<mapsto> x)
      | None \<Rightarrow> if i \<in> dom (owner hsh d) then (owner hsh d)(i \<mapsto> None) else owner hsh d)
      (containers hsh d) d'"
proof -
  define c0 where "c0 = Option.bind (find_iterator hsh d i0) (cont d)"
  have c0: "cn \<in> dom (c_nodes d)" if c: "c0 = Some cn" for cn
  proof -
    obtain q where "find_iterator hsh d i0 = Some q" "cont d q = Some cn"
      using c by (auto simp: c0_def bind_eq_Some_conv)
    then show ?thesis using find_iterator_iff [OF ok] db_okD(3) [OF ok] by blast
  qed
  have own0: "owner hsh d i0 = Some x \<Longrightarrow> map_option (c_key d) c0 = x"
    "owner hsh d i0 = None \<longleftrightarrow> find_iterator hsh d i0 = None"
    "find_iterator hsh d i0 = None \<Longrightarrow> c0 = None" for x
    by (auto simp: owner_def c0_def)
  show ?thesis
  proof (cases rule: iterator_cases [OF ok, of i, case_names unknown known])
    case (known q)
    then have "iterator_copy hsh next_prime True (Some r) True i i0 d = copy_cont True q (cont d q) c0 d"
      by (simp add: iterator_copy_def c0_def cont_def [abs_def] Let_def)
    moreover obtain d' where "copy_cont True q (cont d q) c0 d = Returns () d'"
      "becomes hsh ((owner hsh d)(i_key d q \<mapsto> map_option (c_key d) c0)) (containers hsh d) d'"
      using copy_cont_becomes [OF ok known(2), of c0] c0 by blast
    ultimately show ?thesis using known own0 by (cases "owner hsh d i0") auto
  next
    case unknown
    show ?thesis
    proof (cases "find_iterator hsh d i0")
      case None
      with unknown ok own0(2) show ?thesis by (auto simp: iterator_copy_def becomes_def)
    next
      case (Some q0)
      have "i \<notin> dom (owner hsh d)" using unknown by auto
      from insert_i_becomes [OF ok fresh this np] obtain d1 where
        d1: "insert_iterator hsh next_prime True (Some r) i d = Returns r d1"
        "becomes hsh ((owner hsh d)(i \<mapsto> None)) (containers hsh d) d1"
        "r \<in> dom (i_nodes d1)" "i_key d1 r = i" "cont d1 r = None" "c_nodes d1 = c_nodes d"
        unfolding insert_i_def by blast
      have ok1: "db_ok hsh d1" and c: "c_key d1 = c_key d"
        using d1 by (simp_all add: becomes_def c_key_def [abs_def] c_at_def)
      have "cn \<in> dom (c_nodes d1)" if "c0 = Some cn" for cn using c0 [OF that] d1(6) by simp
      from copy_cont_becomes [OF ok1 d1(3) this] obtain d' where
        d': "copy_cont True r (cont d1 r) c0 d1 = Returns () d'"
        "becomes hsh ((owner hsh d1)(i_key d1 r \<mapsto> map_option (c_key d1) c0)) (containers hsh d1) d'"
        by blast
      have "iterator_copy hsh next_prime True (Some r) True i i0 d = copy_cont True r (cont d1 r) c0 d1"
        using unknown(1) Some d1(1) by (simp add: iterator_copy_def c0_def cont_def [abs_def] Let_def)
      with d' d1(2) own0 Some c show ?thesis
        by (cases "owner hsh d i0") (auto simp: becomes_def d1(4))
    qed
  qed
qed

text \<open>Two containers exchange their iterators.\<close>

definition swapped :: "nat \<Rightarrow> nat \<Rightarrow> nat option \<Rightarrow> nat option" where
  "swapped c1 c2 x = (if x = Some c1 then Some c2 else if x = Some c2 then Some c1 else x)"

lemma db_swap_becomes:
  assumes ok: "db_ok hsh d" and c1: "c1 \<in> containers hsh d" and c2: "c2 \<in> containers hsh d"
  shows "\<exists>d'. db_swap hsh c1 c2 d = Returns () d' \<and>
    becomes hsh (\<lambda>i. map_option (swapped c1 c2) (owner hsh d i)) (containers hsh d) d'"
proof -
  obtain p1 where p1: "find_container hsh d c1 = Some p1" "p1 \<in> dom (c_nodes d)" "c_key d p1 = c1"
    by (rule container_known [OF ok c1])
  obtain p2 where p2: "find_container hsh d c2 = Some p2" "p2 \<in> dom (c_nodes d)" "c_key d p2 = c2"
    by (rule container_known [OF ok c2])
  let ?n1 = "c_at d p1" and ?n2 = "c_at d p2"
  define m2 where "m2 = (if p2 = p1 then ?n1\<lparr>c_its := c_its ?n2, c_cap := c_cap ?n2\<rparr> else ?n2)"
  define d' where "d' = fold (set_cont (Some p2)) (c_its ?n1) (fold (set_cont (Some p1)) (c_its ?n2)
      (set_cnode p2 (m2\<lparr>c_its := c_its ?n1, c_cap := c_cap ?n1\<rparr>)
        (set_cnode p1 (?n1\<lparr>c_its := c_its ?n2, c_cap := c_cap ?n2\<rparr>) d)))"
  have swap: "db_swap hsh c1 c2 d = Returns () d'"
    using p1 p2 by (simp add: db_swap_def Let_def foldl_conv_fold d'_def m2_def)
  have its: "set (c_its ?n1) = {q \<in> dom (i_nodes d). cont d q = Some p1}"
    "set (c_its ?n2) = {q \<in> dom (i_nodes d). cont d q = Some p2}"
    using db_okD(2) [OF ok] p1 p2 by blast+
  have i_key: "i_key d' = i_key d" by (simp add: d'_def fun_eq_iff)
  have c_key: "c_key d' = c_key d" by (auto simp: d'_def fun_eq_iff m2_def c_key_def)
  have cont: "cont d' q = (if cont d q = Some p1 then Some p2 else if cont d q = Some p2 then Some p1 else cont d q)"
    if "q \<in> dom (i_nodes d)" for q
    using that its by (auto simp: d'_def)
  have c_at: "c_its (c_at d' p1) = c_its ?n2" "c_its (c_at d' p2) = c_its ?n1"
    "c_cap (c_at d' p1) = c_cap ?n2" "c_cap (c_at d' p2) = c_cap ?n1"
    "\<And>cn. cn \<noteq> p1 \<Longrightarrow> cn \<noteq> p2 \<Longrightarrow> c_at d' cn = c_at d cn"
    by (auto simp: d'_def)
  have dom: "dom (i_nodes d') = dom (i_nodes d)" "dom (c_nodes d') = dom (c_nodes d)"
    using its p1 p2 by (auto simp: d'_def)
  have "linked d'"
    unfolding linked_def dom
  proof (intro conjI ballI allI impI)
    fix cn assume cn: "cn \<in> dom (c_nodes d)"
    have old: "distinct (c_its (c_at d cn))" "length (c_its (c_at d cn)) \<le> c_cap (c_at d cn)"
      "set (c_its (c_at d cn)) = {q \<in> dom (i_nodes d). cont d q = Some cn}" if "cn \<in> dom (c_nodes d)" for cn
      using that db_okD(1) [OF ok] by (auto simp: linked_def)
    have sets: "{q \<in> dom (i_nodes d). cont d' q = Some p1} = {q \<in> dom (i_nodes d). cont d q = Some p2}"
      "{q \<in> dom (i_nodes d). cont d' q = Some p2} = {q \<in> dom (i_nodes d). cont d q = Some p1}"
      "cn \<noteq> p1 \<Longrightarrow> cn \<noteq> p2 \<Longrightarrow>
        {q \<in> dom (i_nodes d). cont d' q = Some cn} = {q \<in> dom (i_nodes d). cont d q = Some cn}"
      by (rule Collect_cong, rule conj_cong, rule refl, auto simp: cont [OF domI] split: if_splits)+
    note n = old [OF p1(2)] old [OF p2(2)] old [OF cn]
    consider (first) "cn = p1" | (second) "cn = p2" | (other) "cn \<noteq> p1" "cn \<noteq> p2" by blast
    then have "distinct (c_its (c_at d' cn)) \<and> length (c_its (c_at d' cn)) \<le> c_cap (c_at d' cn) \<and>
        set (c_its (c_at d' cn)) = {q \<in> dom (i_nodes d). cont d' q = Some cn}"
      by cases (simp_all only: c_at sets n simp_thms)
    then show "distinct (c_its (c_at d' cn))" "length (c_its (c_at d' cn)) \<le> c_cap (c_at d' cn)"
        "set (c_its (c_at d' cn)) = {q \<in> dom (i_nodes d). cont d' q = Some cn}"
      by blast+
  next
    fix q cn assume "q \<in> dom (i_nodes d)" "cont d' q = Some cn"
    then show "cn \<in> dom (c_nodes d)"
      using p1 p2 db_okD(3) [OF ok] by (auto simp: cont split: if_splits)
  qed
  then have ok': "db_ok hsh d'" using ok unfolding db_ok_def dom c_key i_key by (simp add: d'_def)
  have "owner hsh d' = (\<lambda>i. map_option (swapped c1 c2) (owner hsh d i))"
  proof (rule owner_step [OF ok ok' dom(1)])
    fix q assume q: "q \<in> dom (i_nodes d)"
    show "map_option (c_key d') (cont d' q) = swapped c1 c2 (map_option (c_key d) (cont d q))"
    proof (cases "cont d q")
      case (Some cn)
      with q have "cn \<in> dom (c_nodes d)" using db_okD(3) [OF ok] by blast
      then show ?thesis using q Some p1 p2 c_key_inj [OF ok] by (auto simp: cont swapped_def c_key)
    qed (use q in \<open>simp add: cont swapped_def\<close>)
  qed (simp add: i_key)
  moreover have "containers hsh d' = containers hsh d"
    by (simp only: containers_eq [OF ok] containers_eq [OF ok'] c_key dom)
  ultimately show ?thesis using swap ok' by (simp add: becomes_def)
qed

end
