(* ===== verification/Debug_Props.thy ===== *)
theory Debug_Props
  imports Debug_Invariant
begin

text \<open>
  What the debugging database guarantees to the containers and iterators that register with it:
  the queries read the map of \<open>Debug_Invariant\<close>, no assertion fails in a state that the operations
  reach, an iterator is never usable after the end of its container, and what goes wrong when an
  allocation fails in the middle of an operation.
\<close>

section \<open>The queries\<close>

lemma cont_owner:
  assumes ok: "db_ok hsh d"
  shows "map_option (c_key d) (Option.bind (find_iterator hsh d i) (cont d)) = Option.bind (owner hsh d i) (\<lambda>x. x)"
  by (cases "find_iterator hsh d i") (simp_all add: owner_def)

lemma queryable_iff:
  "queryable hsh check i d \<longleftrightarrow> (\<exists>c. owner hsh d i = Some (Some c) \<and> check c i)"
  by (auto simp: queryable_def owner_def cont_def c_key_def split: option.splits)

lemma find_c_from_i_eq:
  "find_c_from_i hsh i d = (case owner hsh d i of None \<Rightarrow> Logic_error | Some x \<Rightarrow> Returns x d)"
  by (auto simp: find_c_from_i_def owner_def cont_def c_key_def [abs_def] split: option.splits)

lemma less_than_comparable_iff:
  assumes ok: "db_ok hsh d"
  shows "less_than_comparable hsh i j d \<longleftrightarrow>
    (\<exists>c. owner hsh d i = Some (Some c) \<and> owner hsh d j = Some (Some c))"
proof -
  have known: "\<exists>q. find_iterator hsh d i = Some q \<and> q \<in> dom (i_nodes d) \<and>
      owner hsh d i = Some (map_option (c_key d) (cont d q))" if "find_iterator hsh d i \<noteq> None" for i
    using that by (cases rule: iterator_cases [OF ok, of i, case_names unknown known]) auto
  show ?thesis
  proof (cases "find_iterator hsh d i = None \<or> find_iterator hsh d j = None")
    case True
    then show ?thesis by (auto simp: less_than_comparable_def owner_def Let_def)
  next
    case False
    then obtain p q where pq: "find_iterator hsh d i = Some p" "p \<in> dom (i_nodes d)"
        "owner hsh d i = Some (map_option (c_key d) (cont d p))"
        "find_iterator hsh d j = Some q" "q \<in> dom (i_nodes d)"
        "owner hsh d j = Some (map_option (c_key d) (cont d q))"
      using known [of i] known [of j] by blast
    then show ?thesis
      using db_okD(3) [OF ok pq(2)] db_okD(3) [OF ok pq(5)] c_key_inj [OF ok]
      by (cases "cont d p"; cases "cont d q") (auto simp: less_than_comparable_def cont_def [symmetric] Let_def)
  qed
qed

section \<open>The contract with the containers\<close>

text \<open>
  What the destructors and the invalidating members of the containers rely on; \<open>own\<close> maps the
  iterators to their containers, \<open>live\<close> are the containers.
\<close>

locale registry =
  fixes ok :: "'d \<Rightarrow> bool"
    and own :: "'d \<Rightarrow> nat \<rightharpoonup> nat option"
    and live :: "'d \<Rightarrow> nat set"
    and erase :: "nat \<Rightarrow> 'd \<Rightarrow> 'd"
    and invalidate :: "nat \<Rightarrow> 'd \<Rightarrow> 'd"
  assumes own_live: "ok d \<Longrightarrow> own d i = Some (Some c) \<Longrightarrow> c \<in> live d"
    and erase: "ok d \<Longrightarrow> ok (erase c d) \<and> live (erase c d) = live d - {c} \<and>
      own (erase c d) = (\<lambda>i. map_option (\<lambda>x. if x = Some c then None else x) (own d i))"
    and invalidate: "ok d \<Longrightarrow> ok (invalidate c d) \<and> live (invalidate c d) = live d \<and>
      own (invalidate c d) = (\<lambda>i. map_option (\<lambda>x. if x = Some c then None else x) (own d i))"
begin

lemma erase_list:
  "ok d \<Longrightarrow> ok (fold erase cs d) \<and> live (fold erase cs d) = live d - set cs \<and>
    (\<forall>i. own (fold erase cs d) i = map_option (\<lambda>x. if x \<in> Some ` set cs then None else x) (own d i))"
proof (induction cs arbitrary: d)
  case Nil
  then show ?case by (simp add: option.map_ident)
next
  case (Cons c cs)
  with erase [OF Cons.prems, of c] Cons.IH [of "erase c d"] show ?case
    by (auto simp: option.map_comp comp_def intro!: option.map_cong0)
qed

lemma invalidated: "ok d \<Longrightarrow> own (invalidate c d) i \<noteq> Some (Some c)"
  using invalidate [of d c] by (auto split: if_splits)

lemma erased_dead: "ok d \<Longrightarrow> own (erase c d) i \<noteq> Some (Some c)"
  using own_live [of "erase c d" i c] erase [of d c] by blast

end

interpretation debug_registry: registry "db_ok hsh" "owner hsh" "containers hsh" "erase_c hsh" "invalidate_all hsh"
  for hsh
proof
  show "c \<in> containers hsh d" if "db_ok hsh d" "owner hsh d i = Some (Some c)" for d i c
    using that by (rule owner_in_containers)
qed (use erase_c_becomes invalidate_all_becomes in \<open>auto simp: becomes_def\<close>)

section \<open>Reachable states\<close>

text \<open>
  The calls of a program that registers no object twice; every new node has an unused address and
  the allocations succeed.
\<close>

inductive db_reached :: "(nat \<Rightarrow> nat) \<Rightarrow> (nat \<Rightarrow> nat) \<Rightarrow> db \<Rightarrow> bool" for hsh next_prime where
  empty: "db_reached hsh next_prime empty_db"
| insert_c: "db_reached hsh next_prime d \<Longrightarrow> r \<notin> dom (c_nodes d) \<Longrightarrow> find_container hsh d c = None \<Longrightarrow>
    insert_c hsh next_prime True (Some r) c d = Returns r d' \<Longrightarrow> db_reached hsh next_prime d'"
| insert_i: "db_reached hsh next_prime d \<Longrightarrow> r \<notin> dom (i_nodes d) \<Longrightarrow> find_iterator hsh d i = None \<Longrightarrow>
    insert_i hsh next_prime True (Some r) i d = Returns r d' \<Longrightarrow> db_reached hsh next_prime d'"
| insert_ic: "db_reached hsh next_prime d \<Longrightarrow> r \<notin> dom (i_nodes d) \<Longrightarrow> find_iterator hsh d i = None \<Longrightarrow>
    insert_ic hsh next_prime True (Some r) True i c d = Returns () d' \<Longrightarrow> db_reached hsh next_prime d'"
| erase_i: "db_reached hsh next_prime d \<Longrightarrow> erase_i hsh i d = Returns () d' \<Longrightarrow> db_reached hsh next_prime d'"
| erase_c: "db_reached hsh next_prime d \<Longrightarrow> db_reached hsh next_prime (erase_c hsh c d)"
| invalidate_all: "db_reached hsh next_prime d \<Longrightarrow> db_reached hsh next_prime (invalidate_all hsh c d)"
| iterator_copy: "db_reached hsh next_prime d \<Longrightarrow> r \<notin> dom (i_nodes d) \<Longrightarrow>
    iterator_copy hsh next_prime True (Some r) True i i0 d = Returns () d' \<Longrightarrow> db_reached hsh next_prime d'"
| db_swap: "db_reached hsh next_prime d \<Longrightarrow> db_swap hsh c1 c2 d = Returns () d' \<Longrightarrow> db_reached hsh next_prime d'"

lemma find_None_owner: "find_iterator hsh d i = None \<Longrightarrow> i \<notin> dom (owner hsh d)"
  by (auto simp: owner_def)

lemma find_None_containers: "find_container hsh d c = None \<Longrightarrow> c \<notin> containers hsh d"
  by (simp add: containers_def)

lemma db_swap_known:
  "db_swap hsh c1 c2 d = Returns u d' \<Longrightarrow> c1 \<in> containers hsh d \<and> c2 \<in> containers hsh d"
  by (auto simp: db_swap_def containers_def split: option.splits)

lemma db_reached_ok:
  assumes np: "\<And>n. n \<le> next_prime n"
  shows "db_reached hsh next_prime d \<Longrightarrow> db_ok hsh d"
proof (induction rule: db_reached.induct)
  case empty
  then show ?case using empty_db_becomes by (simp add: becomes_def)
next
  case (insert_c d r c d')
  then show ?case
    using insert_c_becomes [OF insert_c.IH insert_c.hyps(2) find_None_containers [OF insert_c.hyps(3)] np] by (auto simp: becomes_def)
next
  case (insert_i d r i d')
  then show ?case
    using insert_i_becomes [OF insert_i.IH insert_i.hyps(2) find_None_owner [OF insert_i.hyps(3)] np] by (auto simp: becomes_def)
next
  case (insert_ic d r i c d')
  then show ?case
    using insert_ic_becomes [OF insert_ic.IH insert_ic.hyps(2) find_None_owner [OF insert_ic.hyps(3)] np, of c] by (auto simp: becomes_def)
next
  case (erase_i d i d')
  then show ?case using erase_i_becomes [of hsh d i] by (auto simp: becomes_def)
next
  case (iterator_copy d r i i0 d')
  then show ?case
    using iterator_copy_becomes [OF iterator_copy.IH iterator_copy.hyps(2) np, of i i0] by (auto simp: becomes_def)
next
  case (db_swap d c1 c2 d')
  then show ?case
    using db_swap_becomes [OF db_swap.IH] db_swap_known [OF db_swap.hyps(2)] by (fastforce simp: becomes_def)
qed (use debug_registry.erase debug_registry.invalidate in blast)+

text \<open>A reachable state with one container (70) that has one iterator (50).\<close>

definition sample_db :: db where
  "sample_db = \<lparr>c_table = [[1]], c_nodes = [1 \<mapsto> \<lparr>c_addr = 70, c_its = [2], c_cap = 1\<rparr>], csz = 1,
     i_table = [[2]], i_nodes = [2 \<mapsto> \<lparr>i_addr = 50, i_cont = Some 1\<rparr>], isz = 1\<rparr>"

lemma sample_reached: "db_reached (\<lambda>a. a) (\<lambda>n. n) sample_db"
proof -
  let ?d = "\<lparr>c_table = [[1]], c_nodes = [1 \<mapsto> \<lparr>c_addr = 70, c_its = [], c_cap = 0\<rparr>], csz = 1,
     i_table = [], i_nodes = Map.empty, isz = 0\<rparr>"
  have "insert_c (\<lambda>a. a) (\<lambda>n. n) True (Some 1) 70 empty_db = Returns 1 ?d"
    by (simp add: insert_c_def empty_db_def push_def grow_def chain_of_def)
  then have d: "db_reached (\<lambda>a. a) (\<lambda>n. n) ?d"
    by (rule db_reached.insert_c [OF db_reached.empty, rotated 2])
      (simp_all add: empty_db_def find_container_def lookup_def)
  have "insert_ic (\<lambda>a. a) (\<lambda>n. n) True (Some 2) True 50 70 ?d = Returns () sample_db"
    by (simp add: insert_ic_def find_container_def lookup_def insert_iterator_def push_def grow_def
        chain_of_def c_node_add_def c_at_def i_at_def set_cont_def set_cnode_def sample_db_def)
  then show ?thesis
    by (rule db_reached.insert_ic [OF d, rotated 2]) (simp_all add: find_iterator_def lookup_def)
qed

lemma sample_ok: "db_ok (\<lambda>a. a) sample_db"
  using sample_reached by (rule db_reached_ok [rotated]) simp

lemma sample_values:
  "dom (c_nodes sample_db) = {1}" "dom (i_nodes sample_db) = {2}"
  "owner (\<lambda>a. a) sample_db = [50 \<mapsto> Some 70]" "containers (\<lambda>a. a) sample_db = {70}"
  by (auto simp: sample_db_def owner_def containers_def find_iterator_def find_container_def lookup_def
      chain_of_def i_at_def c_at_def c_key_def cont_def fun_eq_iff)

lemma erase_i_logic_error: "erase_i hsh i d = Logic_error \<Longrightarrow> \<not> db_ok hsh d"
  using erase_i_becomes [of hsh d i] by (metis call.distinct(3))

section \<open>Properties\<close>

text \<open>
  C3: In every state that calls reach from the empty database while every allocation succeeds and no container or iterator is registered that is
  registered already, the invariant of the two tables and of the links between them holds, and no call with successful allocations fails
  an assertion: erasing an iterator and copying one never run into an internal logic error, finding a container and exchanging
  two containers do not for registered containers.
\<close>

theorem debug_db_safe:
  assumes "db_reached hsh next_prime d" and "\<And>n. n \<le> next_prime n"
  shows "db_ok hsh d \<and> erase_i hsh i d \<noteq> Logic_error \<and>
    (r \<notin> dom (i_nodes d) \<longrightarrow> iterator_copy hsh next_prime True (Some r) True i i0 d \<noteq> Logic_error) \<and>
    (c1 \<in> containers hsh d \<longrightarrow> find_c hsh c1 d \<noteq> Logic_error) \<and>
    (c1 \<in> containers hsh d \<and> c2 \<in> containers hsh d \<longrightarrow> db_swap hsh c1 c2 d \<noteq> Logic_error)"
proof -
  have ok: "db_ok hsh d" using assms(2,1) by (rule db_reached_ok)
  moreover have "erase_i hsh i d \<noteq> Logic_error" using erase_i_becomes [OF ok, of i] by auto
  moreover have "iterator_copy hsh next_prime True (Some r) True i i0 d \<noteq> Logic_error"
    if "r \<notin> dom (i_nodes d)"
    using iterator_copy_becomes [OF ok that assms(2)] by (metis call.distinct(3))
  moreover have "find_c hsh c1 d \<noteq> Logic_error" if "c1 \<in> containers hsh d"
    using that by (auto simp: find_c_def containers_def)
  moreover have "db_swap hsh c1 c2 d \<noteq> Logic_error" if "c1 \<in> containers hsh d" "c2 \<in> containers hsh d"
    using db_swap_becomes [OF ok that] by auto
  ultimately show ?thesis by blast
qed

theorem debug_db_safe_witness:
  "db_ok (\<lambda>a. a) sample_db \<and> erase_i (\<lambda>a. a) 50 sample_db \<noteq> Logic_error \<and>
   iterator_copy (\<lambda>a. a) (\<lambda>n. n) True (Some 3) True 51 50 sample_db \<noteq> Logic_error"
  using debug_db_safe [OF sample_reached, of 50] debug_db_safe [OF sample_reached, of 51 3 50]
  by (simp add: sample_values)

text \<open>
  Registering: \<open>__insert_c\<close> adds a container, \<open>__insert_i\<close> a singular iterator and
  \<open>__insert_ic\<close> an iterator of its container (nothing if the container is unknown); the rest of the
  database keeps its meaning, also when a table grows and all of its nodes move.
\<close>

lemma debug_insertions:
  assumes "db_ok hsh d" and "\<And>n. n \<le> next_prime n"
  shows "(r \<notin> dom (c_nodes d) \<and> c \<notin> containers hsh d \<longrightarrow>
      (\<exists>d'. insert_c hsh next_prime True (Some r) c d = Returns r d' \<and>
        becomes hsh (owner hsh d) (insert c (containers hsh d)) d')) \<and>
    (r \<notin> dom (i_nodes d) \<and> i \<notin> dom (owner hsh d) \<longrightarrow>
      (\<exists>d'. insert_i hsh next_prime True (Some r) i d = Returns r d' \<and>
        becomes hsh ((owner hsh d)(i \<mapsto> None)) (containers hsh d) d') \<and>
      (\<exists>d'. insert_ic hsh next_prime True (Some r) True i c d = Returns () d' \<and>
        becomes hsh (if c \<in> containers hsh d then (owner hsh d)(i \<mapsto> Some c) else owner hsh d)
          (containers hsh d) d'))"
proof (intro conjI impI)
  assume "r \<notin> dom (i_nodes d) \<and> i \<notin> dom (owner hsh d)"
  then show "\<exists>d'. insert_i hsh next_prime True (Some r) i d = Returns r d' \<and>
      becomes hsh ((owner hsh d)(i \<mapsto> None)) (containers hsh d) d'"
    using insert_i_becomes [OF assms(1) _ _ assms(2), of r i] by blast
qed (use insert_c_becomes [OF assms(1) _ _ assms(2)] insert_ic_becomes [OF assms(1) _ _ assms(2)] in blast)+

text \<open>
  Removing: \<open>__erase_i\<close> forgets an iterator, \<open>__erase_c\<close> forgets a container and makes its
  iterators singular, \<open>__invalidate_all\<close> only makes them singular; all for registered and for
  unknown objects.
\<close>

lemma debug_removals:
  assumes "db_ok hsh d"
  shows "(\<exists>d'. erase_i hsh i d = Returns () d' \<and>
      becomes hsh ((owner hsh d)(i := None)) (containers hsh d) d') \<and>
    becomes hsh (\<lambda>i. map_option (\<lambda>x. if x = Some c then None else x) (owner hsh d i))
      (containers hsh d - {c}) (erase_c hsh c d) \<and>
    becomes hsh (\<lambda>i. map_option (\<lambda>x. if x = Some c then None else x) (owner hsh d i))
      (containers hsh d) (invalidate_all hsh c d)"
  using erase_i_becomes [OF assms] erase_c_becomes [OF assms] invalidate_all_becomes [OF assms] by blast

text \<open>
  Copying an iterator: the target belongs to the container of the source afterwards, or is
  singular like it; a target that is not registered is registered, unless the source is not; a
  registered target of an unregistered source becomes singular.  Exchanging two registered containers gives
  each the iterators of the other and changes nothing else, also when both are the same.
\<close>

lemma debug_copy_and_swap:
  assumes "db_ok hsh d" and "r \<notin> dom (i_nodes d)" and "\<And>n. n \<le> next_prime n"
  shows "(\<exists>d'. iterator_copy hsh next_prime True (Some r) True i i0 d = Returns () d' \<and>
      becomes hsh (case owner hsh d i0 of
          Some x \<Rightarrow> (owner hsh d)(i \<mapsto> x)
        | None \<Rightarrow> if i \<in> dom (owner hsh d) then (owner hsh d)(i \<mapsto> None) else owner hsh d)
        (containers hsh d) d') \<and>
    (c1 \<in> containers hsh d \<and> c2 \<in> containers hsh d \<longrightarrow>
      (\<exists>d'. db_swap hsh c1 c2 d = Returns () d' \<and>
        becomes hsh (\<lambda>i. map_option (swapped c1 c2) (owner hsh d i)) (containers hsh d) d'))"
  using iterator_copy_becomes [OF assms] db_swap_becomes [OF assms(1)] by blast

text \<open>
  C27: When its allocations succeed and it registers nothing that is registered already, every operation of the database does to the
  table what it does to the map from iterators to containers and the
  set of containers that the table stands for.  Registering adds a container, a singular iterator or, of a registered
  container, one of its own.  Removing forgets an iterator; a container, whose iterators become singular; or only makes them so.
  A copy belongs to the container of its source (registered if need be), and \<open>swap\<close> exchanges the iterators of two registered containers.
\<close>

theorem debug_operations:
  assumes "db_ok hsh d" and "\<And>n. n \<le> next_prime n"
  shows "(r \<notin> dom (c_nodes d) \<and> c \<notin> containers hsh d \<longrightarrow>
      (\<exists>d'. insert_c hsh next_prime True (Some r) c d = Returns r d' \<and>
        becomes hsh (owner hsh d) (insert c (containers hsh d)) d')) \<and>
    (r \<notin> dom (i_nodes d) \<and> i \<notin> dom (owner hsh d) \<longrightarrow>
      (\<exists>d'. insert_i hsh next_prime True (Some r) i d = Returns r d' \<and>
        becomes hsh ((owner hsh d)(i \<mapsto> None)) (containers hsh d) d') \<and>
      (\<exists>d'. insert_ic hsh next_prime True (Some r) True i c d = Returns () d' \<and>
        becomes hsh (if c \<in> containers hsh d then (owner hsh d)(i \<mapsto> Some c) else owner hsh d)
          (containers hsh d) d')) \<and>
    (\<exists>d'. erase_i hsh i d = Returns () d' \<and> becomes hsh ((owner hsh d)(i := None)) (containers hsh d) d') \<and>
    becomes hsh (\<lambda>i. map_option (\<lambda>x. if x = Some c then None else x) (owner hsh d i))
      (containers hsh d - {c}) (erase_c hsh c d) \<and>
    becomes hsh (\<lambda>i. map_option (\<lambda>x. if x = Some c then None else x) (owner hsh d i))
      (containers hsh d) (invalidate_all hsh c d) \<and>
    (r \<notin> dom (i_nodes d) \<longrightarrow>
      (\<exists>d'. iterator_copy hsh next_prime True (Some r) True i i0 d = Returns () d' \<and>
        becomes hsh (case owner hsh d i0 of
            Some x \<Rightarrow> (owner hsh d)(i \<mapsto> x)
          | None \<Rightarrow> if i \<in> dom (owner hsh d) then (owner hsh d)(i \<mapsto> None) else owner hsh d)
          (containers hsh d) d')) \<and>
    (c \<in> containers hsh d \<and> c2 \<in> containers hsh d \<longrightarrow>
      (\<exists>d'. db_swap hsh c c2 d = Returns () d' \<and>
        becomes hsh (\<lambda>i. map_option (swapped c c2) (owner hsh d i)) (containers hsh d) d'))"
proof -
  note copy = iterator_copy_becomes [OF assms(1) _ assms(2)]
  show ?thesis
    using debug_insertions [OF assms, of r c i] debug_removals [OF assms(1), of i c] copy [of r i i0]
      db_swap_becomes [OF assms(1), of c c2] by blast
qed

theorem debug_operations_witness:
  "(\<exists>d'. insert_c (\<lambda>a. a) (\<lambda>n. n) True (Some 3) 80 sample_db = Returns 3 d' \<and>
     becomes (\<lambda>a. a) [50 \<mapsto> Some 70] {70, 80} d') \<and>
   owner (\<lambda>a. a) (erase_c (\<lambda>a. a) 70 sample_db) 50 = Some None \<and>
   (\<exists>d'. iterator_copy (\<lambda>a. a) (\<lambda>n. n) True (Some 3) True 51 50 sample_db = Returns () d' \<and>
     owner (\<lambda>a. a) d' = [50 \<mapsto> Some 70, 51 \<mapsto> Some 70]) \<and>
   (\<exists>d'. db_swap (\<lambda>a. a) 70 70 sample_db = Returns () d' \<and> owner (\<lambda>a. a) d' = [50 \<mapsto> Some 70])"
proof -
  have add: "\<exists>d'. insert_c (\<lambda>a. a) (\<lambda>n. n) True (Some 3) 80 sample_db = Returns 3 d' \<and>
     becomes (\<lambda>a. a) [50 \<mapsto> Some 70] {70, 80} d'"
    using debug_operations [OF sample_ok, of "\<lambda>n. n" 3 80 51 50 70] by (simp add: sample_values insert_commute)
  note d = debug_operations [OF sample_ok, of "\<lambda>n. n" 3 70 51 50 70]
  have "owner (\<lambda>a. a) (erase_c (\<lambda>a. a) 70 sample_db) 50 = Some None"
    using d by (simp add: becomes_def sample_values)
  moreover have "\<exists>d'. iterator_copy (\<lambda>a. a) (\<lambda>n. n) True (Some 3) True 51 50 sample_db = Returns () d' \<and>
     owner (\<lambda>a. a) d' = [50 \<mapsto> Some 70, 51 \<mapsto> Some 70]"
    using d by (auto simp: sample_values becomes_def)
  moreover have "\<exists>d'. db_swap (\<lambda>a. a) 70 70 sample_db = Returns () d' \<and> owner (\<lambda>a. a) d' = [50 \<mapsto> Some 70]"
    using d by (auto simp: sample_values becomes_def swapped_def fun_eq_iff)
  ultimately show ?thesis using add by blast
qed

text \<open>
  The queries read the database as the map from iterators to containers: the container of an
  iterator is returned (an unregistered one fails the assertion), an iterator is dereferenceable,
  decrementable, addable or subscriptable exactly if it has a container that agrees, and two are
  comparable exactly if they have the same one.
\<close>

lemma debug_queries:
  assumes "db_ok hsh d"
  shows "find_c_from_i hsh i d = (case owner hsh d i of None \<Rightarrow> Logic_error | Some x \<Rightarrow> Returns x d) \<and>
    (queryable hsh check i d \<longleftrightarrow> (\<exists>c. owner hsh d i = Some (Some c) \<and> check c i)) \<and>
    (less_than_comparable hsh i j d \<longleftrightarrow>
      (\<exists>c. owner hsh d i = Some (Some c) \<and> owner hsh d j = Some (Some c))) \<and>
    (find_c_and_lock hsh c d \<noteq> None \<longleftrightarrow> c \<in> containers hsh d)"
  using find_c_from_i_eq queryable_iff less_than_comparable_iff [OF assms]
  by (simp add: find_c_and_lock_def containers_def)

text \<open>
  No use after the end: when any containers are erased, in any order, no query of any of their
  iterators is answered with yes and no two of them compare, while every other iterator keeps its
  container and its answers.
\<close>

lemma debug_erased_containers:
  assumes "db_ok hsh d"
  shows "queryable hsh check i (fold (erase_c hsh) cs d) \<longleftrightarrow>
      (\<exists>c. c \<notin> set cs \<and> owner hsh d i = Some (Some c) \<and> check c i)"
    (is "?l \<longleftrightarrow> ?r")
proof -
  have "owner hsh (fold (erase_c hsh) cs d) i =
      map_option (\<lambda>x. if x \<in> Some ` set cs then None else x) (owner hsh d i)"
    using debug_registry.erase_list [OF assms] by blast
  then show ?thesis unfolding queryable_iff by (cases "owner hsh d i") auto
qed

text \<open>
  C28: The queries read the database as the map from iterators to containers: the container of an
  iterator is returned (an unregistered one fails the assertion), an iterator is dereferenceable,
  decrementable, addable or subscriptable exactly if it has a container that agrees, and two are
  comparable exactly if they have the same one.  There is no use after the end: when any containers are erased,
  in any order, no query of their iterators is answered with yes, while every other iterator keeps its answers.
\<close>

theorem debug_answers:
  assumes "db_ok hsh d"
  shows "find_c_from_i hsh i d = (case owner hsh d i of None \<Rightarrow> Logic_error | Some x \<Rightarrow> Returns x d) \<and>
    (queryable hsh check i d \<longleftrightarrow> (\<exists>c. owner hsh d i = Some (Some c) \<and> check c i)) \<and>
    (less_than_comparable hsh i j d \<longleftrightarrow>
      (\<exists>c. owner hsh d i = Some (Some c) \<and> owner hsh d j = Some (Some c))) \<and>
    (find_c_and_lock hsh c d \<noteq> None \<longleftrightarrow> c \<in> containers hsh d) \<and>
    (queryable hsh check i (fold (erase_c hsh) cs d) \<longleftrightarrow>
      (\<exists>c. c \<notin> set cs \<and> owner hsh d i = Some (Some c) \<and> check c i))"
  using debug_queries [OF assms, of i check j c] debug_erased_containers [OF assms, of check i cs] by simp

theorem debug_answers_witness:
  "find_c_from_i (\<lambda>a. a) 50 sample_db = Returns (Some 70) sample_db \<and>
   less_than_comparable (\<lambda>a. a) 50 50 sample_db \<and> \<not> queryable (\<lambda>a. a) (\<lambda>c i. True) 51 sample_db \<and>
   \<not> queryable (\<lambda>a. a) (\<lambda>c i. True) 50 (fold (erase_c (\<lambda>a. a)) [80, 70] sample_db)"
proof -
  note answers = debug_answers [OF sample_ok]
  have "find_c_from_i (\<lambda>a. a) 50 sample_db = Returns (Some 70) sample_db"
    using answers [THEN conjunct1, of 50] by (simp add: sample_values)
  moreover have "less_than_comparable (\<lambda>a. a) 50 50 sample_db"
    using answers [THEN conjunct2, THEN conjunct2, THEN conjunct1, of 50 50] by (simp add: sample_values)
  moreover have "\<not> queryable (\<lambda>a. a) (\<lambda>c i. True) 51 sample_db"
    using answers [THEN conjunct2, THEN conjunct1, of "\<lambda>c i. True" 51] by (simp add: sample_values)
  moreover have "\<not> queryable (\<lambda>a. a) (\<lambda>c i. True) 50 (fold (erase_c (\<lambda>a. a)) [80, 70] sample_db)"
    using answers [THEN conjunct2, THEN conjunct2, THEN conjunct2, THEN conjunct2, of "\<lambda>c i. True" 50 "[80, 70]"]
    by (simp add: sample_values)
  ultimately show ?thesis by blast
qed

text \<open>
  \<open>__iterator_copy\<close> is not exception safe: when the array of the source's container is full and cannot grow,
  it throws \<open>bad_alloc\<close> after \<open>i->__c_\<close> has been set, so the iterator names a container that does
  not list it; the invariant is broken, and destroying the iterator then stops the program with an
  internal logic error.
\<close>

definition container_full :: "(nat \<Rightarrow> nat) \<Rightarrow> db \<Rightarrow> nat \<Rightarrow> bool" where
  "container_full hsh d c \<longleftrightarrow>
     (case find_container hsh d c of None \<Rightarrow> False | Some cn \<Rightarrow> length (c_its (c_at d cn)) = c_cap (c_at d cn))"

lemma erase_i_unlisted:
  assumes "find_iterator hsh d i = Some q" and "cont d q = Some cn" and "q \<notin> set (c_its (c_at d cn))"
  shows "erase_i hsh i d = Logic_error"
  using assms by (simp add: erase_i_def cont_def c_node_remove_def Let_def)

lemma copy_cont_bad_alloc:
  assumes ok: "db_ok hsh d" and q: "q \<in> dom (i_nodes d)" "cont d q \<noteq> Some cn" and cn: "cn \<in> dom (c_nodes d)"
    and full: "length (c_its (c_at d cn)) = c_cap (c_at d cn)"
  shows "\<exists>d'. copy_cont False q (cont d q) (Some cn) d = Throws d' \<and> erase_i hsh (i_key d q) d' = Logic_error"
proof -
  obtain d1 where d1: "(case cont d q of None \<Rightarrow> Some d
        | Some x \<Rightarrow> map_option (\<lambda>n. set_cnode x n d) (c_node_remove q (c_at d x))) = Some d1"
      and same: "i_table d1 = i_table d" "i_nodes d1 = i_nodes d" "c_at d1 cn = c_at d cn"
  proof (cases "cont d q")
    case None
    then show thesis by (intro that [of d]) simp_all
  next
    case (Some x)
    with unlink_correct [OF ok q(1) this] obtain n where "c_node_remove q (c_at d x) = Some n" by blast
    with Some q(2) show thesis by (intro that [of "set_cnode x n d"]) simp_all
  qed
  let ?d' = "set_cont (Some cn) q (set_cont None q d1)"
  have "c_node_add False q (c_at ?d' cn) = None"
    using same full by (simp add: c_node_add_def)
  then have throws: "copy_cont False q (cont d q) (Some cn) d = Throws ?d'"
    using q(2) d1 by (simp add: copy_cont_def Let_def)
  have "i_key d1 = i_key d"
    using same by (simp add: i_key_def i_at_def fun_eq_iff)
  then have "i_key ?d' = i_key d"
    by (simp add: fun_eq_iff)
  then have "find_iterator hsh ?d' (i_key d q) = Some q"
    using find_iterator_node [OF ok q(1)] same by (simp add: find_iterator_eq)
  moreover have "q \<notin> set (c_its (c_at ?d' cn))"
    using db_okD(2) [OF ok cn] q(2) same by simp
  ultimately have "erase_i hsh (i_key d q) ?d' = Logic_error"
    by (intro erase_i_unlisted) simp_all
  with throws show ?thesis by blast
qed

lemma iterator_copy_bad_alloc:
  assumes ok: "db_ok hsh d" and fresh: "r \<notin> dom (i_nodes d)" and np: "\<And>n. n \<le> next_prime n"
    and i0: "owner hsh d i0 = Some (Some c)" and i: "owner hsh d i \<noteq> Some (Some c)" and full: "container_full hsh d c"
  shows "\<exists>d'. iterator_copy hsh next_prime True (Some r) False i i0 d = Throws d' \<and> \<not> db_ok hsh d' \<and>
    erase_i hsh i d' = Logic_error"
proof -
  obtain q0 where q0: "find_iterator hsh d i0 = Some q0" "q0 \<in> dom (i_nodes d)"
      "owner hsh d i0 = Some (map_option (c_key d) (cont d q0))"
    by (rule iterator_cases [OF ok, of i0]) (use i0 in simp_all)
  then obtain cn where cn: "cont d q0 = Some cn" "c_key d cn = c" using i0 by (cases "cont d q0") auto
  have cn_dom: "cn \<in> dom (c_nodes d)" using db_okD(3) [OF ok q0(2) cn(1)] .
  then have "find_container hsh d c = Some cn" using find_container_iff [OF ok] cn(2) by blast
  then have cap: "length (c_its (c_at d cn)) = c_cap (c_at d cn)" using full by (simp add: container_full_def)
  have c0: "Option.bind (find_iterator hsh d i0) (\<lambda>q. i_cont (i_at d q)) = Some cn"
    using q0(1) cn(1) by (simp add: cont_def)
  have "\<exists>d'. iterator_copy hsh next_prime True (Some r) False i i0 d = Throws d' \<and> erase_i hsh i d' = Logic_error"
  proof (cases rule: iterator_cases [OF ok, of i, case_names unknown known])
    case (known q)
    then have "cont d q \<noteq> Some cn" using i cn(2) by auto
    from copy_cont_bad_alloc [OF ok known(2) this cn_dom cap] show ?thesis
      using known c0 by (simp add: iterator_copy_def Let_def cont_def)
  next
    case unknown
    then have "i \<notin> dom (owner hsh d)" by (simp add: domIff)
    from insert_iterator_correct [OF ok fresh this np] obtain d1 where
        ins: "insert_iterator hsh next_prime True (Some r) i d = Returns r d1" and d1: "db_ok hsh d1"
        "dom (i_nodes d1) = insert r (dom (i_nodes d))" "i_key d1 r = i" "cont d1 r = None" "c_nodes d1 = c_nodes d"
      by auto
    have "c_at d1 cn = c_at d cn" using d1(5) by (simp add: c_at_def)
    with copy_cont_bad_alloc [OF d1(1), of r cn] show ?thesis
      using unknown c0 ins d1 cap cn_dom q0(1) by (simp add: iterator_copy_def Let_def cont_def)
  qed
  then show ?thesis using erase_i_logic_error by blast
qed

text \<open>
  When the new node cannot be allocated, \<open>__insert_iterator\<close> and \<open>__insert_c\<close> have already overwritten the chain
  with the null pointer: the exception leaves a database that has forgotten everything registered in this chain.
\<close>

lemma lookup_cleared:
  assumes "tab \<noteq> []"
  shows "lookup hsh k (tab[chain_of hsh tab a := []]) x =
    (if chain_of hsh tab x = chain_of hsh tab a then None else lookup hsh k tab x)"
proof -
  have "chain_of hsh (tab[chain_of hsh tab a := []]) x = chain_of hsh tab x"
    by (rule chain_of_same_length) simp
  then show ?thesis
    using assms chain_of_less [OF assms, of hsh] by (simp add: lookup_def nth_list_update)
qed

lemma lookup_same_nodes:
  "chains hsh k N tab \<Longrightarrow> chains hsh k N tab' \<Longrightarrow> lookup hsh k tab x = lookup hsh k tab' x"
proof -
  assume "chains hsh k N tab" and "chains hsh k N tab'"
  then have "lookup hsh k tab x = Some q \<longleftrightarrow> lookup hsh k tab' x = Some q" for q
    by (simp add: lookup_Some_iff)
  then show ?thesis by (metis not_Some_eq)
qed

lemma lookup_lost:
  assumes t: "table_ok hsh k N tab n" and np: "\<And>n. n \<le> next_prime n"
    and u: "u = (if length tab < n + 1 then grow hsh k tab (next_prime (2 * length tab + 1)) else tab)"
  shows "lookup hsh k (u[chain_of hsh u a := []]) x =
    (if hsh x mod length u = hsh a mod length u then None else lookup hsh k tab x)"
proof -
  have "2 * length tab + 1 \<le> next_prime (2 * length tab + 1)" by (rule np)
  then have "chains hsh k N u" and "u \<noteq> []"
    using t u by (auto simp: table_ok_def chains_grow simp flip: length_greater_0_conv)
  then show ?thesis
    using lookup_cleared [of u hsh k a x] lookup_same_nodes [of hsh k N u tab x] t
    by (simp add: table_ok_def chain_of_def)
qed

lemma insert_i_bad_alloc:
  assumes ok: "db_ok hsh d" and np: "\<And>n. n \<le> next_prime n"
  shows "\<exists>d'. insert_i hsh next_prime True None i d = Throws d' \<and>
    (\<forall>j. owner hsh d' j = (if hsh j mod length (i_table d') = hsh i mod length (i_table d') then None else owner hsh d j))"
proof -
  define u where "u = (if length (i_table d) < isz d + 1
      then grow hsh (i_key d) (i_table d) (next_prime (2 * length (i_table d) + 1)) else i_table d)"
  let ?d' = "d\<lparr>i_table := u[chain_of hsh u i := []]\<rparr>"
  have throws: "insert_i hsh next_prime True None i d = Throws ?d'"
    by (simp add: insert_i_def insert_iterator_def u_def i_key_def [abs_def] Let_def)
  have t: "table_ok hsh (i_key d) (dom (i_nodes d)) (i_table d) (isz d)" using ok by (simp add: db_ok_def)
  have "owner hsh ?d' j = (if hsh j mod length u = hsh i mod length u then None else owner hsh d j)" for j
    using lookup_lost [OF t np u_def, of i j] by (simp add: owner_def find_iterator_eq)
  with throws show ?thesis by (intro exI [of _ ?d']) simp
qed

lemma insert_c_bad_alloc:
  assumes ok: "db_ok hsh d" and np: "\<And>n. n \<le> next_prime n"
  shows "\<exists>d'. insert_c hsh next_prime True None c d = Throws d' \<and>
    containers hsh d' = {x \<in> containers hsh d. hsh x mod length (c_table d') \<noteq> hsh c mod length (c_table d')}"
proof -
  define u where "u = (if length (c_table d) < csz d + 1
      then grow hsh (c_key d) (c_table d) (next_prime (2 * length (c_table d) + 1)) else c_table d)"
  let ?d' = "d\<lparr>c_table := u[chain_of hsh u c := []]\<rparr>"
  have throws: "insert_c hsh next_prime True None c d = Throws ?d'"
    by (simp add: insert_c_def u_def c_key_def [abs_def] Let_def)
  have t: "table_ok hsh (c_key d) (dom (c_nodes d)) (c_table d) (csz d)" using ok by (simp add: db_ok_def)
  have "x \<in> containers hsh ?d' \<longleftrightarrow> x \<in> containers hsh d \<and> hsh x mod length u \<noteq> hsh c mod length u" for x
    using lookup_lost [OF t np u_def, of c x] by (simp add: containers_def find_container_eq)
  with throws show ?thesis by (intro exI [of _ ?d']) auto
qed

text \<open>
  C39: Three calls are not exception safe, in any state that satisfies the invariant.  \<open>__iterator_copy\<close> throws \<open>bad_alloc\<close> after \<open>i->__c_\<close> has
  been set when the array of the source's container is full and cannot grow (and the target is not an iterator of this container yet): the iterator
  names a container that does not list it, the invariant is broken, and destroying the iterator stops the program with an internal logic
  error.  \<open>__insert_i\<close> and \<open>__insert_c\<close> overwrite the chain of a bucket before they test the new node: when it is null, the exception leaves a database
  that has forgotten exactly the iterators, or containers, registered in the bucket of the new one.
\<close>

theorem debug_bad_alloc_bugs:
  assumes "db_ok hsh d" and "\<And>n. n \<le> next_prime n"
  shows "(r \<notin> dom (i_nodes d) \<and> owner hsh d i0 = Some (Some c) \<and> owner hsh d i \<noteq> Some (Some c) \<and> container_full hsh d c \<longrightarrow>
      (\<exists>d'. iterator_copy hsh next_prime True (Some r) False i i0 d = Throws d' \<and> \<not> db_ok hsh d' \<and>
        erase_i hsh i d' = Logic_error)) \<and>
    (\<exists>d'. insert_i hsh next_prime True None i d = Throws d' \<and>
      (\<forall>j. owner hsh d' j =
        (if hsh j mod length (i_table d') = hsh i mod length (i_table d') then None else owner hsh d j))) \<and>
    (\<exists>d'. insert_c hsh next_prime True None c d = Throws d' \<and>
      containers hsh d' = {x \<in> containers hsh d. hsh x mod length (c_table d') \<noteq> hsh c mod length (c_table d')})"
  using iterator_copy_bad_alloc [OF assms(1) _ assms(2)] insert_i_bad_alloc [OF assms] insert_c_bad_alloc [OF assms]
  by blast

text \<open>In the sample state: a copy to a new iterator 51, and the registration of 53, in the bucket of 50.\<close>

theorem debug_bad_alloc_bugs_witness:
  "db_reached (\<lambda>a. a) (\<lambda>n. n) sample_db \<and>
   (\<exists>d'. iterator_copy (\<lambda>a. a) (\<lambda>n. n) True (Some 3) False 51 50 sample_db = Throws d' \<and> erase_i (\<lambda>a. a) 51 d' = Logic_error) \<and>
   owner (\<lambda>a. a) sample_db 50 = Some (Some 70) \<and>
   (\<exists>d'. insert_i (\<lambda>a. a) (\<lambda>n. n) True None 53 sample_db = Throws d' \<and> owner (\<lambda>a. a) d' 50 = None)"
proof -
  let ?h = "\<lambda>a::nat. a"
  have ok: "db_ok ?h sample_db" using db_reached_ok [OF _ sample_reached] by simp
  have own: "owner ?h sample_db 50 = Some (Some 70)" "owner ?h sample_db 51 = None"
    by (simp_all add: owner_def find_iterator_def lookup_def sample_db_def chain_of_def i_at_def cont_def c_key_def c_at_def)
  have full: "container_full ?h sample_db 70" and fresh: "i_nodes sample_db 3 = None"
    by (simp_all add: container_full_def find_container_def lookup_def sample_db_def chain_of_def c_at_def)
  note bugs = debug_bad_alloc_bugs [where hsh = ?h and d = sample_db and next_prime = ?h, OF ok le_refl]
  obtain d' where d': "insert_i ?h ?h True None 53 sample_db = Throws d'"
      "owner ?h d' 50 = (if 50 mod length (i_table d') = 53 mod length (i_table d') then None else owner ?h sample_db 50)"
    using bugs [where i = 53] by blast
  have "length (i_table d') = 3"
    using d'(1) by (auto simp: insert_i_def insert_iterator_def sample_db_def Let_def)
  with d' bugs [of 3 50 70 51] show ?thesis
    using sample_reached own full fresh by (auto simp: domIff)
qed

end
