(* ===== verification/Next_Prime.thy ===== *)
theory Next_Prime
  imports Prelude
begin

text \<open>
  \<open>__next_prime\<close> of \<open>src/src/hash.cpp\<close>, the bucket count of the unordered containers and of the
  debugging database: the least prime that is not below \<open>n\<close>, found by dividing the potential primes
  (the numbers without a divisor 2, 3, 5 or 7) by all potential primes up to their square root.
  \<open>size_t\<close> has 64 bits; every sum and product is reduced modulo \<open>2 ^ 64\<close> as in the code, and that
  none of them wraps is part of what is proved.
\<close>

section \<open>The tables\<close>

definition small_primes :: "nat list" where
  "small_primes = [0, 2, 3, 5, 7, 11, 13, 17, 19, 23, 29, 31, 37, 41, 43, 47, 53, 59, 61, 67, 71, 73,
     79, 83, 89, 97, 101, 103, 107, 109, 113, 127, 131, 137, 139, 149, 151, 157, 163, 167, 173, 179,
     181, 191, 193, 197, 199, 211]"

definition indices :: "nat list" where
  "indices = [1, 11, 13, 17, 19, 23, 29, 31, 37, 41, 43, 47, 53, 59, 61, 67, 71, 73, 79, 83, 89, 97,
     101, 103, 107, 109, 113, 121, 127, 131, 137, 139, 143, 149, 151, 157, 163, 167, 169, 173, 179,
     181, 187, 191, 193, 197, 199, 209]"

text \<open>
  The increments of the unrolled loop over one plane of potential primes, in three parts: up to the
  offsets 71 and 143 and to the next plane.
\<close>

definition wheel_low :: "nat list" where
  "wheel_low = [10, 2, 4, 2, 4, 6, 2, 6, 4, 2, 4, 6, 6, 2, 6, 4]"

definition wheel_mid :: "nat list" where
  "wheel_mid = [2, 6, 4, 6, 8, 4, 2, 4, 2, 4, 8, 6, 4, 6, 2, 4]"

definition wheel_high :: "nat list" where
  "wheel_high = [6, 2, 6, 6, 4, 2, 4, 6, 2, 6, 4, 2, 4, 2, 10, 2]"

definition wheel :: "nat list" where
  "wheel = wheel_low @ wheel_mid @ wheel_high"

lemmas wheel_defs = wheel_def wheel_low_def wheel_mid_def wheel_high_def

section \<open>The function\<close>

text \<open>\<open>std::lower_bound\<close> of \<open>src/include/algorithm\<close>, with \<open>first\<close> and \<open>len\<close> as in its loop.\<close>

function lower_bound :: "nat list \<Rightarrow> nat \<Rightarrow> nat \<Rightarrow> nat \<Rightarrow> nat" where
  "lower_bound xs v first len =
     (if len \<noteq> 0 then
        (let l2 = len div 2; m = first + l2 in
         if xs ! m < v then lower_bound xs v (m + 1) (len - (l2 + 1))
         else lower_bound xs v first l2)
      else first)"
  by pat_completeness auto
termination by (relation "measure (\<lambda>(xs, v, first, len). len)") auto

declare lower_bound.simps [simp del]

abbreviation "W64 \<equiv> (18446744073709551616 :: nat)"

datatype verdict = Prime | Composite | Undecided

text \<open>The loop over the small primes from 11 to 199.\<close>

fun divide_small :: "nat list \<Rightarrow> nat \<Rightarrow> verdict" where
  "divide_small [] n = Undecided"
| "divide_small (p # ps) n =
     (let q = n div p in
      if q < p then Prime else if n = q * p mod W64 then Composite else divide_small ps n)"

text \<open>One execution of the body of the loop over the potential primes, and this loop.\<close>

fun divide_plane :: "nat list \<Rightarrow> nat \<Rightarrow> nat \<Rightarrow> verdict \<times> nat" where
  "divide_plane [] n i = (Undecided, i)"
| "divide_plane (d # ds) n i =
     (let q = n div i in
      if q < i then (Prime, i) else if n = q * i mod W64 then (Composite, i)
      else divide_plane ds n ((i + d) mod W64))"

partial_function (option) divide_potential :: "nat \<Rightarrow> nat \<Rightarrow> verdict option" where
  "divide_potential n i =
     (case divide_plane wheel n i of
        (Undecided, i) \<Rightarrow> divide_potential n i
      | (v, _) \<Rightarrow> Some v)"

definition test_candidate :: "nat \<Rightarrow> verdict option" where
  "test_candidate n =
     (case divide_small (drop 5 (butlast small_primes)) n of
        Undecided \<Rightarrow> divide_potential n 211
      | v \<Rightarrow> Some v)"

partial_function (option) search :: "nat \<Rightarrow> nat \<Rightarrow> nat \<Rightarrow> nat option" where
  "search k0 inx n =
     Option.bind (test_candidate n) (\<lambda>v.
       if v = Prime then Some n
       else
         let (k0, inx) = (if inx + 1 = length indices then ((k0 + 1) mod W64, 0) else (k0, inx + 1)) in
         search k0 inx ((210 * k0 + indices ! inx) mod W64))"

datatype prime_error = Overflow_error

definition check_for_overflow :: "nat \<Rightarrow> bool" where
  "check_for_overflow n \<longleftrightarrow> 0xFFFFFFFFFFFFFFC5 < n"

definition next_prime :: "nat \<Rightarrow> (prime_error + nat) option" where
  "next_prime n =
     (if n \<le> small_primes ! (length small_primes - 1) then
        Some (Inr (small_primes ! lower_bound small_primes n 0 (length small_primes)))
      else if check_for_overflow n then Some (Inl Overflow_error)
      else
        let k0 = n div 210;
            inx = lower_bound indices (n - k0 * 210) 0 (length indices) in
        map_option Inr (search k0 inx ((210 * k0 + indices ! inx) mod W64)))"

section \<open>Primes and potential primes\<close>

definition is_prime :: "nat \<Rightarrow> bool" where
  "is_prime p \<longleftrightarrow> 2 \<le> p \<and> (\<forall>d. d dvd p \<longrightarrow> d = 1 \<or> d = p)"

definition potential :: "nat \<Rightarrow> bool" where
  "potential n \<longleftrightarrow> \<not> 2 dvd n \<and> \<not> 3 dvd n \<and> \<not> 5 dvd n \<and> \<not> 7 dvd n"

lemma indices_eq: "indices = 1 # filter potential [2..<210]"
  by (simp add: indices_def potential_def upt_rec_numeral)

text \<open>A number above 1 has a prime divisor, a composite one has one below its square root.\<close>

lemma prime_divisor:
  assumes "2 \<le> n"
  shows "\<exists>p. is_prime p \<and> p dvd n"
  using assms
proof (induction n rule: less_induct)
  case (less n)
  show ?case
  proof (cases "is_prime n")
    case False
    then obtain d where d: "d dvd n" "d \<noteq> 1" "d \<noteq> n" using less.prems by (auto simp: is_prime_def)
    moreover from this less.prems have "d \<noteq> 0" by (metis dvd_0_left_iff not_numeral_le_zero)
    moreover have "d \<le> n" using d(1) less.prems by (intro dvd_imp_le) auto
    ultimately have "d < n" "2 \<le> d" by auto
    from less.IH [OF this] d(1) show ?thesis using dvd_trans by blast
  qed auto
qed

lemma composite_divisor:
  assumes "2 \<le> n" and "\<not> is_prime n"
  shows "\<exists>p. is_prime p \<and> p dvd n \<and> p * p \<le> n"
proof -
  obtain d where d: "d dvd n" "d \<noteq> 1" "d \<noteq> n" using assms by (auto simp: is_prime_def)
  then obtain e where e: "n = d * e" by blast
  have "d \<noteq> 0" "e \<noteq> 0" using assms(1) e by (cases d; cases e; simp)+
  moreover have "e \<noteq> 1" using d e by auto
  ultimately have "2 \<le> d" "2 \<le> e" using d by auto
  then obtain p q where "is_prime p" "p dvd d" "is_prime q" "q dvd e" using prime_divisor by metis
  moreover have "p dvd n" "q dvd n" using e \<open>p dvd d\<close> \<open>q dvd e\<close> by auto
  moreover have "p * p \<le> n \<or> q * q \<le> n"
  proof -
    have "p \<le> d" "q \<le> e" using \<open>2 \<le> d\<close> \<open>2 \<le> e\<close> \<open>p dvd d\<close> \<open>q dvd e\<close> by (auto intro: dvd_imp_le)
    then have "p * q \<le> n" unfolding e by (rule mult_le_mono)
    then show ?thesis
      by (cases "p \<le> q") (meson le_trans mult_le_mono2 mult_le_mono1 nat_le_linear)+
  qed
  ultimately show ?thesis by blast
qed

lemma is_prime_bound:
  assumes "n < b * b"
  shows "is_prime n \<longleftrightarrow> 2 \<le> n \<and> (\<forall>d\<in>{2..<b}. d * d \<le> n \<longrightarrow> \<not> d dvd n)"
proof (intro iffI conjI ballI impI notI)
  fix d assume n: "is_prime n" and d: "d \<in> {2..<b}" "d * d \<le> n" "d dvd n"
  then have "d = n" by (auto simp: is_prime_def)
  with d show False by auto
next
  assume n: "2 \<le> n \<and> (\<forall>d\<in>{2..<b}. d * d \<le> n \<longrightarrow> \<not> d dvd n)"
  show "is_prime n"
  proof (rule ccontr)
    assume "\<not> is_prime n"
    with n obtain p where p: "is_prime p" "p dvd n" "p * p \<le> n" using composite_divisor by blast
    then have "p * p < b * b" using assms by simp
    then have "p < b" by (meson linorder_not_le mult_le_mono)
    with p n show False by (auto simp: is_prime_def)
  qed
qed (simp add: is_prime_def)

lemma small_primes_eq: "small_primes = 0 # filter is_prime [2..<212]"
proof -
  have less: "{2..<15::nat} = {2, 3, 4, 5, 6, 7, 8, 9, 10, 11, 12, 13, 14}"
    by (simp only: set_upt [symmetric]) (simp add: upt_rec_numeral del: set_upt)
  have "is_prime n \<longleftrightarrow> (4 \<le> n \<longrightarrow> \<not> 2 dvd n) \<and> (9 \<le> n \<longrightarrow> \<not> 3 dvd n) \<and>
      (16 \<le> n \<longrightarrow> \<not> 4 dvd n) \<and> (25 \<le> n \<longrightarrow> \<not> 5 dvd n) \<and> (36 \<le> n \<longrightarrow> \<not> 6 dvd n) \<and>
      (49 \<le> n \<longrightarrow> \<not> 7 dvd n) \<and> (64 \<le> n \<longrightarrow> \<not> 8 dvd n) \<and> (81 \<le> n \<longrightarrow> \<not> 9 dvd n) \<and>
      (100 \<le> n \<longrightarrow> \<not> 10 dvd n) \<and> (121 \<le> n \<longrightarrow> \<not> 11 dvd n) \<and> (144 \<le> n \<longrightarrow> \<not> 12 dvd n) \<and>
      (169 \<le> n \<longrightarrow> \<not> 13 dvd n) \<and> (196 \<le> n \<longrightarrow> \<not> 14 dvd n)"
    if "n \<in> set [2..<212]" for n
    using that is_prime_bound [of n 15] by (simp only: less set_upt atLeastLessThan_iff) simp
  then have "filter is_prime [2..<212] = filter (\<lambda>n. (4 \<le> n \<longrightarrow> \<not> 2 dvd n) \<and> (9 \<le> n \<longrightarrow> \<not> 3 dvd n) \<and>
      (16 \<le> n \<longrightarrow> \<not> 4 dvd n) \<and> (25 \<le> n \<longrightarrow> \<not> 5 dvd n) \<and> (36 \<le> n \<longrightarrow> \<not> 6 dvd n) \<and>
      (49 \<le> n \<longrightarrow> \<not> 7 dvd n) \<and> (64 \<le> n \<longrightarrow> \<not> 8 dvd n) \<and> (81 \<le> n \<longrightarrow> \<not> 9 dvd n) \<and>
      (100 \<le> n \<longrightarrow> \<not> 10 dvd n) \<and> (121 \<le> n \<longrightarrow> \<not> 11 dvd n) \<and> (144 \<le> n \<longrightarrow> \<not> 12 dvd n) \<and>
      (169 \<le> n \<longrightarrow> \<not> 13 dvd n) \<and> (196 \<le> n \<longrightarrow> \<not> 14 dvd n)) [2..<212]"
    by (rule filter_cong [OF refl])
  also have "\<dots> = tl small_primes"
    by (simp add: small_primes_def upt_rec_numeral)
  finally show ?thesis by (simp add: small_primes_def)
qed

lemma small_prime_iff: "p \<in> set small_primes \<longleftrightarrow> p = 0 \<or> is_prime p \<and> p < 212"
  by (simp only: small_primes_eq set_simps set_filter set_upt mem_Collect_eq insert_iff atLeastLessThan_iff)
    (auto simp: is_prime_def)

lemma small_primes_split: "small_primes = [0, 2, 3, 5, 7] @ drop 5 (butlast small_primes) @ [211]"
  by (simp add: small_primes_def)

lemma potential_mod: "potential d \<longleftrightarrow> d mod 210 \<in> set indices"
proof -
  have "potential d \<longleftrightarrow> potential (d mod 210)"
    unfolding potential_def by (simp add: dvd_mod_iff)
  also have "\<dots> \<longleftrightarrow> d mod 210 \<in> set indices"
  proof -
    have "\<not> potential 0" "potential 1" by (simp_all add: potential_def)
    moreover have "d mod 210 = 0 \<or> d mod 210 = 1 \<or> 2 \<le> d mod 210 \<and> d mod 210 < 210"
      by linarith
    ultimately show ?thesis
      unfolding indices_eq by (simp only: set_simps set_filter set_upt mem_Collect_eq insert_iff atLeastLessThan_iff) auto
  qed
  finally show ?thesis .
qed

lemma prime_potential: "is_prime p \<Longrightarrow> 7 < p \<Longrightarrow> potential p"
  by (auto simp: is_prime_def potential_def)

lemma sorted_tables: "sorted small_primes" "sorted_wrt (<) indices"
  by (simp_all add: small_primes_def indices_def)

section \<open>Binary search\<close>

lemma lower_bound_spec:
  assumes "sorted xs" and "first + len \<le> length xs"
  shows "first \<le> lower_bound xs v first len \<and> lower_bound xs v first len \<le> first + len \<and>
    (\<forall>k. first \<le> k \<and> k < lower_bound xs v first len \<longrightarrow> xs ! k < v) \<and>
    (\<forall>k. lower_bound xs v first len \<le> k \<and> k < first + len \<longrightarrow> v \<le> xs ! k)"
  using assms
proof (induction xs v first len rule: lower_bound.induct)
  case (1 xs v first len)
  show ?case
  proof (cases "len = 0")
    case True
    then show ?thesis by (simp add: lower_bound.simps)
  next
    case False
    define m where "m = first + len div 2"
    have m: "first \<le> m" "m < first + len" "m < length xs" using False 1(4) by (auto simp: m_def)
    show ?thesis
    proof (cases "xs ! m < v")
      case True
      have eq: "lower_bound xs v first len = lower_bound xs v (m + 1) (len - (len div 2 + 1))"
        using False True by (subst lower_bound.simps) (simp add: Let_def m_def)
      have end_eq: "m + 1 + (len - (len div 2 + 1)) = first + len" using False by (simp add: m_def)
      note IH = 1(1) [OF False refl m_def True 1(3)]
      have low: "xs ! k < v" if "k \<le> m" for k
        using True that m(3) sorted_nth_mono [OF 1(3) that] by simp
      have "m + 1 + (len - (len div 2 + 1)) \<le> length xs" using 1(4) end_eq by simp
      from IH [OF this] show ?thesis unfolding eq end_eq using m low by (auto simp: not_less_eq_eq [symmetric])
    next
      case high: False
      have eq: "lower_bound xs v first len = lower_bound xs v first (len div 2)"
        using False high by (subst lower_bound.simps) (simp add: Let_def m_def)
      note IH = 1(2) [OF False refl m_def high 1(3)]
      have up: "v \<le> xs ! k" if "m \<le> k" "k < length xs" for k
        using high that sorted_nth_mono [OF 1(3) that] by simp
      have "first + len div 2 \<le> length xs" using m by (simp add: m_def)
      from IH [OF this] have ih: "first \<le> lower_bound xs v first (len div 2)"
        "lower_bound xs v first (len div 2) \<le> m"
        "\<And>k. first \<le> k \<Longrightarrow> k < lower_bound xs v first (len div 2) \<Longrightarrow> xs ! k < v"
        "\<And>k. lower_bound xs v first (len div 2) \<le> k \<Longrightarrow> k < m \<Longrightarrow> v \<le> xs ! k"
        unfolding m_def [symmetric] by blast+
      have "v \<le> xs ! k" if "lower_bound xs v first (len div 2) \<le> k" "k < first + len" for k
        using ih(4) [OF that(1)] up [of k] that(2) 1(4) by (cases "k < m") auto
      with ih m show ?thesis unfolding eq by auto
    qed
  qed
qed

section \<open>The trial divisions\<close>

lemma quotient_less_iff: "n div (p::nat) < p \<longleftrightarrow> n < p * p" if "0 < p"
  using that by (simp add: div_less_iff_less_mult)

lemma quotient_exact_iff:
  assumes "n < W64"
  shows "n = n div p * p mod W64 \<longleftrightarrow> p dvd n"
proof -
  have "n div p * p < W64" using assms div_times_less_eq_dividend [of n p] by linarith
  then show ?thesis by (metis dvd_div_mult_self dvd_triv_right mod_less)
qed

lemma divide_small_cases:
  assumes "n < W64" and "\<And>p. p \<in> set ps \<Longrightarrow> 0 < p" and "sorted_wrt (<) ps"
  shows "case divide_small ps n of
      Prime \<Rightarrow> \<exists>p\<in>set ps. n < p * p \<and> (\<forall>d\<in>set ps. d < p \<longrightarrow> \<not> d dvd n)
    | Composite \<Rightarrow> \<exists>p\<in>set ps. p dvd n \<and> p * p \<le> n
    | Undecided \<Rightarrow> \<forall>d\<in>set ps. \<not> d dvd n \<and> d * d \<le> n"
  using assms(2,3)
proof (induction ps)
  case (Cons p ps)
  have p: "0 < p" "\<forall>d\<in>set ps. p < d" using Cons.prems by auto
  have IH: "case divide_small ps n of
      Prime \<Rightarrow> \<exists>p\<in>set ps. n < p * p \<and> (\<forall>d\<in>set ps. d < p \<longrightarrow> \<not> d dvd n)
    | Composite \<Rightarrow> \<exists>p\<in>set ps. p dvd n \<and> p * p \<le> n
    | Undecided \<Rightarrow> \<forall>d\<in>set ps. \<not> d dvd n \<and> d * d \<le> n"
    using Cons.prems by (intro Cons.IH) auto
  show ?case
    using IH p by (auto simp: Let_def quotient_less_iff [OF p(1)] quotient_exact_iff [OF assms(1)]
        split: verdict.splits)
qed simp

fun offsets :: "nat list \<Rightarrow> nat \<Rightarrow> nat list" where
  "offsets [] i = []"
| "offsets (d # ds) i = i # offsets ds (i + d)"

lemma offsets_wheel: "offsets wheel (210 * k + 1) = map (\<lambda>r. 210 * k + r) indices"
  by (simp add: wheel_defs indices_def)

lemma sum_wheel: "sum_list wheel = 210"
  by (simp add: wheel_defs)

lemma divide_plane_eq:
  assumes "i + sum_list ds < W64"
  shows "fst (divide_plane ds n i) = divide_small (offsets ds i) n \<and>
    (fst (divide_plane ds n i) = Undecided \<longrightarrow> snd (divide_plane ds n i) = i + sum_list ds)"
  using assms
proof (induction ds arbitrary: i)
  case (Cons d ds)
  then show ?case by (auto simp: Let_def add.assoc)
qed simp

end
