(* ===== verification/Next_Prime_Correct.thy ===== *)
theory Next_Prime_Correct
  imports Next_Prime
begin

text \<open>
  \<open>__next_prime\<close> returns the least prime that is not below its argument: the loop over the planes of
  potential primes decides primality, the search skips no prime, and no sum or product wraps as long
  as there is a prime below \<open>2 ^ 64\<close> to be found.
\<close>

section \<open>One candidate\<close>

text \<open>What the planes before \<open>i\<close> have established, and what a verdict means.\<close>

definition undivided :: "nat \<Rightarrow> nat \<Rightarrow> bool" where
  "undivided n i \<longleftrightarrow> (\<forall>d. potential d \<and> 211 \<le> d \<and> d < i \<longrightarrow> \<not> d dvd n)"

definition decides :: "verdict \<Rightarrow> nat \<Rightarrow> bool" where
  "decides v n \<longleftrightarrow>
     v = Prime \<and> (\<forall>d. potential d \<and> 211 \<le> d \<and> d * d \<le> n \<longrightarrow> \<not> d dvd n) \<or>
     v = Composite \<and> (\<exists>d. 211 \<le> d \<and> d dvd n \<and> d * d \<le> n)"

lemma plane_members:
  "potential d \<Longrightarrow> 210 * k + 1 \<le> d \<Longrightarrow> d < 210 * (k + 1) + 1 \<Longrightarrow> d \<in> set (map (\<lambda>r. 210 * k + r) indices)"
proof -
  assume d: "potential d" "210 * k + 1 \<le> d" "d < 210 * (k + 1) + 1"
  have "d \<noteq> 210 * (k + 1)" using d(1) by (auto simp: potential_def)
  with d have "d < 210 * (k + 1)" by simp
  then have "d div 210 = k" using d(2) by (intro div_nat_eqI) auto
  then have "d = 210 * k + d mod 210" by (metis mult_div_mod_eq)
  moreover have "d mod 210 \<in> set indices" using d(1) by (simp only: potential_mod)
  ultimately show ?thesis by (metis image_eqI set_map)
qed

lemma square_bound: "d * d \<le> n \<Longrightarrow> n < W64 \<Longrightarrow> (d::nat) < 4294967296"
proof (rule ccontr)
  assume "d * d \<le> n" "n < W64" "\<not> d < 4294967296"
  then have "4294967296 * 4294967296 \<le> d * d" by (intro mult_le_mono) simp_all
  with \<open>d * d \<le> n\<close> \<open>n < W64\<close> show False by simp
qed

lemma plane_cases:
  assumes n: "n < W64" and k: "1 \<le> k" "210 * k + 1 \<le> 4294967506" and inv: "undivided n (210 * k + 1)"
  shows "\<exists>v i. divide_plane wheel n (210 * k + 1) = (v, i) \<and>
    (v = Undecided \<and> i = 210 * (k + 1) + 1 \<and> 210 * (k + 1) + 1 \<le> 4294967506 \<and> 210 * k * (210 * k) \<le> n \<and>
       undivided n (210 * (k + 1) + 1) \<or> decides v n)"
proof -
  define ps where "ps = map (\<lambda>r. 210 * k + r) indices"
  obtain v i where vi: "divide_plane wheel n (210 * k + 1) = (v, i)" by fastforce
  have "210 * k + 1 + sum_list wheel < W64" using k by (simp add: sum_wheel)
  from divide_plane_eq [OF this, of n] vi
  have v: "v = divide_small ps n" and i: "v = Undecided \<Longrightarrow> i = 210 * (k + 1) + 1"
    by (simp_all only: offsets_wheel sum_wheel fst_conv snd_conv ps_def) simp_all
  have mem: "\<And>d. d \<in> set ps \<Longrightarrow> 210 * k + 1 \<le> d \<and> d \<le> 210 * k + 209"
    by (auto simp: indices_def ps_def)
  then have big: "\<And>d. d \<in> set ps \<Longrightarrow> 211 \<le> d \<and> 0 < d" using k by fastforce
  have sorted: "sorted_wrt (<) ps" using sorted_tables(2) by (simp add: sorted_wrt_map ps_def)
  have pos: "\<And>d. d \<in> set ps \<Longrightarrow> 0 < d" using big by blast
  note c = divide_small_cases [OF n pos sorted, folded v]
  have last: "210 * k + 209 \<in> set ps" by (simp add: indices_def ps_def)
  have members: "d \<in> set ps" if "potential d" "210 * k + 1 \<le> d" "d < 210 * (k + 1) + 1" for d
    using plane_members [OF that] by (simp only: ps_def)
  show ?thesis
  proof (cases v)
    case Prime
    with c obtain p where p: "p \<in> set ps" "n < p * p" "\<forall>d\<in>set ps. d < p \<longrightarrow> \<not> d dvd n"
      by auto
    have "\<not> d dvd n" if d: "potential d" "211 \<le> d" "d * d \<le> n" for d
    proof (cases "d < 210 * k + 1")
      case True
      with inv d show ?thesis by (simp add: undivided_def)
    next
      case False
      have "d < p" using d(3) p(2) by (metis le_less_trans mult_le_mono not_le)
      with mem [OF p(1)] have "d < 210 * (k + 1) + 1" by simp
      with False d(1) have "d \<in> set ps" by (intro members) simp_all
      with \<open>d < p\<close> p(3) show ?thesis by blast
    qed
    with Prime vi show ?thesis by (auto simp: decides_def)
  next
    case Composite
    with c have "\<exists>p\<in>set ps. p dvd n \<and> p * p \<le> n" by auto
    with Composite vi big show ?thesis by (auto simp: decides_def)
  next
    case Undecided
    with c have all: "\<forall>d\<in>set ps. \<not> d dvd n \<and> d * d \<le> n" by auto
    then have sq: "(210 * k + 209) * (210 * k + 209) \<le> n" using last by blast
    have "210 * k * (210 * k) \<le> (210 * k + 209) * (210 * k + 209)" by (intro mult_le_mono) simp_all
    with sq have "210 * k * (210 * k) \<le> n" by (rule order_trans [rotated])
    moreover have "210 * k + 209 < 4294967296" using square_bound [OF sq n] .
    moreover have "undivided n (210 * (k + 1) + 1)"
      unfolding undivided_def
    proof (intro allI impI)
      fix d assume d: "potential d \<and> 211 \<le> d \<and> d < 210 * (k + 1) + 1"
      show "\<not> d dvd n"
      proof (cases "d < 210 * k + 1")
        case True
        with inv d show ?thesis by (simp add: undivided_def)
      next
        case False
        with d members [of d] all show ?thesis by simp
      qed
    qed
    ultimately show ?thesis using Undecided vi i by auto
  qed
qed

lemma divide_potential_decides:
  assumes n: "n < W64"
  shows "1 \<le> k \<Longrightarrow> 210 * k + 1 \<le> 4294967506 \<Longrightarrow> undivided n (210 * k + 1) \<Longrightarrow>
    \<exists>v. divide_potential n (210 * k + 1) = Some v \<and> decides v n"
proof (induction "W64 - 210 * k" arbitrary: k rule: less_induct)
  case less
  obtain v i where vi: "divide_plane wheel n (210 * k + 1) = (v, i)"
    and r: "v = Undecided \<and> i = 210 * (k + 1) + 1 \<and> 210 * (k + 1) + 1 \<le> 4294967506 \<and>
       210 * k * (210 * k) \<le> n \<and> undivided n (210 * (k + 1) + 1) \<or> decides v n"
    using plane_cases [OF n less.prems] by blast
  show ?case
  proof (cases "v = Undecided")
    case True
    with r have "210 * (k + 1) + 1 \<le> 4294967506" "undivided n (210 * (k + 1) + 1)" "i = 210 * (k + 1) + 1"
      by (auto simp: decides_def)
    with less.hyps [of "k + 1"] less.prems True vi show ?thesis
      by (subst divide_potential.simps) simp
  next
    case False
    with r have "decides v n" by blast
    moreover have "divide_potential n (210 * k + 1) = Some v"
      using False vi by (subst divide_potential.simps) (simp split: verdict.splits)
    ultimately show ?thesis by blast
  qed
qed

lemma small_list_primes:
  "is_prime p \<Longrightarrow> 11 \<le> p \<Longrightarrow> p < 211 \<Longrightarrow> p \<in> set (drop 5 (butlast small_primes))"
proof -
  assume p: "is_prime p" "11 \<le> p" "p < 211"
  then have "p \<in> set ([0, 2, 3, 5, 7] @ drop 5 (butlast small_primes) @ [211])"
    using small_prime_iff [of p] by (simp only: small_primes_split [symmetric]) simp
  then show ?thesis using p by (simp only: set_append) auto
qed

lemma test_candidate_eq:
  assumes n: "n < W64" "211 < n" "potential n"
  shows "test_candidate n = Some (if is_prime n then Prime else Composite)"
proof -
  define ps where "ps = drop 5 (butlast small_primes)"
  have ps: "\<And>p. p \<in> set ps \<Longrightarrow> 11 \<le> p \<and> p \<le> 199" "sorted_wrt (<) ps"
    by (auto simp: small_primes_def ps_def)
  have pos: "\<And>p. p \<in> set ps \<Longrightarrow> 0 < p" using ps(1) by fastforce
  note c = divide_small_cases [OF n(1) pos ps(2)]
  have prime: "is_prime n" if no: "\<And>p. is_prime p \<Longrightarrow> p * p \<le> n \<Longrightarrow> 11 \<le> p \<Longrightarrow> \<not> p dvd n"
  proof (rule ccontr)
    assume "\<not> is_prime n"
    then obtain p where p: "is_prime p" "p dvd n" "p * p \<le> n" using composite_divisor [of n] n(2) by auto
    have "p \<noteq> 2" "p \<noteq> 3" "p \<noteq> 5" "p \<noteq> 7" using p(2) n(3) by (auto simp: potential_def)
    moreover have "\<not> p < 11" 
    proof
      assume "p < 11"
      then have "p \<in> set ([0, 2, 3, 5, 7] @ drop 5 (butlast small_primes) @ [211])"
        using small_prime_iff [of p] p(1) by (simp only: small_primes_split [symmetric]) simp
      then have "p \<in> {0, 2, 3, 5, 7}" using \<open>p < 11\<close> ps(1) [of p] by (simp only: set_append ps_def) auto
      with calculation p(1) show False by (auto simp: is_prime_def)
    qed
    ultimately show False using no [OF p(1,3)] p(2) by simp
  qed
  have comp: "\<not> is_prime n" if "p dvd n" "p * p \<le> n" "2 \<le> p" for p
  proof
    assume "is_prime n"
    with that have "p = n" by (auto simp: is_prime_def)
    moreover have "p * 2 \<le> p * p" using that(3) by (rule mult_le_mono2)
    ultimately show False using that(2,3) by simp
  qed
  show ?thesis
  proof (cases "divide_small ps n")
    case Prime
    with c obtain p where p: "p \<in> set ps" "n < p * p" "\<forall>d\<in>set ps. d < p \<longrightarrow> \<not> d dvd n" by auto
    have "is_prime n"
    proof (rule prime)
      fix r assume r: "is_prime r" "r * r \<le> n" "11 \<le> r"
      then have "r < p" using p(2) by (metis le_less_trans mult_le_mono not_le)
      moreover from this ps(1) [OF p(1)] r have "r \<in> set ps" unfolding ps_def by (intro small_list_primes) auto
      ultimately show "\<not> r dvd n" using p(3) by blast
    qed
    with Prime show ?thesis by (simp add: test_candidate_def ps_def)
  next
    case Composite
    with c obtain p where "p \<in> set ps" "p dvd n" "p * p \<le> n" by auto
    with ps(1) [of p] comp [of p] have "\<not> is_prime n" by simp
    with Composite show ?thesis by (simp add: test_candidate_def ps_def)
  next
    case Undecided
    with c have small: "\<forall>d\<in>set ps. \<not> d dvd n \<and> d * d \<le> n" by auto
    have "undivided n (210 * 1 + 1)" by (auto simp: undivided_def)
    from divide_potential_decides [OF n(1) _ _ this] obtain v where
      v: "divide_potential n 211 = Some v" "decides v n" by auto
    from v(2) have "v = (if is_prime n then Prime else Composite)"
      unfolding decides_def
    proof (elim disjE conjE)
      assume no: "\<forall>d. potential d \<and> 211 \<le> d \<and> d * d \<le> n \<longrightarrow> \<not> d dvd n" and "v = Prime"
      have "is_prime n"
      proof (rule prime)
        fix r assume r: "is_prime r" "r * r \<le> n" "11 \<le> r"
        show "\<not> r dvd n"
        proof (cases "r < 211")
          case True
          with small small_list_primes [OF r(1,3)] show ?thesis unfolding ps_def by blast
        next
          case False
          with no r prime_potential [OF r(1)] show ?thesis by auto
        qed
      qed
      with \<open>v = Prime\<close> show ?thesis by simp
    next
      assume "\<exists>d. 211 \<le> d \<and> d dvd n \<and> d * d \<le> n" "v = Composite"
      with comp show ?thesis by force
    qed
    with Undecided v(1) show ?thesis by (simp add: test_candidate_def ps_def)
  qed
qed

section \<open>The search\<close>

text \<open>The potential primes in ascending order.\<close>

definition candidate :: "nat \<Rightarrow> nat \<Rightarrow> nat" where
  "candidate k inx = 210 * k + indices ! inx"

definition next_position :: "nat \<Rightarrow> nat \<Rightarrow> nat \<times> nat" where
  "next_position k inx = (if inx + 1 = length indices then (k + 1, 0) else (k, inx + 1))"

lemma length_indices: "length indices = 48"
  by (simp add: indices_def)

lemma indices_mem: "inx < 48 \<Longrightarrow> 0 < indices ! inx \<and> indices ! inx < 210 \<and> potential (indices ! inx)"
proof -
  assume "inx < 48"
  then have "indices ! inx \<in> set indices" by (simp add: length_indices)
  moreover have "\<forall>x\<in>set indices. 0 < x \<and> x < 210 \<and> potential x" by (simp add: indices_def potential_def)
  ultimately show ?thesis by blast
qed

lemma candidate_potential: "inx < 48 \<Longrightarrow> potential (candidate k inx)"
proof -
  assume i: "inx < 48"
  have "candidate k inx mod 210 = indices ! inx" using indices_mem [OF i] by (simp add: candidate_def)
  then show ?thesis using i by (simp add: potential_mod length_indices)
qed

lemma indices_order: "i < 48 \<Longrightarrow> j < 48 \<Longrightarrow> indices ! i < indices ! j \<longleftrightarrow> i < j"
  using sorted_wrt_iff_nth_less [of "(<)" indices] sorted_tables(2)
  by (metis length_indices linorder_neqE_nat order_less_asym order_less_irrefl)

lemma potential_candidate: "potential d \<Longrightarrow> \<exists>inx<48. d = candidate (d div 210) inx"
proof -
  assume "potential d"
  then have "d mod 210 \<in> set indices" by (simp only: potential_mod)
  then obtain inx where "inx < 48" "indices ! inx = d mod 210" by (metis in_set_conv_nth length_indices)
  then show ?thesis unfolding candidate_def by (metis mult_div_mod_eq)
qed

lemma candidate_less_iff:
  assumes "i < 48" and "j < 48"
  shows "candidate k i < candidate l j \<longleftrightarrow> k < l \<or> k = l \<and> i < j"
proof -
  have "indices ! i < 210" "indices ! j < 210" using indices_mem assms by auto
  then show ?thesis using indices_order [OF assms] unfolding candidate_def
    by (cases "k < l"; cases "k = l") auto
qed

lemma no_potential_between:
  assumes i: "inx < 48" and "next_position k inx = (l, j)"
  shows "j < 48" and "candidate k inx < candidate l j"
    and "potential d \<Longrightarrow> candidate k inx < d \<Longrightarrow> candidate l j \<le> d"
proof -
  show j: "j < 48" using assms by (auto simp: next_position_def length_indices split: if_splits)
  show "candidate k inx < candidate l j"
    using assms candidate_less_iff [OF i j] by (auto simp: next_position_def split: if_splits)
  assume "potential d" "candidate k inx < d"
  then obtain m where m: "m < 48" "d = candidate (d div 210) m" using potential_candidate by blast
  then have "\<not> candidate (d div 210) m < candidate l j"
    using \<open>candidate k inx < d\<close> candidate_less_iff [OF i m(1), of k "d div 210"]
      candidate_less_iff [OF m(1) j, of "d div 210" l] assms(2) m(1)
    by (auto simp: next_position_def length_indices split: if_splits)
  then show "candidate l j \<le> d" using m(2) by simp
qed

lemma search_correct:
  assumes P: "is_prime P" "P < W64"
  shows "inx < 48 \<Longrightarrow> 1 \<le> k \<Longrightarrow> candidate k inx \<le> P \<Longrightarrow>
    \<exists>r. search k inx (candidate k inx) = Some r \<and> is_prime r \<and> candidate k inx \<le> r \<and>
      (\<forall>m. candidate k inx \<le> m \<and> m < r \<longrightarrow> \<not> is_prime m)"
proof (induction "P - candidate k inx" arbitrary: k inx rule: less_induct)
  case less
  let ?c = "candidate k inx"
  have c: "?c < W64" "211 \<le> ?c" using less.prems P(2) indices_mem [of inx] by (auto simp: candidate_def)
  have test: "test_candidate ?c = Some (if is_prime ?c then Prime else Composite)"
  proof (cases "?c = 211")
    case True
    have "is_prime 211" by (subst is_prime_bound [of _ 15]) (simp_all add: atLeastLessThan_nat_numeral)
    moreover have "test_candidate 211 = Some Prime"
      by (simp add: test_candidate_def small_primes_def)
    ultimately show ?thesis using True by simp
  next
    case False
    with c less.prems show ?thesis by (intro test_candidate_eq candidate_potential) auto
  qed
  show ?case
  proof (cases "is_prime ?c")
    case True
    then have "search k inx ?c = Some ?c" using test by (subst search.simps) simp
    with True show ?thesis by auto
  next
    case False
    obtain l j where lj: "next_position k inx = (l, j)" by fastforce
    note nxt = no_potential_between [OF less.prems(1) lj]
    have "P \<noteq> ?c" using False P(1) by auto
    then have lt: "?c < P" using less.prems(3) by simp
    then have le: "candidate l j \<le> P" using c(2) by (intro nxt(3) prime_potential [OF P(1)]) simp_all
    have l: "1 \<le> l" "l < W64" using lj less.prems le P(2)
      by (auto simp: next_position_def candidate_def split: if_splits)
    have eq: "search k inx ?c = search l j (candidate l j)"
      using test False lj l(2) le P(2)
      by (subst search.simps) (auto simp: next_position_def candidate_def Let_def split: if_splits)
    have "P - candidate l j < P - ?c" using lt nxt(2) by simp
    from less.hyps [OF this nxt(1) l(1) le] obtain r where r: "search l j (candidate l j) = Some r"
      "is_prime r" "candidate l j \<le> r" "\<forall>m. candidate l j \<le> m \<and> m < r \<longrightarrow> \<not> is_prime m" by blast
    have "\<not> is_prime m" if m: "?c \<le> m" "m < r" for m
    proof
      assume p: "is_prime m"
      with m(1) False have "?c < m" by (cases "?c = m") auto
      with p c(2) have "candidate l j \<le> m" by (intro nxt(3) prime_potential) simp_all
      with r(4) m(2) p show False by blast
    qed
    with r eq nxt(2) show ?thesis by (intro exI [of _ r]) auto
  qed
qed

lemma first_candidate:
  assumes "211 < n"
  shows "lower_bound indices (n - n div 210 * 210) 0 (length indices) < 48"
    and "n \<le> candidate (n div 210) (lower_bound indices (n - n div 210 * 210) 0 (length indices))"
    and "potential d \<Longrightarrow> n \<le> d \<Longrightarrow>
      candidate (n div 210) (lower_bound indices (n - n div 210 * 210) 0 (length indices)) \<le> d"
proof -
  define v where "v = n - n div 210 * 210"
  define inx where "inx = lower_bound indices v 0 (length indices)"
  have v: "v = n mod 210" "v < 210" "n = 210 * (n div 210) + v"
    unfolding v_def by (simp_all add: minus_div_mult_eq_mod)
  have "sorted indices" using sorted_tables(2) by (simp add: strict_sorted_imp_sorted)
  from lower_bound_spec [OF this, of 0 "length indices" v] have
    lb: "inx \<le> 48" "\<And>k. k < inx \<Longrightarrow> indices ! k < v" "\<And>k. inx \<le> k \<Longrightarrow> k < 48 \<Longrightarrow> v \<le> indices ! k"
    by (auto simp: inx_def length_indices)
  have "indices ! 47 = 209" by (simp add: indices_def)
  with lb(2) [of 47] v(2) lb(1) have inx: "inx < 48" by (cases "inx = 48") auto
  then have "n \<le> candidate (n div 210) inx" using lb(3) [of inx] v(3) by (simp add: candidate_def)
  moreover have "candidate (n div 210) inx \<le> d" if d: "potential d" "n \<le> d" for d
  proof -
    obtain m where m: "m < 48" "d = candidate (d div 210) m" using potential_candidate [OF d(1)] by blast
    have "\<not> candidate (d div 210) m < candidate (n div 210) inx"
    proof
      assume "candidate (d div 210) m < candidate (n div 210) inx"
      then have "d div 210 < n div 210 \<or> d div 210 = n div 210 \<and> m < inx"
        using candidate_less_iff [OF m(1) inx] by blast
      moreover have "n div 210 \<le> d div 210" using d(2) by (rule div_le_mono)
      ultimately have "d div 210 = n div 210" "indices ! m < v" using lb(2) by auto
      with m(2) d(2) v(3) show False unfolding candidate_def by linarith
    qed
    with m(2) show ?thesis by simp
  qed
  ultimately show "lower_bound indices (n - n div 210 * 210) 0 (length indices) < 48"
    "n \<le> candidate (n div 210) (lower_bound indices (n - n div 210 * 210) 0 (length indices))"
    "potential d \<Longrightarrow> n \<le> d \<Longrightarrow>
      candidate (n div 210) (lower_bound indices (n - n div 210 * 210) 0 (length indices)) \<le> d"
    using inx by (auto simp: inx_def v_def)
qed

lemma small_case:
  assumes "n \<le> 211"
  shows "\<exists>r. next_prime n = Some (Inr r) \<and> n \<le> r \<and> (n = 0 \<longrightarrow> r = 0) \<and> (0 < n \<longrightarrow> is_prime r) \<and>
    (\<forall>m. n \<le> m \<and> m < r \<longrightarrow> \<not> is_prime m)"
proof -
  let ?i = "lower_bound small_primes n 0 (length small_primes)"
  have len: "length small_primes = 48" and last: "small_primes ! 47 = 211" and first: "small_primes ! 0 = 0"
    by (simp_all add: small_primes_def)
  from lower_bound_spec [OF sorted_tables(1), of 0 "length small_primes" n]
  have lb: "?i \<le> 48" "\<And>k. k < ?i \<Longrightarrow> small_primes ! k < n" "\<And>k. ?i \<le> k \<Longrightarrow> k < 48 \<Longrightarrow> n \<le> small_primes ! k"
    by (auto simp: len)
  from lb(2) [of 47] last assms lb(1) have i: "?i < 48" by (cases "?i = 48") auto
  let ?r = "small_primes ! ?i"
  have le: "n \<le> ?r" using lb(3) [of ?i] i by simp
  have mem: "?r \<in> set small_primes" using i len by (metis nth_mem)
  have "\<not> is_prime m" if m: "n \<le> m" "m < ?r" for m
  proof
    assume p: "is_prime m"
    have "?r \<le> 211" using mem by (auto simp: small_prime_iff)
    with m p have "m \<in> set small_primes" by (simp add: small_prime_iff)
    then obtain k where k: "k < 48" "small_primes ! k = m" by (metis in_set_conv_nth len)
    then have "\<not> k < ?i" using lb(2) [of k] m(1) by auto
    then have "?r \<le> m" using sorted_nth_mono [OF sorted_tables(1), of ?i k] k len by simp
    with m(2) show False by simp
  qed
  moreover have "next_prime n = Some (Inr ?r)" using assms last by (simp add: next_prime_def len)
  moreover have "?r = 0" if "n = 0"
  proof -
    have "?i = 0" using lb(2) [of 0] that by (cases "?i = 0") auto
    then show ?thesis using first by simp
  qed
  moreover have "is_prime ?r" if "0 < n" using mem le that by (auto simp: small_prime_iff)
  ultimately show ?thesis using le by blast
qed

section \<open>Properties\<close>

text \<open>
  Above the largest prime of 64 bits \<open>__next_prime\<close> throws \<open>overflow_error\<close>, and nowhere else:
  it never runs into a wrapped candidate.
\<close>

lemma next_prime_overflow:
  "next_prime n = Some (Inl Overflow_error) \<longleftrightarrow> 0xFFFFFFFFFFFFFFC5 < n"
  by (auto simp: next_prime_def check_for_overflow_def small_primes_def Let_def)

lemma next_prime_least:
  assumes "is_prime P" and "n \<le> P" and "P \<le> 0xFFFFFFFFFFFFFFC5"
  shows "\<exists>r. next_prime n = Some (Inr r) \<and> n \<le> r \<and> (n = 0 \<longrightarrow> r = 0) \<and> (0 < n \<longrightarrow> is_prime r) \<and>
    (\<forall>m. n \<le> m \<and> m < r \<longrightarrow> \<not> is_prime m)"
proof (cases "n \<le> 211")
  case False
  then have n: "211 < n" by simp
  define inx where "inx = lower_bound indices (n - n div 210 * 210) 0 (length indices)"
  note f = first_candidate [OF n, folded inx_def]
  have P: "P < W64" using assms(3) by simp
  have le: "candidate (n div 210) inx \<le> P" using n assms(2) by (intro f(3) prime_potential [OF assms(1)]) simp_all
  have "1 \<le> n div 210" using n by (simp add: less_eq_div_iff_mult_less_eq)
  from search_correct [OF assms(1) P f(1) this le] obtain r where
    r: "search (n div 210) inx (candidate (n div 210) inx) = Some r" "is_prime r"
      "candidate (n div 210) inx \<le> r" "\<forall>m. candidate (n div 210) inx \<le> m \<and> m < r \<longrightarrow> \<not> is_prime m" by blast
  have "candidate (n div 210) inx mod W64 = candidate (n div 210) inx" using le P by simp
  then have "next_prime n = Some (Inr r)"
    using n assms(2,3) r(1) by (simp add: next_prime_def small_primes_def check_for_overflow_def Let_def
        inx_def [symmetric] candidate_def)
  moreover have "\<not> is_prime m" if m: "n \<le> m" "m < r" for m
  proof
    assume p: "is_prime m"
    with m(1) n have "candidate (n div 210) inx \<le> m" by (intro f(3) prime_potential) simp_all
    with r(4) m(2) p show False by blast
  qed
  ultimately show ?thesis using r f(2) n by (intro exI [of _ r]) auto
qed (rule small_case)

text \<open>
  C6: For every \<open>n\<close> with a prime between it and 18446744073709551557 (the largest prime of 64 bits,
  the bound that the code checks), \<open>__next_prime\<close> returns, and returns the least prime that is not
  below \<open>n\<close>; for 0 it returns 0.  Above the bound, and
  nowhere else, it throws \<open>overflow_error\<close>.
\<close>

theorem next_prime_correct:
  assumes "is_prime P" and "n \<le> P" and "P \<le> 0xFFFFFFFFFFFFFFC5"
  shows "(\<exists>r. next_prime n = Some (Inr r) \<and> n \<le> r \<and> (n = 0 \<longrightarrow> r = 0) \<and> (0 < n \<longrightarrow> is_prime r) \<and>
      (\<forall>m. n \<le> m \<and> m < r \<longrightarrow> \<not> is_prime m)) \<and>
    (\<forall>m. next_prime m = Some (Inl Overflow_error) \<longleftrightarrow> 0xFFFFFFFFFFFFFFC5 < m)"
  using next_prime_least [OF assms] next_prime_overflow by simp

theorem next_prime_correct_witness: "next_prime 1000 = Some (Inr 1009)"
proof -
  have "\<not> is_prime m" if "1000 \<le> m" "m < 1009" for m
  proof -
    have "m \<in> {1000, 1001, 1002, 1003, 1004, 1005, 1006, 1007, 1008}" using that by auto
    then have "2 dvd m \<or> 3 dvd m \<or> 5 dvd m \<or> 7 dvd m \<or> 17 dvd m \<or> 19 dvd m" by auto
    with that show ?thesis by (auto simp: is_prime_def)
  qed
  moreover have p: "is_prime 1009"
  proof -
    have "{2..<32::nat} = {2, 3, 4, 5, 6, 7, 8, 9, 10, 11, 12, 13, 14, 15, 16, 17, 18, 19, 20, 21, 22,
        23, 24, 25, 26, 27, 28, 29, 30, 31}"
      by (simp only: set_upt [symmetric]) (simp add: upt_rec_numeral del: set_upt)
    then show ?thesis by (simp only: is_prime_bound [of 1009 32]) simp
  qed
  ultimately have only: "m = 1009" if "is_prime m" "1000 \<le> m" "m \<le> 1009" for m
    using that by (cases "m < 1009") auto
  obtain r where r: "next_prime 1000 = Some (Inr r)" "1000 \<le> r" "is_prime r"
    "\<forall>m. 1000 \<le> m \<and> m < r \<longrightarrow> \<not> is_prime m"
    using next_prime_correct [OF p, of 1000] by auto
  then have "r \<le> 1009" using p by (cases "1009 < r") auto
  with r only show ?thesis by blast
qed

end
