(* ===== verification/Strstreambuf.thy ===== *)
theory Strstreambuf
  imports Prelude
begin

text \<open>
  \<open>strstreambuf\<close> of \<open>src/src/strstream.cpp\<close>, a stream buffer over an array that grows, and the inline
  functions of \<open>basic_streambuf\<close> (\<open>src/include/streambuf\<close>) that call its virtual functions.

  The six pointers of the base class are offsets in the one array \<open>mem\<close>, or null.  A read or a
  write outside of the array, the dereference of a null pointer and the difference of a null and a
  proper pointer are \<open>Fault\<close>.  The allocator is a parameter: it returns the indeterminate contents of
  the new array, or nothing; then \<open>new\<close> throws, and a custom \<open>palloc\<close> has returned null.
\<close>

unbundle bit_operations_syntax

section \<open>State\<close>

type_synonym ptr = "nat option"

record strbuf =
  mem :: "u8 list"
  eback :: ptr
  gptr :: ptr
  egptr :: ptr
  pbase :: ptr
  pptr :: ptr
  epptr :: ptr
  strmode :: u32
  alsize :: int
  palloc :: bool
  pfree :: bool

datatype 'a sb_result = Ok 'a | Bad_alloc | Fault

definition mode_allocated :: u32 where "mode_allocated = 1"
definition mode_constant :: u32 where "mode_constant = 2"
definition mode_dynamic :: u32 where "mode_dynamic = 4"
definition mode_frozen :: u32 where "mode_frozen = 8"

definition EOF :: int where "EOF = -1"
definition INT_MAX :: int where "INT_MAX = 2147483647"
definition size_t :: "int \<Rightarrow> nat" where "size_t n = nat (n mod 18446744073709551616)"

text \<open>\<open>static_cast<char>\<close> of an \<open>int\<close>, and \<open>to_int_type\<close>.\<close>

definition char_of_int :: "int \<Rightarrow> u8" where "char_of_int c = word_of_int c"
definition to_int :: "u8 \<Rightarrow> int" where "to_int b = uint b"

section \<open>Pointers\<close>

fun diff :: "ptr \<Rightarrow> ptr \<Rightarrow> int option" where
  "diff None None = Some 0"
| "diff (Some p) (Some q) = Some (int p - int q)"
| "diff _ _ = None"

text \<open>The comparison \<open>p >= q\<close>: null is below every pointer.\<close>

fun at_least :: "ptr \<Rightarrow> ptr \<Rightarrow> bool" where
  "at_least _ None = True"
| "at_least None (Some q) = False"
| "at_least (Some p) (Some q) = (q \<le> p)"

definition max_ptr :: "ptr \<Rightarrow> ptr \<Rightarrow> ptr" where
  "max_ptr p q = (if at_least p q then p else q)"

definition min_ptr :: "ptr \<Rightarrow> ptr \<Rightarrow> ptr" where
  "min_ptr p q = (if at_least q p then p else q)"

definition bump :: "ptr \<Rightarrow> int \<Rightarrow> ptr option" where
  "bump p n = (case p of None \<Rightarrow> (if n = 0 then Some None else None)
     | Some p \<Rightarrow> if 0 \<le> int p + n then Some (Some (nat (int p + n))) else None)"

definition setg :: "ptr \<Rightarrow> ptr \<Rightarrow> ptr \<Rightarrow> strbuf \<Rightarrow> strbuf" where
  "setg b n e s = s\<lparr>eback := b, gptr := n, egptr := e\<rparr>"

definition setp :: "ptr \<Rightarrow> ptr \<Rightarrow> strbuf \<Rightarrow> strbuf" where
  "setp b e s = s\<lparr>pbase := b, pptr := b, epptr := e\<rparr>"

definition pbump :: "int \<Rightarrow> strbuf \<Rightarrow> strbuf option" where
  "pbump n s = map_option (\<lambda>p. s\<lparr>pptr := p\<rparr>) (bump (pptr s) n)"

definition gbump :: "int \<Rightarrow> strbuf \<Rightarrow> strbuf option" where
  "gbump n s = map_option (\<lambda>p. s\<lparr>gptr := p\<rparr>) (bump (gptr s) n)"

definition load :: "ptr \<Rightarrow> strbuf \<Rightarrow> u8 option" where
  "load p s = (case p of None \<Rightarrow> None | Some p \<Rightarrow> if p < length (mem s) then Some (mem s ! p) else None)"

definition store :: "ptr \<Rightarrow> u8 \<Rightarrow> strbuf \<Rightarrow> strbuf option" where
  "store p b s = (case p of None \<Rightarrow> None
     | Some p \<Rightarrow> if p < length (mem s) then Some (s\<lparr>mem := (mem s)[p := b]\<rparr>) else None)"

text \<open>A defined value, or a fault.\<close>

definition ok_or_fault :: "'a option \<Rightarrow> 'a sb_result" where
  "ok_or_fault x = (case x of None \<Rightarrow> Fault | Some y \<Rightarrow> Ok y)"

section \<open>Construction and destruction\<close>

definition null_streambuf :: strbuf where
  "null_streambuf = \<lparr>mem = [], eback = None, gptr = None, egptr = None, pbase = None, pptr = None,
     epptr = None, strmode = 0, alsize = 4096, palloc = False, pfree = False\<rparr>"

definition strstreambuf_dynamic :: "int \<Rightarrow> strbuf" where
  "strstreambuf_dynamic n = null_streambuf\<lparr>strmode := mode_dynamic, alsize := n\<rparr>"

definition strstreambuf_alloc :: "bool \<Rightarrow> bool \<Rightarrow> strbuf" where
  "strstreambuf_alloc p f = null_streambuf\<lparr>strmode := mode_dynamic, palloc := p, pfree := f\<rparr>"

text \<open>\<open>__init\<close> for a pointer \<open>gnext\<close> into the array \<open>mem\<close>; \<open>strlen\<close> needs a zero behind it.\<close>

definition strlen :: "nat \<Rightarrow> u8 list \<Rightarrow> nat option" where
  "strlen p m = (if 0 \<in> set (drop p m) then Some (length (takeWhile (\<lambda>b. b \<noteq> 0) (drop p m))) else None)"

definition sb_init :: "nat \<Rightarrow> int \<Rightarrow> ptr \<Rightarrow> strbuf \<Rightarrow> strbuf option" where
  "sb_init gnext n pbeg s =
     Option.bind (if n = 0 then map_option int (strlen gnext (mem s)) else if n < 0 then Some INT_MAX else Some n)
       (\<lambda>n. case pbeg of
          None \<Rightarrow> Some (setg (Some gnext) (Some gnext) (Some (gnext + nat n)) s)
        | Some b \<Rightarrow> Some (setp (Some b) (Some (b + nat n)) (setg (Some gnext) (Some gnext) (Some b) s)))"

definition strstreambuf_array :: "u8 list \<Rightarrow> nat \<Rightarrow> int \<Rightarrow> ptr \<Rightarrow> strbuf option" where
  "strstreambuf_array m gnext n pbeg = sb_init gnext n pbeg (null_streambuf\<lparr>mem := m\<rparr>)"

definition strstreambuf_constant :: "u8 list \<Rightarrow> nat \<Rightarrow> int \<Rightarrow> strbuf option" where
  "strstreambuf_constant m gnext n = sb_init gnext n None (null_streambuf\<lparr>mem := m, strmode := mode_constant\<rparr>)"

text \<open>What the destructor releases, and how.\<close>

datatype release = Not_released | Pfree ptr | Delete ptr

definition sb_destroy :: "strbuf \<Rightarrow> release" where
  "sb_destroy s =
     (if eback s \<noteq> None \<and> strmode s AND mode_allocated \<noteq> 0 \<and> strmode s AND mode_frozen = 0 then
        (if pfree s then Pfree (eback s) else Delete (eback s))
      else Not_released)"

definition sb_swap :: "strbuf \<Rightarrow> strbuf \<Rightarrow> strbuf \<times> strbuf" where
  "sb_swap s rhs = (rhs, s)"

definition sb_freeze :: "bool \<Rightarrow> strbuf \<Rightarrow> strbuf" where
  "sb_freeze freezefl s =
     (if strmode s AND mode_dynamic \<noteq> 0 then
        (if freezefl then s\<lparr>strmode := strmode s OR mode_frozen\<rparr> else s\<lparr>strmode := strmode s AND NOT mode_frozen\<rparr>)
      else s)"

definition sb_str :: "strbuf \<Rightarrow> ptr \<times> strbuf" where
  "sb_str s =
     (let s = (if strmode s AND mode_dynamic \<noteq> 0 then s\<lparr>strmode := strmode s OR mode_frozen\<rparr> else s) in (eback s, s))"

definition sb_pcount :: "strbuf \<Rightarrow> int option" where
  "sb_pcount s = map_option (signed_take_bit 31) (diff (pptr s) (pbase s))"

section \<open>The virtual functions\<close>

text \<open>The copy of \<open>n\<close> bytes from \<open>p\<close> to the beginning of a new array.\<close>

definition copy_to :: "u8 list \<Rightarrow> ptr \<Rightarrow> nat \<Rightarrow> u8 list \<Rightarrow> u8 list option" where
  "copy_to m p n buf =
     (if n = 0 then Some buf
      else case p of None \<Rightarrow> None
      | Some p \<Rightarrow> if p + n \<le> length m \<and> n \<le> length buf then Some (take n (drop p m) @ drop n buf) else None)"

definition put_char :: "int \<Rightarrow> strbuf \<Rightarrow> (int \<times> strbuf) sb_result" where
  "put_char c s = ok_or_fault
     (Option.bind (store (pptr s) (char_of_int c) s) (\<lambda>s.
      Option.bind (pbump 1 s) (\<lambda>s. Some (to_int (char_of_int c), s))))"

definition sb_grow :: "u8 list \<Rightarrow> nat \<Rightarrow> nat \<Rightarrow> strbuf \<Rightarrow> strbuf option" where
  "sb_grow buf old_size new_size s =
     Option.bind (copy_to (mem s) (eback s) old_size buf) (\<lambda>m.
     Option.bind (diff (gptr s) (eback s)) (\<lambda>ninp.
     Option.bind (diff (egptr s) (eback s)) (\<lambda>einp.
     Option.bind (diff (pptr s) (pbase s)) (\<lambda>nout.
     Option.bind (pbump nout (setp (Some (nat einp)) (Some new_size)
        (setg (Some 0) (Some (nat ninp)) (Some (nat einp)) (s\<lparr>mem := m\<rparr>)))) (\<lambda>s.
     Some (s\<lparr>strmode := strmode s OR mode_allocated\<rparr>))))))"

text \<open>The size of the new array.\<close>

definition grown_size :: "nat \<Rightarrow> strbuf \<Rightarrow> nat" where
  "grown_size old_size s =
     (let new_size = max (size_t (alsize s)) (size_t (2 * int old_size)) in
      if new_size = 0 then 4096 else new_size)"

definition sb_overflow :: "(nat \<Rightarrow> u8 list option) \<Rightarrow> int \<Rightarrow> strbuf \<Rightarrow> (int \<times> strbuf) sb_result" where
  "sb_overflow alloc c s =
     (if c = EOF then Ok (0, s)
      else if pptr s = epptr s then
        (if strmode s AND mode_dynamic = 0 \<or> strmode s AND mode_frozen \<noteq> 0 then Ok (EOF, s)
         else case diff (if epptr s \<noteq> None then epptr s else egptr s) (eback s) of
           None \<Rightarrow> Fault
         | Some n \<Rightarrow>
             let old_size = size_t n;
                 new_size = grown_size old_size s in
             (case alloc new_size of
                None \<Rightarrow> if palloc s then Ok (EOF, s) else Bad_alloc
              | Some buf \<Rightarrow>
                  (case sb_grow buf old_size new_size s of None \<Rightarrow> Fault | Some s \<Rightarrow> put_char c s)))
      else put_char c s)"

definition sb_pbackfail :: "int \<Rightarrow> strbuf \<Rightarrow> (int \<times> strbuf) sb_result" where
  "sb_pbackfail c s =
     (if eback s = gptr s then Ok (EOF, s)
      else if c = EOF then ok_or_fault (map_option (\<lambda>s. (0, s)) (gbump (-1) s))
      else if strmode s AND mode_constant \<noteq> 0 then
        ok_or_fault (Option.bind (bump (gptr s) (-1)) (\<lambda>p. Option.bind (load p s) (\<lambda>b.
          if b = char_of_int c then map_option (\<lambda>s. (c, s)) (gbump (-1) s) else Some (EOF, s))))
      else
        ok_or_fault (Option.bind (gbump (-1) s) (\<lambda>s.
          map_option (\<lambda>s. (c, s)) (store (gptr s) (char_of_int c) s))))"

definition sb_underflow :: "strbuf \<Rightarrow> (int \<times> strbuf) sb_result" where
  "sb_underflow s =
     (if gptr s = egptr s \<and> at_least (egptr s) (pptr s) then Ok (EOF, s)
      else
        let s = (if gptr s = egptr s then setg (eback s) (gptr s) (pptr s) s else s) in
        ok_or_fault (map_option (\<lambda>b. (to_int b, s)) (load (gptr s) s)))"

datatype seekdir = Beg | Cur | End

text \<open>What \<open>seekoff\<close> and \<open>seekpos\<close> do with a new position in range.\<close>

definition move_to :: "bool \<Rightarrow> bool \<Rightarrow> int \<Rightarrow> strbuf \<Rightarrow> strbuf option" where
  "move_to pos_in pos_out newoff s =
     Option.bind (bump (eback s) newoff) (\<lambda>newpos.
       let s = (if pos_in then setg (eback s) newpos (max_ptr newpos (egptr s)) s else s) in
       if pos_out then
         Option.bind (diff (epptr s) newpos) (\<lambda>off.
           let s = setp (min_ptr (pbase s) newpos) (epptr s) s in
           Option.bind (diff (epptr s) (pbase s)) (\<lambda>n. pbump (n - off) s))
       else Some s)"

definition sb_seekoff :: "int \<Rightarrow> seekdir \<Rightarrow> bool \<Rightarrow> bool \<Rightarrow> strbuf \<Rightarrow> (int \<times> strbuf) sb_result" where
  "sb_seekoff off way pos_in pos_out s =
     (let legal = (case way of Beg \<Rightarrow> pos_in \<or> pos_out | End \<Rightarrow> pos_in \<or> pos_out | Cur \<Rightarrow> pos_in \<noteq> pos_out);
          legal = (if pos_in \<and> gptr s = None then False else legal);
          legal = (if pos_out \<and> pptr s = None then False else legal) in
      if legal then
        (let seekhigh = (if epptr s \<noteq> None then epptr s else egptr s) in
         ok_or_fault (Option.bind (diff seekhigh (eback s)) (\<lambda>high.
           Option.bind (case way of Beg \<Rightarrow> Some 0 | Cur \<Rightarrow> diff (if pos_in then gptr s else pptr s) (eback s)
             | End \<Rightarrow> Some high) (\<lambda>newoff.
             let newoff = newoff + off in
             if 0 \<le> newoff \<and> newoff \<le> high then map_option (\<lambda>s. (newoff, s)) (move_to pos_in pos_out newoff s)
             else Some (-1, s)))))
      else Ok (-1, s))"

definition sb_seekpos :: "int \<Rightarrow> bool \<Rightarrow> bool \<Rightarrow> strbuf \<Rightarrow> (int \<times> strbuf) sb_result" where
  "sb_seekpos sp pos_in pos_out s =
     (if (pos_in \<or> pos_out) \<and> \<not> (pos_in \<and> gptr s = None \<or> pos_out \<and> pptr s = None) then
        (let seekhigh = (if epptr s \<noteq> None then epptr s else egptr s) in
         ok_or_fault (Option.bind (diff seekhigh (eback s)) (\<lambda>high.
           if 0 \<le> sp \<and> sp \<le> high then map_option (\<lambda>s. (sp, s)) (move_to pos_in pos_out sp s)
           else Some (-1, s))))
      else Ok (-1, s))"

section \<open>The public functions of the base class\<close>

definition sb_sputc :: "(nat \<Rightarrow> u8 list option) \<Rightarrow> u8 \<Rightarrow> strbuf \<Rightarrow> (int \<times> strbuf) sb_result" where
  "sb_sputc alloc c s =
     (if pptr s = epptr s then sb_overflow alloc (to_int c) s
      else ok_or_fault (Option.bind (store (pptr s) c s) (\<lambda>s.
        Option.bind (pbump 1 s) (\<lambda>s. Some (to_int c, s)))))"

definition sb_sgetc :: "strbuf \<Rightarrow> (int \<times> strbuf) sb_result" where
  "sb_sgetc s =
     (if gptr s = egptr s then sb_underflow s
      else ok_or_fault (map_option (\<lambda>b. (to_int b, s)) (load (gptr s) s)))"

definition sb_uflow :: "strbuf \<Rightarrow> (int \<times> strbuf) sb_result" where
  "sb_uflow s =
     (case sb_underflow s of
        Ok (r, s) \<Rightarrow>
          if r = EOF then Ok (EOF, s)
          else ok_or_fault (Option.bind (load (gptr s) s) (\<lambda>b. map_option (\<lambda>s. (to_int b, s)) (gbump 1 s)))
      | Bad_alloc \<Rightarrow> Bad_alloc | Fault \<Rightarrow> Fault)"

definition sb_sbumpc :: "strbuf \<Rightarrow> (int \<times> strbuf) sb_result" where
  "sb_sbumpc s =
     (if gptr s = egptr s then sb_uflow s
      else ok_or_fault (Option.bind (load (gptr s) s) (\<lambda>b. map_option (\<lambda>s. (to_int b, s)) (gbump 1 s))))"

definition sb_sputbackc :: "u8 \<Rightarrow> strbuf \<Rightarrow> (int \<times> strbuf) sb_result" where
  "sb_sputbackc c s =
     (if eback s = gptr s then sb_pbackfail (to_int c) s
      else case Option.bind (bump (gptr s) (-1)) (\<lambda>p. load p s) of
        None \<Rightarrow> Fault
      | Some b \<Rightarrow>
          if c \<noteq> b then sb_pbackfail (to_int c) s
          else ok_or_fault (map_option (\<lambda>s. (to_int b, s)) (gbump (-1) s)))"

definition sb_sungetc :: "strbuf \<Rightarrow> (int \<times> strbuf) sb_result" where
  "sb_sungetc s =
     (if eback s = gptr s then sb_pbackfail EOF s
      else ok_or_fault (Option.bind (gbump (-1) s) (\<lambda>s. map_option (\<lambda>b. (to_int b, s)) (load (gptr s) s))))"

lemma chunk_less: "\<not> at_least x y \<Longrightarrow> Some p = x \<Longrightarrow> Some e = y \<Longrightarrow> p < e"
  by auto

text \<open>
  \<open>xsputn\<close> of the text \<open>xs\<close>, of which \<open>i\<close> characters have been written: as many as fit into the put area
  are copied at once, the next goes through \<open>overflow\<close>.
\<close>

function sb_xsputn :: "(nat \<Rightarrow> u8 list option) \<Rightarrow> u8 list \<Rightarrow> nat \<Rightarrow> strbuf \<Rightarrow> (nat \<times> strbuf) sb_result" where
  "sb_xsputn alloc xs i s =
     (if i < length xs then
        (if at_least (pptr s) (epptr s) then
           (case sb_overflow alloc (to_int (xs ! i)) s of
              Ok (r, s) \<Rightarrow> if r = EOF then Ok (i, s) else sb_xsputn alloc xs (i + 1) s
            | Bad_alloc \<Rightarrow> Bad_alloc | Fault \<Rightarrow> Fault)
         else
           (case (pptr s, epptr s) of
              (Some p, Some e) \<Rightarrow>
                let chunk_size = min (e - p) (length xs - i) in
                if p + chunk_size \<le> length (mem s) then
                  sb_xsputn alloc xs (i + chunk_size)
                    (s\<lparr>mem := take p (mem s) @ take chunk_size (drop i xs) @ drop (p + chunk_size) (mem s),
                       pptr := Some (p + chunk_size)\<rparr>)
                else Fault
            | _ \<Rightarrow> Fault))
      else Ok (i, s))"
  by pat_completeness auto

termination
  by (relation "measure (\<lambda>(alloc, xs, i, s). length xs - i)") (auto dest!: chunk_less)

text \<open>\<open>xsgetn\<close> of \<open>n\<close> characters, with the \<open>rs\<close> read so far.\<close>

function sb_xsgetn :: "nat \<Rightarrow> u8 list \<Rightarrow> strbuf \<Rightarrow> (u8 list \<times> strbuf) sb_result" where
  "sb_xsgetn n rs s =
     (if length rs < n then
        (if \<not> at_least (gptr s) (egptr s) then
           (case (gptr s, egptr s) of
              (Some g, Some e) \<Rightarrow>
                let len = min (nat INT_MAX) (min (e - g) (n - length rs)) in
                if g + len \<le> length (mem s) then
                  sb_xsgetn n (rs @ take len (drop g (mem s))) (s\<lparr>gptr := Some (g + len)\<rparr>)
                else Fault
            | _ \<Rightarrow> Fault)
         else
           (case sb_uflow s of
              Ok (c, s) \<Rightarrow> if c \<noteq> EOF then sb_xsgetn n (rs @ [char_of_int c]) s else Ok (rs, s)
            | Bad_alloc \<Rightarrow> Bad_alloc | Fault \<Rightarrow> Fault))
      else Ok (rs, s))"
  by pat_completeness auto

termination
  by (relation "measure (\<lambda>(n, rs, s). n - length rs)") (auto simp: INT_MAX_def dest!: chunk_less intro!: diff_less_mono2)

declare sb_xsputn.simps [simp del] sb_xsgetn.simps [simp del]

text \<open>The reference: one \<open>sputc\<close> or \<open>sbumpc\<close> for each character, as long as none fails.\<close>

fun put_each :: "(nat \<Rightarrow> u8 list option) \<Rightarrow> u8 list \<Rightarrow> strbuf \<Rightarrow> (nat \<times> strbuf) sb_result" where
  "put_each alloc [] s = Ok (0, s)"
| "put_each alloc (c # cs) s =
     (case sb_sputc alloc c s of
        Ok (r, s) \<Rightarrow> if r = EOF then Ok (0, s)
          else (case put_each alloc cs s of Ok (n, s) \<Rightarrow> Ok (Suc n, s) | Bad_alloc \<Rightarrow> Bad_alloc | Fault \<Rightarrow> Fault)
      | Bad_alloc \<Rightarrow> Bad_alloc | Fault \<Rightarrow> Fault)"

fun get_each :: "nat \<Rightarrow> strbuf \<Rightarrow> (u8 list \<times> strbuf) sb_result" where
  "get_each 0 s = Ok ([], s)"
| "get_each (Suc n) s =
     (case sb_sbumpc s of
        Ok (r, s) \<Rightarrow> if r = EOF then Ok ([], s)
          else (case get_each n s of Ok (rs, s) \<Rightarrow> Ok (char_of_int r # rs, s) | Bad_alloc \<Rightarrow> Bad_alloc | Fault \<Rightarrow> Fault)
      | Bad_alloc \<Rightarrow> Bad_alloc | Fault \<Rightarrow> Fault)"

end
