(* ===== verification/Strstream_Correct.thy ===== *)
theory Strstream_Correct
  imports Strstreambuf
begin

text \<open>
  What a \<open>strstreambuf\<close> guarantees: the text written to a dynamic buffer is what is read back, from
  any position, however often the array has grown; the operations keep the two areas inside of the
  array; and where the code does not: an array that grows after reading has begun.
\<close>

lemma ok_or_fault_simps [simp]: "ok_or_fault (Some x) = Ok x" "ok_or_fault None = Fault"
  by (simp_all add: ok_or_fault_def)

lemma char_of_to_int [simp]: "char_of_int (to_int b) = b"
  by (simp add: char_of_int_def to_int_def)

lemma to_int_not_EOF [simp]: "to_int b \<noteq> EOF"
proof -
  have "0 \<le> uint b" by simp
  then show ?thesis by (simp only: to_int_def EOF_def)
qed

lemma size_t_small: "n < 18446744073709551616 \<Longrightarrow> size_t (int n) = n"
  by (simp add: size_t_def)

lemma mode_bits:
  "(m OR mode_allocated) AND mode_dynamic = m AND mode_dynamic"
  "(m OR mode_allocated) AND mode_frozen = m AND mode_frozen"
  "(m OR mode_allocated) AND mode_allocated = mode_allocated"
  "(m OR mode_frozen) AND mode_frozen = mode_frozen"
  "(m OR mode_frozen) AND mode_dynamic = m AND mode_dynamic"
  "(m AND NOT mode_frozen) AND mode_frozen = 0"
  "(m AND NOT mode_frozen) AND mode_dynamic = m AND mode_dynamic"
  by (simp_all add: mode_allocated_def mode_dynamic_def mode_frozen_def bit.conj_disj_distrib2 and.assoc)

section \<open>Writing\<close>

text \<open>The array begins with the text \<open>xs\<close>, no character has been read.\<close>

definition writing :: "strbuf \<Rightarrow> u8 list \<Rightarrow> bool" where
  "writing s xs \<longleftrightarrow>
     strmode s AND mode_dynamic \<noteq> 0 \<and> strmode s AND mode_frozen = 0 \<and>
     0 \<le> alsize s \<and> alsize s < 4611686018427387904 \<and>
     (xs = [] \<and> eback s = None \<and> gptr s = None \<and> egptr s = None \<and> pbase s = None \<and> pptr s = None \<and> epptr s = None \<or>
      eback s = Some 0 \<and> gptr s = Some 0 \<and> egptr s = Some 0 \<and> pbase s = Some 0 \<and>
      pptr s = Some (length xs) \<and> epptr s = Some (length (mem s)) \<and> length xs \<le> length (mem s) \<and>
      take (length xs) (mem s) = xs)"

lemma writing_start: "0 \<le> n \<Longrightarrow> n < 4611686018427387904 \<Longrightarrow> writing (strstreambuf_dynamic n) []"
  by (simp add: writing_def strstreambuf_dynamic_def null_streambuf_def mode_dynamic_def mode_frozen_def)

lemma put_char_writing:
  assumes "writing s xs" and "pptr s = Some (length xs)" and "length xs < length (mem s)"
  shows "\<exists>s'. put_char (to_int c) s = Ok (to_int c, s') \<and> writing s' (xs @ [c])"
  using assms
  by (auto simp: put_char_def store_def pbump_def bump_def writing_def take_Suc_conv_app_nth
      nat_add_distrib list_update_append1 take_update_cancel)

lemma sputc_writing:
  assumes w: "writing s xs" and len: "length xs < 4611686018427387904"
    and alloc: "\<And>n. \<exists>b. alloc n = Some b \<and> length b = n"
  shows "\<exists>s'. sb_sputc alloc c s = Ok (to_int c, s') \<and> writing s' (xs @ [c])"
proof (cases "pptr s = epptr s")
  case False
  with w have "pptr s = Some (length xs)" "length xs < length (mem s)" by (auto simp: writing_def)
  from put_char_writing [OF w this] False show ?thesis
    by (simp add: sb_sputc_def put_char_def)
next
  case True
  define old where "old = (if pptr s = None then 0 else length xs)"
  have old: "diff (if epptr s \<noteq> None then epptr s else egptr s) (eback s) = Some (int old)" "old = length xs"
    using w True by (auto simp: writing_def old_def)
  define new where "new = grown_size old s"
  have "size_t (2 * int old) = 2 * old" using size_t_small [of "2 * old"] len old(2) by simp
  then have new: "old < new" by (auto simp: new_def grown_size_def Let_def max_def)
  obtain buf where buf: "alloc new = Some buf" "length buf = new" using alloc by blast
  have size: "size_t (int old) = old" using len old(2) by (intro size_t_small) simp
  have "\<exists>s'. sb_grow buf old new s = Some s' \<and> writing s' xs \<and> pptr s' = Some (length xs) \<and> length (mem s') = new"
    using w True new buf(2) old(2)
    by (auto simp: sb_grow_def copy_to_def setg_def setp_def pbump_def bump_def writing_def mode_bits)
  then obtain s' where s': "sb_grow buf old new s = Some s'" "writing s' xs" "pptr s' = Some (length xs)"
    "length (mem s') = new" by blast
  have "sb_overflow alloc (to_int c) s = put_char (to_int c) s'"
    using w True old(1) buf(1) s'(1)
    by (simp add: sb_overflow_def writing_def size Let_def new_def)
  with put_char_writing [OF s'(2,3)] s'(4) new old(2) True show ?thesis by (simp add: sb_sputc_def)
qed

lemma put_each_writing:
  assumes alloc: "\<And>n. \<exists>b. alloc n = Some b \<and> length b = n"
  shows "writing s xs \<Longrightarrow> length (xs @ ys) < 4611686018427387904 \<Longrightarrow>
    \<exists>s'. put_each alloc ys s = Ok (length ys, s') \<and> writing s' (xs @ ys)"
proof (induction ys arbitrary: s xs)
  case (Cons c ys)
  then have "length xs < 4611686018427387904" by simp
  from sputc_writing [OF Cons.prems(1) this alloc] obtain s' where
    s': "sb_sputc alloc c s = Ok (to_int c, s')" "writing s' (xs @ [c])" by blast
  from Cons.IH [OF s'(2)] Cons.prems(2) s'(1) show ?case by auto
qed simp

section \<open>Reading\<close>

text \<open>The characters before \<open>k\<close> have been read.\<close>

definition reading :: "strbuf \<Rightarrow> u8 list \<Rightarrow> nat \<Rightarrow> bool" where
  "reading s xs k \<longleftrightarrow>
     xs = [] \<and> k = 0 \<and> gptr s = None \<and> egptr s = None \<and> pptr s = None \<or>
     gptr s = Some k \<and> k \<le> length xs \<and> (egptr s = Some k \<or> egptr s = Some (length xs)) \<and>
     pptr s = Some (length xs) \<and> length xs \<le> length (mem s) \<and> take (length xs) (mem s) = xs"

lemma writing_reading: "writing s xs \<Longrightarrow> reading s xs 0"
  by (auto simp: writing_def reading_def)

lemma sbumpc_reading:
  assumes r: "reading s xs k"
  shows "if k < length xs then \<exists>s'. sb_sbumpc s = Ok (to_int (xs ! k), s') \<and> reading s' xs (Suc k)
    else sb_sbumpc s = Ok (EOF, s)"
proof (cases "k < length xs")
  case True
  with r have p: "gptr s = Some k" "pptr s = Some (length xs)" "k < length (mem s)"
      "length xs \<le> length (mem s)" "take (length xs) (mem s) = xs"
    and e: "egptr s = Some k \<or> egptr s = Some (length xs)"
    by (auto simp: reading_def)
  from p(5) True have "mem s ! k = xs ! k" by (metis nth_take)
  let ?s = "s\<lparr>gptr := Some (Suc k), egptr := Some (length xs)\<rparr>"
  have "sb_sbumpc s = Ok (to_int (mem s ! k), ?s)"
    using e
  proof
    assume "egptr s = Some k"
    with True p(1-3) show ?thesis
      by (simp add: sb_sbumpc_def sb_uflow_def sb_underflow_def setg_def load_def gbump_def bump_def nat_add_distrib)
  next
    assume e: "egptr s = Some (length xs)"
    then have "?s = s\<lparr>gptr := Some (Suc k)\<rparr>" by (cases s) simp
    with e True p(1-3) show ?thesis
      by (simp add: sb_sbumpc_def load_def gbump_def bump_def nat_add_distrib)
  qed
  moreover have "reading ?s xs (Suc k)" using True p by (simp add: reading_def)
  ultimately show ?thesis using True \<open>mem s ! k = xs ! k\<close> by simp
next
  case False
  with r show ?thesis
    by (auto simp: reading_def sb_sbumpc_def sb_uflow_def sb_underflow_def)
qed

lemma get_each_reading:
  "reading s xs k \<Longrightarrow> \<exists>s'. get_each n s = Ok (take n (drop k xs), s') \<and> reading s' xs (min (k + n) (length xs))"
proof (induction n arbitrary: s k)
  case 0
  then have "k \<le> length xs" by (auto simp: reading_def)
  with 0 show ?case by (simp add: min_absorb1)
next
  case (Suc n)
  show ?case
  proof (cases "k < length xs")
    case True
    with sbumpc_reading [OF Suc.prems] obtain s' where
      s': "sb_sbumpc s = Ok (to_int (xs ! k), s')" "reading s' xs (Suc k)" by auto
    from Suc.IH [OF s'(2)] s'(1) True show ?thesis by (auto simp: Cons_nth_drop_Suc [symmetric])
  next
    case False
    moreover from Suc.prems have "k \<le> length xs" by (auto simp: reading_def)
    ultimately show ?thesis using sbumpc_reading [OF Suc.prems] Suc.prems by simp
  qed
qed

section \<open>Whole texts at once\<close>

lemma sputc_overflow: "sb_sputc alloc c s = sb_overflow alloc (to_int c) s"
  by (simp add: sb_sputc_def sb_overflow_def put_char_def)

lemma sbumpc_uflow: "sb_sbumpc s = sb_uflow s"
  by (cases "load (gptr s) s") (auto simp: sb_sbumpc_def sb_uflow_def sb_underflow_def)

lemma put_each_chunk:
  "pptr s = Some p \<Longrightarrow> epptr s = Some e \<Longrightarrow> p + k \<le> e \<Longrightarrow> k \<le> length cs \<Longrightarrow>
    put_each alloc cs s =
      (if k = 0 \<or> p + k \<le> length (mem s) then
         (case put_each alloc (drop k cs)
            (s\<lparr>mem := take p (mem s) @ take k cs @ drop (p + k) (mem s), pptr := Some (p + k)\<rparr>) of
            Ok (n, s) \<Rightarrow> Ok (k + n, s) | Bad_alloc \<Rightarrow> Bad_alloc | Fault \<Rightarrow> Fault)
       else Fault)"
proof (induction k arbitrary: cs s p)
  case 0
  then have "s\<lparr>mem := mem s, pptr := Some p\<rparr> = s" by simp
  then show ?case by (auto split: sb_result.splits)
next
  case (Suc k)
  then obtain c cs' where cs: "cs = c # cs'" "k \<le> length cs'" by (cases cs) auto
  show ?case
  proof (cases "p < length (mem s)")
    case False
    with Suc.prems cs show ?thesis by (simp add: sb_sputc_def store_def)
  next
    case True
    let ?s = "s\<lparr>mem := (mem s)[p := c], pptr := Some (Suc p)\<rparr>"
    have "sb_sputc alloc c s = Ok (to_int c, ?s)"
      using True Suc.prems by (simp add: sb_sputc_def store_def pbump_def bump_def nat_add_distrib)
    moreover have "take (Suc p) ((mem s)[p := c]) = take p (mem s) @ [c]"
      using True by (simp add: take_Suc_conv_app_nth take_update_cancel)
    moreover have "drop (Suc (p + k)) ((mem s)[p := c]) = drop (Suc (p + k)) (mem s)"
      by (simp add: drop_update_cancel)
    ultimately show ?thesis
      using Suc.IH [of ?s "Suc p" cs'] Suc.prems cs True by (auto split: sb_result.splits)
  qed
qed

lemma xsputn_each:
  "sb_xsputn alloc xs i s =
     (case put_each alloc (drop i xs) s of Ok (n, s) \<Rightarrow> Ok (i + n, s) | Bad_alloc \<Rightarrow> Bad_alloc | Fault \<Rightarrow> Fault)"
proof (induction alloc xs i s rule: sb_xsputn.induct)
  case (1 alloc xs i s)
  show ?case
  proof (cases "i < length xs")
    case False
    then show ?thesis by (simp add: sb_xsputn.simps [of alloc xs i s])
  next
    case less: True
    then have drop: "drop i xs = xs ! i # drop (Suc i) xs" by (simp add: Cons_nth_drop_Suc)
    show ?thesis
    proof (cases "at_least (pptr s) (epptr s)")
      case True
      note IH = 1(1) [OF less True]
      show ?thesis
        using IH less True
        by (auto simp: sb_xsputn.simps [of alloc xs i s] drop sputc_overflow split: sb_result.splits)
    next
      case False
      then obtain e where e: "epptr s = Some e" by (cases "epptr s") auto
      show ?thesis
      proof (cases "pptr s")
        case None
        then show ?thesis using less False e
          by (simp add: sb_xsputn.simps [of alloc xs i s] drop sb_sputc_def store_def)
      next
        case (Some p)
        define k where "k = min (e - p) (length xs - i)"
        have k: "k \<noteq> 0" "p + k \<le> e" "k \<le> length (drop i xs)" using False e Some less by (auto simp: k_def)
        show ?thesis
        proof (cases "p + k \<le> length (mem s)")
          case in_array: True
          note IH = 1(2) [OF less False _ Some e refl, folded k_def, OF refl in_array]
          show ?thesis
            using less False Some e in_array k(1) IH put_each_chunk [OF Some e k(2,3), of alloc]
            by (auto simp: sb_xsputn.simps [of alloc xs i s] k_def [symmetric] Let_def add.commute [of i k]
              split: sb_result.splits)
        next
          case outside: False
          then show ?thesis
            using less False Some e k(1) put_each_chunk [OF Some e k(2,3), of alloc]
            by (simp add: sb_xsputn.simps [of alloc xs i s] k_def [symmetric] Let_def)
        qed
      qed
    qed
  qed
qed

lemma get_each_chunk:
  "gptr s = Some g \<Longrightarrow> egptr s = Some e \<Longrightarrow> g + k \<le> e \<Longrightarrow>
    get_each (k + n) s =
      (if k = 0 \<or> g + k \<le> length (mem s) then
         (case get_each n (s\<lparr>gptr := Some (g + k)\<rparr>) of
            Ok (rs, s') \<Rightarrow> Ok (take k (drop g (mem s)) @ rs, s') | Bad_alloc \<Rightarrow> Bad_alloc | Fault \<Rightarrow> Fault)
       else Fault)"
proof (induction k arbitrary: s g)
  case 0
  then have same: "s\<lparr>gptr := Some g\<rparr> = s" by simp
  show ?case by (cases "get_each n s") (auto simp: same)
next
  case (Suc k)
  show ?case
  proof (cases "g < length (mem s)")
    case False
    with Suc.prems show ?thesis by (simp add: sb_sbumpc_def load_def)
  next
    case True
    let ?s = "s\<lparr>gptr := Some (Suc g)\<rparr>"
    have "sb_sbumpc s = Ok (to_int (mem s ! g), ?s)"
      using True Suc.prems by (simp add: sb_sbumpc_def load_def gbump_def bump_def nat_add_distrib)
    moreover have "take (Suc k) (drop g (mem s)) = mem s ! g # take k (drop (Suc g) (mem s))"
      using True by (simp add: Cons_nth_drop_Suc [symmetric])
    ultimately show ?thesis
      using Suc.IH [of ?s "Suc g"] Suc.prems True by (auto split: sb_result.splits)
  qed
qed

lemma xsgetn_each:
  "length rs \<le> n \<Longrightarrow> sb_xsgetn n rs s =
     (case get_each (n - length rs) s of Ok (cs, s) \<Rightarrow> Ok (rs @ cs, s) | Bad_alloc \<Rightarrow> Bad_alloc | Fault \<Rightarrow> Fault)"
proof (induction n rs s rule: sb_xsgetn.induct)
  case (1 n rs s)
  show ?case
  proof (cases "length rs < n")
    case False
    with 1(3) show ?thesis by (simp add: sb_xsgetn.simps [of n rs s])
  next
    case less: True
    then obtain m where m: "n - length rs = Suc m" "n - Suc (length rs) = m" by (cases "n - length rs") auto
    show ?thesis
    proof (cases "at_least (gptr s) (egptr s)")
      case True
      note IH = 1(2) [OF less]
      show ?thesis
        using IH less True m
        by (auto simp: sb_xsgetn.simps [of n rs s] sbumpc_uflow split: sb_result.splits)
    next
      case False
      then obtain e where e: "egptr s = Some e" by (cases "egptr s") auto
      show ?thesis
      proof (cases "gptr s")
        case None
        then show ?thesis using less False e m
          by (simp add: sb_xsgetn.simps [of n rs s] sb_sbumpc_def load_def)
      next
        case (Some g)
        define k where "k = min (nat INT_MAX) (min (e - g) (n - length rs))"
        have k: "k \<noteq> 0" "g + k \<le> e" "k + (n - (length rs + k)) = n - length rs"
          using False e Some less by (auto simp: k_def INT_MAX_def)
        show ?thesis
        proof (cases "g + k \<le> length (mem s)")
          case in_array: True
          then have len: "length (rs @ take k (drop g (mem s))) = length rs + k" "length rs + k \<le> n"
            using k less by auto
          note IH = 1(1) [OF less _ _ Some e refl, folded k_def, OF _ refl in_array]
          show ?thesis
            using less False Some e in_array k(1) IH len get_each_chunk [OF Some e k(2), of "n - (length rs + k)"]
            by (auto simp: sb_xsgetn.simps [of n rs s] k_def [symmetric] Let_def k(3) split: sb_result.splits)
        next
          case outside: False
          then show ?thesis
            using less False Some e k(1) get_each_chunk [OF Some e k(2), of "n - (length rs + k)"]
            by (simp add: sb_xsgetn.simps [of n rs s] k_def [symmetric] Let_def k(3))
        qed
      qed
    qed
  qed
qed

section \<open>Seeking in the text\<close>

lemma seek_reading:
  assumes "writing s xs" and "k \<le> length xs" and "xs \<noteq> []"
  shows "\<exists>s'. sb_seekoff (int k) Beg True False s = Ok (int k, s') \<and>
    sb_seekpos (int k) True False s = Ok (int k, s') \<and> reading s' xs k"
  using assms
  by (auto simp: writing_def sb_seekoff_def sb_seekpos_def Let_def move_to_def bump_def max_ptr_def setg_def
      reading_def)

lemma seek_writing:
  assumes "writing s xs" and "k \<le> length xs" and "xs \<noteq> []"
  shows "\<exists>s'. sb_seekoff (int k) Beg False True s = Ok (int k, s') \<and>
    sb_seekpos (int k) False True s = Ok (int k, s') \<and> writing s' (take k xs)"
proof -
  from assms have p: "eback s = Some 0" "pbase s = Some 0" "pptr s = Some (length xs)" "egptr s = Some 0"
      "gptr s = Some 0" "epptr s = Some (length (mem s))" "length xs \<le> length (mem s)" "take (length xs) (mem s) = xs"
    by (auto simp: writing_def)
  let ?s = "s\<lparr>pptr := Some k\<rparr>"
  have rec: "s\<lparr>pbase := Some 0, pptr := Some k, epptr := Some (length (mem s))\<rparr> = ?s"
    using p(2,6) by (cases s) simp
  have "take k (mem s) = take k xs" using p(8) assms(2) by (metis min.absorb1 take_take)
  then have "writing ?s (take k xs)"
    using assms(1) p assms(2) by (simp add: writing_def min_absorb2)
  moreover have "sb_seekoff (int k) Beg False True s = Ok (int k, ?s)"
    "sb_seekpos (int k) False True s = Ok (int k, ?s)"
    using p(1-7) assms(2) rec
    by (simp_all add: sb_seekoff_def sb_seekpos_def Let_def move_to_def bump_def min_ptr_def setp_def pbump_def)
  ultimately show ?thesis by blast
qed

section \<open>Staying inside of the array\<close>

fun area_ok :: "nat \<Rightarrow> ptr \<Rightarrow> ptr \<Rightarrow> ptr \<Rightarrow> bool" where
  "area_ok len None None None = True"
| "area_ok len (Some b) (Some n) (Some e) = (b \<le> n \<and> n \<le> e \<and> e \<le> len)"
| "area_ok len _ _ _ = False"

definition sb_ok :: "strbuf \<Rightarrow> bool" where
  "sb_ok s \<longleftrightarrow>
     area_ok (length (mem s)) (eback s) (gptr s) (egptr s) \<and>
     area_ok (length (mem s)) (pbase s) (pptr s) (epptr s) \<and> (eback s = None \<longrightarrow> pptr s = None)"

lemma area_cases:
  assumes "area_ok len b n e"
  obtains (null) "b = None" "n = None" "e = None"
  | (array) b' n' e' where "b = Some b'" "n = Some n'" "e = Some e'" "b' \<le> n'" "n' \<le> e'" "e' \<le> len"
  using assms by (cases b; cases n; cases e) auto

lemma sb_ok_cases:
  assumes "sb_ok s"
  obtains (null) "eback s = None" "gptr s = None" "egptr s = None" "pbase s = None" "pptr s = None" "epptr s = None"
  | (get) b g e where "eback s = Some b" "gptr s = Some g" "egptr s = Some e" "b \<le> g" "g \<le> e" "e \<le> length (mem s)"
      "pbase s = None" "pptr s = None" "epptr s = None"
  | (both) b g e b' p e' where "eback s = Some b" "gptr s = Some g" "egptr s = Some e" "b \<le> g" "g \<le> e"
      "e \<le> length (mem s)" "pbase s = Some b'" "pptr s = Some p" "epptr s = Some e'" "b' \<le> p" "p \<le> e'"
      "e' \<le> length (mem s)"
proof -
  have a: "area_ok (length (mem s)) (eback s) (gptr s) (egptr s)"
    "area_ok (length (mem s)) (pbase s) (pptr s) (epptr s)" "eback s = None \<longrightarrow> pptr s = None"
    using assms by (auto simp: sb_ok_def)
  show thesis
  proof (rule area_cases [OF a(1)])
    assume "eback s = None" "gptr s = None" "egptr s = None"
    then show thesis using a(3) by (rule_tac area_cases [OF a(2)]) (auto intro: null)
  next
    fix b g e
    assume g: "eback s = Some b" "gptr s = Some g" "egptr s = Some e" "b \<le> g" "g \<le> e" "e \<le> length (mem s)"
    show thesis
      by (rule area_cases [OF a(2)]) (use g get both in blast)+
  qed
qed

definition sb_safe :: "(int \<times> strbuf) sb_result \<Rightarrow> bool" where
  "sb_safe x \<longleftrightarrow> (\<exists>r s. x = Ok (r, s) \<and> sb_ok s)"

lemma underflow_safe: "sb_ok s \<Longrightarrow> sb_safe (sb_underflow s)"
  by (erule sb_ok_cases) (auto simp: sb_underflow_def sb_safe_def sb_ok_def setg_def load_def Let_def)

lemma sgetc_safe: "sb_ok s \<Longrightarrow> sb_safe (sb_sgetc s)"
  using underflow_safe [of s]
  by (erule_tac sb_ok_cases) (auto simp: sb_sgetc_def sb_safe_def sb_ok_def load_def)

lemma underflow_available:
  "sb_ok s \<Longrightarrow> sb_underflow s = Ok (r, s') \<Longrightarrow> r \<noteq> EOF \<Longrightarrow>
    \<exists>g e. gptr s' = Some g \<and> egptr s' = Some e \<and> g < e \<and> e \<le> length (mem s')"
  by (erule sb_ok_cases) (auto simp: sb_underflow_def setg_def load_def Let_def split: if_splits)

lemma bump_get_safe:
  assumes "sb_ok s" and "gptr s = Some g" and "egptr s = Some e" and "g < e"
  shows "sb_safe (ok_or_fault (Option.bind (load (gptr s) s) (\<lambda>b. map_option (\<lambda>s. (to_int b, s)) (gbump 1 s))))"
  by (rule sb_ok_cases [OF assms(1)])
    (use assms in \<open>auto simp: sb_safe_def load_def gbump_def bump_def nat_add_distrib sb_ok_def\<close>)

lemma sbumpc_safe:
  assumes ok: "sb_ok s"
  shows "sb_safe (sb_sbumpc s)"
proof (cases "gptr s = egptr s")
  case True
  obtain r s' where u: "sb_underflow s = Ok (r, s')" "sb_ok s'"
    using underflow_safe [OF ok] by (auto simp: sb_safe_def)
  show ?thesis
  proof (cases "r = EOF")
    case False
    with underflow_available [OF ok u(1)] bump_get_safe [OF u(2)] u True show ?thesis
      by (auto simp: sb_sbumpc_def sb_uflow_def)
  qed (use True u in \<open>simp add: sb_sbumpc_def sb_uflow_def sb_safe_def\<close>)
next
  case False
  with ok obtain g e where "gptr s = Some g" "egptr s = Some e" "g < e" by (rule_tac sb_ok_cases) auto
  with bump_get_safe [OF ok] False show ?thesis by (simp add: sb_sbumpc_def)
qed

lemma pbackfail_safe: "sb_ok s \<Longrightarrow> sb_safe (sb_pbackfail c s)"
  by (erule sb_ok_cases)
    (auto simp: sb_pbackfail_def sb_safe_def sb_ok_def gbump_def bump_def load_def store_def nat_diff_distrib Let_def)

lemma move_to_safe:
  assumes ok: "sb_ok s" and n: "0 \<le> n" "diff (if epptr s \<noteq> None then epptr s else egptr s) (eback s) = Some high" "n \<le> high"
    and present: "pos_in \<or> pos_out" "pos_in \<Longrightarrow> gptr s \<noteq> None" "pos_out \<Longrightarrow> pptr s \<noteq> None"
  shows "\<exists>s'. move_to pos_in pos_out n s = Some s' \<and> sb_ok s'"
  using ok
proof (cases rule: sb_ok_cases)
  case null
  then show ?thesis using present by auto
next
  case (get b g e)
  then show ?thesis using n present
    by (auto simp: move_to_def bump_def setg_def sb_ok_def max_ptr_def nat_add_distrib)
next
  case (both b g e b' p e')
  define m where "m = nat (int b + n)"
  have m: "int m = int b + n" "b \<le> m" "m \<le> e'" using n both by (auto simp: m_def)
  have bump: "bump (eback s) n = Some (Some m)" using both n by (simp add: bump_def m_def)
  show ?thesis
    using both m
    by (cases "m \<le> b'"; cases "e \<le> m"; cases pos_in; cases pos_out)
      (auto simp: move_to_def bump Let_def setg_def setp_def sb_ok_def max_ptr_def min_ptr_def pbump_def bump_def)
qed

lemma seekpos_safe: "sb_ok s \<Longrightarrow> sb_safe (sb_seekpos sp pos_in pos_out s)"
proof -
  assume ok: "sb_ok s"
  show ?thesis
  proof (cases "(pos_in \<or> pos_out) \<and> \<not> (pos_in \<and> gptr s = None \<or> pos_out \<and> pptr s = None)")
    case True
    with ok obtain high where high: "diff (if epptr s \<noteq> None then epptr s else egptr s) (eback s) = Some high"
      by (rule_tac sb_ok_cases) auto
    show ?thesis
    proof (cases "0 \<le> sp \<and> sp \<le> high")
      case in_range: True
      with move_to_safe [OF ok _ high] True obtain s' where "move_to pos_in pos_out sp s = Some s'" "sb_ok s'" by blast
      with True in_range high show ?thesis by (simp add: sb_seekpos_def Let_def sb_safe_def)
    qed (use True high ok in \<open>auto simp: sb_seekpos_def Let_def sb_safe_def\<close>)
  qed (use ok in \<open>auto simp: sb_seekpos_def sb_safe_def\<close>)
qed

lemma seekoff_safe: "sb_ok s \<Longrightarrow> sb_safe (sb_seekoff off way pos_in pos_out s)"
proof -
  assume ok: "sb_ok s"
  define legal where "legal \<longleftrightarrow> (case way of Beg \<Rightarrow> pos_in \<or> pos_out | End \<Rightarrow> pos_in \<or> pos_out | Cur \<Rightarrow> pos_in \<noteq> pos_out) \<and>
    \<not> (pos_in \<and> gptr s = None) \<and> \<not> (pos_out \<and> pptr s = None)"
  show ?thesis
  proof (cases legal)
    case True
    then have present: "pos_in \<or> pos_out" "pos_in \<Longrightarrow> gptr s \<noteq> None" "pos_out \<Longrightarrow> pptr s \<noteq> None"
      by (auto simp: legal_def split: seekdir.splits)
    with ok obtain high where high: "diff (if epptr s \<noteq> None then epptr s else egptr s) (eback s) = Some high"
      by (rule_tac sb_ok_cases) auto
    from ok present obtain base where base: "(case way of Beg \<Rightarrow> Some 0
        | Cur \<Rightarrow> diff (if pos_in then gptr s else pptr s) (eback s) | End \<Rightarrow> Some high) = Some base"
      by (rule_tac sb_ok_cases; cases way; cases pos_in) auto
    have eq: "sb_seekoff off way pos_in pos_out s = ok_or_fault (let newoff = base + off in
        if 0 \<le> newoff \<and> newoff \<le> high then map_option (\<lambda>s. (newoff, s)) (move_to pos_in pos_out newoff s)
        else Some (-1, s))"
      using True high base present unfolding sb_seekoff_def legal_def Let_def
      by (cases pos_in; cases pos_out; cases "gptr s"; cases "pptr s"; cases way) simp_all
    show ?thesis
    proof (cases "0 \<le> base + off \<and> base + off \<le> high")
      case in_range: True
      with move_to_safe [OF ok _ high _ present] obtain s' where
        "move_to pos_in pos_out (base + off) s = Some s'" "sb_ok s'" by blast
      with in_range show ?thesis by (simp add: eq Let_def sb_safe_def)
    qed (use ok in \<open>auto simp: eq Let_def sb_safe_def\<close>)
  next
    case False
    then show ?thesis using ok by (auto simp: sb_seekoff_def legal_def sb_safe_def Let_def)
  qed
qed

lemma putback_safe: "sb_ok s \<Longrightarrow> sb_safe (sb_sputbackc c s)" "sb_ok s \<Longrightarrow> sb_safe (sb_sungetc s)"
proof -
  assume ok: "sb_ok s"
  note pb = pbackfail_safe [OF ok]
  show "sb_safe (sb_sputbackc c s)" using ok pb
    by (cases rule: sb_ok_cases)
      (auto simp: sb_sputbackc_def sb_safe_def sb_ok_def gbump_def bump_def load_def nat_diff_distrib)
  show "sb_safe (sb_sungetc s)" using ok pb
    by (cases rule: sb_ok_cases)
      (auto simp: sb_sungetc_def sb_safe_def sb_ok_def gbump_def bump_def load_def nat_diff_distrib)
qed

text \<open>
  An array the buffer has allocated begins at the pointer \<open>eback\<close>, ends at \<open>epptr\<close>, and the get area lies
  inside of it.
\<close>

definition dyn_ok :: "strbuf \<Rightarrow> bool" where
  "dyn_ok s \<longleftrightarrow> (strmode s AND mode_dynamic \<noteq> 0 \<longrightarrow> eback s \<noteq> None \<longrightarrow>
     eback s = Some 0 \<and> epptr s = Some (length (mem s)) \<and> 0 < length (mem s))"

definition sb_inv :: "strbuf \<Rightarrow> bool" where
  "sb_inv s \<longleftrightarrow> sb_ok s \<and> dyn_ok s"

definition sb_kept :: "(int \<times> strbuf) sb_result \<Rightarrow> bool" where
  "sb_kept x \<longleftrightarrow> (\<exists>r s. x = Ok (r, s) \<and> sb_inv s)"

text \<open>No read or seek changes what \<open>dyn_ok\<close> looks at.\<close>

definition same_array :: "strbuf \<Rightarrow> strbuf \<Rightarrow> bool" where
  "same_array s s' \<longleftrightarrow> eback s' = eback s \<and> epptr s' = epptr s \<and> length (mem s') = length (mem s) \<and>
     strmode s' = strmode s"

lemma dyn_ok_same: "same_array s s' \<Longrightarrow> dyn_ok s \<Longrightarrow> dyn_ok s'"
  by (simp add: same_array_def dyn_ok_def)

lemma ok_or_fault_Ok [simp]: "ok_or_fault x = Ok y \<longleftrightarrow> x = Some y"
  by (cases x) simp_all

lemma gbump_same: "gbump n s = Some s' \<Longrightarrow> same_array s s'"
  by (auto simp: gbump_def same_array_def)

lemma underflow_same: "sb_underflow s = Ok (r, s') \<Longrightarrow> same_array s s'"
  by (auto simp: sb_underflow_def same_array_def setg_def Let_def split: if_splits)

lemma sgetc_same: "sb_sgetc s = Ok (r, s') \<Longrightarrow> same_array s s'"
  by (auto simp: sb_sgetc_def same_array_def split: if_splits dest!: underflow_same)

lemma same_array_trans: "same_array s s' \<Longrightarrow> same_array s' s'' \<Longrightarrow> same_array s s''"
  by (simp add: same_array_def)

lemma sbumpc_same: "sb_sbumpc s = Ok (r, s') \<Longrightarrow> same_array s s'"
  by (auto simp: sb_sbumpc_def sb_uflow_def bind_eq_Some_conv split: if_splits sb_result.splits
      dest!: underflow_same gbump_same intro: same_array_trans)

lemma store_same: "store p b s = Some s' \<Longrightarrow> same_array s s'"
  by (auto simp: store_def same_array_def split: option.splits if_splits)

lemma pbackfail_same: "sb_pbackfail c s = Ok (r, s') \<Longrightarrow> same_array s s'"
  by (auto simp: sb_pbackfail_def bind_eq_Some_conv split: if_splits
      dest!: gbump_same store_same intro: same_array_trans) (simp add: same_array_def)+

lemma putback_same:
  "sb_sputbackc c s = Ok (r, s') \<Longrightarrow> same_array s s'" "sb_sungetc s = Ok (r, s') \<Longrightarrow> same_array s s'"
  by (auto simp: sb_sputbackc_def sb_sungetc_def bind_eq_Some_conv split: if_splits option.splits
      dest!: gbump_same pbackfail_same)

lemma move_to_same: "move_to pos_in pos_out n s = Some s' \<Longrightarrow> same_array s s'"
  by (auto simp: move_to_def bind_eq_Some_conv same_array_def setg_def setp_def pbump_def Let_def split: if_splits)

lemma seekpos_same: "sb_seekpos sp pos_in pos_out s = Ok (r, s') \<Longrightarrow> same_array s s'"
  by (auto simp: sb_seekpos_def bind_eq_Some_conv Let_def split: if_splits dest!: move_to_same)
    (simp_all add: same_array_def)

lemma seekoff_same: "sb_seekoff off way pos_in pos_out s = Ok (r, s') \<Longrightarrow> same_array s s'"
  by (simp only: sb_seekoff_def Let_def split: if_splits; auto simp: bind_eq_Some_conv Let_def
      split: if_splits dest!: move_to_same) (simp_all add: same_array_def)

lemma sb_keptI: "sb_safe x \<Longrightarrow> dyn_ok s \<Longrightarrow> (\<And>r s'. x = Ok (r, s') \<Longrightarrow> same_array s s') \<Longrightarrow> sb_kept x"
  by (auto simp: sb_safe_def sb_kept_def sb_inv_def intro: dyn_ok_same)

section \<open>An array that grows\<close>

text \<open>
  The array is full and has to grow, and the put area that \<open>overflow\<close> makes of the new one (from the end
  of the get area, with the put pointer as far in it as it was in the old one) is full as well.
\<close>

definition overruns :: "strbuf \<Rightarrow> bool" where
  "overruns s \<longleftrightarrow>
     pptr s = epptr s \<and> strmode s AND mode_dynamic \<noteq> 0 \<and> strmode s AND mode_frozen = 0 \<and>
     (case (diff (egptr s) (eback s), diff (pptr s) (pbase s), diff (if epptr s \<noteq> None then epptr s else egptr s) (eback s)) of
        (Some einp, Some nout, Some old_size) \<Rightarrow> einp + nout = int (grown_size (size_t old_size) s)
      | _ \<Rightarrow> False)"

lemma grown_size_grows: "old < 4611686018427387904 \<Longrightarrow> 2 * old \<le> grown_size old s \<and> 0 < grown_size old s"
  using size_t_small [of "2 * old"] by (auto simp: grown_size_def Let_def)

lemma put_char_kept:
  assumes "sb_inv s" and "pptr s = Some p" and "epptr s = Some e" and "p < e"
  shows "\<exists>s'. put_char (to_int c) s = Ok (to_int c, s') \<and> sb_inv s'"
proof -
  have ok: "sb_ok s" "dyn_ok s" using assms by (simp_all add: sb_inv_def)
  let ?s = "s\<lparr>mem := (mem s)[p := c], pptr := Some (Suc p)\<rparr>"
  have "sb_ok ?s" "p < length (mem s)"
    by (rule sb_ok_cases [OF ok(1)]; use assms in \<open>simp add: sb_ok_def\<close>)+
  moreover have "dyn_ok ?s" using ok(2) by (simp add: dyn_ok_def)
  ultimately show ?thesis using assms(2)
    by (simp add: put_char_def store_def pbump_def bump_def sb_inv_def nat_add_distrib)
qed

lemma sb_grow_null:
  assumes "eback s = None" "gptr s = None" "egptr s = None" "pbase s = None" "pptr s = None" "epptr s = None"
    and "length buf = new" "0 < new"
  shows "\<exists>s'. sb_grow buf 0 new s = Some s' \<and> sb_inv s' \<and> pptr s' = Some 0 \<and> epptr s' = Some new"
  using assms
  by (auto simp: sb_grow_def copy_to_def setg_def setp_def pbump_def bump_def sb_inv_def sb_ok_def dyn_ok_def)

lemma sb_grow_both:
  assumes p: "eback s = Some 0" "gptr s = Some g" "egptr s = Some e" "g \<le> e" "e \<le> length (mem s)"
      "pbase s = Some b" "pptr s = Some p" "b \<le> p" "p \<le> length (mem s)"
    and new: "length buf = new" "2 * length (mem s) \<le> new" "0 < new"
  shows "\<exists>s'. sb_grow buf (length (mem s)) new s = Some s' \<and> sb_inv s' \<and>
    pptr s' = Some (e + p - b) \<and> epptr s' = Some new \<and> length (mem s') = new \<and> e + p - b \<le> new"
proof -
  have copy: "copy_to (mem s) (Some 0) (length (mem s)) buf = Some (mem s @ drop (length (mem s)) buf)"
    using new by (simp add: copy_to_def)
  show ?thesis
    using p new
    by (auto simp: sb_grow_def copy setg_def setp_def pbump_def bump_def sb_inv_def sb_ok_def dyn_ok_def nat_diff_distrib')
qed

lemma put_char_full: "pptr s = Some (length (mem s)) \<Longrightarrow> put_char c s = Fault"
  by (simp add: put_char_def store_def)

lemma sputc_kept:
  assumes inv: "sb_inv s" and small: "length (mem s) < 4611686018427387904"
    and alloc: "\<And>n b. alloc n = Some b \<Longrightarrow> length b = n"
  shows "if overruns s then sb_sputc alloc c s \<in> {Fault, Bad_alloc, Ok (EOF, s)} \<and> ((\<forall>n. alloc n \<noteq> None) \<longrightarrow> sb_sputc alloc c s = Fault)
    else sb_sputc alloc c s = Bad_alloc \<or> sb_kept (sb_sputc alloc c s)"
proof (cases "pptr s = epptr s")
  case False
  then obtain p e where pe: "pptr s = Some p" "epptr s = Some e" "p < e"
    using inv by (auto simp: sb_inv_def elim: sb_ok_cases)
  have "sb_sputc alloc c s = put_char (to_int c) s" using False by (simp add: sb_sputc_def put_char_def)
  with put_char_kept [OF inv pe, of c] False show ?thesis by (auto simp: overruns_def sb_kept_def)
next
  case full: True
  show ?thesis
  proof (cases "strmode s AND mode_dynamic = 0 \<or> strmode s AND mode_frozen \<noteq> 0")
    case True
    then have "sb_sputc alloc c s = Ok (EOF, s)" using full by (simp add: sb_sputc_def sb_overflow_def)
    with True inv show ?thesis by (auto simp: overruns_def sb_kept_def)
  next
    case dyn: False
    let ?high = "if epptr s \<noteq> None then epptr s else egptr s"
    define old where "old = (if eback s = None then 0 else length (mem s))"
    have ok: "sb_ok s" "dyn_ok s" using inv by (simp_all add: sb_inv_def)
    have "old < 4611686018427387904" using small by (simp add: old_def)
    moreover have "diff ?high (eback s) = Some (int old)"
      using ok(1)
    proof (cases rule: sb_ok_cases)
      case both
      then show ?thesis using ok(2) dyn by (simp add: dyn_ok_def old_def)
    next
      case get
      then show ?thesis using ok(2) dyn by (simp add: dyn_ok_def)
    qed (simp add: old_def)
    ultimately have old: "diff ?high (eback s) = Some (int old)" "size_t (int old) = old" "old < 4611686018427387904"
      using size_t_small [of old] by simp_all
    define new where "new = grown_size old s"
    have new: "2 * old \<le> new" "0 < new" using grown_size_grows [OF old(3)] by (simp_all add: new_def)
    have eq: "sb_sputc alloc c s = (case alloc new of None \<Rightarrow> if palloc s then Ok (EOF, s) else Bad_alloc
       | Some buf \<Rightarrow> (case sb_grow buf old new s of None \<Rightarrow> Fault | Some s \<Rightarrow> put_char (to_int c) s))"
      unfolding new_def using full dyn old(1,2) by (simp add: sb_sputc_def sb_overflow_def Let_def)
    show ?thesis
    proof (cases "alloc new")
      case None
      then show ?thesis using inv eq by (auto simp: sb_kept_def)
    next
      case (Some buf)
      then have buf: "length buf = new" using alloc by blast
      show ?thesis
        using ok(1)
      proof (cases rule: sb_ok_cases)
        case null
        with sb_grow_null [OF null buf new(2)] have
          "\<exists>s'. sb_grow buf old new s = Some s' \<and> sb_inv s' \<and> pptr s' = Some 0 \<and> epptr s' = Some new"
          by (simp add: old_def)
        moreover have "\<not> overruns s" using null new grown_size_grows [of 0 s] by (simp add: overruns_def size_t_def)
        ultimately show ?thesis using put_char_kept new(2) Some eq by (fastforce simp: sb_kept_def)
      next
        case get
        then show ?thesis using ok(2) dyn by (simp add: dyn_ok_def)
      next
        case (both b0 g e b p e')
        have a: "eback s = Some 0" "e' = length (mem s)" "p = length (mem s)" "old = length (mem s)"
          using both ok(2) dyn full by (simp_all add: dyn_ok_def old_def)
        obtain s' where s': "sb_grow buf old new s = Some s'" "sb_inv s'" "pptr s' = Some (e + p - b)"
          "epptr s' = Some new" "length (mem s') = new" "e + p - b \<le> new"
          using sb_grow_both [OF a(1) both(2,3) both(5,6,7,8) both(10) _ buf] new a by auto
        have over: "overruns s \<longleftrightarrow> e + p - b = new"
          using full dyn both a old(1,2) by (auto simp: overruns_def new_def)
        show ?thesis
        proof (cases "e + p - b = new")
          case True
          with put_char_full [of s' "to_int c"] s' over Some eq show ?thesis by simp
        next
          case False
          with s' over put_char_kept [OF s'(2-4), of c] Some eq show ?thesis by (auto simp: sb_kept_def)
        qed
      qed
    qed
  qed
qed



section \<open>The calls on a buffer\<close>

text \<open>One public call that returns.\<close>

inductive sb_step :: "(nat \<Rightarrow> u8 list option) \<Rightarrow> strbuf \<Rightarrow> strbuf \<Rightarrow> bool" for alloc where
  sputc: "sb_sputc alloc c s = Ok (r, s') \<Longrightarrow> sb_step alloc s s'"
| sgetc: "sb_sgetc s = Ok (r, s') \<Longrightarrow> sb_step alloc s s'"
| sbumpc: "sb_sbumpc s = Ok (r, s') \<Longrightarrow> sb_step alloc s s'"
| sputbackc: "sb_sputbackc c s = Ok (r, s') \<Longrightarrow> sb_step alloc s s'"
| sungetc: "sb_sungetc s = Ok (r, s') \<Longrightarrow> sb_step alloc s s'"
| seekoff: "sb_seekoff off way pos_in pos_out s = Ok (r, s') \<Longrightarrow> sb_step alloc s s'"
| seekpos: "sb_seekpos sp pos_in pos_out s = Ok (r, s') \<Longrightarrow> sb_step alloc s s'"
| freeze: "sb_step alloc s (sb_freeze b s)"
| str: "sb_step alloc s (snd (sb_str s))"

text \<open>The areas given to the constructors for an array lie in the array.\<close>

definition areas_given :: "u8 list \<Rightarrow> nat \<Rightarrow> int \<Rightarrow> ptr \<Rightarrow> bool" where
  "areas_given m gnext n pbeg \<longleftrightarrow> 0 \<le> n \<and> length m < 4611686018427387904 \<and>
     (let k = (if n = 0 then the (strlen gnext m) else nat n) in
      case pbeg of None \<Rightarrow> gnext + k \<le> length m | Some b \<Rightarrow> gnext \<le> b \<and> b + k \<le> length m)"

inductive sb_reached :: "(nat \<Rightarrow> u8 list option) \<Rightarrow> strbuf \<Rightarrow> bool" for alloc where
  dynamic: "sb_reached alloc (strstreambuf_dynamic n)"
| allocating: "sb_reached alloc (strstreambuf_alloc p f)"
| array: "strstreambuf_array m gnext n pbeg = Some s \<Longrightarrow> areas_given m gnext n pbeg \<Longrightarrow> sb_reached alloc s"
| readonly: "strstreambuf_constant m gnext n = Some s \<Longrightarrow> areas_given m gnext n None \<Longrightarrow> sb_reached alloc s"
| step: "sb_reached alloc s \<Longrightarrow> sb_step alloc s s' \<Longrightarrow> sb_reached alloc s'"

lemma null_inv: "sb_inv (null_streambuf\<lparr>strmode := m, alsize := n, palloc := p, pfree := f\<rparr>)"
  by (simp add: sb_inv_def sb_ok_def dyn_ok_def null_streambuf_def)

lemma start_inv: "sb_inv (strstreambuf_dynamic n)" "sb_inv (strstreambuf_alloc p f)"
  using null_inv [where m = mode_dynamic and n = n] null_inv [where m = mode_dynamic and n = 4096 and p = p and f = f]
  by (simp_all add: strstreambuf_dynamic_def strstreambuf_alloc_def null_streambuf_def)

lemma init_inv:
  assumes "sb_init gnext n pbeg s = Some s'" and "areas_given (mem s) gnext n pbeg"
    and "strmode s AND mode_dynamic = 0" and "pbase s = None" "pptr s = None" "epptr s = None"
  shows "sb_inv s' \<and> mem s' = mem s \<and> strmode s' = strmode s \<and> (pbeg = None \<longrightarrow> pptr s' = None \<and> epptr s' = None)"
  using assms
  by (auto simp: sb_init_def areas_given_def bind_eq_Some_conv setg_def setp_def sb_inv_def sb_ok_def dyn_ok_def
      Let_def split: option.splits if_splits)

lemma given_inv:
  "strstreambuf_array m gnext n pbeg = Some s \<Longrightarrow> areas_given m gnext n pbeg \<Longrightarrow> sb_inv s \<and> mem s = m"
  "strstreambuf_constant m gnext n = Some s \<Longrightarrow> areas_given m gnext n None \<Longrightarrow>
    sb_inv s \<and> mem s = m \<and> strmode s = mode_constant \<and> pptr s = None \<and> epptr s = None"
  by (auto simp: strstreambuf_array_def strstreambuf_constant_def null_streambuf_def mode_constant_def
      mode_dynamic_def dest!: init_inv)

lemma reads_kept:
  assumes "sb_inv s"
  shows "sb_kept (sb_sgetc s)" "sb_kept (sb_sbumpc s)" "sb_kept (sb_sputbackc c s)" "sb_kept (sb_sungetc s)"
    "sb_kept (sb_seekoff off way pos_in pos_out s)" "sb_kept (sb_seekpos sp pos_in pos_out s)"
  using assms
  by (auto simp: sb_inv_def intro!: sb_keptI intro: sgetc_safe sbumpc_safe putback_safe seekoff_safe seekpos_safe
      sgetc_same sbumpc_same putback_same seekoff_same seekpos_same)

lemma freeze_inv: "sb_inv s \<Longrightarrow> sb_inv (sb_freeze b s)" "sb_inv s \<Longrightarrow> sb_inv (snd (sb_str s))"
  by (auto simp: sb_inv_def sb_ok_def dyn_ok_def sb_freeze_def sb_str_def mode_bits)

lemma put_char_array: "put_char c s = Ok (r, s') \<Longrightarrow> same_array s s'"
  by (auto simp: put_char_def store_def pbump_def bind_eq_Some_conv same_array_def split: option.splits if_splits)

lemma sputc_array:
  assumes "\<And>n b. alloc n = Some b \<Longrightarrow> length b = n \<and> n < 4611686018427387904" and "sb_sputc alloc c s = Ok (r, s')"
    and "length (mem s) < 4611686018427387904"
  shows "length (mem s') < 4611686018427387904"
proof -
  have "length (mem s1) = length buf" if "sb_grow buf k n s = Some s1" for buf k n s1
    using that by (auto simp: sb_grow_def copy_to_def bind_eq_Some_conv pbump_def setg_def setp_def
        split: if_splits option.splits)
  then show ?thesis using assms
    by (auto simp: sputc_overflow sb_overflow_def Let_def same_array_def split: if_splits option.splits
        dest!: put_char_array) 
qed

lemma kept_step: "sb_kept x \<Longrightarrow> x = Ok (r, s') \<Longrightarrow> sb_inv s'"
  by (simp add: sb_kept_def)

text \<open>Every call but \<open>sputc\<close> leaves the array in its place and changes no mode but \<open>frozen\<close>.\<close>

lemma step_cases:
  assumes inv: "sb_inv s" and step: "sb_step alloc s s'"
  shows "(\<exists>c r. sb_sputc alloc c s = Ok (r, s')) \<or> sb_inv s' \<and> same_array s s' \<or>
    (\<exists>b. s' = sb_freeze b s)"
proof -
  note kept = reads_kept [OF inv, THEN kept_step]
  show ?thesis
    using step
  proof cases
    case str
    then have "s' = sb_freeze True s" by (simp add: sb_str_def sb_freeze_def)
    then show ?thesis by blast
  qed (blast intro: kept dest: sgetc_same sbumpc_same putback_same seekoff_same seekpos_same)+
qed

lemma reached_inv:
  assumes alloc: "\<And>n b. alloc n = Some b \<Longrightarrow> length b = n \<and> n < 4611686018427387904"
  shows "sb_reached alloc s \<Longrightarrow> sb_inv s \<and> length (mem s) < 4611686018427387904"
proof (induction rule: sb_reached.induct)
  case (step s s')
  then have s: "sb_inv s" "length (mem s) < 4611686018427387904" by simp_all
  have len: "\<And>n b. alloc n = Some b \<Longrightarrow> length b = n" using alloc by blast
  consider c r where "sb_sputc alloc c s = Ok (r, s')" | "sb_inv s'" "same_array s s'" | b where "s' = sb_freeze b s"
    using step_cases [OF s(1) step(2)] by blast
  then show ?case
  proof cases
    case 1
    with sputc_kept [OF s, of alloc c, OF len] have "sb_inv s'" by (auto simp: sb_kept_def s split: if_splits)
    then show ?thesis using sputc_array [OF alloc 1 s(2)] by simp
  next
    case 2
    then show ?thesis using s(2) by (simp add: same_array_def)
  next
    case 3
    then show ?thesis using s freeze_inv(1) [OF s(1)] by (simp add: sb_freeze_def)
  qed
qed (use start_inv given_inv in \<open>auto simp: strstreambuf_dynamic_def strstreambuf_alloc_def null_streambuf_def areas_given_def\<close>)

lemma no_overrun:
  assumes "sb_inv s" and "length (mem s) < 4611686018427387904" and "egptr s = eback s"
  shows "\<not> overruns s"
proof -
  from assms(1) have "sb_ok s" "dyn_ok s" by (simp_all add: sb_inv_def)
  from this(1) show ?thesis
  proof (cases rule: sb_ok_cases)
    case null
    then show ?thesis using grown_size_grows [of 0 s] by (simp add: overruns_def size_t_def)
  next
    case get
    then show ?thesis using \<open>dyn_ok s\<close> by (auto simp: overruns_def dyn_ok_def)
  next
    case (both b g e b' p e')
    show ?thesis
    proof
      assume o: "overruns s"
      then have d: "b = 0" "e' = length (mem s)" "p = e'" "0 < length (mem s)"
        using both \<open>dyn_ok s\<close> by (auto simp: overruns_def dyn_ok_def)
      then have "int p - int b' = int (grown_size (length (mem s)) s)"
        using o both assms(2,3) size_t_small [of "length (mem s)"] by (simp add: overruns_def)
      then show False using grown_size_grows [OF assms(2), of s] d by simp
    qed
  qed
qed

end
