(* ===== verification/Strstream_Props.thy ===== *)
theory Strstream_Props
  imports Strstream_Correct
begin

text \<open>
  The properties of \<open>strstreambuf\<close>: text written is text read, block operations are repeated character
  operations, the public operations stay inside of the array, and the one that does not.
\<close>

section \<open>The text\<close>

text \<open>
  C7: Text written to a dynamic \<open>strstreambuf\<close> of any initial size is counted by \<open>pcount\<close> and read back
  unchanged, followed by end of file, however often the array has grown; after \<open>seekpos\<close> to \<open>k\<close> the
  characters from \<open>k\<close> on are read, and a text written after \<open>seekoff\<close> of the put area to \<open>k\<close> replaces what
  follows the first \<open>k\<close> characters.
\<close>

theorem strstream_round_trip:
  assumes n: "0 \<le> n" "n < 4611686018427387904" and len: "length xs < 4611686018427387904"
    and alloc: "\<And>n. \<exists>b. alloc n = Some b \<and> length b = n"
  shows "\<exists>s. sb_xsputn alloc xs 0 (strstreambuf_dynamic n) = Ok (length xs, s) \<and>
    sb_pcount s = Some (signed_take_bit 31 (int (length xs))) \<and>
    (\<forall>m. \<exists>s'. sb_xsgetn (length xs + m) [] s = Ok (xs, s')) \<and>
    (xs \<noteq> [] \<longrightarrow> (\<forall>k\<le>length xs.
      (\<exists>s' s''. sb_seekpos (int k) True False s = Ok (int k, s') \<and>
        sb_xsgetn (length xs) [] s' = Ok (drop k xs, s'')) \<and>
      (\<forall>ys. length (xs @ ys) < 4611686018427387904 \<longrightarrow>
        (\<exists>s' s'' s'''. sb_seekoff (int k) Beg False True s = Ok (int k, s') \<and>
          sb_xsputn alloc ys 0 s' = Ok (length ys, s'') \<and>
          sb_xsgetn (length xs + length ys) [] s'' = Ok (take k xs @ ys, s''')))))"
proof -
  have put: "\<exists>s'. sb_xsputn alloc ys 0 s = Ok (length ys, s') \<and> writing s' (xs @ ys)"
    if "writing s xs" "length (xs @ ys) < 4611686018427387904" for s xs ys
    using put_each_writing [OF alloc that] by (auto simp: xsputn_each)
  have get: "\<exists>s'. sb_xsgetn n [] s = Ok (take n (drop k xs), s')" if "reading s xs k" for n s xs k
    using get_each_reading [OF that, of n] by (auto simp: xsgetn_each)
  obtain s where s: "sb_xsputn alloc xs 0 (strstreambuf_dynamic n) = Ok (length xs, s)" "writing s xs"
    using put [OF writing_start [OF n], of xs] len by auto
  have count: "sb_pcount s = Some (signed_take_bit 31 (int (length xs)))"
    using s(2) by (auto simp: writing_def sb_pcount_def)
  have all: "\<exists>s'. sb_xsgetn (length xs + m) [] s = Ok (xs, s')" for m
    using get [OF writing_reading [OF s(2)], of "length xs + m"] by simp
  have seek: "\<exists>s' s''. sb_seekpos (int k) True False s = Ok (int k, s') \<and> sb_xsgetn (length xs) [] s' = Ok (drop k xs, s'')"
    if k: "xs \<noteq> []" "k \<le> length xs" for k
  proof -
    obtain s' where "sb_seekpos (int k) True False s = Ok (int k, s')" "reading s' xs k"
      using seek_reading [OF s(2) k(2,1)] by blast
    then show ?thesis using get [of s' xs k "length xs"] by auto
  qed
  have over: "\<exists>s' s'' s'''. sb_seekoff (int k) Beg False True s = Ok (int k, s') \<and>
      sb_xsputn alloc ys 0 s' = Ok (length ys, s'') \<and>
      sb_xsgetn (length xs + length ys) [] s'' = Ok (take k xs @ ys, s''')"
    if k: "xs \<noteq> []" "k \<le> length xs" and ys: "length (xs @ ys) < 4611686018427387904" for k ys
  proof -
    obtain s' where s': "sb_seekoff (int k) Beg False True s = Ok (int k, s')" "writing s' (take k xs)"
      using seek_writing [OF s(2) k(2,1)] by blast
    have "length (take k xs @ ys) < 4611686018427387904" using ys by simp
    then obtain s'' where s'': "sb_xsputn alloc ys 0 s' = Ok (length ys, s'')" "writing s'' (take k xs @ ys)"
      using put [OF s'(2)] by blast
    have "min (length xs + length ys) k = k" using k(2) by simp
    then show ?thesis
      using s'(1) s''(1) get [OF writing_reading [OF s''(2)], of "length xs + length ys"] by auto
  qed
  show ?thesis using s(1) count all seek over by blast
qed

theorem strstream_round_trip_witness:
  "\<exists>s s'. sb_xsputn (\<lambda>n. Some (replicate n 7)) [104, 105] 0 (strstreambuf_dynamic 1) = Ok (2, s) \<and>
    sb_xsgetn 5 [] s = Ok ([104, 105], s')"
proof -
  have "length [104, 105 :: u8] < 4611686018427387904" by simp
  from strstream_round_trip [OF _ _ this, of 1 "\<lambda>n. Some (replicate n 7)"] obtain s where
    s: "sb_xsputn (\<lambda>n. Some (replicate n 7)) [104, 105] 0 (strstreambuf_dynamic 1) = Ok (length [104, 105 :: u8], s)"
    "\<forall>m. \<exists>s'. sb_xsgetn (length [104, 105 :: u8] + m) [] s = Ok ([104, 105], s')"
    by auto
  from s(1) spec [OF s(2), of 3] show ?thesis by (auto simp: eval_nat_numeral)
qed

text \<open>
  Block operations are repeated character operations: \<open>xsputn\<close> and \<open>xsgetn\<close>, which copy as much as the
  put and get areas hold, return the count or the characters, and leave the state, of one \<open>sputc\<close> or
  \<open>sbumpc\<close> for each character up to the first that fails; a block faults when one of those does.
\<close>

lemma blocks_are_characters:
  "sb_xsputn alloc xs 0 s = put_each alloc xs s \<and> sb_xsgetn n [] s = get_each n s"
  by (simp add: xsputn_each xsgetn_each split: sb_result.splits)

section \<open>Staying inside of the array\<close>

definition zeroed :: "nat \<Rightarrow> u8 list option" where
  "zeroed n = Some (replicate n 0)"

definition dynamic_state :: "u8 list \<Rightarrow> nat \<Rightarrow> nat \<Rightarrow> nat \<Rightarrow> nat \<Rightarrow> int \<Rightarrow> strbuf" where
  "dynamic_state m g e b p n = \<lparr>mem = m, eback = Some 0, gptr = Some g, egptr = Some e, pbase = Some b, pptr = Some p,
     epptr = Some (length m), strmode = 5, alsize = n, palloc = False, pfree = False\<rparr>"

lemma replicate_2: "replicate 2 x = [x, x]"
  by (simp add: numeral_2_eq_2)

lemmas run_simps = sputc_overflow zeroed_def strstreambuf_dynamic_def null_streambuf_def dynamic_state_def
  sb_overflow_def put_char_def store_def load_def pbump_def gbump_def bump_def sb_grow_def copy_to_def setg_def setp_def
  grown_size_def size_t_def sb_sgetc_def sb_sbumpc_def sb_uflow_def sb_underflow_def
  mode_dynamic_def mode_frozen_def mode_allocated_def to_int_def char_of_int_def EOF_def replicate_2

lemma overrun_run:
  "put_each zeroed [1] (strstreambuf_dynamic 1) = Ok (1, dynamic_state [1] 0 0 0 1 1)"
  "sb_sgetc (dynamic_state [1] 0 0 0 1 1) = Ok (1, dynamic_state [1] 0 1 0 1 1)"
  "sb_sputc zeroed 2 (dynamic_state [1] 0 1 0 1 1) = Fault"
  by (simp_all add: run_simps)

lemma gap_run:
  "put_each zeroed [1] (strstreambuf_dynamic 2) = Ok (1, dynamic_state [1, 0] 0 0 0 1 2)"
  "sb_sgetc (dynamic_state [1, 0] 0 0 0 1 2) = Ok (1, dynamic_state [1, 0] 0 1 0 1 2)"
  "put_each zeroed [2, 3] (dynamic_state [1, 0] 0 1 0 1 2) = Ok (2, dynamic_state [1, 2, 0, 3] 0 1 1 4 2)"
  "get_each (Suc (Suc (Suc (Suc 0)))) (dynamic_state [1, 2, 0, 3] 0 1 1 4 2) = Ok ([1, 2, 0, 3], dynamic_state [1, 2, 0, 3] 4 4 1 4 2)"
  by (simp_all add: run_simps)

text \<open>Writing after a look at the text, in a buffer that has to grow.\<close>

lemma grown_put_area:
  "(\<exists>s s'. sb_xsputn zeroed [1] 0 (strstreambuf_dynamic 1) = Ok (1, s) \<and> sb_sgetc s = Ok (1, s') \<and>
      sb_sputc zeroed 2 s' = Fault) \<and>
   (\<exists>s s' s'' t. sb_xsputn zeroed [1] 0 (strstreambuf_dynamic 2) = Ok (1, s) \<and> sb_sgetc s = Ok (1, s') \<and>
      sb_xsputn zeroed [2, 3] 0 s' = Ok (2, s'') \<and> sb_xsgetn 4 [] s'' = Ok ([1, 2, 0, 3], t))"
proof -
  have "sb_xsputn zeroed [1] 0 (strstreambuf_dynamic 1) = Ok (1, dynamic_state [1] 0 0 0 1 1)"
    "sb_xsputn zeroed [1] 0 (strstreambuf_dynamic 2) = Ok (1, dynamic_state [1, 0] 0 0 0 1 2)"
    "sb_xsputn zeroed [2, 3] 0 (dynamic_state [1, 0] 0 1 0 1 2) = Ok (2, dynamic_state [1, 2, 0, 3] 0 1 1 4 2)"
    by (simp_all only: xsputn_each drop_0 overrun_run gap_run sb_result.case prod.case add_0)
  moreover have "sb_xsgetn (Suc (Suc (Suc (Suc 0)))) [] (dynamic_state [1, 2, 0, 3] 0 1 1 4 2) =
      Ok ([1, 2, 0, 3], dynamic_state [1, 2, 0, 3] 4 4 1 4 2)"
    using gap_run(4) by (simp only: xsgetn_each list.size le0 diff_zero sb_result.case prod.case append_Nil)
  then have "sb_xsgetn 4 [] (dynamic_state [1, 2, 0, 3] 0 1 1 4 2) =
      Ok ([1, 2, 0, 3], dynamic_state [1, 2, 0, 3] 4 4 1 4 2)"
    by (simp only: numeral_eq_Suc pred_numeral_simps BitM.simps One_nat_def)
  ultimately show ?thesis using overrun_run(2,3) gap_run(2) by blast
qed

text \<open>
  C8: In every state that public calls reach from the constructors (given areas that lie in their array),
  both areas lie in the array, every call to read, put back or seek returns (with end of file or -1 where
  it fails) and touches nothing outside of the array, and \<open>sputc\<close> goes wrong only in a buffer that has to grow
  and \<open>overruns\<close>, which no buffer does whose get area has not been advanced.  For \<open>overflow\<close> adds the length of the
  old put area to the end of the get area, so that a buffer that grows after a part of it has become readable puts new
  text in the wrong place: with an initial size of one, writing a character, looking at it and writing another stores
  outside of the new array; with an initial size of two, the reader of 1, written before, and 2, 3, written after the
  look, reads 1, 2, 0, 3.
\<close>

theorem strstream_safe:
  assumes reached: "sb_reached alloc s"
    and alloc: "\<And>n b. alloc n = Some b \<Longrightarrow> length b = n \<and> n < 4611686018427387904"
  shows "area_ok (length (mem s)) (eback s) (gptr s) (egptr s) \<and> area_ok (length (mem s)) (pbase s) (pptr s) (epptr s) \<and>
    sb_kept (sb_sgetc s) \<and> sb_kept (sb_sbumpc s) \<and> sb_kept (sb_sputbackc c s) \<and> sb_kept (sb_sungetc s) \<and>
    sb_kept (sb_seekoff off way pos_in pos_out s) \<and> sb_kept (sb_seekpos sp pos_in pos_out s) \<and>
    (sb_sputc alloc c s = Fault \<longrightarrow> overruns s) \<and> (egptr s = eback s \<longrightarrow> \<not> overruns s) \<and>
    (\<exists>s s'. sb_xsputn zeroed [1] 0 (strstreambuf_dynamic 1) = Ok (1, s) \<and> sb_sgetc s = Ok (1, s') \<and>
      sb_sputc zeroed 2 s' = Fault) \<and>
    (\<exists>s s' s'' t. sb_xsputn zeroed [1] 0 (strstreambuf_dynamic 2) = Ok (1, s) \<and> sb_sgetc s = Ok (1, s') \<and>
      sb_xsputn zeroed [2, 3] 0 s' = Ok (2, s'') \<and> sb_xsgetn 4 [] s'' = Ok ([1, 2, 0, 3], t))"
proof -
  have inv: "sb_inv s" "length (mem s) < 4611686018427387904" using reached_inv [OF alloc reached] by simp_all
  then have "area_ok (length (mem s)) (eback s) (gptr s) (egptr s) \<and> area_ok (length (mem s)) (pbase s) (pptr s) (epptr s)"
    by (simp add: sb_inv_def sb_ok_def)
  moreover have "sb_sputc alloc c s = Fault \<longrightarrow> overruns s"
    using sputc_kept [OF inv, of alloc c] alloc by (auto simp: sb_kept_def split: if_splits)
  ultimately show ?thesis using reads_kept [OF inv(1)] no_overrun [OF inv] grown_put_area by simp
qed

theorem strstream_safe_witness:
  "sb_kept (sb_seekpos 3 True True (strstreambuf_dynamic 5))"
proof -
  have "(if n < 9 then Some (replicate n 0) else None) = Some b \<Longrightarrow> length b = n \<and> n < 4611686018427387904"
    for n :: nat and b :: "u8 list"
    by (auto split: if_splits)
  then show ?thesis
    using strstream_safe [where alloc = "\<lambda>n. if n < 9 then Some (replicate n 0) else None", OF sb_reached.dynamic] by blast
qed

lemma sputc_frozen:
  "strmode s AND mode_frozen \<noteq> 0 \<Longrightarrow> sb_sputc alloc c s = Ok (r, s') \<Longrightarrow> same_array s s'"
  by (auto simp: sputc_overflow sb_overflow_def same_array_def split: if_splits dest!: put_char_array)

lemma frozen_step:
  assumes "strmode s AND mode_frozen \<noteq> 0" and "sb_inv s" and "sb_step alloc s s'"
  shows "eback s' = eback s \<and> epptr s' = epptr s \<and> length (mem s') = length (mem s)"
  using step_cases [OF assms(2,3)] sputc_frozen [OF assms(1), of alloc]
  by (auto simp: same_array_def sb_freeze_def)

text \<open>A buffer for constant characters: no put area, and the characters are not written to.\<close>

definition readonly :: "u8 list \<Rightarrow> strbuf \<Rightarrow> bool" where
  "readonly m s \<longleftrightarrow> mem s = m \<and> strmode s = mode_constant \<and> pptr s = None \<and> epptr s = None"

lemma readonly_move: "move_to pos_in False n s = Some s' \<Longrightarrow> readonly m s \<Longrightarrow> readonly m s'"
  by (auto simp: readonly_def move_to_def bind_eq_Some_conv setg_def Let_def split: if_splits)

lemma readonly_seek:
  assumes "readonly m s"
  shows "sb_seekoff off way pos_in pos_out s = Ok (r, s') \<Longrightarrow> readonly m s'"
    "sb_seekpos sp pos_in pos_out s = Ok (r, s') \<Longrightarrow> readonly m s'"
proof -
  have "pptr s = None" using assms by (simp add: readonly_def)
  then show "sb_seekoff off way pos_in pos_out s = Ok (r, s') \<Longrightarrow> readonly m s'"
    "sb_seekpos sp pos_in pos_out s = Ok (r, s') \<Longrightarrow> readonly m s'"
    using assms by (cases pos_out; auto simp: sb_seekoff_def sb_seekpos_def bind_eq_Some_conv Let_def
        split: if_splits dest: readonly_move)+
qed

lemma readonly_step: "sb_step alloc s s' \<Longrightarrow> readonly m s \<Longrightarrow> readonly m s'"
proof (induction rule: sb_step.induct)
  case (sputc c s r s')
  then show ?case by (auto simp: readonly_def sputc_overflow sb_overflow_def mode_constant_def mode_dynamic_def split: if_splits)
next
  case (sputbackc c s r s')
  then show ?case by (auto simp: readonly_def sb_sputbackc_def sb_pbackfail_def mode_constant_def gbump_def bind_eq_Some_conv
        split: if_splits option.splits)
next
  case seekoff
  then show ?case by (blast intro: readonly_seek)
next
  case seekpos
  then show ?case by (blast intro: readonly_seek)
next
  case (freeze s b)
  then show ?case by (auto simp: readonly_def sb_freeze_def mode_constant_def mode_dynamic_def)
next
  case (str s)
  then show ?case by (auto simp: readonly_def sb_str_def mode_constant_def mode_dynamic_def)
qed (auto simp: readonly_def sb_sgetc_def sb_sbumpc_def sb_uflow_def sb_underflow_def sb_sungetc_def sb_pbackfail_def
    setg_def gbump_def bind_eq_Some_conv Let_def split: if_splits sb_result.splits)

lemma readonly_start: "strstreambuf_constant m gnext n = Some s \<Longrightarrow> readonly m s"
  by (auto simp: strstreambuf_constant_def sb_init_def null_streambuf_def setg_def readonly_def bind_eq_Some_conv
      split: if_splits)

lemma readonly_steps: "(sb_step alloc)\<^sup>*\<^sup>* s s' \<Longrightarrow> readonly m s \<Longrightarrow> readonly m s'"
  by (induction rule: rtranclp_induct) (auto dest: readonly_step)

section \<open>Arrays that are not the buffer's own\<close>

text \<open>
  C34: \<open>str\<close> hands the array out: it freezes a dynamic buffer, and as long as it is frozen no call
  replaces the array and the destructor does not release it; \<open>freeze(false)\<close> gives it back.  A buffer for
  constant characters never changes them, whatever is called.
\<close>

theorem arrays_protected:
  "(strmode s AND mode_dynamic \<noteq> 0 \<longrightarrow> sb_str s = (eback s, sb_freeze True s) \<and> strmode (sb_freeze True s) AND mode_frozen \<noteq> 0 \<and>
      (strmode s AND mode_frozen = 0 \<longrightarrow> sb_freeze False (sb_freeze True s) = s)) \<and>
   (strmode s AND mode_frozen \<noteq> 0 \<longrightarrow> sb_destroy s = Not_released \<and>
      (sb_inv s \<and> sb_step alloc s s' \<longrightarrow> eback s' = eback s \<and> epptr s' = epptr s \<and> length (mem s') = length (mem s))) \<and>
   (strstreambuf_constant m gnext n = Some s0 \<and> (sb_step alloc)\<^sup>*\<^sup>* s0 s1 \<longrightarrow> mem s1 = m)"
proof -
  have "(m OR mode_frozen) AND NOT mode_frozen = m" if "m AND mode_frozen = 0" for m
    using that by (auto simp: bit_eq_iff bit_simps)
  then have hand_out: "sb_str s = (eback s, sb_freeze True s) \<and> strmode (sb_freeze True s) AND mode_frozen \<noteq> 0 \<and>
      (strmode s AND mode_frozen = 0 \<longrightarrow> sb_freeze False (sb_freeze True s) = s)" if "strmode s AND mode_dynamic \<noteq> 0"
    using that by (simp add: sb_str_def sb_freeze_def mode_bits) (simp add: mode_frozen_def)
  have "sb_destroy s = Not_released" if "strmode s AND mode_frozen \<noteq> 0"
    using that by (simp add: sb_destroy_def)
  moreover have "mem s1 = m" if "strstreambuf_constant m gnext n = Some s0" "(sb_step alloc)\<^sup>*\<^sup>* s0 s1"
    using readonly_steps [OF that(2) readonly_start [OF that(1)]] by (simp add: readonly_def)
  ultimately show ?thesis using hand_out frozen_step by blast
qed

theorem arrays_protected_witness:
  "sb_destroy (snd (sb_str (dynamic_state [1, 2] 0 0 0 1 2))) = Not_released"
proof -
  have "strmode (snd (sb_str (dynamic_state [1, 2] 0 0 0 1 2))) AND mode_frozen \<noteq> 0"
    by (simp add: sb_str_def dynamic_state_def mode_dynamic_def mode_frozen_def)
  then show ?thesis using arrays_protected [of "snd (sb_str (dynamic_state [1, 2] 0 0 0 1 2))"] by blast
qed

end
