(* ===== verification/Shared_Mutex.thy ===== *)
theory Shared_Mutex
  imports Prelude
begin

text \<open>
  \<open>__shared_mutex_base\<close> of \<open>src/src/shared_mutex.cpp\<close>, and the threads that use it.  Each method runs with
  the internal mutex locked, so a method, or its part between two waits, is one step; a wait puts the
  thread to sleep on one of the two gates until it is notified (or wakes up for no reason) and tests
  again.  A method is a function of \<open>__state_\<close>; the step relation interleaves the threads.
\<close>

unbundle bit_operations_syntax

section \<open>The methods\<close>

definition write_entered :: u32 where "write_entered = push_bit 31 1"
definition n_readers :: u32 where "n_readers = NOT write_entered"

text \<open>Where a thread is: in no call, in a call (asleep on a gate, or about to test), or an owner.\<close>

datatype phase = Idle | Lock_gate1 (asleep: bool) | Lock_gate2 (asleep: bool) | Shared_gate1 (asleep: bool)
  | Exclusive | Shared

datatype notification = Nobody | All_gate1 | One_gate1 | One_gate2

definition lock_gate2 :: "u32 \<Rightarrow> u32 \<times> phase" where
  "lock_gate2 st = (if st AND n_readers \<noteq> 0 then (st, Lock_gate2 True) else (st, Exclusive))"

definition lock_gate1 :: "u32 \<Rightarrow> u32 \<times> phase" where
  "lock_gate1 st =
     (if st AND write_entered \<noteq> 0 then (st, Lock_gate1 True) else lock_gate2 (st OR write_entered))"

definition sm_try_lock :: "u32 \<Rightarrow> u32 \<times> phase" where
  "sm_try_lock st = (if st = 0 then (write_entered, Exclusive) else (st, Idle))"

definition sm_unlock :: "u32 \<Rightarrow> u32 \<times> notification" where
  "sm_unlock st = (0, All_gate1)"

definition sm_lock_shared :: "u32 \<Rightarrow> u32 \<times> phase" where
  "sm_lock_shared st =
     (if st AND write_entered \<noteq> 0 \<or> st AND n_readers = n_readers then (st, Shared_gate1 True)
      else let num_readers = (st AND n_readers) + 1 in ((st AND NOT n_readers) OR num_readers, Shared))"

definition sm_try_lock_shared :: "u32 \<Rightarrow> u32 \<times> phase" where
  "sm_try_lock_shared st =
     (let num_readers = st AND n_readers in
      if \<not> st AND write_entered \<noteq> 0 \<and> num_readers \<noteq> n_readers then
        ((st AND NOT n_readers) OR (num_readers + 1), Shared)
      else (st, Idle))"

definition sm_unlock_shared :: "u32 \<Rightarrow> u32 \<times> notification" where
  "sm_unlock_shared st =
     (let num_readers = (st AND n_readers) - 1;
          st = (st AND NOT n_readers) OR num_readers in
      (st, if st AND write_entered \<noteq> 0 then (if num_readers = 0 then One_gate2 else Nobody)
           else if num_readers = n_readers - 1 then One_gate1 else Nobody))"

section \<open>The threads\<close>

record shared_mutex =
  sm_state :: u32
  phase :: "nat \<Rightarrow> phase"

definition sm_start :: shared_mutex where
  "sm_start = \<lparr>sm_state = 0, phase = \<lambda>_. Idle\<rparr>"

definition at_gate1 :: "phase \<Rightarrow> bool" where
  "at_gate1 p \<longleftrightarrow> p = Lock_gate1 True \<or> p = Shared_gate1 True"

fun awake :: "phase \<Rightarrow> phase" where
  "awake (Lock_gate1 b) = Lock_gate1 False"
| "awake (Lock_gate2 b) = Lock_gate2 False"
| "awake (Shared_gate1 b) = Shared_gate1 False"
| "awake p = p"

text \<open>Whom a notification wakes up: \<open>notify_one\<close> one of the sleepers, if there are any.\<close>

inductive notified :: "notification \<Rightarrow> (nat \<Rightarrow> phase) \<Rightarrow> (nat \<Rightarrow> phase) \<Rightarrow> bool" where
  nobody: "notified Nobody ph ph"
| all: "notified All_gate1 ph (\<lambda>t. if at_gate1 (ph t) then awake (ph t) else ph t)"
| one1: "at_gate1 (ph t) \<Longrightarrow> notified One_gate1 ph (ph(t := awake (ph t)))"
| none1: "\<forall>t. \<not> at_gate1 (ph t) \<Longrightarrow> notified One_gate1 ph ph"
| one2: "ph t = Lock_gate2 True \<Longrightarrow> notified One_gate2 ph (ph(t := Lock_gate2 False))"
| none2: "\<forall>t. ph t \<noteq> Lock_gate2 True \<Longrightarrow> notified One_gate2 ph ph"

text \<open>The steps of \<open>N\<close> threads; an owner gives up what it owns.\<close>

inductive sm_step :: "nat \<Rightarrow> shared_mutex \<Rightarrow> shared_mutex \<Rightarrow> bool" for N where
  call_lock: "t < N \<Longrightarrow> phase m t = Idle \<Longrightarrow> sm_step N m (m\<lparr>phase := (phase m)(t := Lock_gate1 False)\<rparr>)"
| call_shared: "t < N \<Longrightarrow> phase m t = Idle \<Longrightarrow> sm_step N m (m\<lparr>phase := (phase m)(t := Shared_gate1 False)\<rparr>)"
| gate1: "t < N \<Longrightarrow> phase m t = Lock_gate1 False \<Longrightarrow> lock_gate1 (sm_state m) = (st, p) \<Longrightarrow>
    sm_step N m \<lparr>sm_state = st, phase = (phase m)(t := p)\<rparr>"
| gate2: "t < N \<Longrightarrow> phase m t = Lock_gate2 False \<Longrightarrow> lock_gate2 (sm_state m) = (st, p) \<Longrightarrow>
    sm_step N m \<lparr>sm_state = st, phase = (phase m)(t := p)\<rparr>"
| shared: "t < N \<Longrightarrow> phase m t = Shared_gate1 False \<Longrightarrow> sm_lock_shared (sm_state m) = (st, p) \<Longrightarrow>
    sm_step N m \<lparr>sm_state = st, phase = (phase m)(t := p)\<rparr>"
| try_lock: "t < N \<Longrightarrow> phase m t = Idle \<Longrightarrow> sm_try_lock (sm_state m) = (st, p) \<Longrightarrow>
    sm_step N m \<lparr>sm_state = st, phase = (phase m)(t := p)\<rparr>"
| try_shared: "t < N \<Longrightarrow> phase m t = Idle \<Longrightarrow> sm_try_lock_shared (sm_state m) = (st, p) \<Longrightarrow>
    sm_step N m \<lparr>sm_state = st, phase = (phase m)(t := p)\<rparr>"
| unlock: "t < N \<Longrightarrow> phase m t = Exclusive \<Longrightarrow> sm_unlock (sm_state m) = (st, n) \<Longrightarrow>
    notified n ((phase m)(t := Idle)) ph \<Longrightarrow> sm_step N m \<lparr>sm_state = st, phase = ph\<rparr>"
| unlock_shared: "t < N \<Longrightarrow> phase m t = Shared \<Longrightarrow> sm_unlock_shared (sm_state m) = (st, n) \<Longrightarrow>
    notified n ((phase m)(t := Idle)) ph \<Longrightarrow> sm_step N m \<lparr>sm_state = st, phase = ph\<rparr>"
| spurious: "t < N \<Longrightarrow> sm_step N m (m\<lparr>phase := (phase m)(t := awake (phase m t))\<rparr>)"

abbreviation sm_steps :: "nat \<Rightarrow> shared_mutex \<Rightarrow> shared_mutex \<Rightarrow> bool" where
  "sm_steps N \<equiv> (sm_step N)\<^sup>*\<^sup>*"

section \<open>The state as a number of readers and a writer\<close>

abbreviation "half \<equiv> (2147483648 :: nat)"

definition state_is :: "u32 \<Rightarrow> bool \<Rightarrow> nat \<Rightarrow> bool" where
  "state_is st w n \<longleftrightarrow> n < half \<and> unat st = (if w then half else 0) + n"

lemma n_readers_mask: "n_readers = mask 31"
  by (simp add: n_readers_def write_entered_def mask_eq_exp_minus_1)

lemma unat_write_entered: "unat write_entered = half"
  by (simp add: write_entered_def)

lemma bit_write_entered: "bit write_entered i \<longleftrightarrow> i = 31"
  unfolding write_entered_def bit_push_bit_iff bit_1_iff by auto

lemma and_write_entered: "st AND write_entered = (if bit st 31 then write_entered else 0)"
  by (rule bit_word_eqI) (auto simp: bit_write_entered bit_and_iff)

lemma readers_part: "state_is st w n \<Longrightarrow> unat (st AND n_readers) = n"
proof -
  assume s: "state_is st w n"
  have "unat (st AND n_readers) = take_bit 31 (unat st)"
    unfolding n_readers_mask take_bit_eq_mask [symmetric] by (rule unsigned_take_bit_eq)
  also have "\<dots> = unat st mod half" by (simp add: take_bit_eq_mod)
  finally show ?thesis using s by (simp add: state_is_def)
qed

lemma bit31: "bit st 31 \<longleftrightarrow> half \<le> unat st" for st :: u32
proof -
  have "bit st 31 \<longleftrightarrow> bit (unat st) 31" by (simp add: bit_unsigned_iff)
  also have "\<dots> \<longleftrightarrow> odd (unat st div half)" by (simp add: bit_iff_odd)
  also have "\<dots> \<longleftrightarrow> half \<le> unat st"
  proof -
    have "unat st < 2 ^ LENGTH(32)" by (rule unsigned_less)
    then have "unat st div half < 2" by (simp add: div_less_iff_less_mult)
    then have "unat st div half = 0 \<or> unat st div half = 1" by linarith
    then show ?thesis by auto
  qed
  finally show ?thesis .
qed

lemma writer_part: "state_is st w n \<Longrightarrow> st AND write_entered = (if w then write_entered else 0)"
  by (simp add: and_write_entered bit31 state_is_def)

lemma write_entered_nonzero: "write_entered \<noteq> 0"
  by (simp add: write_entered_def)

lemma writer_iff: "state_is st w n \<Longrightarrow> st AND write_entered = 0 \<longleftrightarrow> \<not> w"
  using writer_part [of st w n] write_entered_nonzero by simp

lemma unat_n_readers: "unat n_readers = half - 1"
  by (simp add: n_readers_def write_entered_def)

lemma readers_iff:
  "state_is st w n \<Longrightarrow> st AND n_readers = 0 \<longleftrightarrow> n = 0"
  "state_is st w n \<Longrightarrow> st AND n_readers = n_readers \<longleftrightarrow> n = half - 1"
  using readers_part [of st w n] unat_n_readers by (auto simp: unat_eq_0 [symmetric] word_unat_eq_iff)

lemma or_write_entered:
  assumes "unat k < half"
  shows "unat (k OR write_entered) = half + unat k"
proof -
  have "k AND write_entered = 0" using assms by (simp add: and_write_entered bit31)
  then have "k OR write_entered = k + write_entered" by (simp add: disjunctive_add_eq_or)
  then show ?thesis using assms by (simp add: unat_word_ariths unat_write_entered)
qed

lemma enter_state: "state_is st False n \<Longrightarrow> state_is (st OR write_entered) True n"
  using or_write_entered [of st] by (simp add: state_is_def)

lemma set_readers:
  assumes s: "state_is st w n" and k: "unat k < half"
  shows "state_is ((st AND NOT n_readers) OR k) w (unat k)"
proof -
  have "st AND NOT n_readers = (if w then write_entered else 0)"
    using writer_part [OF s] by (simp add: n_readers_def)
  then show ?thesis using or_write_entered [OF k] k by (simp add: state_is_def or.commute)
qed

section \<open>What the methods do to them\<close>

lemma lock_gate2_cases:
  "state_is st True n \<Longrightarrow> lock_gate2 st = (st, if n = 0 then Exclusive else Lock_gate2 True)"
  by (simp add: lock_gate2_def readers_iff)

lemma lock_gate1_cases:
  assumes "state_is st w n"
  shows "\<exists>st'. lock_gate1 st = (st', if w then Lock_gate1 True else if n = 0 then Exclusive else Lock_gate2 True) \<and>
    state_is st' True n"
proof (cases w)
  case True
  then show ?thesis using assms by (simp add: lock_gate1_def writer_iff [OF assms])
next
  case False
  then have e: "state_is (st OR write_entered) True n" using assms enter_state by simp
  then show ?thesis using False lock_gate2_cases [OF e]
    by (simp add: lock_gate1_def writer_iff [OF assms])
qed

lemma more_readers:
  assumes s: "state_is st False n" and n: "n \<noteq> half - 1"
  shows "state_is ((st AND NOT n_readers) OR ((st AND n_readers) + 1)) False (Suc n)"
proof -
  have "n < half" using s by (simp add: state_is_def)
  then have "unat ((st AND n_readers) + 1) = Suc n"
    using readers_part [OF s] n by (simp add: unat_word_ariths)
  then show ?thesis using set_readers [OF s, of "(st AND n_readers) + 1"] n \<open>n < half\<close> by simp
qed

lemma lock_shared_cases:
  assumes "state_is st w n"
  shows "\<exists>st'. sm_lock_shared st = (st', if w \<or> n = half - 1 then Shared_gate1 True else Shared) \<and>
    state_is st' w (if w \<or> n = half - 1 then n else Suc n)"
  using assms more_readers [of st n]
  by (cases w) (auto simp: sm_lock_shared_def Let_def writer_iff [OF assms] readers_iff [OF assms])

lemma try_lock_cases:
  assumes "state_is st w n"
  shows "\<exists>st'. sm_try_lock st = (st', if \<not> w \<and> n = 0 then Exclusive else Idle) \<and>
    state_is st' (w \<or> n = 0) n"
proof -
  have "st = 0 \<longleftrightarrow> \<not> w \<and> n = 0" using assms by (auto simp: state_is_def unat_eq_0 [symmetric])
  then show ?thesis using assms by (auto simp: sm_try_lock_def state_is_def unat_write_entered)
qed

lemma try_lock_shared_cases:
  assumes "state_is st w n"
  shows "\<exists>st'. sm_try_lock_shared st = (st', if w \<or> n = half - 1 then Idle else Shared) \<and>
    state_is st' w (if w \<or> n = half - 1 then n else Suc n)"
  using assms more_readers [of st n]
  by (cases w) (auto simp: sm_try_lock_shared_def Let_def writer_iff [OF assms] readers_iff [OF assms])

lemma unlock_shared_cases:
  assumes s: "state_is st w n" and n: "n \<noteq> 0"
  shows "\<exists>st'. sm_unlock_shared st = (st', if w then (if n = 1 then One_gate2 else Nobody)
      else if n = half - 1 then One_gate1 else Nobody) \<and> state_is st' w (n - 1)"
proof -
  let ?k = "(st AND n_readers) - 1" and ?st = "(st AND NOT n_readers) OR ((st AND n_readers) - 1)"
  have "n < half" using s by (simp add: state_is_def)
  have k: "unat ?k = n - 1"
    using readers_part [OF s] n by (subst unat_minus_one) (auto simp: unat_eq_0 [symmetric])
  then have st: "state_is ?st w (n - 1)" using set_readers [OF s, of ?k] \<open>n < half\<close> by simp
  have "?k = 0 \<longleftrightarrow> n = 1" using k n by (auto simp: unat_eq_0 [symmetric])
  moreover have "unat (n_readers - 1) = half - 2" by (simp add: n_readers_def write_entered_def)
  then have "?k = n_readers - 1 \<longleftrightarrow> n = half - 1" using k n by (auto simp: word_unat_eq_iff)
  ultimately show ?thesis using st writer_iff [OF st] by (simp add: sm_unlock_shared_def Let_def)
qed

end
