(* ===== verification/Shared_Mutex_Props.thy ===== *)
theory Shared_Mutex_Props
  imports Shared_Mutex
begin

text \<open>
  The invariant of the threads around a \<open>shared_mutex\<close>: the word \<open>__state_\<close> counts the owners, ownership
  excludes as it should, and, below 2147483648 threads, nobody sleeps without somebody to wake him up.
\<close>

definition entered :: "phase \<Rightarrow> bool" where
  "entered p \<longleftrightarrow> p = Exclusive \<or> p = Lock_gate2 True \<or> p = Lock_gate2 False"

definition readers :: "(nat \<Rightarrow> phase) \<Rightarrow> nat set" where
  "readers ph = {t. ph t = Shared}"

definition writers :: "(nat \<Rightarrow> phase) \<Rightarrow> nat set" where
  "writers ph = {t. entered (ph t)}"

lemma entered_simps [simp]:
  "entered Exclusive" "entered (Lock_gate2 b)" "\<not> entered Idle" "\<not> entered Shared" "\<not> entered (Lock_gate1 b)"
  "\<not> entered (Shared_gate1 b)"
  by (simp_all add: entered_def)

lemma readers_update [simp]:
  "readers (ph(t := p)) = (if p = Shared then insert t (readers ph) else readers ph - {t})"
  by (auto simp: readers_def)

lemma writers_update [simp]:
  "writers (ph(t := p)) = (if entered p then insert t (writers ph) else writers ph - {t})"
  by (auto simp: writers_def)

lemma owner_iff: "t \<in> readers ph \<longleftrightarrow> ph t = Shared" "t \<in> writers ph \<longleftrightarrow> entered (ph t)"
  by (simp_all add: readers_def writers_def)

lemma awake_owner [simp]: "awake p = Shared \<longleftrightarrow> p = Shared" "entered (awake p) \<longleftrightarrow> entered p"
  "awake p = Exclusive \<longleftrightarrow> p = Exclusive" "awake p = Idle \<longleftrightarrow> p = Idle"
  "awake p \<noteq> Lock_gate1 True" "awake p \<noteq> Lock_gate2 True" "awake p \<noteq> Shared_gate1 True"
  by (cases p; simp)+

fun phase_ok :: "nat \<Rightarrow> nat set \<Rightarrow> nat set \<Rightarrow> phase \<Rightarrow> bool" where
  "phase_ok N R W Exclusive \<longleftrightarrow> R = {}"
| "phase_ok N R W (Lock_gate2 b) \<longleftrightarrow> (b \<longrightarrow> R \<noteq> {})"
| "phase_ok N R W (Lock_gate1 b) \<longleftrightarrow> (b \<longrightarrow> W \<noteq> {})"
| "phase_ok N R W (Shared_gate1 b) \<longleftrightarrow> (b \<longrightarrow> N < half \<longrightarrow> W \<noteq> {})"
| "phase_ok N R W p \<longleftrightarrow> True"

definition sm_ok :: "nat \<Rightarrow> u32 \<Rightarrow> (nat \<Rightarrow> phase) \<Rightarrow> bool" where
  "sm_ok N st ph \<longleftrightarrow>
     readers ph \<union> writers ph \<subseteq> {..<N} \<and> state_is st (writers ph \<noteq> {}) (card (readers ph)) \<and>
     (\<forall>t\<in>writers ph. writers ph = {t}) \<and> (\<forall>t. phase_ok N (readers ph) (writers ph) (ph t))"

lemma sm_ok_finite: "sm_ok N st ph \<Longrightarrow> finite (readers ph)"
  by (rule finite_subset [of _ "{..<N}"]) (auto simp: sm_ok_def)

lemma sm_ok_start: "sm_ok N 0 (\<lambda>_. Idle)"
  by (simp add: sm_ok_def readers_def writers_def state_is_def)

text \<open>Waking threads up.\<close>

lemma phase_ok_awake: "phase_ok N R W p \<Longrightarrow> phase_ok N R W (awake p)"
  by (cases p) auto

lemma sm_ok_awake:
  assumes ok: "sm_ok N st ph" and wake: "\<forall>t. ph' t = ph t \<or> ph' t = awake (ph t)"
  shows "sm_ok N st ph'"
proof -
  have "ph' t = Shared \<longleftrightarrow> ph t = Shared" "entered (ph' t) \<longleftrightarrow> entered (ph t)"
    "phase_ok N R W (ph t) \<Longrightarrow> phase_ok N R W (ph' t)" for t R W
    using wake [rule_format, of t] phase_ok_awake awake_owner(1,2) by metis+
  moreover from this have "readers ph' = readers ph" "writers ph' = writers ph" by (auto simp: readers_def writers_def)
  ultimately show ?thesis using ok by (simp add: sm_ok_def)
qed

lemma notified_awake: "notified n ph ph' \<Longrightarrow> \<forall>t. ph' t = ph t \<or> ph' t = awake (ph t)"
  by (induction rule: notified.induct) auto

text \<open>A thread that owns nothing, and goes on to own nothing.\<close>

lemma sm_ok_outside:
  assumes "sm_ok N st ph" and "\<not> entered (ph t)" "ph t \<noteq> Shared" and "\<not> entered p" "p \<noteq> Shared"
    and "phase_ok N (readers ph) (writers ph) p"
  shows "sm_ok N st (ph(t := p))"
proof -
  have "writers ph - {t} = writers ph" "readers ph - {t} = readers ph" using assms(2,3) by (auto simp: owner_iff)
  then have "readers (ph(t := p)) = readers ph" "writers (ph(t := p)) = writers ph" using assms by simp_all
  then show ?thesis using assms unfolding sm_ok_def by simp
qed

text \<open>A thread that enters as the writer, and one that becomes a reader.\<close>

lemma no_writer: "writers ph = {} \<Longrightarrow> \<not> entered (ph u)"
  using owner_iff(2) [of u ph] by auto

lemma phase_ok_other:
  "phase_ok N R {} p \<Longrightarrow> \<not> entered p \<Longrightarrow> phase_ok N R' W p"
  by (cases p) auto

lemma sm_ok_enter:
  assumes ok: "sm_ok N st ph" and t: "t < N" "ph t \<noteq> Shared" and none: "writers ph = {}"
    and st: "state_is st' True (card (readers ph))"
    and p: "p = (if card (readers ph) = 0 then Exclusive else Lock_gate2 True)"
  shows "sm_ok N st' (ph(t := p))"
proof -
  have "readers ph - {t} = readers ph" using t by (auto simp: owner_iff)
  then have R: "readers (ph(t := p)) = readers ph" and W: "writers (ph(t := p)) = {t}" using p none by simp_all
  have "phase_ok N (readers ph) {t} (ph u)" for u
    using ok no_writer [OF none, of u] phase_ok_other [of N "readers ph" "ph u" "readers ph" "{t}"] none
    by (simp add: sm_ok_def)
  moreover have "phase_ok N (readers ph) {t} p" using p sm_ok_finite [OF ok] by auto
  ultimately show ?thesis using ok t st unfolding sm_ok_def R W by simp
qed

lemma sm_ok_read:
  assumes ok: "sm_ok N st ph" and t: "t < N" "ph t \<noteq> Shared" and none: "writers ph = {}"
    and st: "state_is st' False (Suc (card (readers ph)))"
  shows "sm_ok N st' (ph(t := Shared))"
proof -
  have R: "readers (ph(t := Shared)) = insert t (readers ph)" and W: "writers (ph(t := Shared)) = {}" using none by simp_all
  have "phase_ok N (insert t (readers ph)) {} (ph u)" for u
    using ok no_writer [OF none, of u] phase_ok_other [of N "readers ph" "ph u" "insert t (readers ph)" "{}"] none
    by (simp add: sm_ok_def)
  moreover have "card (insert t (readers ph)) = Suc (card (readers ph))"
    using t sm_ok_finite [OF ok] by (simp add: owner_iff)
  ultimately show ?thesis using ok t st unfolding sm_ok_def R W by simp
qed

text \<open>The last reader that can be counted.\<close>

lemma full_count:
  assumes ok: "sm_ok N st ph" and t: "t < N" "ph t \<noteq> Shared" and full: "card (readers ph) = half - 1"
  shows "half \<le> N"
proof -
  have "insert t (readers ph) \<subseteq> {..<N}" using ok t by (auto simp: sm_ok_def)
  then have "card (insert t (readers ph)) \<le> N" using card_mono [of "{..<N}"] by fastforce
  then show ?thesis using full t sm_ok_finite [OF ok] by (simp add: owner_iff)
qed

text \<open>The owners that give up.\<close>

lemma sm_ok_unlock:
  assumes ok: "sm_ok N st ph" and t: "ph t = Exclusive" and wake: "notified All_gate1 (ph(t := Idle)) ph'"
  shows "sm_ok N 0 ph'"
proof -
  have "t \<in> writers ph" using t by (simp add: owner_iff)
  then have W: "writers ph = {t}" and R: "readers ph = {}" using ok t unfolding sm_ok_def by (metis phase_ok.simps(1))+
  have ph': "ph' = (\<lambda>u. if at_gate1 ((ph(t := Idle)) u) then awake ((ph(t := Idle)) u) else (ph(t := Idle)) u)"
    using wake by cases auto
  have same: "ph' u = Shared \<longleftrightarrow> (ph(t := Idle)) u = Shared" "entered (ph' u) \<longleftrightarrow> entered ((ph(t := Idle)) u)" for u
    unfolding ph' by simp_all
  then have "readers ph' = {}" "writers ph' = {}"
    using W R by (auto simp: readers_def writers_def fun_upd_def split: if_splits)
  moreover have "phase_ok N {} {} (ph' u)" for u
    using \<open>writers ph' = {}\<close> no_writer [of ph' u] unfolding ph' at_gate1_def
    by (cases "(ph(t := Idle)) u") (auto simp: entered_def)
  ultimately show ?thesis by (simp add: sm_ok_def state_is_def)
qed

lemma phase_ok_fewer: "phase_ok N R W p \<Longrightarrow> R \<noteq> {} \<Longrightarrow> R' \<noteq> {} \<or> p \<noteq> Lock_gate2 True \<Longrightarrow> phase_ok N R' W p"
  by (cases p) auto

lemma sm_ok_unlock_shared:
  assumes ok: "sm_ok N st ph" and t: "ph t = Shared"
    and st: "state_is st' (writers ph \<noteq> {}) (card (readers ph) - 1)"
    and wake: "notified n (ph(t := Idle)) ph'" and n: "writers ph \<noteq> {} \<Longrightarrow> card (readers ph) = 1 \<Longrightarrow> n = One_gate2"
  shows "sm_ok N st' ph'"
proof -
  let ?ph = "ph(t := Idle)" and ?R = "readers ph - {t}"
  have R: "t \<in> readers ph" using t by (simp add: owner_iff)
  have "t \<notin> writers ph" using t by (simp add: owner_iff)
  have "ph' u = Shared \<longleftrightarrow> ?ph u = Shared" "entered (ph' u) \<longleftrightarrow> entered (?ph u)" for u
    using notified_awake [OF wake, rule_format, of u] awake_owner(1,2) by metis+
  then have "readers ph' = readers ?ph" "writers ph' = writers ?ph" by (simp_all add: readers_def writers_def)
  then have R': "readers ph' = ?R" and W': "writers ph' = writers ph" using \<open>t \<notin> writers ph\<close> by simp_all
  have awake: "ph' u \<noteq> Lock_gate2 True" if "?R = {}" for u
  proof (cases "writers ph = {}")
    case True
    then show ?thesis using no_writer [of ph' u] W' by (auto simp: entered_def)
  next
    case False
    have "readers ph = {t}" using R that by blast
    then have "notified One_gate2 ?ph ph'" using n False wake by simp
    then show ?thesis
    proof cases
      case (one2 v)
      then have "v \<in> writers ph" using owner_iff(2) [of v ph] by (auto split: if_splits)
      then have "writers ph = {v}" using ok by (simp add: sm_ok_def)
      then have "\<not> entered (ph u)" if "u \<noteq> v" using that owner_iff(2) [of u ph] by auto
      then show ?thesis using one2 t by (auto simp: entered_def)
    qed simp_all
  qed
  have "phase_ok N (readers ph) (writers ph) (ph u)" for u using ok by (simp add: sm_ok_def)
  then have "phase_ok N (readers ph) (writers ph) (?ph u)" for u by simp
  then have "phase_ok N (readers ph) (writers ph) (ph' u)" for u
    using notified_awake [OF wake, rule_format, of u] phase_ok_awake by metis
  then have "phase_ok N ?R (writers ph) (ph' u)" for u using phase_ok_fewer [of N "readers ph" "writers ph" "ph' u" ?R] R awake by blast
  moreover have "card ?R = card (readers ph) - 1" using R by simp
  moreover have "?R \<union> writers ph \<subseteq> {..<N}" "\<forall>t\<in>writers ph. writers ph = {t}" using ok by (auto simp: sm_ok_def)
  ultimately show ?thesis using st unfolding sm_ok_def R' W' by simp
qed

section \<open>Every step keeps the invariant\<close>

lemma state_is_unique: "state_is st w n \<Longrightarrow> state_is st' w n \<Longrightarrow> st' = st"
  by (simp add: state_is_def word_unat_eq_iff)

lemma sm_ok_gate2:
  assumes ok: "sm_ok N st ph" and t: "entered (ph t)" and p: "p = (if card (readers ph) = 0 then Exclusive else Lock_gate2 True)"
  shows "sm_ok N st (ph(t := p))"
proof -
  have W: "writers ph = {t}" using ok t unfolding sm_ok_def by (metis owner_iff(2))
  have "t \<notin> readers ph" using t by (auto simp: owner_iff entered_def)
  then have "readers (ph(t := p)) = readers ph" "writers (ph(t := p)) = writers ph" using p W by auto
  moreover have "phase_ok N (readers ph) (writers ph) p" using p sm_ok_finite [OF ok] by auto
  ultimately show ?thesis using ok unfolding sm_ok_def by simp
qed

lemma sm_step_ok:
  assumes "sm_step N m m'" and ok: "sm_ok N (sm_state m) (phase m)"
  shows "sm_ok N (sm_state m') (phase m')"
proof -
  let ?W = "writers (phase m)" and ?n = "card (readers (phase m))"
  have s: "state_is (sm_state m) (?W \<noteq> {}) ?n" using ok by (simp add: sm_ok_def)
  show ?thesis
    using assms(1)
  proof cases
    case (call_lock t)
    then show ?thesis using sm_ok_outside [OF ok, of t "Lock_gate1 False"] by simp
  next
    case (call_shared t)
    then show ?thesis using sm_ok_outside [OF ok, of t "Shared_gate1 False"] by simp
  next
    case (spurious t)
    then show ?thesis using sm_ok_awake [OF ok, of "(phase m)(t := awake (phase m t))"] by simp
  next
    case (gate1 t st p)
    then have p: "p = (if ?W \<noteq> {} then Lock_gate1 True else if ?n = 0 then Exclusive else Lock_gate2 True)"
      "state_is st True ?n"
      using lock_gate1_cases [OF s] by auto
    show ?thesis
    proof (cases "?W = {}")
      case True
      then show ?thesis using p gate1 sm_ok_enter [OF ok gate1(2), of st p] by auto
    next
      case False
      then have "st = sm_state m" using p(2) s state_is_unique by simp
      then show ?thesis using gate1 p(1) False sm_ok_outside [OF ok, of t p] by simp
    qed
  next
    case (gate2 t st p)
    then have "t \<in> ?W" by (simp add: owner_iff)
    then have "?W \<noteq> {}" by blast
    then have "state_is (sm_state m) True ?n" using s by simp
    from lock_gate2_cases [OF this] gate2 show ?thesis using sm_ok_gate2 [OF ok, of t p] by simp
  next
    case (shared t st p)
    then have p: "p = (if ?W \<noteq> {} \<or> ?n = half - 1 then Shared_gate1 True else Shared)"
      "state_is st (?W \<noteq> {}) (if ?W \<noteq> {} \<or> ?n = half - 1 then ?n else Suc ?n)"
      using lock_shared_cases [OF s] by auto
    show ?thesis
    proof (cases "?W \<noteq> {} \<or> ?n = half - 1")
      case True
      then have "st = sm_state m" using p(2) s state_is_unique by simp
      moreover have "?W \<noteq> {}" if "N < half" using True full_count [OF ok shared(2)] shared(3) that by auto
      ultimately show ?thesis using shared p(1) True sm_ok_outside [OF ok, of t p] by simp
    next
      case False
      then show ?thesis using shared p sm_ok_read [OF ok shared(2), of st] by simp
    qed
  next
    case (try_lock t st p)
    then have p: "p = (if ?W = {} \<and> ?n = 0 then Exclusive else Idle)" "state_is st (?W \<noteq> {} \<or> ?n = 0) ?n"
      using try_lock_cases [OF s] by auto
    show ?thesis
    proof (cases "?W = {} \<and> ?n = 0")
      case True
      then show ?thesis using p try_lock sm_ok_enter [OF ok try_lock(2), of st p] by auto
    next
      case False
      then have "st = sm_state m" using p(2) s state_is_unique [of "sm_state m" "?W \<noteq> {}" ?n st]
        by (cases "?W = {}") (auto simp: state_is_def)
      moreover have "(phase m)(t := p) = phase m" using p(1) False try_lock by (auto simp: fun_upd_idem)
      ultimately show ?thesis using try_lock ok by simp
    qed
  next
    case (try_shared t st p)
    then have p: "p = (if ?W \<noteq> {} \<or> ?n = half - 1 then Idle else Shared)"
      "state_is st (?W \<noteq> {}) (if ?W \<noteq> {} \<or> ?n = half - 1 then ?n else Suc ?n)"
      using try_lock_shared_cases [OF s] by auto
    show ?thesis
    proof (cases "?W \<noteq> {} \<or> ?n = half - 1")
      case True
      then have "st = sm_state m" using p(2) s state_is_unique by simp
      moreover have "(phase m)(t := p) = phase m" using p(1) True try_shared by (auto simp: fun_upd_idem)
      ultimately show ?thesis using try_shared ok by simp
    next
      case False
      then show ?thesis using try_shared p sm_ok_read [OF ok try_shared(2), of st] by simp
    qed
  next
    case (unlock t st n ph)
    then have "sm_ok N 0 ph" using sm_ok_unlock [OF ok] by (auto simp: sm_unlock_def)
    then show ?thesis using unlock by (simp add: sm_unlock_def)
  next
    case (unlock_shared t st n ph)
    have "?n \<noteq> 0" using unlock_shared(3) sm_ok_finite [OF ok] by (auto simp: owner_iff [symmetric])
    then have "n = (if ?W \<noteq> {} then (if ?n = 1 then One_gate2 else Nobody)
        else if ?n = half - 1 then One_gate1 else Nobody)" "state_is st (?W \<noteq> {}) (?n - 1)"
      using unlock_shared_cases [OF s] unlock_shared(4) by auto
    then show ?thesis using unlock_shared sm_ok_unlock_shared [OF ok unlock_shared(3), of st n ph] by simp
  qed
qed

lemma sm_steps_ok: "sm_steps N sm_start m \<Longrightarrow> sm_ok N (sm_state m) (phase m)"
  by (induction rule: rtranclp_induct) (auto simp: sm_start_def sm_ok_start intro: sm_step_ok)

section \<open>Exclusion and waiting\<close>

text \<open>
  C9: In every interleaving of the calls of any number of threads, an exclusive owner is alone, the reader bits of
  \<open>__state_\<close> are the number of shared owners (at most 2147483647), and no thread sleeps on
  \<open>__gate2_\<close> without a reader, nor in \<open>lock\<close> on \<open>__gate1_\<close> without a writer ahead of it; with fewer than
  2147483648 threads, this holds for the sleeping readers as well: no wakeup is lost.
\<close>

theorem shared_mutex_safe:
  assumes "sm_steps N sm_start m"
  shows "(\<forall>t u. phase m t = Exclusive \<and> u \<noteq> t \<longrightarrow> phase m u \<noteq> Exclusive \<and> phase m u \<noteq> Shared) \<and>
    unat (sm_state m AND n_readers) = card {t. phase m t = Shared} \<and> card {t. phase m t = Shared} < 2147483648 \<and>
    (\<forall>t. phase m t = Lock_gate2 True \<longrightarrow> (\<exists>u. phase m u = Shared)) \<and>
    (\<forall>t. phase m t = Lock_gate1 True \<or> N < 2147483648 \<and> phase m t = Shared_gate1 True \<longrightarrow>
      (\<exists>u. u \<noteq> t \<and> (phase m u = Exclusive \<or> phase m u = Lock_gate2 True \<or> phase m u = Lock_gate2 False)))"
proof -
  have ok: "sm_ok N (sm_state m) (phase m)" using sm_steps_ok [OF assms] .
  then have s: "state_is (sm_state m) (writers (phase m) \<noteq> {}) (card (readers (phase m)))"
    and W: "\<And>t. t \<in> writers (phase m) \<Longrightarrow> writers (phase m) = {t}"
    and ph: "\<And>t. phase_ok N (readers (phase m)) (writers (phase m)) (phase m t)"
    by (simp_all add: sm_ok_def)
  have "phase m u \<noteq> Exclusive \<and> phase m u \<noteq> Shared" if "phase m t = Exclusive" "u \<noteq> t" for t u
  proof -
    have "readers (phase m) = {}" "writers (phase m) = {t}" using that ph [of t] W [of t] by (simp_all add: owner_iff)
    then show ?thesis using that(2) owner_iff [of u "phase m"] by auto
  qed
  moreover have "\<exists>u. phase m u = Shared" if "phase m t = Lock_gate2 True" for t
    using ph [of t] that by (auto simp: readers_def)
  moreover have "\<exists>u. u \<noteq> t \<and> entered (phase m u)"
    if "phase m t = Lock_gate1 True \<or> N < half \<and> phase m t = Shared_gate1 True" for t
  proof -
    have "writers (phase m) \<noteq> {}" using ph [of t] that by auto
    then obtain u where "entered (phase m u)" by (auto simp: writers_def)
    moreover from this have "u \<noteq> t" using that by auto
    ultimately show ?thesis by blast
  qed
  ultimately show ?thesis
    using readers_part [OF s] s unfolding entered_def by (auto simp: readers_def state_is_def)
qed

theorem shared_mutex_safe_witness:
  "card {t. phase (sm_start\<lparr>phase := (phase sm_start)(1 := Lock_gate1 False)\<rparr>) t = Shared} < 2147483648"
proof -
  have "sm_step 2 sm_start (sm_start\<lparr>phase := (phase sm_start)(1 := Lock_gate1 False)\<rparr>)"
    by (rule sm_step.call_lock) (simp_all add: sm_start_def)
  then show ?thesis using shared_mutex_safe [OF r_into_rtranclp] by blast
qed

section \<open>A lost wakeup\<close>

lemma state_nat: "n < half \<Longrightarrow> state_is (of_nat n) False n"
  by (simp add: state_is_def unat_of_nat)

lemma lock_shared_nat:
  "n < half - 1 \<Longrightarrow> sm_lock_shared (of_nat n) = (of_nat (Suc n), Shared)"
  "sm_lock_shared (of_nat (half - 1)) = (of_nat (half - 1), Shared_gate1 True)"
proof -
  show "sm_lock_shared (of_nat n) = (of_nat (Suc n), Shared)" if n: "n < half - 1"
  proof -
    obtain st where st: "sm_lock_shared (of_nat n) = (st, Shared)" "state_is st False (Suc n)"
      using lock_shared_cases [OF state_nat, of n] n by auto
    have "st = of_nat (Suc n)" using n by (intro state_is_unique [OF state_nat st(2)]) simp
    with st show ?thesis by simp
  qed
  obtain st where st: "sm_lock_shared (of_nat (half - 1)) = (st, Shared_gate1 True)" "state_is st False (half - 1)"
    using lock_shared_cases [OF state_nat, of "half - 1"] by auto
  have "st = of_nat (half - 1)" by (intro state_is_unique [OF state_nat st(2)]) simp
  with st show "sm_lock_shared (of_nat (half - 1)) = (of_nat (half - 1), Shared_gate1 True)" by simp
qed

lemma unlock_shared_nat:
  assumes "0 < n" and "n < half"
  shows "sm_unlock_shared (of_nat n) = (of_nat (n - 1), if n = half - 1 then One_gate1 else Nobody)"
proof -
  obtain st where st: "sm_unlock_shared (of_nat n) = (st, if n = half - 1 then One_gate1 else Nobody)"
    "state_is st False (n - 1)"
    using unlock_shared_cases [OF state_nat, of n] assms by auto
  have "st = of_nat (n - 1)" using assms by (intro state_is_unique [OF state_nat st(2)]) simp
  with st show ?thesis by simp
qed

text \<open>The readers from \<open>a\<close> to \<open>b\<close>, and two more threads.\<close>

definition crowd :: "nat \<Rightarrow> nat \<Rightarrow> nat \<Rightarrow> phase \<Rightarrow> phase \<Rightarrow> shared_mutex" where
  "crowd n a b x y = \<lparr>sm_state = of_nat n, phase = \<lambda>t. if t = half - 1 then x else if t = half then y
     else if a \<le> t \<and> t < b then Shared else Idle\<rparr>"

lemma crowd_start: "crowd 0 0 0 Idle Idle = sm_start"
  by (simp add: crowd_def sm_start_def fun_eq_iff)

lemma crowd_in:
  assumes "n < half - 1"
  shows "sm_steps (half + 1) (crowd n 0 n Idle Idle) (crowd (Suc n) 0 (Suc n) Idle Idle)"
proof -
  let ?m = "crowd n 0 n Idle Idle"
  let ?m1 = "?m\<lparr>phase := (phase ?m)(n := Shared_gate1 False)\<rparr>"
  have first: "sm_step (half + 1) ?m ?m1" using assms by (intro sm_step.call_shared) (simp_all add: crowd_def)
  have "sm_step (half + 1) ?m1 \<lparr>sm_state = of_nat (Suc n), phase = (phase ?m1)(n := Shared)\<rparr>"
    using assms by (intro sm_step.shared) (simp_all add: crowd_def lock_shared_nat del: of_nat_Suc)
  moreover have "\<lparr>sm_state = of_nat (Suc n), phase = (phase ?m1)(n := Shared)\<rparr> = crowd (Suc n) 0 (Suc n) Idle Idle"
    using assms by (auto simp: crowd_def fun_eq_iff)
  ultimately have "sm_step (half + 1) ?m1 (crowd (Suc n) 0 (Suc n) Idle Idle)" by simp
  then have "sm_steps (half + 1) ?m1 (crowd (Suc n) 0 (Suc n) Idle Idle)" by (rule r_into_rtranclp)
  with first show ?thesis by (rule converse_rtranclp_into_rtranclp)
qed

lemma crowd_out:
  assumes "0 < n" and "n < half - 1" and "a < b" and "b \<le> half - 1"
  shows "sm_step (half + 1) (crowd n a b x y) (crowd (n - 1) (Suc a) b x y)"
proof -
  let ?ph = "(phase (crowd n a b x y))(a := Idle)"
  have "sm_step (half + 1) (crowd n a b x y) \<lparr>sm_state = of_nat (n - 1), phase = ?ph\<rparr>"
    using assms unlock_shared_nat [of n]
    by (intro sm_step.unlock_shared [where t = a and n = Nobody]) (auto simp: crowd_def intro: notified.nobody)
  moreover have "\<lparr>sm_state = of_nat (n - 1), phase = ?ph\<rparr> = crowd (n - 1) (Suc a) b x y"
    using assms by (auto simp: crowd_def fun_eq_iff)
  ultimately show ?thesis by simp
qed

lemma crowd_full: "n \<le> half - 1 \<Longrightarrow> sm_steps (half + 1) sm_start (crowd n 0 n Idle Idle)"
proof (induction n)
  case 0
  show ?case by (simp only: crowd_start)
next
  case (Suc n)
  then have "sm_steps (half + 1) sm_start (crowd n 0 n Idle Idle)" "n < half - 1" by simp_all
  with crowd_in show ?case by (metis rtranclp_trans)
qed

lemma crowd_empty:
  "b = a + d \<Longrightarrow> b \<le> half - 1 \<Longrightarrow> e + d < half - 1 \<Longrightarrow>
    sm_steps (half + 1) (crowd (e + d) a b x y) (crowd e b b x y)"
proof (induction d arbitrary: a)
  case (Suc d)
  have "sm_step (half + 1) (crowd (e + Suc d) a b x y) (crowd (e + Suc d - 1) (Suc a) b x y)"
    using Suc.prems by (intro crowd_out) simp_all
  moreover have "sm_steps (half + 1) (crowd (e + d) (Suc a) b x y) (crowd e b b x y)"
    using Suc.prems by (intro Suc.IH) simp_all
  ultimately show ?case by (simp add: converse_rtranclp_into_rtranclp)
qed simp

text \<open>The steps of the last two threads.\<close>

lemma crowd_call:
  "sm_step (half + 1) (crowd n a b Idle y) (crowd n a b (Shared_gate1 False) y)"
  "sm_step (half + 1) (crowd n a b x Idle) (crowd n a b x (Shared_gate1 False))"
proof -
  have "crowd n a b (Shared_gate1 False) y =
      (crowd n a b Idle y)\<lparr>phase := (phase (crowd n a b Idle y))(half - 1 := Shared_gate1 False)\<rparr>"
    by (simp add: crowd_def fun_eq_iff)
  moreover have "phase (crowd n a b Idle y) (half - 1) = Idle" by (simp add: crowd_def)
  ultimately show "sm_step (half + 1) (crowd n a b Idle y) (crowd n a b (Shared_gate1 False) y)"
    using sm_step.call_shared [of "half - 1" "half + 1" "crowd n a b Idle y"] by simp
  have "crowd n a b x (Shared_gate1 False) =
      (crowd n a b x Idle)\<lparr>phase := (phase (crowd n a b x Idle))(half := Shared_gate1 False)\<rparr>"
    by (simp add: crowd_def fun_eq_iff)
  moreover have "phase (crowd n a b x Idle) half = Idle" by (simp add: crowd_def)
  ultimately show "sm_step (half + 1) (crowd n a b x Idle) (crowd n a b x (Shared_gate1 False))"
    using sm_step.call_shared [of half "half + 1" "crowd n a b x Idle"] by simp
qed

lemma crowd_read:
  assumes "sm_lock_shared (of_nat n) = (of_nat n', p)"
  shows "sm_step (half + 1) (crowd n a b (Shared_gate1 False) y) (crowd n' a b p y)"
    "sm_step (half + 1) (crowd n a b x (Shared_gate1 False)) (crowd n' a b x p)"
proof -
  have "crowd n' a b p y = \<lparr>sm_state = of_nat n', phase = (phase (crowd n a b (Shared_gate1 False) y))(half - 1 := p)\<rparr>"
    by (simp add: crowd_def fun_eq_iff)
  moreover have "phase (crowd n a b (Shared_gate1 False) y) (half - 1) = Shared_gate1 False" by (simp add: crowd_def)
  ultimately show "sm_step (half + 1) (crowd n a b (Shared_gate1 False) y) (crowd n' a b p y)"
    using sm_step.shared [of "half - 1" "half + 1" "crowd n a b (Shared_gate1 False) y"] assms by (simp add: crowd_def)
  have "crowd n' a b x p = \<lparr>sm_state = of_nat n', phase = (phase (crowd n a b x (Shared_gate1 False)))(half := p)\<rparr>"
    by (simp add: crowd_def fun_eq_iff)
  moreover have "phase (crowd n a b x (Shared_gate1 False)) half = Shared_gate1 False" by (simp add: crowd_def)
  ultimately show "sm_step (half + 1) (crowd n a b x (Shared_gate1 False)) (crowd n' a b x p)"
    using sm_step.shared [of half "half + 1" "crowd n a b x (Shared_gate1 False)"] assms by (simp add: crowd_def)
qed

lemma crowd_notify:
  "sm_step (half + 1) (crowd (half - 1) 0 (half - 1) (Shared_gate1 True) y)
     (crowd (half - 2) 1 (half - 1) (Shared_gate1 False) y)"
proof -
  let ?c = "crowd (half - 1) 0 (half - 1) (Shared_gate1 True) y" and ?ph = "(phase (crowd (half - 1) 0 (half - 1) (Shared_gate1 True) y))(0 := Idle)"
  have "notified One_gate1 ?ph (?ph(half - 1 := awake (?ph (half - 1))))"
    by (rule notified.one1) (simp add: crowd_def at_gate1_def)
  moreover have "sm_unlock_shared (sm_state ?c) = (of_nat (half - 2), One_gate1)"
    using unlock_shared_nat [of "half - 1"] by (simp add: crowd_def)
  moreover have "phase ?c 0 = Shared" by (simp add: crowd_def)
  ultimately have "sm_step (half + 1) ?c \<lparr>sm_state = of_nat (half - 2), phase = ?ph(half - 1 := awake (?ph (half - 1)))\<rparr>"
    by (intro sm_step.unlock_shared) auto
  moreover have "\<lparr>sm_state = of_nat (half - 2), phase = ?ph(half - 1 := awake (?ph (half - 1)))\<rparr> =
      crowd (half - 2) 1 (half - 1) (Shared_gate1 False) y"
    by (auto simp: crowd_def fun_eq_iff)
  ultimately show ?thesis by simp
qed

lemma crowd_leave:
  assumes "0 < n" and "n < half - 1"
  shows "sm_step (half + 1) (crowd n a b Shared y) (crowd (n - 1) a b Idle y)"
proof -
  let ?ph = "(phase (crowd n a b Shared y))(half - 1 := Idle)"
  have "sm_step (half + 1) (crowd n a b Shared y) \<lparr>sm_state = of_nat (n - 1), phase = ?ph\<rparr>"
    using assms unlock_shared_nat [of n]
    by (intro sm_step.unlock_shared [where t = "half - 1" and n = Nobody]) (auto simp: crowd_def intro: notified.nobody)
  moreover have "\<lparr>sm_state = of_nat (n - 1), phase = ?ph\<rparr> = crowd (n - 1) a b Idle y"
    by (auto simp: crowd_def fun_eq_iff)
  ultimately show ?thesis by simp
qed

text \<open>
  C38: From 2147483649 threads on a wakeup can be lost: after all 2147483647 places for readers were
  taken and two more threads went to sleep in \<open>lock_shared\<close>, two readers leave before the first of the sleepers runs;
  only one is notified, because \<open>unlock_shared\<close> notifies only when it leaves 2147483646 readers behind.
  When all others are done, the mutex is free and the last thread still sleeps.
\<close>

theorem shared_mutex_lost_wakeup:
  "\<exists>m t. sm_steps 2147483649 sm_start m \<and> sm_state m = 0 \<and>
    phase m = (\<lambda>_. Idle)(t := Shared_gate1 True)"
proof -
  let ?K = "half - 1"
  note full = crowd_read [OF lock_shared_nat(2)]
  have "sm_steps (half + 1) sm_start (crowd ?K 0 ?K Idle Idle)" by (rule crowd_full) simp
  also have "sm_step (half + 1) (crowd ?K 0 ?K Idle Idle) (crowd ?K 0 ?K (Shared_gate1 False) Idle)" by (rule crowd_call)
  also (rtranclp.rtrancl_into_rtrancl) have "sm_step (half + 1) \<dots> (crowd ?K 0 ?K (Shared_gate1 True) Idle)" by (rule full)
  also (rtranclp.rtrancl_into_rtrancl) have "sm_step (half + 1) \<dots> (crowd ?K 0 ?K (Shared_gate1 True) (Shared_gate1 False))" by (rule crowd_call)
  also (rtranclp.rtrancl_into_rtrancl) have "sm_step (half + 1) \<dots> (crowd ?K 0 ?K (Shared_gate1 True) (Shared_gate1 True))" by (rule full)
  also (rtranclp.rtrancl_into_rtrancl) have "sm_step (half + 1) \<dots> (crowd (half - 2) 1 ?K (Shared_gate1 False) (Shared_gate1 True))" by (rule crowd_notify)
  also (rtranclp.rtrancl_into_rtrancl) have "sm_step (half + 1) \<dots> (crowd (half - 2 - 1) (Suc 1) ?K (Shared_gate1 False) (Shared_gate1 True))"
    by (rule crowd_out) simp_all
  also (rtranclp.rtrancl_into_rtrancl) have "sm_step (half + 1) \<dots> (crowd (Suc (half - 2 - 1)) (Suc 1) ?K Shared (Shared_gate1 True))"
    by (rule crowd_read(1) [OF lock_shared_nat(1)]) simp
  finally (rtranclp.rtrancl_into_rtrancl) have "sm_steps (half + 1) sm_start (crowd (1 + (half - 3)) 2 ?K Shared (Shared_gate1 True))"
    by (simp add: numeral_2_eq_2)
  also have "sm_steps (half + 1) \<dots> (crowd 1 ?K ?K Shared (Shared_gate1 True))" by (rule crowd_empty) simp_all
  finally (rtranclp_trans) have "sm_steps (half + 1) sm_start (crowd 1 ?K ?K Shared (Shared_gate1 True))" .
  moreover have "sm_step (half + 1) (crowd 1 ?K ?K Shared (Shared_gate1 True)) (crowd 0 ?K ?K Idle (Shared_gate1 True))"
    using crowd_leave [of 1 ?K ?K "Shared_gate1 True"] by simp
  ultimately have "sm_steps (half + 1) sm_start (crowd 0 ?K ?K Idle (Shared_gate1 True))"
    by (rule rtranclp.rtrancl_into_rtrancl)
  moreover have "sm_state (crowd 0 ?K ?K Idle (Shared_gate1 True)) = 0"
    "phase (crowd 0 ?K ?K Idle (Shared_gate1 True)) = (\<lambda>_. Idle)(half := Shared_gate1 True)"
    by (simp_all add: crowd_def fun_eq_iff)
  ultimately show ?thesis by (intro exI [of _ "crowd 0 ?K ?K Idle (Shared_gate1 True)"] exI [of _ half]) simp
qed

end
