(* ===== verification/Call_Once.thy ===== *)
theory Call_Once
  imports Prelude
begin

text \<open>
  \<open>std::call_once\<close> (\<open>src/include/mutex\<close>) and \<open>__call_once\<close> of \<open>src/src/mutex.cpp\<close>: any number of threads
  call it with one flag.  What a thread does with the global mutex \<open>mut\<close> locked is one step, and so are the
  two stores with the mutex locked after the function has returned or thrown; the function itself runs
  unlocked, and whether it returns or throws is open.
\<close>

section \<open>The threads and the flag\<close>

text \<open>
  \<open>Entering\<close>: at the loop of \<open>__call_once\<close>, about to test the flag; \<open>Sleeping\<close>: in \<open>condvar_wait\<close>;
  \<open>Running\<close>: in the function; \<open>Finished\<close> and \<open>Raised\<close>: after it, before the mutex is locked again;
  \<open>Broadcasting\<close>: after the store, with the exception to throw again or not.
\<close>

datatype once_phase = Outside | Entering | Sleeping | Running | Finished | Raised | Broadcasting bool
  | Returned | Threw

record once_state =
  flag :: u64
  once_phase :: "nat \<Rightarrow> once_phase"
  completed :: nat

definition once_start :: once_state where
  "once_start = \<lparr>flag = 0, once_phase = \<lambda>_. Outside, completed = 0\<rparr>"

abbreviation goes :: "nat \<Rightarrow> once_phase \<Rightarrow> once_state \<Rightarrow> once_state" where
  "goes t p s \<equiv> s\<lparr>once_phase := (once_phase s)(t := p)\<rparr>"

text \<open>\<open>call_once\<close>: the load of the flag before anything else.\<close>

definition call_once_test :: "u64 \<Rightarrow> once_phase" where
  "call_once_test f = (if f \<noteq> NOT 0 then Entering else Returned)"

text \<open>The loop of \<open>__call_once\<close> and the test behind it, with the flag that is stored.\<close>

definition once_enter :: "u64 \<Rightarrow> u64 \<times> once_phase" where
  "once_enter f = (if f = 1 then (f, Sleeping) else if f = 0 then (1, Running) else (f, Returned))"

definition wake_sleepers :: "(nat \<Rightarrow> once_phase) \<Rightarrow> nat \<Rightarrow> once_phase" where
  "wake_sleepers ph t = (if ph t = Sleeping then Entering else ph t)"

inductive once_step :: "once_state \<Rightarrow> once_state \<Rightarrow> bool" where
  call: "once_phase s t \<in> {Outside, Returned, Threw} \<Longrightarrow> once_step s (goes t (call_once_test (flag s)) s)"
| enter: "once_phase s t = Entering \<Longrightarrow> once_enter (flag s) = (f, p) \<Longrightarrow> once_step s (goes t p s\<lparr>flag := f\<rparr>)"
| spurious: "once_phase s t = Sleeping \<Longrightarrow> once_step s (goes t Entering s)"
| function_returns: "once_phase s t = Running \<Longrightarrow> once_step s (goes t Finished s\<lparr>completed := completed s + 1\<rparr>)"
| function_throws: "once_phase s t = Running \<Longrightarrow> once_step s (goes t Raised s)"
| store_done: "once_phase s t = Finished \<Longrightarrow> once_step s (goes t (Broadcasting False) s\<lparr>flag := NOT 0\<rparr>)"
| store_reset: "once_phase s t = Raised \<Longrightarrow> once_step s (goes t (Broadcasting True) s\<lparr>flag := 0\<rparr>)"
| broadcast: "once_phase s t = Broadcasting b \<Longrightarrow>
    once_step s (s\<lparr>once_phase := (wake_sleepers (once_phase s))(t := if b then Threw else Returned)\<rparr>)"

abbreviation once_steps :: "once_state \<Rightarrow> once_state \<Rightarrow> bool" where
  "once_steps \<equiv> once_step\<^sup>*\<^sup>*"

section \<open>The invariant\<close>

text \<open>Who is between the stores of 1 and of the outcome.\<close>

definition busy :: "once_phase \<Rightarrow> bool" where
  "busy p \<longleftrightarrow> p = Running \<or> p = Finished \<or> p = Raised"

definition broadcasting :: "once_phase \<Rightarrow> bool" where
  "broadcasting p \<longleftrightarrow> p = Broadcasting True \<or> p = Broadcasting False"

text \<open>What a thread in a phase can rely on.\<close>

fun once_phase_ok :: "u64 \<Rightarrow> bool \<Rightarrow> once_phase \<Rightarrow> bool" where
  "once_phase_ok f b Running \<longleftrightarrow> f = 1"
| "once_phase_ok f b Finished \<longleftrightarrow> f = 1"
| "once_phase_ok f b Raised \<longleftrightarrow> f = 1"
| "once_phase_ok f b (Broadcasting x) \<longleftrightarrow> (x \<or> f = NOT 0)"
| "once_phase_ok f b Returned \<longleftrightarrow> f = NOT 0"
| "once_phase_ok f b Sleeping \<longleftrightarrow> f = 1 \<or> b"
| "once_phase_ok f b p \<longleftrightarrow> True"

definition once_inv :: "u64 \<Rightarrow> (nat \<Rightarrow> once_phase) \<Rightarrow> nat \<Rightarrow> bool" where
  "once_inv f ph c \<longleftrightarrow>
     f \<in> {0, 1, NOT 0} \<and> (f = 1 \<longrightarrow> (\<exists>t. busy (ph t))) \<and> (\<forall>t u. busy (ph t) \<and> busy (ph u) \<longrightarrow> t = u) \<and>
     c = (if f = NOT 0 \<or> (\<exists>t. ph t = Finished) then 1 else 0) \<and>
     (\<forall>t. once_phase_ok f (\<exists>t. broadcasting (ph t)) (ph t))"

lemma flag_values: "(NOT 0 :: u64) \<noteq> 0" "(NOT 0 :: u64) \<noteq> 1" "(0 :: u64) \<noteq> NOT 0" "(1 :: u64) \<noteq> NOT 0"
  by simp_all

lemma busy_simps [simp]:
  "busy Running" "busy Finished" "busy Raised" "\<not> busy Outside" "\<not> busy Entering" "\<not> busy Sleeping"
  "\<not> busy (Broadcasting b)" "\<not> busy Returned" "\<not> busy Threw"
  by (simp_all add: busy_def)

lemma broadcasting_simps [simp]:
  "broadcasting (Broadcasting b)" "\<not> broadcasting Outside" "\<not> broadcasting Entering" "\<not> broadcasting Sleeping"
  "\<not> broadcasting Running" "\<not> broadcasting Finished" "\<not> broadcasting Raised" "\<not> broadcasting Returned" "\<not> broadcasting Threw"
  by (simp_all add: broadcasting_def)

lemma busy_flag: "once_phase_ok f b p \<Longrightarrow> busy p \<Longrightarrow> f = 1"
  by (cases p) auto

lemma once_inv_busy:
  assumes "once_inv f ph c" and "busy (ph t)"
  shows "f = 1" and "busy (ph u) \<longleftrightarrow> u = t" and "c = (if ph t = Finished then 1 else 0)"
proof -
  have "once_phase_ok f (\<exists>t. broadcasting (ph t)) (ph t)" using assms(1) by (simp add: once_inv_def)
  then show f: "f = 1" using assms(2) by (rule busy_flag)
  show one: "busy (ph u) \<longleftrightarrow> u = t" for u using assms by (auto simp: once_inv_def)
  have "(\<exists>u. ph u = Finished) \<longleftrightarrow> ph t = Finished" using one busy_simps(2) by metis
  then show "c = (if ph t = Finished then 1 else 0)" using assms(1) f by (simp add: once_inv_def)
qed

text \<open>A thread that is not busy goes on to another phase that is not.\<close>

lemma once_inv_idle:
  assumes inv: "once_inv f ph c" and t: "\<not> busy (ph t)" "\<not> broadcasting (ph t)"
    and p: "\<not> busy p" "\<not> broadcasting p" "once_phase_ok f False p"
  shows "once_inv f (ph(t := p)) c"
proof -
  let ?ph = "ph(t := p)"
  have same: "busy (?ph u) \<longleftrightarrow> busy (ph u)" "broadcasting (?ph u) \<longleftrightarrow> broadcasting (ph u)"
    "?ph u = Finished \<longleftrightarrow> ph u = Finished" for u
    using t p(1,2) by auto
  have "once_phase_ok f b p" for b using p by (cases p) auto
  then have "once_phase_ok f (\<exists>t. broadcasting (ph t)) (?ph u)" for u
    using inv by (simp add: once_inv_def)
  then show ?thesis using inv unfolding once_inv_def same by blast
qed

text \<open>The winner, and the end of its run.\<close>

lemma once_inv_enter:
  assumes inv: "once_inv 0 ph c"
  shows "once_inv 1 (ph(t := Running)) c"
proof -
  have none: "\<not> busy (ph u)" for u using once_inv_busy(1) [OF inv, of u] by auto
  then have nf: "ph u \<noteq> Finished" for u using busy_simps(2) by metis
  have "once_phase_ok 1 b (ph u)" for b u
  proof -
    have "once_phase_ok 0 (\<exists>t. broadcasting (ph t)) (ph u)" using inv by (simp add: once_inv_def)
    then show ?thesis using none [of u] by (cases "ph u") auto
  qed
  moreover have "c = 0" using inv nf by (simp add: once_inv_def)
  ultimately show ?thesis using none nf by (auto simp: once_inv_def)
qed

lemma once_inv_run:
  assumes inv: "once_inv f ph c" and t: "ph t = Running"
  shows "once_inv f (ph(t := Finished)) (c + 1)" "once_inv f (ph(t := Raised)) c"
proof -
  have b: "busy (ph t)" using t by simp
  note one = once_inv_busy [OF inv b]
  have ok: "once_phase_ok f (\<exists>t. broadcasting (ph t)) (ph u)" for u using inv by (simp add: once_inv_def)
  have same: "broadcasting ((ph(t := p)) u) \<longleftrightarrow> broadcasting (ph u)" if "\<not> broadcasting p" for p u using t that by simp
  have no: "u \<noteq> t \<Longrightarrow> ph u \<noteq> Finished" for u using one(2) [of u] by auto
  show "once_inv f (ph(t := Finished)) (c + 1)" "once_inv f (ph(t := Raised)) c"
    using ok one t no same [of Finished] same [of Raised] unfolding once_inv_def
    by (simp_all del: fun_upd_apply) (auto split: if_splits)
qed

lemma once_inv_store:
  assumes inv: "once_inv f ph c"
  shows "ph t = Finished \<Longrightarrow> once_inv (NOT 0) (ph(t := Broadcasting False)) c"
    "ph t = Raised \<Longrightarrow> once_inv 0 (ph(t := Broadcasting True)) c"
proof -
  have ok: "once_phase_ok f (\<exists>t. broadcasting (ph t)) (ph u)" for u using inv by (simp add: once_inv_def)
  have after: "once_phase_ok f' True (ph u)" if "busy (ph t)" "u \<noteq> t" for f' u
    using ok [of u] once_inv_busy(1) [OF inv that(1)] once_inv_busy(2) [OF inv that(1), of u] that(2) by (cases "ph u") (auto simp: flag_values)
  have ex: "(\<exists>u. broadcasting ((ph(t := Broadcasting x)) u)) \<longleftrightarrow> True" for x
    by (auto intro: exI [of _ t])
  show "ph t = Finished \<Longrightarrow> once_inv (NOT 0) (ph(t := Broadcasting False)) c"
    using once_inv_busy [OF inv, of t] after unfolding once_inv_def ex by auto
  assume t: "ph t = Raised"
  then have b: "busy (ph t)" by simp
  have "u \<noteq> t \<Longrightarrow> ph u \<noteq> Finished" for u using once_inv_busy(2) [OF inv b, of u] by auto
  then show "once_inv 0 (ph(t := Broadcasting True)) c"
    using once_inv_busy [OF inv b] after [OF b] t unfolding once_inv_def ex by auto
qed

lemma once_inv_broadcast:
  assumes inv: "once_inv f ph c" and t: "ph t = Broadcasting b"
  shows "once_inv f ((wake_sleepers ph)(t := if b then Threw else Returned)) c"
proof -
  let ?ph = "(wake_sleepers ph)(t := if b then Threw else Returned)"
  have ok: "once_phase_ok f (\<exists>t. broadcasting (ph t)) (ph u)" for u using inv by (simp add: once_inv_def)
  have same: "busy (?ph u) \<longleftrightarrow> busy (ph u)" "?ph u = Finished \<longleftrightarrow> ph u = Finished" for u
    using t by (auto simp: wake_sleepers_def)
  have "once_phase_ok f x (?ph u)" for u x
  proof (cases "u = t")
    case True
    then show ?thesis using ok [of t] t by auto
  next
    case False
    then show ?thesis using ok [of u] by (cases "ph u") (auto simp: wake_sleepers_def)
  qed
  then show ?thesis using inv unfolding once_inv_def same by blast
qed

lemma once_step_inv:
  assumes "once_step s s'" and inv: "once_inv (flag s) (once_phase s) (completed s)"
  shows "once_inv (flag s') (once_phase s') (completed s')"
  using assms(1)
proof cases
  case (call t)
  then show ?thesis using once_inv_idle [OF inv, of t "call_once_test (flag s)"] by (auto simp: call_once_test_def)
next
  case (enter t f p)
  then consider "flag s = 0" "f = 1" "p = Running" | "f = flag s" "p = Sleeping" "flag s = 1" | "f = flag s" "p = Returned" "flag s = NOT 0"
    using inv by (auto simp: once_enter_def once_inv_def split: if_splits)
  then show ?thesis
    using enter once_inv_enter [of "once_phase s" "completed s" t] once_inv_idle [OF inv, of t p] inv by cases auto
next
  case (spurious t)
  then show ?thesis using once_inv_idle [OF inv, of t Entering] by simp
next
  case (function_returns t)
  then show ?thesis using once_inv_run(1) [OF inv, of t] by simp
next
  case (function_throws t)
  then show ?thesis using once_inv_run(2) [OF inv, of t] by simp
next
  case (store_done t)
  then show ?thesis using once_inv_store(1) [OF inv, of t] by simp
next
  case (store_reset t)
  then show ?thesis using once_inv_store(2) [OF inv, of t] by simp
next
  case (broadcast t b)
  then show ?thesis using once_inv_broadcast [OF inv, of t b] by simp
qed

lemma once_steps_inv: "once_steps once_start s \<Longrightarrow> once_inv (flag s) (once_phase s) (completed s)"
proof (induction rule: rtranclp_induct)
  case base
  show ?case by (simp add: once_start_def once_inv_def)
next
  case (step s s')
  from once_step_inv [OF step(2,3)] show ?case .
qed

lemma done_stays:
  assumes "once_step s s'" and inv: "once_inv (flag s) (once_phase s) (completed s)" and f: "flag s = NOT 0"
  shows "flag s' = NOT 0 \<and> completed s' = completed s"
proof -
  have "\<not> busy (once_phase s t)" for t using once_inv_busy(1) [OF inv, of t] f by auto
  then have "once_phase s t \<noteq> Running" "once_phase s t \<noteq> Finished" "once_phase s t \<noteq> Raised" for t by (metis busy_simps(1-3))+
  with assms(1) f show ?thesis by cases (auto simp: once_enter_def split: if_splits)
qed

section \<open>The contract\<close>

text \<open>
  C10: However the calls with one flag interleave, the function is executed by one thread at a time and
  returns at most once; a call that returns without an exception finds it completed, and from then on it is
  never started again; and a thread sleeps only while another is in the function or about to broadcast, so
  no wakeup is lost.
\<close>

theorem call_once_correct:
  assumes "once_steps once_start s"
  shows "completed s \<le> 1 \<and> (\<forall>t u. once_phase s t = Running \<and> once_phase s u = Running \<longrightarrow> t = u) \<and>
    (\<forall>t. once_phase s t = Running \<longrightarrow> completed s = 0) \<and>
    (\<forall>t. once_phase s t = Returned \<longrightarrow> completed s = 1 \<and> flag s = NOT 0) \<and>
    (flag s = NOT 0 \<and> once_step s s' \<longrightarrow> flag s' = NOT 0 \<and> completed s' = 1) \<and>
    (\<forall>t. once_phase s t = Sleeping \<longrightarrow> (\<exists>u. busy (once_phase s u) \<or> broadcasting (once_phase s u)))"
proof -
  have inv: "once_inv (flag s) (once_phase s) (completed s)" using once_steps_inv [OF assms] .
  have ok: "once_phase_ok (flag s) (\<exists>t. broadcasting (once_phase s t)) (once_phase s t)" for t
    using inv by (simp add: once_inv_def)
  have c: "completed s = (if flag s = NOT 0 \<or> (\<exists>t. once_phase s t = Finished) then 1 else 0)"
    and one: "flag s = 1 \<longrightarrow> (\<exists>t. busy (once_phase s t))"
    using inv unfolding once_inv_def by blast+
  have "t = u" if "once_phase s t = Running" "once_phase s u = Running" for t u
    using once_inv_busy(2) [OF inv, of t u] that by simp
  moreover have "completed s = 0" if "once_phase s t = Running" for t
    using once_inv_busy(3) [OF inv, of t] that by simp
  moreover have "completed s = 1 \<and> flag s = NOT 0" if "once_phase s t = Returned" for t
    using ok [of t] that c by simp
  moreover have "flag s' = NOT 0 \<and> completed s' = 1" if "flag s = NOT 0" "once_step s s'"
    using done_stays [OF that(2) inv that(1)] c that(1) by simp
  moreover have "\<exists>u. busy (once_phase s u) \<or> broadcasting (once_phase s u)" if "once_phase s t = Sleeping" for t
    using ok [of t] that one by auto
  moreover have "completed s \<le> 1" using c by simp
  ultimately show ?thesis by blast
qed

theorem call_once_correct_witness:
  "completed (goes 3 (call_once_test 0) once_start) \<le> 1"
proof -
  have "once_step once_start (goes 3 (call_once_test (flag once_start)) once_start)"
    by (rule once_step.call) (simp add: once_start_def)
  then have "once_steps once_start (goes 3 (call_once_test 0) once_start)"
    by (simp add: once_start_def r_into_rtranclp)
  then show ?thesis using call_once_correct by blast
qed

end
