(* ===== verification/Timed_Mutex.thy ===== *)
theory Timed_Mutex
  imports Prelude
begin

text \<open>
  \<open>timed_mutex\<close> and \<open>recursive_timed_mutex\<close> of \<open>src/src/mutex.cpp\<close>, with the timed calls of
  \<open>src/include/mutex\<close>, and the threads that use them.  What a call does while it holds the inner mutex \<open>__m_\<close> is a
  function of the fields and one step of the interleaving; a thread that waits on \<open>__cv_\<close> sleeps
  until it is notified, its time is up, or for no reason.
\<close>

text \<open>
  A thread is in no call, waits (untimed, or timed with the result of the last \<open>wait_until\<close>) and is awake
  or asleep, or is about to notify after it has released the inner mutex.
\<close>

datatype waiting = Untimed | Timed (no_timeout: bool)

datatype lock_phase = Not_waiting | Awake waiting | Asleep waiting | Notifying

datatype attempt = Acquired | Refused | Limit_reached | Wait

section \<open>timed_mutex\<close>

definition tm_loop :: "waiting \<Rightarrow> bool \<Rightarrow> bool \<times> attempt" where
  "tm_loop w locked =
     (if w \<noteq> Timed False \<and> locked then (locked, Wait)
      else if \<not> locked then (True, Acquired) else (locked, Refused))"

text \<open>\<open>try_lock\<close>; \<open>owns\<close>: whether \<open>__m_\<close> could be locked.\<close>

definition tm_try_lock :: "bool \<Rightarrow> bool \<Rightarrow> bool \<times> attempt" where
  "tm_try_lock owns locked = (if owns \<and> \<not> locked then (True, Acquired) else (locked, Refused))"

definition tm_unlock :: "bool \<Rightarrow> bool" where
  "tm_unlock locked = False"

section \<open>recursive_timed_mutex\<close>

record recursive_mutex =
  rcount :: u64
  rid :: nat

text \<open>The loop of \<open>lock\<close> and \<open>try_lock_until\<close>; 0 is the id of no thread.\<close>

definition rtm_loop :: "waiting \<Rightarrow> nat \<Rightarrow> recursive_mutex \<Rightarrow> recursive_mutex \<times> attempt" where
  "rtm_loop w self m =
     (if w \<noteq> Timed False \<and> rcount m \<noteq> 0 then (m, Wait)
      else if rcount m = 0 then (m\<lparr>rcount := 1, rid := self\<rparr>, Acquired) else (m, Refused))"

text \<open>\<open>lock\<close> throws at the limit, \<open>try_lock_until\<close> returns false there.\<close>

definition rtm_lock :: "waiting \<Rightarrow> nat \<Rightarrow> recursive_mutex \<Rightarrow> recursive_mutex \<times> attempt" where
  "rtm_lock w self m =
     (if self = rid m then
        (if rcount m = NOT 0 then (m, if w = Untimed then Limit_reached else Refused)
         else (m\<lparr>rcount := rcount m + 1\<rparr>, Acquired))
      else rtm_loop w self m)"

definition rtm_try_lock :: "bool \<Rightarrow> nat \<Rightarrow> recursive_mutex \<Rightarrow> recursive_mutex \<times> attempt" where
  "rtm_try_lock owns self m =
     (if owns \<and> (rcount m = 0 \<or> self = rid m) then
        (if rcount m = NOT 0 then (m, Refused) else (m\<lparr>rcount := rcount m + 1, rid := self\<rparr>, Acquired))
      else (m, Refused))"

text \<open>\<open>unlock\<close>, and whether it notifies.\<close>

definition rtm_unlock :: "recursive_mutex \<Rightarrow> recursive_mutex \<times> bool" where
  "rtm_unlock m =
     (let c = rcount m - 1 in if c = 0 then (m\<lparr>rcount := c, rid := 0\<rparr>, True) else (m\<lparr>rcount := c\<rparr>, False))"

section \<open>The threads\<close>

text \<open>\<open>depth\<close>: how often a thread has locked the mutex and not yet unlocked it.\<close>

record 'm lock_state =
  lock_fields :: 'm
  lphase :: "nat \<Rightarrow> lock_phase"
  depth :: "nat \<Rightarrow> nat"

text \<open>What an attempt does to the thread.\<close>

definition attempted :: "nat \<Rightarrow> waiting \<Rightarrow> 'm \<times> attempt \<Rightarrow> 'm lock_state \<Rightarrow> 'm lock_state" where
  "attempted t w r s = \<lparr>lock_fields = fst r,
     lphase = (lphase s)(t := if snd r = Wait then Asleep w else Not_waiting),
     depth = (if snd r = Acquired then (depth s)(t := Suc (depth s t)) else depth s)\<rparr>"

fun wake :: "lock_phase \<Rightarrow> lock_phase" where
  "wake (Asleep w) = Awake w"
| "wake p = p"

text \<open>\<open>notify_one\<close>: one of the sleepers, if there are any.\<close>

inductive notifies :: "(nat \<Rightarrow> lock_phase) \<Rightarrow> (nat \<Rightarrow> lock_phase) \<Rightarrow> bool" where
  one: "ph t = Asleep w \<Longrightarrow> notifies ph (ph(t := Awake w))"
| none: "\<forall>t w. ph t \<noteq> Asleep w \<Longrightarrow> notifies ph ph"

inductive tm_step :: "bool lock_state \<Rightarrow> bool lock_state \<Rightarrow> bool" where
  call: "lphase s t = Not_waiting \<Longrightarrow> tm_step s (s\<lparr>lphase := (lphase s)(t := Awake w)\<rparr>)"
| test: "lphase s t = Awake w \<Longrightarrow> tm_step s (attempted t w (tm_loop w (lock_fields s)) s)"
| try_lock: "lphase s t = Not_waiting \<Longrightarrow> tm_step s (attempted t w (tm_try_lock owns (lock_fields s)) s)"
| timeout: "lphase s t = Asleep (Timed b) \<Longrightarrow> tm_step s (s\<lparr>lphase := (lphase s)(t := Awake (Timed False))\<rparr>)"
| spurious: "lphase s t = Asleep w \<Longrightarrow> tm_step s (s\<lparr>lphase := (lphase s)(t := Awake w)\<rparr>)"
| unlock: "lphase s t = Not_waiting \<Longrightarrow> depth s t \<noteq> 0 \<Longrightarrow> notifies (lphase s) ph \<Longrightarrow>
    tm_step s \<lparr>lock_fields = tm_unlock (lock_fields s), lphase = ph, depth = (depth s)(t := depth s t - 1)\<rparr>"

inductive rtm_step :: "recursive_mutex lock_state \<Rightarrow> recursive_mutex lock_state \<Rightarrow> bool" where
  lock: "lphase s t = Not_waiting \<Longrightarrow> 0 < t \<Longrightarrow> rtm_step s (attempted t w (rtm_lock w t (lock_fields s)) s)"
| test: "lphase s t = Awake w \<Longrightarrow> 0 < t \<Longrightarrow> rtm_step s (attempted t w (rtm_loop w t (lock_fields s)) s)"
| try_lock: "lphase s t = Not_waiting \<Longrightarrow> 0 < t \<Longrightarrow> rtm_step s (attempted t w (rtm_try_lock owns t (lock_fields s)) s)"
| timeout: "lphase s t = Asleep (Timed b) \<Longrightarrow> rtm_step s (s\<lparr>lphase := (lphase s)(t := Awake (Timed False))\<rparr>)"
| spurious: "lphase s t = Asleep w \<Longrightarrow> rtm_step s (s\<lparr>lphase := (lphase s)(t := Awake w)\<rparr>)"
| unlock: "lphase s t = Not_waiting \<Longrightarrow> depth s t \<noteq> 0 \<Longrightarrow> rtm_unlock (lock_fields s) = (m, freed) \<Longrightarrow>
    rtm_step s \<lparr>lock_fields = m, lphase = (lphase s)(t := if freed then Notifying else Not_waiting),
      depth = (depth s)(t := depth s t - 1)\<rparr>"
| notify: "lphase s t = Notifying \<Longrightarrow> notifies ((lphase s)(t := Not_waiting)) ph \<Longrightarrow> rtm_step s (s\<lparr>lphase := ph\<rparr>)"

definition tm_start :: "bool lock_state" where
  "tm_start = \<lparr>lock_fields = False, lphase = \<lambda>_. Not_waiting, depth = \<lambda>_. 0\<rparr>"

definition rtm_start :: "recursive_mutex lock_state" where
  "rtm_start = \<lparr>lock_fields = \<lparr>rcount = 0, rid = 0\<rparr>, lphase = \<lambda>_. Not_waiting, depth = \<lambda>_. 0\<rparr>"

section \<open>Waiting\<close>

text \<open>Whoever sleeps while the mutex is free: somebody is about to test it, or to notify.\<close>

definition nobody_lost :: "bool \<Rightarrow> (nat \<Rightarrow> lock_phase) \<Rightarrow> bool" where
  "nobody_lost free ph \<longleftrightarrow>
     (free \<longrightarrow> (\<exists>t w. ph t = Asleep w) \<longrightarrow> (\<exists>u. ph u = Notifying \<or> (\<exists>w. ph u = Awake w)))"

lemma nobody_lost_awake: "nobody_lost free (ph(t := Awake w))" "nobody_lost free (ph(t := Notifying))" "nobody_lost False ph"
  by (auto simp: nobody_lost_def)

lemma nobody_lost_notifies: "notifies ph ph' \<Longrightarrow> nobody_lost free ph'"
  by (induction rule: notifies.induct) (auto simp: nobody_lost_def)

lemma nobody_lost_idle: "nobody_lost free ph \<Longrightarrow> ph t = Not_waiting \<Longrightarrow> nobody_lost free (ph(t := Not_waiting))"
  by (simp add: fun_upd_idem)

section \<open>The owner of a timed_mutex\<close>

definition tm_inv :: "bool \<Rightarrow> (nat \<Rightarrow> lock_phase) \<Rightarrow> (nat \<Rightarrow> nat) \<Rightarrow> bool" where
  "tm_inv locked ph d \<longleftrightarrow>
     (if locked then \<exists>t. d = (\<lambda>_. 0)(t := 1) else d = (\<lambda>_. 0)) \<and> nobody_lost (\<not> locked) ph"

lemma tm_step_inv:
  assumes "tm_step s s'" and inv: "tm_inv (lock_fields s) (lphase s) (depth s)"
  shows "tm_inv (lock_fields s') (lphase s') (depth s')"
  using assms(1)
proof cases
  case (unlock t ph)
  then have "lock_fields s" "depth s = (\<lambda>_. 0)(t := 1)" using inv by (auto simp: tm_inv_def split: if_splits)
  then show ?thesis using unlock nobody_lost_notifies [OF unlock(4)]
    by (simp add: tm_inv_def tm_unlock_def fun_upd_def fun_eq_iff)
qed (use inv in \<open>auto simp: tm_inv_def attempted_def tm_loop_def tm_try_lock_def nobody_lost_awake nobody_lost_idle
    split: if_splits\<close>)

lemma tm_steps_inv: "tm_step\<^sup>*\<^sup>* tm_start s \<Longrightarrow> tm_inv (lock_fields s) (lphase s) (depth s)"
proof (induction rule: rtranclp_induct)
  case base
  show ?case by (simp add: tm_start_def tm_inv_def nobody_lost_def)
next
  case (step s s')
  from tm_step_inv [OF step(2,3)] show ?case .
qed

section \<open>The owner of a recursive_timed_mutex\<close>

definition owned :: "recursive_mutex \<Rightarrow> (nat \<Rightarrow> nat) \<Rightarrow> bool" where
  "owned m d \<longleftrightarrow>
     (if rcount m = 0 then rid m = 0 \<and> d = (\<lambda>_. 0) else 0 < rid m \<and> d = (\<lambda>_. 0)(rid m := unat (rcount m)))"

lemma count_up: "(c :: u64) \<noteq> NOT 0 \<Longrightarrow> unat (c + 1) = Suc (unat c) \<and> c + 1 \<noteq> 0"
proof -
  assume c: "c \<noteq> NOT 0"
  then have "c + 1 \<noteq> 0" by (simp add: eq_neg_iff_add_eq_0 [symmetric])
  then show ?thesis by (simp add: unatSuc add.commute)
qed

lemma owned_unlocked: "rcount m = 0 \<Longrightarrow> owned m d \<Longrightarrow> 0 < t \<Longrightarrow> owned (m\<lparr>rcount := 1, rid := t\<rparr>) (d(t := Suc (d t)))"
  by (simp add: owned_def fun_eq_iff)

lemma owned_again:
  assumes "owned m d" and "0 < t" and "t = rid m" and "rcount m \<noteq> NOT 0"
  shows "owned (m\<lparr>rcount := rcount m + 1\<rparr>) (d(t := Suc (d t)))"
  using assms count_up [of "rcount m"] by (auto simp: owned_def fun_eq_iff split: if_splits)

lemma loop_owned:
  assumes "owned m d" and "0 < t" and "rtm_loop w t m = (m', a)"
  shows "owned m' (if a = Acquired then d(t := Suc (d t)) else d) \<and> rcount m' \<noteq> 0"
  using assms owned_unlocked [of m d t] by (auto simp: rtm_loop_def split: if_splits)

lemma lock_owned:
  assumes own: "owned m d" and t: "0 < t" and r: "rtm_lock w t m = (m', a)"
  shows "owned m' (if a = Acquired then d(t := Suc (d t)) else d) \<and> rcount m' \<noteq> 0"
proof (cases "t = rid m")
  case self: True
  show ?thesis
  proof (cases "rcount m = NOT 0")
    case True
    then have "m' = m" "a \<noteq> Acquired" using r self by (auto simp: rtm_lock_def split: if_splits)
    then show ?thesis using own True by simp
  next
    case False
    then have "m' = m\<lparr>rcount := rcount m + 1\<rparr>" "a = Acquired" using r self by (auto simp: rtm_lock_def)
    then show ?thesis using owned_again [OF own t self False] count_up [OF False] by simp
  qed
next
  case False
  with loop_owned [OF own t, of w m' a] r show ?thesis by (simp add: rtm_lock_def)
qed

lemma try_lock_owned:
  assumes own: "owned m d" and t: "0 < t" and r: "rtm_try_lock owns t m = (m', a)"
  shows "owned m' (if a = Acquired then d(t := Suc (d t)) else d) \<and> a \<noteq> Wait \<and> (rcount m' = 0 \<longrightarrow> m' = m)"
proof (cases "owns \<and> (rcount m = 0 \<or> t = rid m) \<and> rcount m \<noteq> NOT 0")
  case True
  then have r: "m' = m\<lparr>rcount := rcount m + 1, rid := t\<rparr>" "a = Acquired" using r by (auto simp: rtm_try_lock_def)
  have "owned m' (d(t := Suc (d t)))"
  proof (cases "rcount m = 0")
    case True
    then show ?thesis using r owned_unlocked [OF True own t] by simp
  next
    case False
    then have e: "t = rid m" using \<open>owns \<and> _\<close> by simp
    then have "m' = m\<lparr>rcount := rcount m + 1\<rparr>" using r(1) by simp
    then show ?thesis using owned_again [OF own t e] True by simp
  qed
  with r True count_up [of "rcount m"] show ?thesis by simp
qed (use own r in \<open>auto simp: rtm_try_lock_def split: if_splits\<close>)

lemma unlock_owned:
  assumes own: "owned m d" and t: "d t \<noteq> 0" and r: "rtm_unlock m = (m', freed)"
  shows "owned m' (d(t := d t - 1)) \<and> (rcount m' = 0 \<longrightarrow> freed)"
proof -
  from own t have m: "rcount m \<noteq> 0" "t = rid m" "d = (\<lambda>_. 0)(rid m := unat (rcount m))" "0 < rid m"
    by (auto simp: owned_def split: if_splits)
  then have c: "unat (rcount m - 1) = unat (rcount m) - 1" by (simp add: unat_minus_one)
  have d: "d(t := d t - 1) = (\<lambda>_. 0)(rid m := unat (rcount m) - 1)" using m(2,3) by simp
  show ?thesis
  proof (cases "rcount m - 1 = 0")
    case True
    then have "m' = m\<lparr>rcount := 0, rid := 0\<rparr>" "freed" using r by (simp_all add: rtm_unlock_def)
    moreover have "unat (rcount m) - 1 = 0" using c True by simp
    ultimately show ?thesis unfolding d by (simp add: owned_def fun_eq_iff)
  next
    case False
    then have "m' = m\<lparr>rcount := rcount m - 1\<rparr>" using r by (simp add: rtm_unlock_def)
    then show ?thesis unfolding d using False m(4) c by (simp add: owned_def)
  qed
qed

definition rtm_inv :: "recursive_mutex \<Rightarrow> (nat \<Rightarrow> lock_phase) \<Rightarrow> (nat \<Rightarrow> nat) \<Rightarrow> bool" where
  "rtm_inv m ph d \<longleftrightarrow> owned m d \<and> nobody_lost (rcount m = 0) ph"

lemma rtm_step_inv:
  assumes "rtm_step s s'" and inv: "rtm_inv (lock_fields s) (lphase s) (depth s)"
  shows "rtm_inv (lock_fields s') (lphase s') (depth s')"
proof -
  have own: "owned (lock_fields s) (depth s)" and lost: "nobody_lost (rcount (lock_fields s) = 0) (lphase s)"
    using inv by (simp_all add: rtm_inv_def)
  show ?thesis
    using assms(1)
  proof cases
    case (lock t w)
    obtain m a where r: "rtm_lock w t (lock_fields s) = (m, a)" by fastforce
    note o = lock_owned [OF own lock(3) r]
    then show ?thesis using r lock(1) by (simp add: rtm_inv_def attempted_def nobody_lost_awake)
  next
    case (test t w)
    obtain m a where r: "rtm_loop w t (lock_fields s) = (m, a)" by fastforce
    note o = loop_owned [OF own test(3) r]
    then show ?thesis using r test(1) by (simp add: rtm_inv_def attempted_def nobody_lost_awake)
  next
    case (try_lock t w owns)
    obtain m a where r: "rtm_try_lock owns t (lock_fields s) = (m, a)" by fastforce
    note o = try_lock_owned [OF own try_lock(3) r]
    have "nobody_lost (rcount m = 0) ((lphase s)(t := Not_waiting))"
      using o lost try_lock(2) by (cases "rcount m = 0") (auto simp: nobody_lost_awake fun_upd_idem)
    then show ?thesis using o r try_lock(1) by (simp add: rtm_inv_def attempted_def)
  next
    case (timeout t b)
    then show ?thesis using own by (simp add: rtm_inv_def nobody_lost_awake)
  next
    case (spurious t w)
    then show ?thesis using own by (simp add: rtm_inv_def nobody_lost_awake)
  next
    case (unlock t m freed)
    note o = unlock_owned [OF own unlock(3,4)]
    then show ?thesis using unlock(1) by (cases freed) (simp_all add: rtm_inv_def nobody_lost_awake)
  next
    case (notify t ph)
    then show ?thesis using own nobody_lost_notifies [OF notify(3)] by (simp add: rtm_inv_def)
  qed
qed

lemma rtm_steps_inv: "rtm_step\<^sup>*\<^sup>* rtm_start s \<Longrightarrow> rtm_inv (lock_fields s) (lphase s) (depth s)"
proof (induction rule: rtranclp_induct)
  case base
  show ?case by (simp add: rtm_start_def rtm_inv_def owned_def nobody_lost_def)
next
  case (step s s')
  from rtm_step_inv [OF step(2,3)] show ?case .
qed

section \<open>Exclusion, recursion and waiting\<close>

text \<open>
  C11: In every interleaving, with time-outs and spurious wakeups, at most one thread owns a
  \<open>timed_mutex\<close>, once, and at most one a \<open>recursive_timed_mutex\<close>, whose \<open>__id_\<close> is its id and whose \<open>__count_\<close> the
  number of its locks not yet undone (never wrapping); the fields are those of a free mutex exactly if nobody
  owns it; and while a thread sleeps and the mutex is free, another is about to test it or to notify.
\<close>

theorem timed_mutexes_safe:
  assumes "tm_step\<^sup>*\<^sup>* tm_start s" and "rtm_step\<^sup>*\<^sup>* rtm_start r"
  shows "(\<forall>t u. depth s t \<noteq> 0 \<longrightarrow> depth s t = 1 \<and> lock_fields s \<and> (depth s u \<noteq> 0 \<longrightarrow> t = u)) \<and>
    (lock_fields s \<longrightarrow> (\<exists>t. depth s t = 1)) \<and> nobody_lost (\<not> lock_fields s) (lphase s) \<and>
    (\<forall>t. depth r t \<noteq> 0 \<longrightarrow> t = rid (lock_fields r) \<and> depth r t = unat (rcount (lock_fields r))) \<and>
    (rcount (lock_fields r) = 0 \<longleftrightarrow> rid (lock_fields r) = 0) \<and>
    (rcount (lock_fields r) \<noteq> 0 \<longrightarrow> depth r (rid (lock_fields r)) \<noteq> 0) \<and>
    nobody_lost (rcount (lock_fields r) = 0) (lphase r)"
proof -
  have s: "tm_inv (lock_fields s) (lphase s) (depth s)" using tm_steps_inv [OF assms(1)] .
  have r: "rtm_inv (lock_fields r) (lphase r) (depth r)" using rtm_steps_inv [OF assms(2)] .
  show ?thesis using s r by (auto simp: tm_inv_def rtm_inv_def owned_def unat_eq_0 split: if_splits)
qed

theorem timed_mutexes_safe_witness:
  "\<exists>r :: recursive_mutex lock_state. depth r 7 = 2 \<and> rid (lock_fields r) = 7 \<and> nobody_lost (rcount (lock_fields r) = 0) (lphase r)"
proof -
  define r1 where "r1 = attempted 7 Untimed (rtm_lock Untimed 7 (lock_fields rtm_start)) rtm_start"
  define r2 where "r2 = attempted 7 Untimed (rtm_lock Untimed 7 (lock_fields r1)) r1"
  have val: "r1 = \<lparr>lock_fields = \<lparr>rcount = 1, rid = 7\<rparr>, lphase = \<lambda>_. Not_waiting, depth = (\<lambda>_. 0)(7 := 1)\<rparr>"
    "r2 = \<lparr>lock_fields = \<lparr>rcount = 2, rid = 7\<rparr>, lphase = \<lambda>_. Not_waiting, depth = (\<lambda>_. 0)(7 := 2)\<rparr>"
    by (simp_all add: r1_def r2_def rtm_start_def attempted_def rtm_lock_def rtm_loop_def fun_eq_iff)
  have "rtm_step rtm_start r1" unfolding r1_def by (rule rtm_step.lock) (simp_all add: rtm_start_def)
  moreover have "rtm_step r1 r2" unfolding r2_def by (rule rtm_step.lock) (simp_all add: val)
  ultimately have "rtm_step\<^sup>*\<^sup>* rtm_start r2" by (meson rtranclp.simps)
  from timed_mutexes_safe [OF rtranclp.rtrancl_refl this]
  have "nobody_lost (rcount (lock_fields r2) = 0) (lphase r2)" by blast
  moreover have "depth r2 7 = 2" "rid (lock_fields r2) = 7" by (simp_all add: val(2))
  ultimately show ?thesis by blast
qed

end
