(* ===== verification/Money_Format.thy ===== *)
theory Money_Format
  imports Prelude
begin

text \<open>
  Money: \<open>__init_pat\<close> of \<open>src/src/locale.cpp\<close>, which turns the description of a locale into a pattern of
  four parts and a currency symbol, \<open>__money_put::__format\<close> of \<open>src/include/locale\<close>, which prints by such a
  pattern, and \<open>__check_grouping\<close> of \<open>src/src/locale.cpp\<close>, which tests the group sizes that
  \<open>num_get\<close> and \<open>money_get\<close> have read.

  A character type is a parameter, with the widened space, zero and the separators as arguments.  The entries
  of a grouping string and the fields of \<open>lconv\<close> are signed chars, given as integers.
\<close>

section \<open>Patterns\<close>

datatype part = No_part | Space | Symbol | Sign | Value

text \<open>
  The cases of \<open>__init_pat\<close>: by the order of value and symbol and by \<open>sign_posn\<close>; \<open>sep\<close> tells whether the
  symbol contains a separator.  \<open>None\<close> is the \<open>break\<close> to the pattern at the end.
\<close>

definition value_first_0 :: "bool \<Rightarrow> int \<Rightarrow> 'c \<Rightarrow> 'c list \<Rightarrow> (part list \<times> 'c list) option" where
  "value_first_0 sep sep_by_space space_char cur =
     (if sep_by_space = 0 then Some ([Sign, Value, No_part, Symbol], cur)
      else if sep_by_space = 1 then Some ([Sign, Value, No_part, Symbol], if sep then cur else space_char # cur)
      else if sep_by_space = 2 then Some ([Sign, Value, No_part, Symbol], cur)
      else None)"

definition value_first_1 :: "bool \<Rightarrow> int \<Rightarrow> 'c \<Rightarrow> 'c list \<Rightarrow> (part list \<times> 'c list) option" where
  "value_first_1 sep sep_by_space space_char cur =
     (if sep_by_space = 0 then Some ([Sign, Value, No_part, Symbol], cur)
      else if sep_by_space = 1 then Some ([Sign, Value, No_part, Symbol], if sep then cur else space_char # cur)
      else if sep_by_space = 2 then Some ([Sign, Space, Value, Symbol], if sep then tl cur else cur)
      else None)"

definition value_first_2 :: "bool \<Rightarrow> int \<Rightarrow> 'c \<Rightarrow> 'c list \<Rightarrow> (part list \<times> 'c list) option" where
  "value_first_2 sep sep_by_space space_char cur =
     (if sep_by_space = 0 then Some ([Value, No_part, Symbol, Sign], cur)
      else if sep_by_space = 1 then Some ([Value, No_part, Symbol, Sign], if sep then cur else space_char # cur)
      else if sep_by_space = 2 then Some ([Value, Symbol, Space, Sign], if sep then tl cur else cur)
      else None)"

definition value_first_3 :: "bool \<Rightarrow> int \<Rightarrow> 'c \<Rightarrow> 'c list \<Rightarrow> (part list \<times> 'c list) option" where
  "value_first_3 sep sep_by_space space_char cur =
     (if sep_by_space = 0 then Some ([Value, No_part, Sign, Symbol], cur)
      else if sep_by_space = 1 then Some ([Value, Space, Sign, Symbol], if sep then tl cur else cur)
      else if sep_by_space = 2 then Some ([Value, Sign, No_part, Symbol], if sep then cur else space_char # cur)
      else None)"

definition value_first_4 :: "bool \<Rightarrow> int \<Rightarrow> 'c \<Rightarrow> 'c list \<Rightarrow> (part list \<times> 'c list) option" where
  "value_first_4 sep sep_by_space space_char cur =
     (if sep_by_space = 0 then Some ([Value, No_part, Symbol, Sign], cur)
      else if sep_by_space = 1 then Some ([Value, No_part, Symbol, Sign], if sep then cur else space_char # cur)
      else if sep_by_space = 2 then Some ([Value, Symbol, Space, Sign], if sep then tl cur else cur)
      else None)"

definition symbol_first_0 :: "bool \<Rightarrow> int \<Rightarrow> 'c \<Rightarrow> 'c list \<Rightarrow> (part list \<times> 'c list) option" where
  "symbol_first_0 sep sep_by_space space_char cur =
     (if sep_by_space = 0 then Some ([Sign, Symbol, No_part, Value], cur)
      else if sep_by_space = 1 then Some ([Sign, Symbol, No_part, Value], if sep then cur else space_char # cur)
      else if sep_by_space = 2 then Some ([Sign, Symbol, No_part, Value], cur)
      else None)"

definition symbol_first_1 :: "bool \<Rightarrow> int \<Rightarrow> 'c \<Rightarrow> 'c list \<Rightarrow> (part list \<times> 'c list) option" where
  "symbol_first_1 sep sep_by_space space_char cur =
     (if sep_by_space = 0 then Some ([Sign, Symbol, No_part, Value], cur)
      else if sep_by_space = 1 then Some ([Sign, Symbol, No_part, Value], if sep then cur else cur @ [space_char])
      else if sep_by_space = 2 then Some ([Sign, Space, Symbol, Value], if sep then butlast cur else cur)
      else None)"

definition symbol_first_2 :: "bool \<Rightarrow> int \<Rightarrow> 'c \<Rightarrow> 'c list \<Rightarrow> (part list \<times> 'c list) option" where
  "symbol_first_2 sep sep_by_space space_char cur =
     (if sep_by_space = 0 then Some ([Symbol, No_part, Value, Sign], cur)
      else if sep_by_space = 1 then Some ([Symbol, No_part, Value, Sign], if sep then cur else cur @ [space_char])
      else if sep_by_space = 2 then Some ([Symbol, Value, Space, Sign], if sep then butlast cur else cur)
      else None)"

definition symbol_first_3 :: "bool \<Rightarrow> int \<Rightarrow> 'c \<Rightarrow> 'c list \<Rightarrow> (part list \<times> 'c list) option" where
  "symbol_first_3 sep sep_by_space space_char cur =
     (if sep_by_space = 0 then Some ([Sign, Symbol, No_part, Value], cur)
      else if sep_by_space = 1 then Some ([Sign, Symbol, No_part, Value], if sep then cur else cur @ [space_char])
      else if sep_by_space = 2 then Some ([Sign, Space, Symbol, Value], if sep then butlast cur else cur)
      else None)"

definition symbol_first_4 :: "bool \<Rightarrow> int \<Rightarrow> 'c \<Rightarrow> 'c list \<Rightarrow> (part list \<times> 'c list) option" where
  "symbol_first_4 sep sep_by_space space_char cur =
     (if sep_by_space = 0 then Some ([Symbol, Sign, No_part, Value], cur)
      else if sep_by_space = 1 then Some ([Symbol, Sign, Space, Value], if sep then butlast cur else cur)
      else if sep_by_space = 2 then Some ([Symbol, No_part, Sign, Value], if sep then cur else cur @ [space_char])
      else None)"

definition value_first :: "bool \<Rightarrow> int \<Rightarrow> int \<Rightarrow> 'c \<Rightarrow> 'c list \<Rightarrow> (part list \<times> 'c list) option" where
  "value_first sep sep_by_space sign_posn space_char cur =
     (if sign_posn = 0 then value_first_0 sep sep_by_space space_char cur
      else if sign_posn = 1 then value_first_1 sep sep_by_space space_char cur
      else if sign_posn = 2 then value_first_2 sep sep_by_space space_char cur
      else if sign_posn = 3 then value_first_3 sep sep_by_space space_char cur
      else if sign_posn = 4 then value_first_4 sep sep_by_space space_char cur
      else None)"

definition symbol_first :: "bool \<Rightarrow> int \<Rightarrow> int \<Rightarrow> 'c \<Rightarrow> 'c list \<Rightarrow> (part list \<times> 'c list) option" where
  "symbol_first sep sep_by_space sign_posn space_char cur =
     (if sign_posn = 0 then symbol_first_0 sep sep_by_space space_char cur
      else if sign_posn = 1 then symbol_first_1 sep sep_by_space space_char cur
      else if sign_posn = 2 then symbol_first_2 sep sep_by_space space_char cur
      else if sign_posn = 3 then symbol_first_3 sep sep_by_space space_char cur
      else if sign_posn = 4 then symbol_first_4 sep sep_by_space space_char cur
      else None)"

definition contains_sep :: "bool \<Rightarrow> 'c list \<Rightarrow> bool" where
  "contains_sep intl cur \<longleftrightarrow> intl \<and> length cur = 4"

text \<open>\<open>rotate(begin, begin + 3, end)\<close>.\<close>

definition rotate3 :: "'c list \<Rightarrow> 'c list" where
  "rotate3 cur = drop 3 cur @ take 3 cur"

definition init_pat :: "bool \<Rightarrow> int \<Rightarrow> int \<Rightarrow> int \<Rightarrow> 'c \<Rightarrow> 'c list \<Rightarrow> part list \<times> 'c list" where
  "init_pat intl cs_precedes sep_by_space sign_posn space_char cur =
     (let sep = contains_sep intl cur;
          cur = (if cs_precedes = 0 \<and> sep then rotate3 cur else cur) in
      case (if cs_precedes = 0 then value_first sep sep_by_space sign_posn space_char cur
            else if cs_precedes = 1 then symbol_first sep sep_by_space sign_posn space_char cur else None) of
        Some r \<Rightarrow> r
      | None \<Rightarrow> ([Symbol, Sign, No_part, Value], cur))"

section \<open>Printing\<close>

definition UINT_MAX :: nat where "UINT_MAX = 4294967295"
definition CHAR_MAX :: int where "CHAR_MAX = 127"

text \<open>\<open>static_cast<unsigned>\<close> of a \<open>char\<close>.\<close>

definition unsigned_of :: "int \<Rightarrow> nat" where "unsigned_of g = nat (g mod 4294967296)"

text \<open>The digits are given from the last to the first.\<close>

fun frac_loop :: "nat \<Rightarrow> 'c list \<Rightarrow> 'c list \<times> nat \<times> 'c list" where
  "frac_loop (Suc f) (d # ds) = (let (out, f', rest) = frac_loop f ds in (d # out, f', rest))"
| "frac_loop f ds = ([], f, ds)"

definition frac_part :: "'c \<Rightarrow> 'c \<Rightarrow> int \<Rightarrow> 'c list \<Rightarrow> 'c list \<times> 'c list" where
  "frac_part zero dp fd ds =
     (if 0 < fd then let (out, f, rest) = frac_loop (nat fd) ds in (out @ replicate f zero @ [dp], rest)
      else ([], ds))"

fun units_loop :: "'c \<Rightarrow> int list \<Rightarrow> nat \<Rightarrow> nat \<Rightarrow> nat \<Rightarrow> 'c list \<Rightarrow> 'c list" where
  "units_loop ts grp ng ig gl [] = []"
| "units_loop ts grp ng ig gl (d # ds) =
     (if ng = gl then
        (let ig = ig + 1;
             gl = (if ig < length grp then if grp ! ig = CHAR_MAX then UINT_MAX else unsigned_of (grp ! ig) else gl) in
         ts # d # units_loop ts grp 1 ig gl ds)
      else d # units_loop ts grp (ng + 1) ig gl ds)"

definition units_part :: "'c \<Rightarrow> 'c \<Rightarrow> int list \<Rightarrow> 'c list \<Rightarrow> 'c list" where
  "units_part zero ts grp ds =
     (if ds = [] then [zero]
      else units_loop ts grp 0 0 (if grp = [] then UINT_MAX else unsigned_of (grp ! 0)) ds)"

definition money_value :: "('c \<Rightarrow> bool) \<Rightarrow> 'c \<Rightarrow> 'c \<Rightarrow> 'c \<Rightarrow> int list \<Rightarrow> int \<Rightarrow> 'c list \<Rightarrow> 'c list" where
  "money_value is_digit zero dp ts grp fd db =
     (let (frac, rest) = frac_part zero dp fd (rev (takeWhile is_digit db)) in
      rev (frac @ units_part zero ts grp rest))"

text \<open>
  The loop over the fields: the output and \<open>__mi\<close>, the place of internal padding.  \<open>neg\<close> skips the sign of the
  digits.  As in the source, \<open>__db\<close> is advanced each time a value is printed.
\<close>

fun put_fields :: "bool \<Rightarrow> 'c \<Rightarrow> 'c list \<Rightarrow> 'c list \<Rightarrow> ('c list \<Rightarrow> 'c list) \<Rightarrow> bool \<Rightarrow> part list \<Rightarrow> 'c list \<Rightarrow> 'c list \<Rightarrow> nat option \<Rightarrow> 'c list \<times> nat option" where
  "put_fields showbase space cur sn val neg [] db out mi = (out, mi)"
| "put_fields showbase space cur sn val neg (p # ps) db out mi =
     (case p of
        No_part \<Rightarrow> put_fields showbase space cur sn val neg ps db out (Some (length out))
      | Space \<Rightarrow> put_fields showbase space cur sn val neg ps db (out @ [space]) (Some (length out))
      | Sign \<Rightarrow> put_fields showbase space cur sn val neg ps db (if sn \<noteq> [] then out @ [sn ! 0] else out) mi
      | Symbol \<Rightarrow> put_fields showbase space cur sn val neg ps db (if cur \<noteq> [] \<and> showbase then out @ cur else out) mi
      | Value \<Rightarrow> (let db = (if neg then tl db else db) in put_fields showbase space cur sn val neg ps db (out @ val db) mi))"

datatype adjust = Left | Internal | Other_adjust

definition money_put_format :: "bool \<Rightarrow> adjust \<Rightarrow> 'c \<Rightarrow> 'c list \<Rightarrow> 'c list \<Rightarrow> ('c list \<Rightarrow> 'c list) \<Rightarrow> bool \<Rightarrow> part list \<Rightarrow> 'c list \<Rightarrow> 'c list \<times> nat option" where
  "money_put_format showbase adj space cur sn val neg pat db =
     (let (out, mi) = put_fields showbase space cur sn val neg pat db [] None;
          out = (if 1 < length sn then out @ tl sn else out) in
      (out, case adj of Left \<Rightarrow> Some (length out) | Internal \<Rightarrow> mi | Other_adjust \<Rightarrow> Some 0))"

section \<open>Checking\<close>

text \<open>
  \<open>__check_grouping\<close>: whether \<open>failbit\<close> is set, for the sizes \<open>g\<close> from left to right; \<open>None\<close> where \<open>__g_end[-1]\<close> is
  read although there is no group.
\<close>

fun check_loop :: "int list \<Rightarrow> nat \<Rightarrow> nat list \<Rightarrow> nat \<Rightarrow> bool" where
  "check_loop grp ig [] final = (0 < grp ! ig \<and> grp ! ig < CHAR_MAX \<and> (unsigned_of (grp ! ig) < final \<or> final = 0))"
| "check_loop grp ig (r # rs) final =
     (if 0 < grp ! ig \<and> grp ! ig < CHAR_MAX \<and> unsigned_of (grp ! ig) \<noteq> r then True
      else check_loop grp (if length grp - ig > 1 then ig + 1 else ig) rs final)"

definition check_grouping :: "int list \<Rightarrow> nat list \<Rightarrow> bool option" where
  "check_grouping grp g =
     (if grp = [] then Some False
      else if g = [] then None
      else let g = rev g in Some (check_loop grp 0 (butlast g) (last g)))"

end
