(* ===== verification/Money_Grouping.thy ===== *)
theory Money_Grouping
  imports Money_Format
begin

section \<open>Groups of digits\<close>

text \<open>The groups, from the last digit on: the last size repeats.\<close>

definition next_sizes :: "nat list \<Rightarrow> nat list" where
  "next_sizes gs = (if tl gs = [] then gs else tl gs)"

function split_groups :: "nat list \<Rightarrow> 'c list \<Rightarrow> 'c list list" where
  "split_groups gs ds =
     (if hd gs = 0 \<or> length ds \<le> hd gs then [ds]
      else take (hd gs) ds # split_groups (next_sizes gs) (drop (hd gs) ds))"
  by pat_completeness auto

termination
  by (relation "measure (\<lambda>(gs, ds). length ds)") auto

declare split_groups.simps [simp del]

fun join :: "'c \<Rightarrow> 'c list list \<Rightarrow> 'c list" where
  "join ts [] = []"
| "join ts [g] = g"
| "join ts (g # gs) = g @ ts # join ts gs"

lemma split_groups_nonempty: "split_groups gs ds \<noteq> []"
  by (subst split_groups.simps) simp

lemma join_split:
  assumes "0 < hd gs"
  shows "join ts (split_groups gs ds) =
    (if length ds \<le> hd gs then ds
     else take (hd gs) ds @ ts # join ts (split_groups (next_sizes gs) (drop (hd gs) ds)))"
  using assms split_groups_nonempty [of "next_sizes gs" "drop (hd gs) ds"]
  by (subst split_groups.simps) (cases "split_groups (next_sizes gs) (drop (hd gs) ds)"; simp)

text \<open>The sizes that \<open>__ig\<close> and \<open>__gl\<close> stand for.\<close>

definition sizes_from :: "int list \<Rightarrow> nat \<Rightarrow> nat list" where
  "sizes_from grp ig = (if ig < length grp then drop ig (map nat grp) else [nat (last grp)])"

definition plain_grouping :: "int list \<Rightarrow> bool" where
  "plain_grouping grp \<longleftrightarrow> grp \<noteq> [] \<and> (\<forall>g \<in> set grp. 0 < g \<and> g < CHAR_MAX)"

lemma plain_entry:
  assumes "plain_grouping grp" and "ig < length grp"
  shows "0 < grp ! ig" "grp ! ig < CHAR_MAX" "unsigned_of (grp ! ig) = nat (grp ! ig)" "grp ! ig \<noteq> CHAR_MAX"
proof -
  show "0 < grp ! ig" "grp ! ig < CHAR_MAX"
    using assms by (auto simp: plain_grouping_def)
  then show "unsigned_of (grp ! ig) = nat (grp ! ig)" "grp ! ig \<noteq> CHAR_MAX"
    by (simp_all add: unsigned_of_def CHAR_MAX_def)
qed

lemma hd_sizes_from:
  assumes "plain_grouping grp"
  shows "0 < hd (sizes_from grp ig)"
    and "ig < length grp \<Longrightarrow> hd (sizes_from grp ig) = nat (grp ! ig)"
  using assms plain_entry [OF assms, of ig]
  by (auto simp: sizes_from_def hd_drop_conv_nth plain_grouping_def)

lemma sizes_last:
  assumes "grp \<noteq> []" and "length grp \<le> Suc ig"
  shows "sizes_from grp ig = [nat (last grp)]"
proof (cases "ig < length grp")
  case True
  then have "drop ig grp = [grp ! ig]"
    using assms(2) by (simp flip: Cons_nth_drop_Suc)
  moreover have "ig = length grp - 1" using True assms(2) by simp
  ultimately show ?thesis
    using True assms(1) by (simp add: sizes_from_def drop_map last_conv_nth)
qed (simp add: sizes_from_def)

lemma next_sizes_from:
  assumes "plain_grouping grp"
  shows "next_sizes (sizes_from grp ig) = sizes_from grp (Suc ig)"
proof (cases "Suc ig < length grp")
  case True
  then have "tl (drop ig grp) = drop (Suc ig) grp" by (simp add: tl_drop drop_Suc)
  then show ?thesis using True
    by (simp add: next_sizes_def sizes_from_def drop_map flip: map_tl)
next
  case False
  then have "sizes_from grp ig = [nat (last grp)]" "sizes_from grp (Suc ig) = [nat (last grp)]"
    using assms by (auto simp: plain_grouping_def intro!: sizes_last)
  then show ?thesis by (simp add: next_sizes_def)
qed

lemma next_gl:
  assumes "plain_grouping grp" and "gl = hd (sizes_from grp ig)"
  shows "(if Suc ig < length grp then if grp ! Suc ig = CHAR_MAX then UINT_MAX else unsigned_of (grp ! Suc ig) else gl)
    = hd (sizes_from grp (Suc ig))"
proof (cases "Suc ig < length grp")
  case True
  then show ?thesis
    using plain_entry [OF assms(1) True] hd_sizes_from [OF assms(1), of "Suc ig"] by simp
next
  case False
  then have "sizes_from grp ig = [nat (last grp)]" "sizes_from grp (Suc ig) = [nat (last grp)]"
    using assms(1) by (auto simp: plain_grouping_def intro!: sizes_last)
  then show ?thesis using False assms(2) by simp
qed

lemma units_loop_groups:
  assumes "plain_grouping grp"
  shows "ng \<le> gl \<Longrightarrow> gl = hd (sizes_from grp ig) \<Longrightarrow>
    units_loop ts grp ng ig gl ds =
      (if length ds \<le> gl - ng then ds
       else take (gl - ng) ds @ ts # join ts (split_groups (sizes_from grp (Suc ig)) (drop (gl - ng) ds)))"
proof (induction ds arbitrary: ng ig gl)
  case (Cons d ds)
  show ?case
  proof (cases "ng = gl")
    case True
    let ?gl = "hd (sizes_from grp (Suc ig))"
    have pos: "1 \<le> ?gl" using hd_sizes_from(1) [OF assms, of "Suc ig"] by simp
    have "units_loop ts grp ng ig gl (d # ds) = ts # d # units_loop ts grp 1 (Suc ig) ?gl ds"
      using True next_gl [OF assms Cons.prems(2)] by simp
    also have "\<dots> = ts # join ts (split_groups (sizes_from grp (Suc ig)) (d # ds))"
      using Cons.IH [OF pos refl] pos
      by (subst join_split) (auto simp: next_sizes_from [OF assms] take_Cons' drop_Cons')
    finally show ?thesis using True by simp
  next
    case False
    then have le: "ng + 1 \<le> gl" using Cons.prems(1) by simp
    have "units_loop ts grp ng ig gl (d # ds) = d # units_loop ts grp (ng + 1) ig gl ds"
      using False by simp
    also have "\<dots> = (if length ds \<le> gl - (ng + 1) then d # ds else d # take (gl - (ng + 1)) ds @
        ts # join ts (split_groups (sizes_from grp (Suc ig)) (drop (gl - (ng + 1)) ds)))"
      using Cons.IH [OF le Cons.prems(2)] by simp
    also have "gl - ng = Suc (gl - (ng + 1))" using le by simp
    ultimately show ?thesis by simp
  qed
qed simp

lemma units_part_groups:
  assumes "plain_grouping grp" and "ds \<noteq> []"
  shows "units_part zero ts grp ds = join ts (split_groups (map nat grp) ds)"
proof -
  have grp: "grp \<noteq> []" using assms(1) by (simp add: plain_grouping_def)
  have start: "sizes_from grp 0 = map nat grp" using grp by (simp add: sizes_from_def)
  have "unsigned_of (grp ! 0) = hd (sizes_from grp 0)"
    using plain_entry(3) [OF assms(1), of 0] hd_sizes_from(2) [OF assms(1), of 0] grp by simp
  then show ?thesis
    using units_loop_groups [OF assms(1) le0 refl, where ig = 0 and ds = ds and ts = ts] assms(2) grp
      join_split [OF hd_sizes_from(1) [OF assms(1), of 0], of ts ds]
    by (simp add: units_part_def next_sizes_from [OF assms(1), of 0, unfolded start] start)
qed

lemma check_loop_groups:
  assumes "plain_grouping grp"
  shows "ig < length grp \<Longrightarrow> length ds = sum_list rs + final \<Longrightarrow>
    (\<not> check_loop grp ig rs final) = (ds \<noteq> [] \<and> map length (split_groups (sizes_from grp ig) ds) = rs @ [final])"
proof (induction rs arbitrary: ig ds)
  case Nil
  then show ?case
    using plain_entry [OF assms Nil(1)] hd_sizes_from [OF assms, of ig]
    by (subst split_groups.simps) (auto simp: split_groups_nonempty)
next
  case (Cons r rs)
  let ?ig = "if length grp - ig > 1 then ig + 1 else ig"
  note e = plain_entry [OF assms Cons.prems(1)]
  note hd = hd_sizes_from [OF assms, of ig]
  have ig: "?ig < length grp" using Cons.prems(1) by auto
  have nx: "next_sizes (sizes_from grp ig) = sizes_from grp ?ig"
  proof (cases "length grp - ig > 1")
    case False
    then have "sizes_from grp ig = [nat (last grp)]"
      using Cons.prems(1) by (intro sizes_last) auto
    then show ?thesis using False by (simp add: next_sizes_def)
  qed (simp add: next_sizes_from [OF assms])
  show ?case
  proof (cases "r = nat (grp ! ig)")
    case True
    have "length (drop r ds) = sum_list rs + final" using Cons.prems(2) by simp
    note IH = Cons.IH [OF ig this]
    show ?thesis
      using True e IH nx hd Cons.prems
      by (subst split_groups.simps) auto
  next
    case False
    then show ?thesis
      using e hd Cons.prems
      by (subst split_groups.simps) (auto split: if_splits)
  qed
qed

text \<open>The group sizes, from left to right, that are accepted.\<close>

lemma check_groups:
  assumes "plain_grouping grp" and "length ds = sum_list g"
  shows "check_grouping grp g = Some False \<longleftrightarrow> ds \<noteq> [] \<and> rev g = map length (split_groups (map nat grp) ds)"
proof (cases "g = []")
  case False
  have grp: "0 < length grp" using assms(1) by (simp add: plain_grouping_def)
  have "rev g = butlast (rev g) @ [last (rev g)]" using False by (simp only: append_butlast_last_id rev_is_Nil_conv not_False_eq_True)
  moreover from this have "sum_list g = sum_list (butlast (rev g)) + last (rev g)"
    by (metis sum_list_rev sum_list_append sum_list.Cons sum_list.Nil add_0_right)
  ultimately show ?thesis
    using False grp assms check_loop_groups [OF assms(1) grp, of ds "butlast (rev g)" "last (rev g)"]
    by (auto simp: check_grouping_def sizes_from_def)
qed (use assms in \<open>simp add: check_grouping_def plain_grouping_def\<close>)

lemma sum_split:
  "\<forall>g \<in> set gs. 0 < g \<Longrightarrow> gs \<noteq> [] \<Longrightarrow> sum_list (map length (split_groups gs ds)) = length ds"
proof (induction gs ds rule: split_groups.induct)
  case (1 gs ds)
  have "\<forall>g \<in> set (next_sizes gs). 0 < g" "next_sizes gs \<noteq> []" "0 < hd gs"
    using 1(2,3) by (auto simp: next_sizes_def dest: list.set_sel(2))
  then show ?case using 1 by (subst split_groups.simps) auto
qed

lemma sizes_positive: "plain_grouping grp \<Longrightarrow> \<forall>g \<in> set (map nat grp). 0 < g"
  by (auto simp: plain_grouping_def)

lemma printed_sizes_accepted:
  assumes "plain_grouping grp" and "ds \<noteq> []"
  shows "check_grouping grp (rev (map length (split_groups (map nat grp) ds))) = Some False"
  using check_groups [OF assms(1), of ds "rev (map length (split_groups (map nat grp) ds))"] assms
    sum_split [OF sizes_positive [OF assms(1)], of ds]
  by (simp add: plain_grouping_def)

end
