(* ===== verification/Money_Props.thy ===== *)
theory Money_Props
  imports Money_Grouping
begin

text \<open>
  What the patterns of \<open>__init_pat\<close> print, compared with the layout that the C standard gives for the
  fields of \<open>lconv\<close>, and the groups of digits: those that are printed are those that are accepted.
\<close>

section \<open>The layout of the C standard\<close>

text \<open>
  The order of sign, symbol and value: \<open>cs_precedes\<close> for symbol and value, and the sign before (0 and 1), after (2), or
  immediately before (3) or after (4) the symbol.
\<close>

definition order :: "int \<Rightarrow> int \<Rightarrow> part list" where
  "order cs_precedes sign_posn =
     (let quantity = (if cs_precedes = 1 then [Symbol, Value] else [Value, Symbol]) in
      if sign_posn = 0 \<or> sign_posn = 1 then Sign # quantity
      else if sign_posn = 2 then quantity @ [Sign]
      else concat (map (\<lambda>p. if p \<noteq> Symbol then [p] else if sign_posn = 3 then [Sign, Symbol] else [Symbol, Sign]) quantity))"

text \<open>
  Whether a space separates two neighbours \<open>p\<close> and \<open>q\<close>.  1: the value, from the symbol or from symbol and
  sign if these are adjacent.  2: symbol and sign if they are adjacent, else the sign from the value;
  parentheses (\<open>sign_posn\<close> 0) get no space.
\<close>

definition adjacent :: "part \<Rightarrow> part \<Rightarrow> part list \<Rightarrow> bool" where
  "adjacent p q ps \<longleftrightarrow> (p, q) \<in> set (zip ps (tl ps)) \<or> (q, p) \<in> set (zip ps (tl ps))"

definition gap :: "part list \<Rightarrow> int \<Rightarrow> int \<Rightarrow> part \<Rightarrow> part \<Rightarrow> bool" where
  "gap ps sep_by_space sign_posn p q \<longleftrightarrow>
     sep_by_space = 1 \<and> Value \<in> {p, q} \<and> (Symbol \<in> {p, q} \<or> adjacent Symbol Sign ps) \<or>
     sep_by_space = 2 \<and> sign_posn \<noteq> 0 \<and> Sign \<in> {p, q} \<and> (Symbol \<in> {p, q} \<or> \<not> adjacent Symbol Sign ps)"

text \<open>The text: the first character of the sign string in its place, the rest at the end.\<close>

fun spaced :: "(part \<Rightarrow> 'c list) \<Rightarrow> (part \<Rightarrow> part \<Rightarrow> bool) \<Rightarrow> 'c \<Rightarrow> part list \<Rightarrow> 'c list" where
  "spaced f g space [] = []"
| "spaced f g space [p] = f p"
| "spaced f g space (p # q # ps) = f p @ (if g p q then [space] else []) @ spaced f g space (q # ps)"

definition layout :: "int \<Rightarrow> int \<Rightarrow> int \<Rightarrow> 'c \<Rightarrow> 'c list \<Rightarrow> 'c list \<Rightarrow> 'c list \<Rightarrow> 'c list" where
  "layout cs_precedes sep_by_space sign_posn space cur sn v =
     (let ps = order cs_precedes sign_posn in
      spaced (\<lambda>p. case p of Sign \<Rightarrow> take 1 sn | Symbol \<Rightarrow> cur | Value \<Rightarrow> v | _ \<Rightarrow> [])
        (gap ps sep_by_space sign_posn) space ps @ drop 1 sn)"

text \<open>What a field prints, and the whole of \<open>__format\<close> without the padding.\<close>

definition field_text :: "bool \<Rightarrow> 'c \<Rightarrow> 'c list \<Rightarrow> 'c list \<Rightarrow> 'c list \<Rightarrow> part \<Rightarrow> 'c list" where
  "field_text showbase space cur sn v p =
     (case p of No_part \<Rightarrow> [] | Space \<Rightarrow> [space] | Symbol \<Rightarrow> if showbase then cur else []
      | Sign \<Rightarrow> take 1 sn | Value \<Rightarrow> v)"

lemma field_text_simps [simp]:
  "field_text sb space cur sn v No_part = []" "field_text sb space cur sn v Space = [space]"
  "field_text sb space cur sn v Symbol = (if sb then cur else [])"
  "field_text sb space cur sn v Sign = take 1 sn" "field_text sb space cur sn v Value = v"
  by (simp_all add: field_text_def)

lemma put_fields_text:
  "fst (put_fields showbase space cur sn val False pat db out mi) =
     out @ concat (map (field_text showbase space cur sn (val db)) pat)"
proof (induction pat arbitrary: out mi)
  case (Cons p pat)
  have "(if sn \<noteq> [] then out @ [sn ! 0] else out) = out @ take 1 sn"
    "(if cur \<noteq> [] \<and> showbase then out @ cur else out) = out @ (if showbase then cur else [])"
    by (cases sn) auto
  then show ?case
    by (cases p) (simp_all only: put_fields.simps part.case Let_def Cons.IH list.map concat.simps
      field_text_simps if_False append_assoc append_Nil append_Cons)
qed simp

lemma format_text:
  "fst (money_put_format showbase adj space cur sn val False pat db) =
     concat (map (field_text showbase space cur sn (val db)) pat) @ drop 1 sn"
  using put_fields_text [of showbase space cur sn val pat db "[]" None]
  by (cases sn) (auto simp: money_put_format_def Let_def split: prod.splits)

lemmas pattern_simps = init_pat_def value_first_def symbol_first_def
  value_first_0_def value_first_1_def value_first_2_def value_first_3_def value_first_4_def
  symbol_first_0_def symbol_first_1_def symbol_first_2_def symbol_first_3_def symbol_first_4_def

lemmas layout_simps = layout_def order_def gap_def adjacent_def

lemma value_first_layout:
  assumes "posn \<in> {0, 1, 2, 3, 4 :: int}" and "sep \<in> {0, 1, 2}" and "\<not> contains_sep intl cur"
  shows "(case init_pat intl 0 sep posn space cur of (pat, cur') \<Rightarrow>
      fst (money_put_format True adj space cur' sn val False pat db)) = layout 0 sep posn space cur sn (val db)"
  using assms unfolding format_text
  by (elim insertE emptyE; simp add: pattern_simps layout_simps)

lemma symbol_first_layout:
  assumes "posn \<in> {0, 1, 2, 3, 4 :: int}" and "sep \<in> {0, 1, 2}" and "\<not> contains_sep intl cur" and "\<not> (posn = 0 \<and> sep = 1)"
  shows "(case init_pat intl 1 sep posn space cur of (pat, cur') \<Rightarrow>
      fst (money_put_format True adj space cur' sn val False pat db)) = layout 1 sep posn space cur sn (val db)"
  using assms unfolding format_text
  by (elim insertE emptyE; simp add: pattern_simps layout_simps)

lemma parenthesis_layout:
  "\<not> contains_sep intl cur \<Longrightarrow> (case init_pat intl 1 1 0 space cur of (pat, cur') \<Rightarrow>
      fst (money_put_format True adj space cur' sn val False pat db)) = take 1 sn @ space # cur @ val db @ drop 1 sn"
  unfolding format_text by (simp add: pattern_simps)

lemma intl_value_first_layout:
  assumes "posn \<in> {0, 1, 2, 3, 4 :: int}" and "sep = 1 \<or> sep = 2 \<and> posn \<noteq> 0" and "length cur = 3"
  shows "(case init_pat True 0 sep posn space (cur @ [space]) of (pat, cur') \<Rightarrow>
      fst (money_put_format True adj space cur' sn val False pat db)) = layout 0 sep posn space cur sn (val db)"
  using assms unfolding format_text
  by (elim insertE emptyE disjE conjE; simp add: pattern_simps layout_simps contains_sep_def rotate3_def)

lemma intl_symbol_first_layout:
  assumes "posn \<in> {0, 1, 2, 3, 4 :: int}" and "sep = 1 \<or> sep = 2 \<and> posn \<noteq> 0" and "length cur = 3"
  shows "(case init_pat True 1 sep posn space (cur @ [space]) of (pat, cur') \<Rightarrow>
      fst (money_put_format True adj space cur' sn val False pat db)) = layout 1 sep posn space cur sn (val db)"
  using assms unfolding format_text
  by (elim insertE emptyE disjE conjE; simp add: pattern_simps layout_simps contains_sep_def)

section \<open>Properties\<close>

definition valid_pattern :: "part list \<Rightarrow> bool" where
  "valid_pattern pat \<longleftrightarrow> length pat = 4 \<and> {Symbol, Sign, Value} \<subseteq> set pat \<and> (No_part \<in> set pat \<or> Space \<in> set pat) \<and>
     hd pat \<noteq> No_part \<and> hd pat \<noteq> Space \<and> last pat \<noteq> Space"

lemma valid_default: "valid_pattern [Symbol, Sign, No_part, Value]"
  by (simp add: valid_pattern_def)

lemma valid_value_first: "value_first sep sep_by_space sign_posn space_char cur = Some r \<Longrightarrow> valid_pattern (fst r)"
  by (auto simp: pattern_simps valid_pattern_def split: if_splits)

lemma valid_symbol_first: "symbol_first sep sep_by_space sign_posn space_char cur = Some r \<Longrightarrow> valid_pattern (fst r)"
  by (auto simp: pattern_simps valid_pattern_def split: if_splits)

lemma init_pat_is_valid: "valid_pattern (fst (init_pat intl cs_precedes sep_by_space sign_posn space_char cur))"
  by (simp add: init_pat_def Let_def valid_default valid_value_first valid_symbol_first split: option.split)

text \<open>
  C14: What is printed with the pattern and the symbol that \<open>__init_pat\<close> returns is the layout that the C
  standard defines for \<open>cs_precedes\<close>, \<open>sep_by_space\<close> and \<open>sign_posn\<close>: for every national symbol, and for an
  international one of three letters and a space when a space is to separate it.  One case is the exception:
  symbol first, in parentheses, with a space; there the space comes out between parenthesis and symbol.
\<close>

theorem money_layout:
  assumes "posn \<in> {0, 1, 2, 3, 4 :: int}" and "cs = 0 \<or> cs = 1" and "sep = 0 \<or> sep = 1 \<or> sep = 2"
    and "length letters = 3" and "\<not> (intl \<and> length cur = 4)"
  shows "(case init_pat intl cs sep posn space cur of (pat, cur') \<Rightarrow>
        fst (money_put_format True adj space cur' sn val False pat db)) =
      (if cs = 1 \<and> sep = 1 \<and> posn = 0 then take 1 sn @ space # cur @ val db @ drop 1 sn
       else layout cs sep posn space cur sn (val db)) \<and>
    (sep = 1 \<or> sep = 2 \<and> posn \<noteq> 0 \<longrightarrow>
      (case init_pat True cs sep posn space (letters @ [space]) of (pat, cur') \<Rightarrow>
        fst (money_put_format True adj space cur' sn val False pat db)) = layout cs sep posn space letters sn (val db)) \<and>
    layout 1 1 0 space cur sn (val db) = take 1 sn @ cur @ space # val db @ drop 1 sn"
proof -
  have sep: "sep \<in> {0, 1, 2}" and nat: "\<not> contains_sep intl cur"
    using assms(3,5) by (auto simp: contains_sep_def)
  have "(case init_pat True cs sep posn space (letters @ [space]) of (pat, cur') \<Rightarrow>
        fst (money_put_format True adj space cur' sn val False pat db)) = layout cs sep posn space letters sn (val db)"
    if "sep = 1 \<or> sep = 2 \<and> posn \<noteq> 0"
    using assms(2) intl_value_first_layout [OF assms(1) that assms(4)]
      intl_symbol_first_layout [OF assms(1) that assms(4)] by auto
  then show ?thesis
    using assms(2) value_first_layout [OF assms(1) sep nat] symbol_first_layout [OF assms(1) sep nat]
      parenthesis_layout [OF nat] by (auto simp: layout_simps)
qed

theorem money_layout_witness:
  "(case init_pat False 0 1 1 CHR '' '' ''EUR'' of (pat, cur') \<Rightarrow>
      fst (money_put_format True Other_adjust CHR '' '' cur' ''-'' id False pat ''125'')) = ''-125 EUR'' \<and>
   (case init_pat True 1 1 1 CHR '' '' ''USD '' of (pat, cur') \<Rightarrow>
      fst (money_put_format True Other_adjust CHR '' '' cur' ''-'' id False pat ''125'')) = ''-USD 125'' \<and>
   (case init_pat False 1 1 0 CHR '' '' ''$'' of (pat, cur') \<Rightarrow>
      fst (money_put_format True Other_adjust CHR '' '' cur' ''()'' id False pat ''1'')) = ''( $1)''"
proof -
  note a = money_layout [of 1 0 1 "''USD''" False "''EUR''" Other_adjust "CHR '' ''" "''-''" id "''125''"]
    and b = money_layout [of 1 1 1 "''USD''" False "''EUR''" Other_adjust "CHR '' ''" "''-''" id "''125''"]
    and c = money_layout [of 0 1 1 "''USD''" False "''$''" Other_adjust "CHR '' ''" "''()''" id "''1''"]
  show ?thesis
    using a b c by (simp add: layout_simps)
qed

lemma frac_loop_take: "frac_loop f ds = (take f ds, f - length ds, drop f ds)"
  by (induction f ds rule: frac_loop.induct) auto

lemma money_value_groups:
  assumes "plain_grouping grp"
  shows "money_value is_digit zero dp ts grp fd db =
      (let digits = takeWhile is_digit db; n = length digits - nat fd in
       (if n = 0 then [zero] else rev (join ts (split_groups (map nat grp) (rev (take n digits))))) @
       (if 0 < fd then dp # replicate (nat fd - length digits) zero @ drop n digits else []))"
proof -
  let ?d = "takeWhile is_digit db" and ?f = "nat fd"
  let ?n = "length ?d - ?f"
  have frac: "frac_part zero dp fd (rev ?d) =
      (if 0 < fd then (rev (dp # replicate (?f - length ?d) zero @ drop ?n ?d), rev (take ?n ?d)) else ([], rev (take ?n ?d)))"
    by (simp add: frac_part_def frac_loop_take take_rev drop_rev)
  have units: "rev (units_part zero ts grp (rev (take ?n ?d))) =
      (if ?n = 0 then [zero] else rev (join ts (split_groups (map nat grp) (rev (take ?n ?d)))))"
  proof (cases "?n = 0")
    case False
    then have ne: "rev (take ?n ?d) \<noteq> []" by auto
    show ?thesis by (simp only: units_part_groups [OF assms ne] False if_False)
  qed (simp add: units_part_def)
  show ?thesis
    by (simp only: money_value_def frac Let_def split: if_split)
      (simp add: units [simplified] units_part_groups [OF assms] units_part_def [of zero ts grp "[]"])
qed

lemma units_loop_prefix:
  "ng + length ds \<le> gl \<Longrightarrow> units_loop ts grp ng ig gl (ds @ ds') = ds @ units_loop ts grp (ng + length ds) ig gl ds'"
  by (induction ds arbitrary: ng) auto

lemma first_CHAR_MAX: "units_part zero ts [CHAR_MAX] (replicate 128 d) = replicate 127 d @ [ts, d]"
proof -
  have "replicate 128 d = replicate 127 d @ [d]"
    using replicate_app_Cons_same [of 127 d "[]"] by (simp flip: replicate_Suc)
  then show ?thesis
    using units_loop_prefix [of 0 "replicate 127 d" 127 ts "[CHAR_MAX]" 0 "[d]"]
    by (simp add: units_part_def unsigned_of_def CHAR_MAX_def)
qed

text \<open>
  C18: For a \<open>grouping()\<close> that is not empty and whose entries are all from 1 to 126: \<open>__format\<close> prints the integral digits in the
  groups that it asks for, or a zero, and the fraction, filled up with zeros, behind the decimal point; and \<open>__check_grouping\<close> accepts
  exactly the group sizes (from left to right) of this printing, those of the printed digits among them.  These conditions exclude the entries that
  stand for no further groups (0, negative ones and \<open>CHAR_MAX\<close>).  A first entry \<open>CHAR_MAX\<close>, alone in \<open>grouping()\<close>, gives a separator in front of the
  last 127 digits instead of none.
\<close>

theorem money_grouping:
  assumes "plain_grouping grp" and "length ds = sum_list g"
  shows "money_value is_digit zero dp ts grp fd db =
      (let digits = takeWhile is_digit db; n = length digits - nat fd in
       (if n = 0 then [zero] else rev (join ts (split_groups (map nat grp) (rev (take n digits))))) @
       (if 0 < fd then dp # replicate (nat fd - length digits) zero @ drop n digits else [])) \<and>
    (check_grouping grp g = Some False \<longleftrightarrow> ds \<noteq> [] \<and> rev g = map length (split_groups (map nat grp) ds)) \<and>
    (digits \<noteq> [] \<longrightarrow> check_grouping grp (rev (map length (split_groups (map nat grp) digits))) = Some False) \<and>
    units_part zero ts [CHAR_MAX] (replicate 128 d) = replicate 127 d @ [ts, d]"
  using money_value_groups [OF assms(1), of is_digit zero dp ts fd db] check_groups [OF assms]
    printed_sizes_accepted [OF assms(1), of digits] first_CHAR_MAX [of zero ts d] by blast

theorem money_grouping_witness:
  "money_value (\<lambda>c. c \<in> set ''0123456789'') CHR ''0'' CHR ''.'' CHR '','' [3, 2] 2 ''123456789'' = ''12,34,567.89'' \<and>
   check_grouping [3, 2] [2, 2, 3] = Some False \<and> check_grouping [3, 2] [3, 2, 3] = Some True"
proof -
  have plain: "plain_grouping [3, 2]" by (simp add: plain_grouping_def CHAR_MAX_def)
  note a = money_grouping [OF plain, of "''1234567''" "[2, 2, 3]" "\<lambda>c. c \<in> set ''0123456789''" "CHR ''0''" "CHR ''.''" "CHR '',''" 2 "''123456789''" "''1''" "CHR ''1''"]
  have "check_grouping [3, 2] [3, 2, 3] = Some True"
    by (simp add: check_grouping_def unsigned_of_def CHAR_MAX_def)
  then show ?thesis
    using a by (simp add: split_groups.simps next_sizes_def)
qed

end
