(* ===== verification/Money_Init.thy ===== *)
theory Money_Init
  imports Money_Props
begin

text \<open>
  The facets that are built from the \<open>lconv\<close> of a named locale in \<open>src/src/locale.cpp\<close>: \<open>numpunct_byname::__init\<close> and the
  four versions of \<open>moneypunct_byname::init\<close> (on a system other than Windows), with the conversion of the separators.
  The functions of the C library on multibyte characters are parameters: \<open>mbrtowc\<close> (\<open>None\<close> for the results -1 and -2),
  \<open>wctob\<close> (\<open>None\<close> for \<open>EOF\<close>) and \<open>mbsrtowcs\<close> (\<open>None\<close> for -1); so is \<open>localeconv\<close> of the name, \<open>None\<close> where there is no
  such locale.
\<close>

type_synonym wide_char = u32

datatype init_error = No_such_locale | Locale_not_supported

definition widen_char :: "char \<Rightarrow> wide_char" where "widen_char c = of_char c"

record lconv =
  decimal_point :: string
  thousands_sep :: string
  grouping :: "int list"
  mon_decimal_point :: string
  mon_thousands_sep :: string
  mon_grouping :: "int list"
  currency_symbol :: string
  int_curr_symbol :: string
  positive_sign :: string
  negative_sign :: string
  frac_digits :: int
  int_frac_digits :: int
  p_cs_precedes :: int
  p_sep_by_space :: int
  p_sign_posn :: int
  n_cs_precedes :: int
  n_sep_by_space :: int
  n_sign_posn :: int
  int_p_cs_precedes :: int
  int_p_sep_by_space :: int
  int_p_sign_posn :: int
  int_n_cs_precedes :: int
  int_n_sep_by_space :: int
  int_n_sign_posn :: int

section \<open>Separators\<close>

text \<open>\<open>None\<close> is the result false.\<close>

definition string_to_wchar :: "(string \<Rightarrow> wide_char option) \<Rightarrow> string \<Rightarrow> wide_char option" where
  "string_to_wchar mbrtowc ptr = (if ptr = [] then None else mbrtowc ptr)"

definition string_to_char :: "(string \<Rightarrow> wide_char option) \<Rightarrow> (wide_char \<Rightarrow> char option) \<Rightarrow> string \<Rightarrow> char option" where
  "string_to_char mbrtowc wctob ptr =
     (case ptr of
        [] \<Rightarrow> None
      | [c] \<Rightarrow> Some c
      | _ \<Rightarrow> (case string_to_wchar mbrtowc ptr of
          None \<Rightarrow> None
        | Some wout \<Rightarrow> (case wctob wout of
            Some res \<Rightarrow> Some res
          | None \<Rightarrow> if wout = 0xA0 then Some CHR '' '' else None)))"

section \<open>numpunct\<close>

record 'c numpunct =
  np_decimal_point :: 'c
  np_thousands_sep :: 'c
  np_grouping :: "int list"

definition numpunct_char :: "char numpunct" where
  "numpunct_char = \<lparr>np_decimal_point = CHR ''.'', np_thousands_sep = CHR '','', np_grouping = []\<rparr>"

definition numpunct_wchar :: "wide_char numpunct" where
  "numpunct_wchar = \<lparr>np_decimal_point = widen_char CHR ''.'', np_thousands_sep = widen_char CHR '','', np_grouping = []\<rparr>"

definition numpunct_init ::
  "(string \<Rightarrow> lconv option) \<Rightarrow> (string \<Rightarrow> wide_char option) \<Rightarrow> (wide_char \<Rightarrow> char option) \<Rightarrow> string \<Rightarrow> char numpunct \<Rightarrow> init_error + char numpunct" where
  "numpunct_init localeconv mbrtowc wctob nm np =
     (if nm \<noteq> ''C'' then
        (case localeconv nm of
           None \<Rightarrow> Inl No_such_locale
         | Some lc \<Rightarrow>
           let np = (case string_to_char mbrtowc wctob (decimal_point lc) of None \<Rightarrow> np | Some c \<Rightarrow> np\<lparr>np_decimal_point := c\<rparr>);
               np = (case string_to_char mbrtowc wctob (thousands_sep lc) of None \<Rightarrow> np | Some c \<Rightarrow> np\<lparr>np_thousands_sep := c\<rparr>) in
           Inr (np\<lparr>np_grouping := grouping lc\<rparr>))
      else Inr np)"

definition numpunct_init_w ::
  "(string \<Rightarrow> lconv option) \<Rightarrow> (string \<Rightarrow> wide_char option) \<Rightarrow> string \<Rightarrow> wide_char numpunct \<Rightarrow> init_error + wide_char numpunct" where
  "numpunct_init_w localeconv mbrtowc nm np =
     (if nm \<noteq> ''C'' then
        (case localeconv nm of
           None \<Rightarrow> Inl No_such_locale
         | Some lc \<Rightarrow>
           let np = (case string_to_wchar mbrtowc (decimal_point lc) of None \<Rightarrow> np | Some c \<Rightarrow> np\<lparr>np_decimal_point := c\<rparr>);
               np = (case string_to_wchar mbrtowc (thousands_sep lc) of None \<Rightarrow> np | Some c \<Rightarrow> np\<lparr>np_thousands_sep := c\<rparr>) in
           Inr (np\<lparr>np_grouping := grouping lc\<rparr>))
      else Inr np)"

section \<open>moneypunct\<close>

record 'c moneypunct =
  mp_decimal_point :: 'c
  mp_thousands_sep :: 'c
  mp_grouping :: "int list"
  mp_curr_symbol :: "'c list"
  mp_positive_sign :: "'c list"
  mp_negative_sign :: "'c list"
  mp_frac_digits :: int
  mp_pos_format :: "part list"
  mp_neg_format :: "part list"

text \<open>\<open>numeric_limits::max()\<close>, the separators of the base class \<open>moneypunct\<close>.\<close>

definition char_max :: char where "char_max = CHR 0x7F"
definition wchar_max :: wide_char where "wchar_max = 0x7FFFFFFF"

text \<open>The two patterns: that of positive numbers is made with a copy of the currency symbol.\<close>

definition both_formats :: "bool \<Rightarrow> int \<times> int \<times> int \<Rightarrow> int \<times> int \<times> int \<Rightarrow> 'c \<Rightarrow> 'c list \<Rightarrow> part list \<times> part list \<times> 'c list" where
  "both_formats intl p n space_char cur =
     (let (p_cs, p_sep, p_posn) = p; (n_cs, n_sep, n_posn) = n;
          (pos, dummy) = init_pat intl p_cs p_sep p_posn space_char cur;
          (neg, cur) = init_pat intl n_cs n_sep n_posn space_char cur in
      (pos, neg, cur))"

definition moneypunct_init_false ::
  "(string \<Rightarrow> lconv option) \<Rightarrow> (string \<Rightarrow> wide_char option) \<Rightarrow> (wide_char \<Rightarrow> char option) \<Rightarrow> string \<Rightarrow> init_error + char moneypunct" where
  "moneypunct_init_false localeconv mbrtowc wctob nm =
     (case localeconv nm of
        None \<Rightarrow> Inl No_such_locale
      | Some lc \<Rightarrow>
        let (pos, neg, cur) = both_formats False (p_cs_precedes lc, p_sep_by_space lc, p_sign_posn lc)
              (n_cs_precedes lc, n_sep_by_space lc, n_sign_posn lc) CHR '' '' (currency_symbol lc) in
        Inr \<lparr>mp_decimal_point = (case string_to_char mbrtowc wctob (mon_decimal_point lc) of None \<Rightarrow> char_max | Some c \<Rightarrow> c),
          mp_thousands_sep = (case string_to_char mbrtowc wctob (mon_thousands_sep lc) of None \<Rightarrow> char_max | Some c \<Rightarrow> c),
          mp_grouping = mon_grouping lc, mp_curr_symbol = cur,
          mp_positive_sign = (if p_sign_posn lc = 0 then ''()'' else positive_sign lc),
          mp_negative_sign = (if n_sign_posn lc = 0 then ''()'' else negative_sign lc),
          mp_frac_digits = (if frac_digits lc \<noteq> CHAR_MAX then frac_digits lc else 0),
          mp_pos_format = pos, mp_neg_format = neg\<rparr>)"

definition moneypunct_init_true ::
  "(string \<Rightarrow> lconv option) \<Rightarrow> (string \<Rightarrow> wide_char option) \<Rightarrow> (wide_char \<Rightarrow> char option) \<Rightarrow> string \<Rightarrow> init_error + char moneypunct" where
  "moneypunct_init_true localeconv mbrtowc wctob nm =
     (case localeconv nm of
        None \<Rightarrow> Inl No_such_locale
      | Some lc \<Rightarrow>
        let (pos, neg, cur) = both_formats True (int_p_cs_precedes lc, int_p_sep_by_space lc, int_p_sign_posn lc)
              (int_n_cs_precedes lc, int_n_sep_by_space lc, int_n_sign_posn lc) CHR '' '' (int_curr_symbol lc) in
        Inr \<lparr>mp_decimal_point = (case string_to_char mbrtowc wctob (mon_decimal_point lc) of None \<Rightarrow> char_max | Some c \<Rightarrow> c),
          mp_thousands_sep = (case string_to_char mbrtowc wctob (mon_thousands_sep lc) of None \<Rightarrow> char_max | Some c \<Rightarrow> c),
          mp_grouping = mon_grouping lc, mp_curr_symbol = cur,
          mp_positive_sign = (if int_p_sign_posn lc = 0 then ''()'' else positive_sign lc),
          mp_negative_sign = (if int_n_sign_posn lc = 0 then ''()'' else negative_sign lc),
          mp_frac_digits = (if int_frac_digits lc \<noteq> CHAR_MAX then int_frac_digits lc else 0),
          mp_pos_format = pos, mp_neg_format = neg\<rparr>)"

text \<open>The wide sign strings: parentheses, or the converted sign.\<close>

definition wide_sign :: "(string \<Rightarrow> wide_char list option) \<Rightarrow> int \<Rightarrow> string \<Rightarrow> init_error + wide_char list" where
  "wide_sign mbsrtowcs posn sn =
     (if posn = 0 then Inr (map widen_char ''()'')
      else case mbsrtowcs sn of None \<Rightarrow> Inl Locale_not_supported | Some w \<Rightarrow> Inr w)"

definition moneypunct_init_w_false ::
  "(string \<Rightarrow> lconv option) \<Rightarrow> (string \<Rightarrow> wide_char option) \<Rightarrow> (string \<Rightarrow> wide_char list option) \<Rightarrow> string \<Rightarrow> init_error + wide_char moneypunct" where
  "moneypunct_init_w_false localeconv mbrtowc mbsrtowcs nm =
     (case localeconv nm of
        None \<Rightarrow> Inl No_such_locale
      | Some lc \<Rightarrow>
        (case mbsrtowcs (currency_symbol lc) of None \<Rightarrow> Inl Locale_not_supported | Some wbuf \<Rightarrow>
        (case wide_sign mbsrtowcs (p_sign_posn lc) (positive_sign lc) of Inl e \<Rightarrow> Inl e | Inr psign \<Rightarrow>
        (case wide_sign mbsrtowcs (n_sign_posn lc) (negative_sign lc) of Inl e \<Rightarrow> Inl e | Inr nsign \<Rightarrow>
        let (pos, neg, cur) = both_formats False (p_cs_precedes lc, p_sep_by_space lc, p_sign_posn lc)
              (n_cs_precedes lc, n_sep_by_space lc, n_sign_posn lc) (widen_char CHR '' '') wbuf in
        Inr \<lparr>mp_decimal_point = (case string_to_wchar mbrtowc (mon_decimal_point lc) of None \<Rightarrow> wchar_max | Some c \<Rightarrow> c),
          mp_thousands_sep = (case string_to_wchar mbrtowc (mon_thousands_sep lc) of None \<Rightarrow> wchar_max | Some c \<Rightarrow> c),
          mp_grouping = mon_grouping lc, mp_curr_symbol = cur, mp_positive_sign = psign, mp_negative_sign = nsign,
          mp_frac_digits = (if frac_digits lc \<noteq> CHAR_MAX then frac_digits lc else 0),
          mp_pos_format = pos, mp_neg_format = neg\<rparr>))))"

definition moneypunct_init_w_true ::
  "(string \<Rightarrow> lconv option) \<Rightarrow> (string \<Rightarrow> wide_char option) \<Rightarrow> (string \<Rightarrow> wide_char list option) \<Rightarrow> string \<Rightarrow> init_error + wide_char moneypunct" where
  "moneypunct_init_w_true localeconv mbrtowc mbsrtowcs nm =
     (case localeconv nm of
        None \<Rightarrow> Inl No_such_locale
      | Some lc \<Rightarrow>
        (case mbsrtowcs (int_curr_symbol lc) of None \<Rightarrow> Inl Locale_not_supported | Some wbuf \<Rightarrow>
        (case wide_sign mbsrtowcs (int_p_sign_posn lc) (positive_sign lc) of Inl e \<Rightarrow> Inl e | Inr psign \<Rightarrow>
        (case wide_sign mbsrtowcs (int_n_sign_posn lc) (negative_sign lc) of Inl e \<Rightarrow> Inl e | Inr nsign \<Rightarrow>
        let (pos, neg, cur) = both_formats True (int_p_cs_precedes lc, int_p_sep_by_space lc, int_p_sign_posn lc)
              (int_n_cs_precedes lc, int_n_sep_by_space lc, int_n_sign_posn lc) (widen_char CHR '' '') wbuf in
        Inr \<lparr>mp_decimal_point = (case string_to_wchar mbrtowc (mon_decimal_point lc) of None \<Rightarrow> wchar_max | Some c \<Rightarrow> c),
          mp_thousands_sep = (case string_to_wchar mbrtowc (mon_thousands_sep lc) of None \<Rightarrow> wchar_max | Some c \<Rightarrow> c),
          mp_grouping = mon_grouping lc, mp_curr_symbol = cur, mp_positive_sign = psign, mp_negative_sign = nsign,
          mp_frac_digits = (if int_frac_digits lc \<noteq> CHAR_MAX then int_frac_digits lc else 0),
          mp_pos_format = pos, mp_neg_format = neg\<rparr>))))"

section \<open>Properties\<close>

text \<open>A facet with patterns as the standard requires them, and the signs that the positions ask for.\<close>

definition facet_ok :: "int \<Rightarrow> int \<Rightarrow> 'c list \<Rightarrow> 'c list \<Rightarrow> 'c list \<Rightarrow> 'c moneypunct \<Rightarrow> bool" where
  "facet_ok p_posn n_posn psign nsign parens mp \<longleftrightarrow>
     valid_pattern (mp_pos_format mp) \<and> valid_pattern (mp_neg_format mp) \<and>
     mp_positive_sign mp = (if p_posn = 0 then parens else psign) \<and>
     mp_negative_sign mp = (if n_posn = 0 then parens else nsign) \<and> mp_frac_digits mp \<noteq> CHAR_MAX"

text \<open>The strings of the locale that a facet for \<open>wchar_t\<close> needs can be converted: the symbol, and the signs that are no parentheses.\<close>

definition strings_convert ::
  "(string \<Rightarrow> wide_char list option) \<Rightarrow> string \<Rightarrow> int \<Rightarrow> int \<Rightarrow> lconv \<Rightarrow> bool" where
  "strings_convert mbsrtowcs symbol p_posn n_posn lc \<longleftrightarrow>
     mbsrtowcs symbol \<noteq> None \<and> (p_posn \<noteq> 0 \<longrightarrow> mbsrtowcs (positive_sign lc) \<noteq> None) \<and>
     (n_posn \<noteq> 0 \<longrightarrow> mbsrtowcs (negative_sign lc) \<noteq> None)"

lemma init_pat_valid_fst: "init_pat intl cs sep posn space_char cur = (pat, cur') \<Longrightarrow> valid_pattern pat"
  using init_pat_is_valid [of intl cs sep posn space_char cur] by simp

lemma both_formats_valid:
  "both_formats intl p n space_char cur = (pos, neg, cur') \<Longrightarrow> valid_pattern pos \<and> valid_pattern neg"
  by (auto simp: both_formats_def split: prod.splits dest: init_pat_valid_fst)

lemma CHAR_MAX_0: "CHAR_MAX \<noteq> 0" "0 \<noteq> CHAR_MAX"
  by (simp_all add: CHAR_MAX_def)

text \<open>
  C16: All four versions of \<open>moneypunct_byname::init\<close> give facets whose two patterns are as the C++
  standard requires them (symbol, sign and value once, with one \<open>none\<close> or \<open>space\<close>, \<open>none\<close> not first, \<open>space\<close> neither
  first nor last), whatever the fields of \<open>lconv\<close> hold, with parentheses or the signs of the locale as sign
  strings.  The versions for \<open>char\<close> fail exactly when there is no such locale.  Those for \<open>wchar_t\<close> fail then, and, with
  another message, exactly when the currency symbol, or a sign string whose sign position is not 0, cannot be converted to wide characters.
\<close>

theorem moneypunct_formats:
  "(case moneypunct_init_false localeconv mbrtowc wctob nm of
      Inl e \<Rightarrow> e = No_such_locale \<and> localeconv nm = None
    | Inr mp \<Rightarrow> \<exists>lc. localeconv nm = Some lc \<and>
        facet_ok (p_sign_posn lc) (n_sign_posn lc) (positive_sign lc) (negative_sign lc) ''()'' mp) \<and>
   (case moneypunct_init_true localeconv mbrtowc wctob nm of
      Inl e \<Rightarrow> e = No_such_locale \<and> localeconv nm = None
    | Inr mp \<Rightarrow> \<exists>lc. localeconv nm = Some lc \<and>
        facet_ok (int_p_sign_posn lc) (int_n_sign_posn lc) (positive_sign lc) (negative_sign lc) ''()'' mp) \<and>
   (case moneypunct_init_w_false localeconv mbrtowc mbsrtowcs nm of
      Inl e \<Rightarrow> e = No_such_locale \<and> localeconv nm = None \<or> e = Locale_not_supported \<and> (\<exists>lc. localeconv nm = Some lc \<and>
        \<not> strings_convert mbsrtowcs (currency_symbol lc) (p_sign_posn lc) (n_sign_posn lc) lc)
    | Inr mp \<Rightarrow> \<exists>lc. localeconv nm = Some lc \<and> strings_convert mbsrtowcs (currency_symbol lc) (p_sign_posn lc) (n_sign_posn lc) lc \<and>
        facet_ok (p_sign_posn lc) (n_sign_posn lc) (the (mbsrtowcs (positive_sign lc))) (the (mbsrtowcs (negative_sign lc))) (map widen_char ''()'') mp) \<and>
   (case moneypunct_init_w_true localeconv mbrtowc mbsrtowcs nm of
      Inl e \<Rightarrow> e = No_such_locale \<and> localeconv nm = None \<or> e = Locale_not_supported \<and> (\<exists>lc. localeconv nm = Some lc \<and>
        \<not> strings_convert mbsrtowcs (int_curr_symbol lc) (int_p_sign_posn lc) (int_n_sign_posn lc) lc)
    | Inr mp \<Rightarrow> \<exists>lc. localeconv nm = Some lc \<and> strings_convert mbsrtowcs (int_curr_symbol lc) (int_p_sign_posn lc) (int_n_sign_posn lc) lc \<and>
        facet_ok (int_p_sign_posn lc) (int_n_sign_posn lc) (the (mbsrtowcs (positive_sign lc))) (the (mbsrtowcs (negative_sign lc))) (map widen_char ''()'') mp)"
proof (intro conjI, goal_cases)
  case 1
  show ?case
    by (auto simp: moneypunct_init_false_def Let_def facet_ok_def CHAR_MAX_0 split: option.splits prod.splits dest: both_formats_valid)
next
  case 2
  show ?case
    by (auto simp: moneypunct_init_true_def Let_def facet_ok_def CHAR_MAX_0 split: option.splits prod.splits dest: both_formats_valid)
next
  case 3
  show ?case
    by (auto simp: moneypunct_init_w_false_def wide_sign_def strings_convert_def Let_def facet_ok_def CHAR_MAX_0 split: option.splits prod.splits sum.splits if_splits
      dest: both_formats_valid)
next
  case 4
  show ?case
    by (auto simp: moneypunct_init_w_true_def wide_sign_def strings_convert_def Let_def facet_ok_def CHAR_MAX_0 split: option.splits prod.splits sum.splits if_splits
      dest: both_formats_valid)
qed

end
