(* ===== verification/Scan_Keyword.thy ===== *)
theory Scan_Keyword
  imports Prelude
begin

text \<open>
  \<open>__scan_keyword\<close> of \<open>src/include/locale\<close>: the search of the input for one of a list of keywords, by which
  \<open>time_get\<close>, \<open>num_get\<close> and \<open>__time_get_storage::__analyze\<close> read names, and the reader of short numbers,
  \<open>__get_up_to_n_digits\<close>.  Statuses and counters are those of the source; the iterator is the rest of the
  input.  The loop is a \<open>partial_function\<close> and is shown to end; what it returns is described by the longest
  beginning of the input with which some keyword begins.
\<close>

section \<open>Stream state\<close>

type_synonym iostate = u32

definition eofbit :: iostate where "eofbit = 2"
definition failbit :: iostate where "failbit = 4"

section \<open>The search\<close>

datatype match = Doesnt_match | Might_match | Does_match

fun init_status :: "'c list list \<Rightarrow> nat \<Rightarrow> nat \<Rightarrow> match list \<times> nat \<times> nat" where
  "init_status [] n_might_match n_does_match = ([], n_might_match, n_does_match)"
| "init_status (ky # kys) n_might_match n_does_match =
     (if ky \<noteq> [] then
        (let (st, m, d) = init_status kys n_might_match n_does_match in (Might_match # st, m, d))
      else (let (st, m, d) = init_status kys (n_might_match - 1) (n_does_match + 1) in (Does_match # st, m, d)))"

definition fold_case :: "bool \<Rightarrow> ('c \<Rightarrow> 'c) \<Rightarrow> 'c \<Rightarrow> 'c" where
  "fold_case case_sensitive toupper c = (if \<not> case_sensitive then toupper c else c)"

text \<open>One character \<open>c\<close> against the keywords that might match: the new statuses, \<open>__consume\<close> and the counters.\<close>

fun test_keywords ::
  "('c \<Rightarrow> 'c) \<Rightarrow> 'c \<Rightarrow> nat \<Rightarrow> 'c list list \<Rightarrow> match list \<Rightarrow> bool \<Rightarrow> nat \<Rightarrow> nat \<Rightarrow> match list \<times> bool \<times> nat \<times> nat" where
  "test_keywords up c indx (ky # kys) (st # sts) consume m d =
     (if st = Might_match then
        if c = up (ky ! indx) then
          if length ky = indx + 1 then
            (let (sts, consume, m, d) = test_keywords up c indx kys sts True (m - 1) (d + 1) in
             (Does_match # sts, consume, m, d))
          else (let (sts, consume, m, d) = test_keywords up c indx kys sts True m d in (st # sts, consume, m, d))
        else (let (sts, consume, m, d) = test_keywords up c indx kys sts consume (m - 1) d in
              (Doesnt_match # sts, consume, m, d))
      else (let (sts, consume, m, d) = test_keywords up c indx kys sts consume m d in (st # sts, consume, m, d)))"
| "test_keywords up c indx kys sts consume m d = ([], consume, m, d)"

fun drop_shorter :: "nat \<Rightarrow> 'c list list \<Rightarrow> match list \<Rightarrow> nat \<Rightarrow> match list \<times> nat" where
  "drop_shorter indx (ky # kys) (st # sts) d =
     (if st = Does_match \<and> length ky \<noteq> indx + 1 then
        (let (sts, d) = drop_shorter indx kys sts (d - 1) in (Doesnt_match # sts, d))
      else (let (sts, d) = drop_shorter indx kys sts d in (st # sts, d)))"
| "drop_shorter indx kys sts d = ([], d)"

partial_function (option) scan_loop ::
  "('c \<Rightarrow> 'c) \<Rightarrow> 'c list list \<Rightarrow> match list \<Rightarrow> nat \<Rightarrow> nat \<Rightarrow> nat \<Rightarrow> 'c list \<Rightarrow> (match list \<times> 'c list) option" where
  "scan_loop up kys sts m d indx b =
     (if b \<noteq> [] \<and> 0 < m then
        (let c = up (hd b);
             (sts, consume, m, d) = test_keywords up c indx kys sts False m d in
         if consume then
           (let b = tl b;
                (sts, d) = (if m + d > 1 then drop_shorter indx kys sts d else (sts, d)) in
            scan_loop up kys sts m d (indx + 1) b)
         else scan_loop up kys sts m d (indx + 1) b)
      else Some (sts, b))"

text \<open>The position of the keyword found (the number of keywords if there is none), the rest and \<open>__err\<close>.\<close>

definition scan_keyword ::
  "bool \<Rightarrow> ('c \<Rightarrow> 'c) \<Rightarrow> 'c list list \<Rightarrow> 'c list \<Rightarrow> iostate \<Rightarrow> (nat \<times> 'c list \<times> iostate) option" where
  "scan_keyword case_sensitive toupper kys b err =
     (let up = fold_case case_sensitive toupper;
          (sts, m, d) = init_status kys (length kys) 0 in
      case scan_loop up kys sts m d 0 b of
        None \<Rightarrow> None
      | Some (sts, b) \<Rightarrow>
          (let err = (if b = [] then err OR eofbit else err);
               i = length (takeWhile (\<lambda>st. st \<noteq> Does_match) sts);
               err = (if i = length kys then err OR failbit else err) in
           Some (i, b, err)))"

section \<open>Short numbers\<close>

text \<open>The digits after the first; \<open>digit_value\<close> stands for \<open>narrow(c, 0) - '0'\<close>.\<close>

fun digits_loop :: "('c \<Rightarrow> bool) \<Rightarrow> ('c \<Rightarrow> int) \<Rightarrow> nat \<Rightarrow> int \<Rightarrow> 'c list \<Rightarrow> iostate \<Rightarrow> int \<times> 'c list \<times> iostate" where
  "digits_loop is_digit digit_value (Suc n) r (c # b) err =
     (if \<not> is_digit c then (r, c # b, err)
      else digits_loop is_digit digit_value n (r * 10 + digit_value c) b err)"
| "digits_loop is_digit digit_value n r b err = (r, b, if b = [] then err OR eofbit else err)"

definition get_up_to_n_digits ::
  "('c \<Rightarrow> bool) \<Rightarrow> ('c \<Rightarrow> int) \<Rightarrow> nat \<Rightarrow> 'c list \<Rightarrow> iostate \<Rightarrow> int \<times> 'c list \<times> iostate" where
  "get_up_to_n_digits is_digit digit_value n b err =
     (case b of
        [] \<Rightarrow> (0, b, err OR (eofbit OR failbit))
      | c # b' \<Rightarrow>
          if \<not> is_digit c then (0, b, err OR failbit)
          else digits_loop is_digit digit_value (n - 1) (digit_value c) b' err)"

section \<open>What the search finds\<close>

text \<open>The length of the longest beginning of \<open>b\<close> with which some keyword begins.\<close>

fun common :: "'c list \<Rightarrow> 'c list \<Rightarrow> nat" where
  "common (x # xs) (y # ys) = (if x = y then Suc (common xs ys) else 0)"
| "common xs ys = 0"

definition scanned :: "('c \<Rightarrow> 'c) \<Rightarrow> 'c list list \<Rightarrow> 'c list \<Rightarrow> nat" where
  "scanned up kys b = Max (insert 0 ((\<lambda>ky. common (map up ky) (map up b)) ` set kys))"

definition begins :: "('c \<Rightarrow> 'c) \<Rightarrow> 'c list \<Rightarrow> nat \<Rightarrow> 'c list \<Rightarrow> bool" where
  "begins up b n ky \<longleftrightarrow> n \<le> length ky \<and> map up (take n ky) = map up (take n b)"

definition status :: "('c \<Rightarrow> 'c) \<Rightarrow> 'c list \<Rightarrow> nat \<Rightarrow> 'c list \<Rightarrow> match" where
  "status up b n ky =
     (if begins up b n ky then if length ky = n then Does_match else Might_match else Doesnt_match)"

definition n_of :: "match \<Rightarrow> match list \<Rightarrow> nat" where
  "n_of st sts = length (filter (\<lambda>s. s = st) sts)"

lemma n_of_simps [simp]: "n_of st [] = 0" "n_of st (s # sts) = (if s = st then Suc (n_of st sts) else n_of st sts)"
  by (simp_all add: n_of_def)

lemma common_ge: "n \<le> common xs ys \<longleftrightarrow> n \<le> length xs \<and> n \<le> length ys \<and> take n xs = take n ys"
proof (induction xs ys arbitrary: n rule: common.induct)
  case (1 x xs y ys)
  show ?case by (cases n) (auto simp: 1)
qed auto

lemma init_status_is:
  "length kys \<le> m \<Longrightarrow> init_status kys m d =
     (map (status up b 0) kys, m - length kys + n_of Might_match (map (status up b 0) kys), d + n_of Does_match (map (status up b 0) kys))"
  by (induction kys arbitrary: m d) (auto simp: status_def begins_def Let_def)

text \<open>The statuses after the test, before shorter matches are dropped.\<close>

definition tested :: "('c \<Rightarrow> 'c) \<Rightarrow> 'c list \<Rightarrow> nat \<Rightarrow> 'c list \<Rightarrow> match" where
  "tested up b n ky = (if status up b n ky = Does_match then Does_match else status up b (Suc n) ky)"

lemma begins_Suc:
  "n < length b \<Longrightarrow> begins up b (Suc n) ky \<longleftrightarrow> begins up b n ky \<and> n < length ky \<and> up (b ! n) = up (ky ! n)"
  by (cases "n < length ky") (auto simp: begins_def take_Suc_conv_app_nth)

lemma begins_mono: "begins up b n ky \<Longrightarrow> m \<le> n \<Longrightarrow> begins up b m ky"
  by (auto simp: begins_def simp flip: take_map) (metis min.absorb1 take_take)

lemma match_begins:
  assumes "map up ky = map up (take n b)"
  shows "begins up b (length ky) ky" and "length ky \<le> length b"
proof -
  have len: "length ky = min n (length b)"
    using arg_cong [OF assms, of length] by (simp add: min.commute)
  then have "take (length ky) b = take n b" by (simp add: min_def)
  then show "begins up b (length ky) ky" using assms by (simp add: begins_def)
  show "length ky \<le> length b" using len by simp
qed

lemma status_iff:
  "status up b n ky = Doesnt_match \<longleftrightarrow> \<not> begins up b n ky"
  "status up b n ky = Does_match \<longleftrightarrow> map up ky = map up (take n b)" if "n \<le> length b"
  using that by (auto simp: status_def begins_def dest: map_eq_imp_length_eq)

lemma status_step:
  assumes "n < length b" and "status up b n ky = Might_match"
  shows "status up b (Suc n) ky =
    (if up (b ! n) = up (ky ! n) then if length ky = n + 1 then Does_match else Might_match else Doesnt_match)"
proof -
  have "begins up b n ky" "n < length ky"
    using assms(2) by (auto simp: status_def begins_def split: if_splits)
  then show ?thesis by (simp add: status_def begins_Suc [OF assms(1)])
qed

lemma status_stays: "n < length b \<Longrightarrow> status up b n ky \<noteq> Might_match \<Longrightarrow> status up b (Suc n) ky = Doesnt_match"
  by (auto simp: status_def begins_Suc split: if_splits)

lemma test_keywords_is:
  assumes "n < length b"
  shows "test_keywords up (up (b ! n)) n kys (map (status up b n) kys) consume
      (m + n_of Might_match (map (status up b n) kys)) (d + n_of Does_match (map (status up b n) kys)) =
    (map (tested up b n) kys,
     consume \<or> (\<exists>ky \<in> set kys. status up b (Suc n) ky \<noteq> Doesnt_match),
     m + n_of Might_match (map (tested up b n) kys), d + n_of Does_match (map (tested up b n) kys))"
proof (induction kys arbitrary: consume m d)
  case (Cons ky kys)
  note IH = Cons.IH [of _ m d] Cons.IH [of _ "Suc m" d] Cons.IH [of _ m "Suc d"]
  show ?case
  proof (cases "status up b n ky = Might_match")
    case True
    show ?thesis
    proof (cases "up (b ! n) = up (ky ! n)")
      case same: True
      then show ?thesis
        using IH by (simp add: tested_def True status_step [OF assms True])
    qed (use IH in \<open>simp add: tested_def True status_step [OF assms True]\<close>)
  next
    case False
    then show ?thesis using IH status_stays [OF assms False]
      by (cases "status up b n ky") (simp_all add: tested_def)
  qed
qed simp

lemma drop_shorter_is:
  assumes "n < length b"
  shows "drop_shorter n kys (map (tested up b n) kys) (d + n_of Does_match (map (tested up b n) kys)) =
    (map (status up b (Suc n)) kys, d + n_of Does_match (map (status up b (Suc n)) kys))"
proof (induction kys arbitrary: d)
  case (Cons ky kys)
  show ?case
  proof (cases "status up b n ky = Does_match")
    case True
    then have "length ky = n" by (simp add: status_def split: if_splits)
    then show ?thesis
      using Cons [of d] True status_stays [OF assms, of up ky] by (simp add: tested_def)
  next
    case False
    moreover have "length ky = n + 1" if "status up b (Suc n) ky = Does_match"
      using that by (simp add: status_def split: if_splits)
    ultimately show ?thesis
      using Cons [of d] Cons [of "Suc d"] by (auto simp: tested_def)
  qed
qed simp


lemma n_of_0: "n_of st (map f kys) = 0 \<longleftrightarrow> (\<forall>ky \<in> set kys. f ky \<noteq> st)"
  by (induction kys) auto

lemma n_of_two: "n_of Might_match sts + n_of Does_match sts = length (filter (\<lambda>s. s \<noteq> Doesnt_match) sts)"
  by (induction sts) (auto split: if_splits, metis match.exhaust)

lemma nothing_shorter:
  assumes "n < length b" and "ky \<in> set kys" and "status up b (Suc n) ky \<noteq> Doesnt_match"
    and "n_of Might_match (map (tested up b n) kys) + n_of Does_match (map (tested up b n) kys) \<le> 1"
  shows "map (tested up b n) kys = map (status up b (Suc n)) kys"
proof -
  let ?P = "\<lambda>ky. tested up b n ky \<noteq> Doesnt_match"
  have might: "status up b n ky = Might_match"
    using status_stays [OF assms(1)] assms(3) by blast
  have "status up b n ky' \<noteq> Does_match" if "ky' \<in> set kys" for ky'
  proof
    assume does: "status up b n ky' = Does_match"
    then have "{ky, ky'} \<subseteq> set (filter ?P kys)" "ky \<noteq> ky'"
      using that might assms(2,3) by (auto simp: tested_def)
    then have "2 \<le> length (filter ?P kys)"
      using card_mono [of "set (filter ?P kys)" "{ky, ky'}"] card_length [of "filter ?P kys"] by simp
    then show False
      using assms(4) by (simp add: n_of_two filter_map o_def)
  qed
  then show ?thesis by (simp add: tested_def)
qed

lemma tested_might:
  assumes "n < length b"
  shows "n_of Might_match (map (tested up b n) kys) = n_of Might_match (map (status up b (Suc n)) kys)"
  using status_stays [OF assms] by (induction kys) (auto simp: tested_def)

text \<open>The loop ends with the first \<open>n'\<close> characters consumed, after which no keyword can go on.\<close>

lemma scan_loop_is:
  assumes "n \<le> length b"
  shows "\<exists>n' g. n \<le> n' \<and> n' \<le> length b \<and>
    scan_loop up kys (map (status up b n) kys) (n_of Might_match (map (status up b n) kys))
      (n_of Does_match (map (status up b n) kys)) n (drop n b) = Some (map g kys, drop n' b) \<and>
    (\<forall>ky \<in> set kys. g ky = Does_match \<longleftrightarrow> status up b n' ky = Does_match) \<and>
    (n < n' \<longrightarrow> (\<exists>ky \<in> set kys. begins up b n' ky)) \<and>
    (n' < length b \<longrightarrow> (\<forall>ky \<in> set kys. \<not> begins up b (Suc n') ky))"
  using assms
proof (induction "length b - n" arbitrary: n)
  case 0
  then show ?case
    by (intro exI [of _ n] exI [of _ "status up b n"]) (subst scan_loop.simps, simp)
next
  case (Suc k)
  then have n: "n < length b" by simp
  let ?m = "n_of Might_match (map (status up b n) kys)"
  have more: "status up b n ky = Might_match" if "begins up b (Suc n) ky" for ky
    using that by (auto simp: status_def begins_Suc [OF n])
  show ?case
  proof (cases "?m = 0")
    case True
    then have "\<forall>ky \<in> set kys. \<not> begins up b (Suc n) ky"
      using more by (auto simp: n_of_0)
    then show ?thesis using True n
      by (intro exI [of _ n] exI [of _ "status up b n"]) (subst scan_loop.simps, simp)
  next
    case False
    note test = test_keywords_is [OF n, of up kys False 0 0, unfolded add_0]
    have dr: "drop n b \<noteq> []" "hd (drop n b) = b ! n" "tl (drop n b) = drop (Suc n) b"
      using n by (simp_all add: hd_drop_conv_nth tl_drop drop_Suc)
    show ?thesis
    proof (cases "\<exists>ky \<in> set kys. status up b (Suc n) ky \<noteq> Doesnt_match")
      case True
      then obtain ky where ky: "ky \<in> set kys" "status up b (Suc n) ky \<noteq> Doesnt_match" by blast
      let ?t = "map (tested up b n) kys"
      let ?s = "map (status up b (Suc n)) kys"
      have same: "n_of Might_match ?t = n_of Might_match ?s"
        by (rule tested_might [OF n])
      have dropped: "(if n_of Might_match ?t + n_of Does_match ?t > 1 then drop_shorter n kys ?t (n_of Does_match ?t)
          else (?t, n_of Does_match ?t)) = (?s, n_of Does_match ?s)"
      proof (cases "n_of Might_match ?t + n_of Does_match ?t > 1")
        case False
        then have "?t = ?s" using nothing_shorter [OF n ky] by (simp only: not_less)
        then show ?thesis using False by (simp only: if_False)
      qed (use drop_shorter_is [OF n, of kys up 0] in \<open>simp only: if_True add_0\<close>)
      have "scan_loop up kys (map (status up b n) kys) ?m (n_of Does_match (map (status up b n) kys)) n (drop n b) =
          scan_loop up kys ?s (n_of Might_match ?s) (n_of Does_match ?s) (Suc n) (drop (Suc n) b)"
        using False True dr dropped by (subst scan_loop.simps) (simp add: test same Let_def)
      moreover have "begins up b (Suc n) ky" using ky(2) by (auto simp: status_def split: if_splits)
      moreover have "k = length b - Suc n" "Suc n \<le> length b" using Suc(2) by simp_all
      from Suc(1) [OF this] obtain n' g where "Suc n \<le> n'" "n' \<le> length b"
        "scan_loop up kys ?s (n_of Might_match ?s) (n_of Does_match ?s) (Suc n) (drop (Suc n) b) = Some (map g kys, drop n' b)"
        "\<forall>ky \<in> set kys. g ky = Does_match \<longleftrightarrow> status up b n' ky = Does_match"
        "Suc n < n' \<longrightarrow> (\<exists>ky \<in> set kys. begins up b n' ky)"
        "n' < length b \<longrightarrow> (\<forall>ky \<in> set kys. \<not> begins up b (Suc n') ky)" by blast
      ultimately show ?thesis
        using ky(1) by (intro exI [of _ n'] exI [of _ g]) (auto simp: le_less Suc_le_eq)
    next
      case no: False
      let ?g = "tested up b n"
      have "n_of Might_match (map ?g kys) = 0" using no by (auto simp: n_of_0 tested_def)
      moreover have "scan_loop up kys (map (status up b n) kys) ?m (n_of Does_match (map (status up b n) kys)) n (drop n b) =
         scan_loop up kys (map ?g kys) (n_of Might_match (map ?g kys)) (n_of Does_match (map ?g kys)) (Suc n) (drop n b)"
        using no False dr by (subst scan_loop.simps) (simp add: test Let_def)
      moreover have "scan_loop up kys (map ?g kys) 0 (n_of Does_match (map ?g kys)) (Suc n) (drop n b) =
         Some (map ?g kys, drop n b)"
        by (subst scan_loop.simps) simp
      moreover have "?g ky = Does_match \<longleftrightarrow> status up b n ky = Does_match" if "ky \<in> set kys" for ky
        using no that by (auto simp: tested_def)
      moreover have "\<not> begins up b (Suc n) ky" if "ky \<in> set kys" for ky
        using no that n by (auto simp: status_iff)
      ultimately show ?thesis using n
        by (intro exI [of _ n] exI [of _ ?g]) simp
    qed
  qed
qed

lemma scanned_is:
  assumes "n \<le> length b" and "0 < n \<longrightarrow> (\<exists>ky \<in> set kys. begins up b n ky)"
    and "n < length b \<longrightarrow> (\<forall>ky \<in> set kys. \<not> begins up b (Suc n) ky)"
  shows "scanned up kys b = n"
proof -
  have ge: "m \<le> common (map up ky) (map up b) \<longleftrightarrow> m \<le> length b \<and> begins up b m ky" for m ky
    by (auto simp: common_ge begins_def take_map)
  have "common (map up ky) (map up b) \<le> n" if "ky \<in> set kys" for ky
    using that assms(1,3) ge [of "Suc n" ky] by (auto simp: not_less_eq_eq)
  moreover have "n \<in> insert 0 ((\<lambda>ky. common (map up ky) (map up b)) ` set kys)"
  proof (cases "n = 0")
    case False
    then obtain ky where "ky \<in> set kys" "begins up b n ky" using assms(2) by auto
    then have "common (map up ky) (map up b) = n"
      using assms(1) ge [of n ky] \<open>\<And>ky. ky \<in> set kys \<Longrightarrow> common (map up ky) (map up b) \<le> n\<close> by force
    then show ?thesis using \<open>ky \<in> set kys\<close> by force
  qed simp
  ultimately show ?thesis
    unfolding scanned_def by (intro Max_eqI) auto
qed

text \<open>The search as a function: always returns, whatever the keywords are.\<close>

definition scan_result :: "('c \<Rightarrow> 'c) \<Rightarrow> 'c list list \<Rightarrow> 'c list \<Rightarrow> nat \<times> 'c list" where
  "scan_result up kys b =
     (let n = scanned up kys b in
      (length (takeWhile (\<lambda>ky. map up ky \<noteq> map up (take n b)) kys), drop n b))"

lemma takeWhile_map_cong: "\<forall>x \<in> set xs. P (f x) = Q x \<Longrightarrow> length (takeWhile P (map f xs)) = length (takeWhile Q xs)"
  by (induction xs) auto

lemma scan_keyword_is:
  "scan_keyword case_sensitive toupper kys b err =
     (let (i, rest) = scan_result (fold_case case_sensitive toupper) kys b;
          err = (if rest = [] then err OR eofbit else err) in
      Some (i, rest, if i = length kys then err OR failbit else err))"
proof -
  let ?up = "fold_case case_sensitive toupper"
  note init = init_status_is [OF order_refl, of kys 0 ?up b, unfolded diff_self_eq_0 add_0]
  obtain n' g where loop: "n' \<le> length b"
    "scan_loop ?up kys (map (status ?up b 0) kys) (n_of Might_match (map (status ?up b 0) kys))
      (n_of Does_match (map (status ?up b 0) kys)) 0 b = Some (map g kys, drop n' b)"
    and g: "\<forall>ky \<in> set kys. g ky = Does_match \<longleftrightarrow> status ?up b n' ky = Does_match"
    and n': "0 < n' \<longrightarrow> (\<exists>ky \<in> set kys. begins ?up b n' ky)"
      "n' < length b \<longrightarrow> (\<forall>ky \<in> set kys. \<not> begins ?up b (Suc n') ky)"
    using scan_loop_is [OF le0, of b ?up kys] by (auto simp: drop_0)
  have "length (takeWhile (\<lambda>st. st \<noteq> Does_match) (map g kys)) =
      length (takeWhile (\<lambda>ky. map ?up ky \<noteq> map ?up (take n' b)) kys)"
    using g by (intro takeWhile_map_cong) (simp add: status_iff [OF loop(1)])
  then show ?thesis
    using scanned_is [OF loop(1) n'] by (simp add: scan_keyword_def scan_result_def init loop Let_def)
qed

end
