(* ===== verification/Num_Format.thy ===== *)
theory Num_Format
  imports Money_Format Scan_Keyword
begin

text \<open>
  Numbers: the helpers of \<open>num_get\<close> and \<open>num_put\<close> in \<open>src/src/locale.cpp\<close> (\<open>__get_base\<close>, \<open>__format_int\<close>,
  \<open>__format_float\<close>, \<open>__identify_padding\<close>) and the stages of the two facets in \<open>src/include/locale\<close>, for any
  character type.  \<open>snprintf_l\<close>, \<open>strtoll_l\<close>, \<open>strtoull_l\<close> and \<open>strtod_l\<close> are parameters; buffers are lists, with \<open>None\<close> for a
  write past their end.
\<close>

section \<open>Format flags\<close>

type_synonym fmtflags = u32

definition boolalpha :: fmtflags where "boolalpha = 0x0001"
definition dec :: fmtflags where "dec = 0x0002"
definition fixed :: fmtflags where "fixed = 0x0004"
definition hex :: fmtflags where "hex = 0x0008"
definition internal :: fmtflags where "internal = 0x0010"
definition left :: fmtflags where "left = 0x0020"
definition oct :: fmtflags where "oct = 0x0040"
definition right :: fmtflags where "right = 0x0080"
definition scientific :: fmtflags where "scientific = 0x0100"
definition showbase :: fmtflags where "showbase = 0x0200"
definition showpoint :: fmtflags where "showpoint = 0x0400"
definition showpos :: fmtflags where "showpos = 0x0800"
definition uppercase :: fmtflags where "uppercase = 0x4000"
definition adjustfield :: fmtflags where "adjustfield = left OR right OR internal"
definition basefield :: fmtflags where "basefield = dec OR oct OR hex"
definition floatfield :: fmtflags where "floatfield = scientific OR fixed"

section \<open>Printing\<close>

definition format_int :: "string \<Rightarrow> bool \<Rightarrow> fmtflags \<Rightarrow> string" where
  "format_int len signd flags =
     (if flags AND showpos \<noteq> 0 then ''+'' else []) @
     (if flags AND showbase \<noteq> 0 then ''#'' else []) @
     len @
     (if flags AND basefield = oct then ''o''
      else if flags AND basefield = hex then if flags AND uppercase \<noteq> 0 then ''X'' else ''x''
      else if signd then ''d'' else ''u'')"

text \<open>The format and \<open>specify_precision\<close>.\<close>

definition format_float :: "string \<Rightarrow> fmtflags \<Rightarrow> string \<times> bool" where
  "format_float len flags =
     (let ff = flags AND floatfield;
          upper = flags AND uppercase \<noteq> 0;
          specify_precision = (ff \<noteq> fixed OR scientific) in
      ((if flags AND showpos \<noteq> 0 then ''+'' else []) @
       (if flags AND showpoint \<noteq> 0 then ''#'' else []) @
       (if specify_precision then ''.*'' else []) @
       len @
       (if ff = fixed then if upper then ''F'' else ''f''
        else if ff = scientific then if upper then ''E'' else ''e''
        else if ff = fixed OR scientific then if upper then ''A'' else ''a''
        else if upper then ''G'' else ''g''),
       specify_precision))"

text \<open>The place for padding, as an offset; the narrow buffer ends with a terminator.\<close>

definition identify_padding :: "string \<Rightarrow> fmtflags \<Rightarrow> nat" where
  "identify_padding nb flags =
     (let c = (\<lambda>i. (nb @ [CHR 0x00]) ! i) in
      if flags AND adjustfield = internal then
        if c 0 = CHR ''-'' \<or> c 0 = CHR ''+'' then 1
        else if 2 \<le> length nb \<and> c 0 = CHR ''0'' \<and> (c 1 = CHR ''x'' \<or> c 1 = CHR ''X'') then 2
        else 0
      else if flags AND adjustfield = left then length nb
      else 0)"

text \<open>The loop over the reversed digits.\<close>

fun group_loop :: "(char \<Rightarrow> 'c) \<Rightarrow> 'c \<Rightarrow> int list \<Rightarrow> nat \<Rightarrow> nat \<Rightarrow> string \<Rightarrow> 'c list" where
  "group_loop widen ts grp dc dg [] = []"
| "group_loop widen ts grp dc dg (p # ps) =
     (if 0 < unsigned_of (grp ! dg) \<and> dc = unsigned_of (grp ! dg) then
        ts # widen p # group_loop widen ts grp 1 (if dg < length grp - 1 then dg + 1 else dg) ps
      else widen p # group_loop widen ts grp (dc + 1) dg ps)"

text \<open>The parts of a number: sign, \<open>0x\<close>, and what follows.\<close>

definition split_sign :: "string \<Rightarrow> string \<times> string" where
  "split_sign nb = (case nb of c # nf \<Rightarrow> if c = CHR ''-'' \<or> c = CHR ''+'' then ([c], nf) else ([], nb) | [] \<Rightarrow> ([], nb))"

definition split_0x :: "string \<Rightarrow> string \<times> string" where
  "split_0x nf = (case nf of c # d # ns \<Rightarrow> if c = CHR ''0'' \<and> (d = CHR ''x'' \<or> d = CHR ''X'') then ([c, d], ns) else ([], nf) | _ \<Rightarrow> ([], nf))"

text \<open>The wide text and the place of its padding.\<close>

definition widen_and_group_int :: "(char \<Rightarrow> 'c) \<Rightarrow> 'c \<Rightarrow> int list \<Rightarrow> string \<Rightarrow> nat \<Rightarrow> 'c list \<times> nat" where
  "widen_and_group_int widen ts grp nb np =
     (let ob =
        (if grp = [] then map widen nb
         else
           let (sn, nf) = split_sign nb; (pre, nf) = split_0x nf in
           map widen sn @ map widen pre @ rev (group_loop widen ts grp 0 0 (rev nf))) in
      (ob, if np = length nb then length ob else np))"

text \<open>In \<open>__widen_and_group_float\<close> the test for a group is one of a signed \<open>char\<close>, and only the integral part is grouped.\<close>

fun group_float_loop :: "(char \<Rightarrow> 'c) \<Rightarrow> 'c \<Rightarrow> int list \<Rightarrow> nat \<Rightarrow> nat \<Rightarrow> string \<Rightarrow> 'c list" where
  "group_float_loop widen ts grp dc dg [] = []"
| "group_float_loop widen ts grp dc dg (p # ps) =
     (if 0 < grp ! dg \<and> dc = unsigned_of (grp ! dg) then
        ts # widen p # group_float_loop widen ts grp 1 (if dg < length grp - 1 then dg + 1 else dg) ps
      else widen p # group_float_loop widen ts grp (dc + 1) dg ps)"

fun decimal_point_loop :: "(char \<Rightarrow> 'c) \<Rightarrow> 'c \<Rightarrow> string \<Rightarrow> 'c list" where
  "decimal_point_loop widen dp [] = []"
| "decimal_point_loop widen dp (c # nf) =
     (if c = CHR ''.'' then dp # map widen nf else widen c # decimal_point_loop widen dp nf)"

definition is_digit :: "char \<Rightarrow> bool" where "is_digit c \<longleftrightarrow> c \<in> set ''0123456789''"
definition is_xdigit :: "char \<Rightarrow> bool" where "is_xdigit c \<longleftrightarrow> c \<in> set ''0123456789abcdefABCDEF''"

definition widen_and_group_float :: "(char \<Rightarrow> 'c) \<Rightarrow> 'c \<Rightarrow> 'c \<Rightarrow> int list \<Rightarrow> string \<Rightarrow> nat \<Rightarrow> 'c list \<times> nat" where
  "widen_and_group_float widen dp ts grp nb np =
     (let (sn, nf) = split_sign nb; (pre, nf) = split_0x nf;
          units = takeWhile (if pre \<noteq> [] then is_xdigit else is_digit) nf;
          ob = map widen sn @ map widen pre @
            (if grp = [] then map widen units else rev (group_float_loop widen ts grp 0 0 (rev units))) @
            decimal_point_loop widen dp (drop (length units) nf) in
      (ob, if np = length nb then length ob else np))"

definition pad_and_output :: "'c list \<Rightarrow> nat \<Rightarrow> nat \<Rightarrow> 'c \<Rightarrow> 'c list" where
  "pad_and_output ob op width fl =
     (let ns = (if length ob < width then width - length ob else 0) in take op ob @ replicate ns fl @ drop op ob)"

text \<open>The number of characters of the narrow buffer: \<open>bits\<close> is \<open>numeric_limits::digits\<close>.\<close>

definition nbuf_of :: "nat \<Rightarrow> bool \<Rightarrow> fmtflags \<Rightarrow> nat" where
  "nbuf_of bits signd flags =
     bits div 3 + (if bits mod 3 \<noteq> 0 then 1 else 0) + (if flags AND showbase \<noteq> 0 then 1 else 0) + (if signd then 2 else 1)"

text \<open>
  \<open>do_put\<close> of an integer.  \<open>fmt\<close> has room for \<open>fmtbuf\<close> characters, \<open>nar\<close> for \<open>nbuf\<close>, both with their terminators, and
  the output for \<open>2 * (nbuf - 1) - 1\<close>.
\<close>

definition do_put_int ::
  "(string \<Rightarrow> int \<Rightarrow> string) \<Rightarrow> (char \<Rightarrow> 'c) \<Rightarrow> 'c \<Rightarrow> int list \<Rightarrow> nat \<Rightarrow> string \<Rightarrow> nat \<Rightarrow> bool \<Rightarrow> fmtflags \<Rightarrow> nat \<Rightarrow> 'c \<Rightarrow> int \<Rightarrow> 'c list option" where
  "do_put_int snprintf widen ts grp fmtbuf len bits signd flags width fl v =
     (let fmt = CHR ''%'' # format_int len signd flags;
          nbuf = nbuf_of bits signd flags;
          nar = snprintf fmt v;
          np = identify_padding nar flags;
          (ob, op) = widen_and_group_int widen ts grp nar np in
      if length fmt < fmtbuf \<and> length nar < nbuf \<and> length ob \<le> 2 * (nbuf - 1) - 1
      then Some (pad_and_output ob op width fl) else None)"

definition do_put_long where
  "do_put_long snprintf widen ts grp flags width fl v = do_put_int snprintf widen ts grp 6 ''l'' 63 True flags width fl v"
definition do_put_llong where
  "do_put_llong snprintf widen ts grp flags width fl v = do_put_int snprintf widen ts grp 8 ''ll'' 63 True flags width fl v"
definition do_put_ulong where
  "do_put_ulong snprintf widen ts grp flags width fl v = do_put_int snprintf widen ts grp 6 ''l'' 64 False flags width fl v"
definition do_put_ullong where
  "do_put_ullong snprintf widen ts grp flags width fl v = do_put_int snprintf widen ts grp 8 ''ll'' 64 False flags width fl v"

definition do_put_bool where
  "do_put_bool snprintf widen ts grp truename falsename flags width fl v =
     (if flags AND boolalpha = 0 then do_put_ulong snprintf widen ts grp flags width fl (if v then 1 else 0)
      else Some (if v then truename else falsename))"

section \<open>Reading\<close>

definition get_base :: "fmtflags \<Rightarrow> int" where
  "get_base flags =
     (if flags AND basefield = oct then 8 else if flags AND basefield = hex then 16
      else if flags AND basefield = 0 then 0 else 10)"

definition src_chars :: string where "src_chars = ''0123456789abcdefABCDEFxX+-pPiInN''"

definition num_get_buf_sz :: nat where "num_get_buf_sz = 40"

text \<open>The buffer, the count of digits since the last separator, and the sizes of the groups.\<close>

record stage2 =
  s2_buf :: string
  s2_dc :: nat
  s2_groups :: "nat list"

text \<open>\<open>None\<close> is the result -1.\<close>

definition stage2_int_loop :: "(char \<Rightarrow> 'c) \<Rightarrow> 'c \<Rightarrow> int list \<Rightarrow> int \<Rightarrow> 'c \<Rightarrow> stage2 \<Rightarrow> stage2 option" where
  "stage2_int_loop widen ts grp base ct s =
     (if s2_buf s = [] \<and> (ct = widen (src_chars ! 24) \<or> ct = widen (src_chars ! 25)) then
        Some (s\<lparr>s2_buf := s2_buf s @ [if ct = widen (src_chars ! 24) then CHR ''+'' else CHR ''-''], s2_dc := 0\<rparr>)
      else if grp \<noteq> [] \<and> ct = ts then
        Some (if length (s2_groups s) < num_get_buf_sz then s\<lparr>s2_groups := s2_groups s @ [s2_dc s], s2_dc := 0\<rparr> else s)
      else
        let f = length (takeWhile (\<lambda>a. a \<noteq> ct) (map widen (take 26 src_chars))) in
        if 24 \<le> f then None
        else if (base = 8 \<or> base = 10) \<and> base \<le> int f then None
        else if base = 16 \<and> \<not> f < 22 then
          if s2_buf s \<noteq> [] \<and> length (s2_buf s) \<le> 2 \<and> last (s2_buf s) = CHR ''0''
          then Some (s\<lparr>s2_dc := 0, s2_buf := s2_buf s @ [src_chars ! f]\<rparr>) else None
        else Some (s\<lparr>s2_buf := s2_buf s @ [src_chars ! f], s2_dc := s2_dc s + 1\<rparr>))"

fun stage2_int :: "(char \<Rightarrow> 'c) \<Rightarrow> 'c \<Rightarrow> int list \<Rightarrow> int \<Rightarrow> 'c list \<Rightarrow> stage2 \<Rightarrow> stage2 \<times> 'c list" where
  "stage2_int widen ts grp base [] s = (s, [])"
| "stage2_int widen ts grp base (c # b) s =
     (case stage2_int_loop widen ts grp base c s of
        None \<Rightarrow> (s, c # b)
      | Some s \<Rightarrow> stage2_int widen ts grp base b s)"

text \<open>
  \<open>strtoll\<close> gives the number, how many characters were read, and whether \<open>errno\<close> is \<open>ERANGE\<close>.  The result is the
  value and \<open>__err\<close>.
\<close>

definition get_signed_integral ::
  "(string \<Rightarrow> int \<Rightarrow> int \<times> nat \<times> bool) \<Rightarrow> int \<Rightarrow> int \<Rightarrow> string \<Rightarrow> iostate \<Rightarrow> int \<Rightarrow> int \<times> iostate" where
  "get_signed_integral strtoll tmin tmax a err base =
     (if a \<noteq> [] then
        let (ll, p2, erange) = strtoll a base in
        if p2 \<noteq> length a then (0, failbit)
        else if erange \<or> ll < tmin \<or> tmax < ll then (if 0 < ll then tmax else tmin, failbit)
        else (ll, err)
      else (0, failbit))"

definition get_unsigned_integral ::
  "(string \<Rightarrow> int \<Rightarrow> int \<times> nat \<times> bool) \<Rightarrow> int \<Rightarrow> string \<Rightarrow> iostate \<Rightarrow> int \<Rightarrow> int \<times> iostate" where
  "get_unsigned_integral strtoull tmax a err base =
     (if a \<noteq> [] then
        if hd a = CHR ''-'' then (0, failbit)
        else
          let (ll, p2, erange) = strtoull a base in
          if p2 \<noteq> length a then (0, failbit)
          else if erange \<or> tmax < ll then (tmax, failbit)
          else (ll, err)
      else (0, failbit))"

text \<open>\<open>__check_grouping\<close> with its effect on \<open>__err\<close>; it is only called with a group when there is a grouping.\<close>

definition grouping_err :: "int list \<Rightarrow> nat list \<Rightarrow> iostate \<Rightarrow> iostate" where
  "grouping_err grp g err = (if check_grouping grp g = Some True then failbit else err)"

definition last_group :: "int list \<Rightarrow> stage2 \<Rightarrow> nat list" where
  "last_group grp s = (if grp \<noteq> [] \<and> length (s2_groups s) < num_get_buf_sz then s2_groups s @ [s2_dc s] else s2_groups s)"

text \<open>The value, the rest of the input and \<open>__err\<close>.\<close>

definition do_get_signed ::
  "(string \<Rightarrow> int \<Rightarrow> int \<times> nat \<times> bool) \<Rightarrow> int \<Rightarrow> int \<Rightarrow> (char \<Rightarrow> 'c) \<Rightarrow> 'c \<Rightarrow> int list \<Rightarrow> fmtflags \<Rightarrow> 'c list \<Rightarrow> iostate \<Rightarrow> int \<times> 'c list \<times> iostate" where
  "do_get_signed strtoll tmin tmax widen ts grp flags b err =
     (let base = get_base flags;
          (s, b) = stage2_int widen ts grp base b \<lparr>s2_buf = [], s2_dc = 0, s2_groups = []\<rparr>;
          g = last_group grp s;
          (v, err) = get_signed_integral strtoll tmin tmax (s2_buf s) err base;
          err = grouping_err grp g err in
      (v, b, if b = [] then err OR eofbit else err))"

definition do_get_unsigned ::
  "(string \<Rightarrow> int \<Rightarrow> int \<times> nat \<times> bool) \<Rightarrow> int \<Rightarrow> (char \<Rightarrow> 'c) \<Rightarrow> 'c \<Rightarrow> int list \<Rightarrow> fmtflags \<Rightarrow> 'c list \<Rightarrow> iostate \<Rightarrow> int \<times> 'c list \<times> iostate" where
  "do_get_unsigned strtoull tmax widen ts grp flags b err =
     (let base = get_base flags;
          (s, b) = stage2_int widen ts grp base b \<lparr>s2_buf = [], s2_dc = 0, s2_groups = []\<rparr>;
          g = last_group grp s;
          (v, err) = get_unsigned_integral strtoull tmax (s2_buf s) err base;
          err = grouping_err grp g err in
      (v, b, if b = [] then err OR eofbit else err))"

text \<open>\<open>bool\<close>: a number, or with \<open>boolalpha\<close> one of the two names.\<close>

definition do_get_bool where
  "do_get_bool strtoll tmin tmax widen ts grp truename falsename flags b err =
     (if flags AND boolalpha = 0 then
        let (lv, b, err) = do_get_signed strtoll tmin tmax widen ts grp flags b err in
        Some (if lv = 0 then (False, b, err) else if lv = 1 then (True, b, err) else (True, b, failbit))
      else case scan_keyword True id [truename, falsename] b err of
        None \<Rightarrow> None
      | Some (i, b, err) \<Rightarrow> Some (i = 0, b, err))"

end
