(* ===== verification/Num_Props.thy ===== *)
theory Num_Props
  imports Num_Format Money_Grouping
begin

text \<open>
  What \<open>num_put\<close> prints fits its buffers, and \<open>num_get\<close> reads it back: the same digits reach \<open>strtoll\<close>, and the groups
  that were printed are those that \<open>__check_grouping\<close> accepts.
\<close>

section \<open>Bounds\<close>

lemma group_loop_length: "length (group_loop widen ts grp dc dg ps) \<le> 2 * length ps"
proof (induction ps arbitrary: dc dg)
  case (Cons p ps)
  then show ?case
    using Cons [of 1 "if dg < length grp - 1 then dg + 1 else dg"] le_SucI [OF Cons [of "Suc dc" dg]] by auto
qed simp

lemma group_loop_start: "ps \<noteq> [] \<Longrightarrow> length (group_loop widen ts grp 0 dg ps) \<le> 2 * length ps - 1"
  using group_loop_length [of widen ts grp 1 dg "tl ps"] by (cases ps) auto

lemma split_lengths:
  "split_sign nb = (sn, nf) \<Longrightarrow> nb = sn @ nf" "split_0x nf = (pre, ns) \<Longrightarrow> nf = pre @ ns"
  by (auto simp: split_sign_def split_0x_def split: list.splits if_splits)

lemma widen_and_group_length:
  assumes "nb \<noteq> []"
  shows "length (fst (widen_and_group_int widen ts grp nb np)) \<le> 2 * length nb - 1"
proof (cases "grp = []")
  case False
  obtain sn nf where sn: "split_sign nb = (sn, nf)" by (cases "split_sign nb")
  obtain pre ns where pre: "split_0x nf = (pre, ns)" by (cases "split_0x nf")
  have nb: "nb = sn @ pre @ ns" using split_lengths(1) [OF sn] split_lengths(2) [OF pre] by simp
  have "length (fst (widen_and_group_int widen ts grp nb np)) = length sn + length pre + length (group_loop widen ts grp 0 0 (rev ns))"
    using False by (simp add: widen_and_group_int_def sn pre Let_def)
  also have "\<dots> \<le> 2 * length nb - 1"
    using group_loop_start [of "rev ns" widen ts grp 0] assms nb by (cases "ns = []") auto
  finally show ?thesis .
qed (use assms in \<open>simp add: widen_and_group_int_def Let_def Suc_leI\<close>)

lemma widen_and_group_covers: "length nb \<le> length (fst (widen_and_group_int widen ts grp nb np))"
proof -
  have "length ps \<le> length (group_loop widen ts grp dc dg ps)" for dc dg ps
    by (induction ps arbitrary: dc dg) (auto simp: le_SucI)
  from this [of "rev (snd (split_0x (snd (split_sign nb))))" 0 0] show ?thesis
    using split_lengths(1) [of nb "fst (split_sign nb)" "snd (split_sign nb)"]
      split_lengths(2) [of "snd (split_sign nb)" "fst (split_0x (snd (split_sign nb)))" "snd (split_0x (snd (split_sign nb)))"]
    by (auto simp: widen_and_group_int_def Let_def split: prod.splits)
qed

lemma identify_padding_le: "nar \<noteq> [] \<Longrightarrow> identify_padding nar flags \<le> length nar"
  by (cases nar) (auto simp: identify_padding_def Let_def)

lemma format_int_length: "length (format_int len signd flags) \<le> length len + 3"
  by (simp add: format_int_def)

section \<open>Printing\<close>

lemma hd_sizes_min:
  assumes "plain_grouping grp"
  shows "hd (sizes_from grp ig) = unsigned_of (grp ! min ig (length grp - 1))"
proof (cases "ig < length grp")
  case True
  then have "min ig (length grp - 1) = ig" by simp
  then show ?thesis
    using hd_sizes_from(2) [OF assms True] plain_entry(3) [OF assms True] by simp
next
  case False
  have grp: "grp \<noteq> []" using assms by (simp add: plain_grouping_def)
  then have "length grp - 1 < length grp" by simp
  moreover have "min ig (length grp - 1) = length grp - 1" using False by simp
  ultimately show ?thesis
    using False grp plain_entry(3) [OF assms, of "length grp - 1"]
    by (simp add: sizes_from_def last_conv_nth)
qed

lemma group_loop_units:
  assumes "plain_grouping grp"
  shows "group_loop widen ts grp dc (min ig (length grp - 1)) ps = units_loop ts grp dc ig (hd (sizes_from grp ig)) (map widen ps)"
proof (induction ps arbitrary: dc ig)
  case (Cons p ps)
  define l where "l = length grp - 1"
  define n where "n = hd (sizes_from grp ig)"
  have n: "unsigned_of (grp ! min ig l) = n" "0 < n"
    using hd_sizes_min [OF assms, of ig] hd_sizes_from(1) [OF assms, of ig] by (simp_all add: n_def l_def)
  have "(if min ig l < l then min ig l + 1 else min ig l) = min (Suc ig) l" by simp
  then have "group_loop widen ts grp dc (min ig l) (p # ps) =
      (if dc = n then ts # widen p # group_loop widen ts grp 1 (min (Suc ig) l) ps
       else widen p # group_loop widen ts grp (dc + 1) (min ig l) ps)"
    unfolding group_loop.simps l_def [symmetric] using n by presburger
  moreover have "units_loop ts grp dc ig n (map widen (p # ps)) =
      (if dc = n then ts # widen p # units_loop ts grp 1 (Suc ig) (hd (sizes_from grp (Suc ig))) (map widen ps)
       else widen p # units_loop ts grp (dc + 1) ig n (map widen ps))"
    using next_gl [OF assms n_def] by simp
  ultimately show ?case
    using Cons unfolding n_def l_def by simp
qed simp

lemma split_groups_map: "split_groups gs (map f ds) = map (map f) (split_groups gs ds)"
proof (induction gs ds rule: split_groups.induct)
  case (1 gs ds)
  show ?case
    using 1 by (subst (1 2) split_groups.simps) (auto simp: take_map drop_map)
qed

lemma concat_split: "concat (split_groups gs ds) = ds"
proof (induction gs ds rule: split_groups.induct)
  case (1 gs ds)
  then show ?case by (subst split_groups.simps) auto
qed

lemma split_nonempty:
  "ds \<noteq> [] \<Longrightarrow> [] \<notin> set (split_groups gs ds)"
proof (induction gs ds rule: split_groups.induct)
  case (1 gs ds)
  then show ?case by (subst split_groups.simps) auto
qed

lemma length_le_concat: "[] \<notin> set xss \<Longrightarrow> length xss \<le> length (concat xss)"
  by (induction xss) (auto simp: Suc_le_eq add_strict_increasing length_greater_0_conv)

lemma join_append: "xs \<noteq> [] \<Longrightarrow> ys \<noteq> [] \<Longrightarrow> join ts (xs @ ys) = join ts xs @ ts # join ts ys"
  by (induction ts xs rule: join.induct) (auto simp: neq_Nil_conv)

lemma rev_join: "rev (join ts xs) = join ts (rev (map rev xs))"
proof (induction ts xs rule: join.induct)
  case (3 ts g v va)
  have "join ts ((rev (map rev va) @ [rev v]) @ [rev g]) = join ts (rev (map rev va) @ [rev v]) @ ts # rev g"
    by (subst join_append) simp_all
  then show ?case using 3 by simp
qed simp_all

text \<open>The groups from left to right.\<close>

definition number_groups :: "int list \<Rightarrow> string \<Rightarrow> string list" where
  "number_groups grp ds = rev (map rev (split_groups (map nat grp) (rev ds)))"

lemma group_digits:
  assumes "plain_grouping grp" and "ds \<noteq> []"
  shows "rev (group_loop widen ts grp 0 0 (rev ds)) = join ts (map (map widen) (number_groups grp ds))"
proof -
  have grp: "grp \<noteq> []" using assms(1) by (simp add: plain_grouping_def)
  have "group_loop widen ts grp 0 0 (rev ds) = units_part undefined ts grp (map widen (rev ds))"
    using group_loop_units [OF assms(1), of widen ts 0 0 "rev ds"] assms(2) grp hd_sizes_min [OF assms(1), of 0]
    by (simp add: units_part_def)
  also have "\<dots> = join ts (map (map widen) (split_groups (map nat grp) (rev ds)))"
    using assms(2) by (subst units_part_groups [OF assms(1)]) (simp_all add: split_groups_map)
  finally show ?thesis
    by (simp add: rev_join number_groups_def rev_map o_def)
qed

lemma number_groups_props:
  assumes "ds \<noteq> []"
  shows "concat (number_groups grp ds) = ds" "number_groups grp ds \<noteq> []" "length (number_groups grp ds) \<le> length ds"
    "map length (number_groups grp ds) = rev (map length (split_groups (map nat grp) (rev ds)))"
proof -
  let ?gs = "split_groups (map nat grp) (rev ds)"
  show "concat (number_groups grp ds) = ds"
    using concat_split [of "map nat grp" "rev ds"] by (simp add: number_groups_def rev_map flip: rev_concat)
  show "number_groups grp ds \<noteq> []"
    using split_groups_nonempty [of "map nat grp" "rev ds"] by (simp add: number_groups_def)
  show "length (number_groups grp ds) \<le> length ds"
    using length_le_concat [OF split_nonempty [of "rev ds" "map nat grp"]] assms concat_split [of "map nat grp" "rev ds"]
    by (simp add: number_groups_def)
  show "map length (number_groups grp ds) = rev (map length ?gs)"
    by (simp add: number_groups_def rev_map o_def)
qed

section \<open>Reading\<close>

text \<open>The locale's digits and signs are told apart, and the separator is none of them.\<close>

definition atoms_ok :: "(char \<Rightarrow> 'c) \<Rightarrow> 'c \<Rightarrow> bool" where
  "atoms_ok widen ts \<longleftrightarrow> distinct (map widen (take 26 src_chars)) \<and> ts \<notin> widen ` set (take 26 src_chars)"

definition digits_of :: "int \<Rightarrow> string" where
  "digits_of base = take (if base = 16 then 22 else nat base) src_chars"

lemma index_distinct: "distinct xs \<Longrightarrow> i < length xs \<Longrightarrow> length (takeWhile (\<lambda>a. a \<noteq> xs ! i) xs) = i"
proof (induction xs arbitrary: i)
  case (Cons x xs)
  show ?case
  proof (cases i)
    case (Suc j)
    then have "xs ! j \<noteq> x" using Cons.prems by (auto simp: in_set_conv_nth)
    then show ?thesis using Cons Suc by auto
  qed simp
qed simp

lemma src_chars_length: "length src_chars = 32"
  by (simp add: src_chars_def)

lemma atom_mem: "i < 26 \<Longrightarrow> src_chars ! i \<in> set (take 26 src_chars)"
  using nth_mem [of i "take 26 src_chars"] by (simp add: src_chars_length)

lemma atom_index:
  assumes "atoms_ok widen ts" and "i < 26"
  shows "length (takeWhile (\<lambda>a. a \<noteq> widen (src_chars ! i)) (map widen (take 26 src_chars))) = i"
  using index_distinct [of "map widen (take 26 src_chars)" i] assms
  by (simp add: atoms_ok_def src_chars_length)

lemma digit_step:
  assumes "atoms_ok widen ts" and "base \<in> {8, 10, 16}" and "d \<in> set (digits_of base)"
  shows "stage2_int_loop widen ts grp base (widen d) s = Some (s\<lparr>s2_buf := s2_buf s @ [d], s2_dc := s2_dc s + 1\<rparr>)"
proof -
  define n where "n = length (digits_of base)"
  have n: "n = (if base = 16 then 22 else nat base)" and n22: "n \<le> 22"
    using assms(2) by (auto simp: n_def digits_of_def src_chars_def)
  obtain i where i: "i < n" "d = src_chars ! i"
    using assms(3) by (auto simp: n_def digits_of_def in_set_conv_nth)
  then have i26: "i < 26" using n22 by simp
  have ts: "widen d \<noteq> ts"
    using assms(1) i atom_mem [OF i26] by (auto simp: atoms_ok_def)
  have sign: "widen d \<noteq> widen (src_chars ! j)" if "j = 24 \<or> j = 25" for j
  proof
    assume eq: "widen d = widen (src_chars ! j)"
    have "i = length (takeWhile (\<lambda>a. a \<noteq> widen d) (map widen (take 26 src_chars)))"
      using atom_index [OF assms(1) i26] i(2) by simp
    also have "\<dots> = j" using that by (subst eq, intro atom_index [OF assms(1)]) auto
    finally show False using that i(1) n22 by auto
  qed
  show ?thesis
    using assms(2) i n n22 ts sign [of 24] sign [of 25] atom_index [OF assms(1) i26]
    by (auto simp: stage2_int_loop_def Let_def)
qed

lemma digits_read:
  assumes "atoms_ok widen ts" and "base \<in> {8, 10, 16}"
  shows "set ds \<subseteq> set (digits_of base) \<Longrightarrow> stage2_int widen ts grp base (map widen ds @ b) s =
    stage2_int widen ts grp base b (s\<lparr>s2_buf := s2_buf s @ ds, s2_dc := s2_dc s + length ds\<rparr>)"
  by (induction ds arbitrary: s) (simp_all add: digit_step [OF assms])

lemma separator_read:
  assumes "atoms_ok widen ts" and "grp \<noteq> []" and "length (s2_groups s) < num_get_buf_sz"
  shows "stage2_int widen ts grp base (ts # b) s =
    stage2_int widen ts grp base b (s\<lparr>s2_groups := s2_groups s @ [s2_dc s], s2_dc := 0\<rparr>)"
proof -
  have "ts \<noteq> widen (src_chars ! j)" if "j = 24 \<or> j = 25" for j
    using assms(1) that atom_mem [of j] by (auto simp: atoms_ok_def)
  then show ?thesis using assms(2,3) by (simp add: stage2_int_loop_def)
qed

lemma groups_read:
  assumes "atoms_ok widen ts" and "base \<in> {8, 10, 16}" and "grp \<noteq> []"
  shows "gs \<noteq> [] \<Longrightarrow> set (concat gs) \<subseteq> set (digits_of base) \<Longrightarrow> length (s2_groups s) + length gs < num_get_buf_sz \<Longrightarrow>
    stage2_int widen ts grp base (join ts (map (map widen) gs) @ b) s =
    stage2_int widen ts grp base b (s\<lparr>s2_buf := s2_buf s @ concat gs,
      s2_groups := s2_groups s @ butlast ((s2_dc s + length (hd gs)) # map length (tl gs)),
      s2_dc := last ((s2_dc s + length (hd gs)) # map length (tl gs))\<rparr>)"
proof (induction gs arbitrary: s)
  case (Cons g gs)
  show ?case
  proof (cases gs)
    case Nil
    then show ?thesis using Cons.prems by (simp add: digits_read [OF assms(1,2)])
  next
    case (Cons h hs)
    let ?s = "s\<lparr>s2_buf := s2_buf s @ g, s2_dc := s2_dc s + length g\<rparr>"
    let ?s' = "?s\<lparr>s2_groups := s2_groups s @ [s2_dc s + length g], s2_dc := 0\<rparr>"
    have "stage2_int widen ts grp base (join ts (map (map widen) (g # gs)) @ b) s =
        stage2_int widen ts grp base (ts # join ts (map (map widen) gs) @ b) ?s"
      using Cons.prems by (simp add: Cons digits_read [OF assms(1,2)])
    also have "\<dots> = stage2_int widen ts grp base (join ts (map (map widen) gs) @ b) ?s'"
      using Cons.prems by (subst separator_read [OF assms(1,3)]) simp_all
    also have "\<dots> = stage2_int widen ts grp base b (?s'\<lparr>s2_buf := s2_buf ?s' @ concat gs,
        s2_groups := s2_groups ?s' @ butlast ((s2_dc ?s' + length (hd gs)) # map length (tl gs)),
        s2_dc := last ((s2_dc ?s' + length (hd gs)) # map length (tl gs))\<rparr>)"
      using Cons Cons.prems by (intro Cons.IH) simp_all
    finally show ?thesis using Cons by simp
  qed
qed simp

lemma read_stops:
  assumes "b = [] \<or> hd b \<notin> insert ts (widen ` set (take 26 src_chars))"
  shows "stage2_int widen ts grp base b s = (s, b)"
proof (cases b)
  case (Cons c cs)
  have "length (takeWhile (\<lambda>a. a \<noteq> c) (map widen (take 26 src_chars))) = 26"
    using assms Cons by (subst takeWhile_eq_all_conv [THEN iffD2]) (auto simp: src_chars_length)
  moreover have "c \<noteq> widen (src_chars ! 24)" "c \<noteq> widen (src_chars ! 25)"
    using assms Cons atom_mem [of 24] atom_mem [of 25] by auto
  ultimately show ?thesis using assms Cons by (simp add: stage2_int_loop_def)
qed simp

lemma sign_read:
  assumes "atoms_ok widen ts" and "sn \<in> {[], ''-'', ''+''}" and "s2_buf s = []" and "s2_dc s = 0"
  shows "stage2_int widen ts grp base (map widen sn @ b) s = stage2_int widen ts grp base b (s\<lparr>s2_buf := sn\<rparr>)"
proof -
  have "widen (src_chars ! 24) \<noteq> widen (src_chars ! 25)"
    using atom_index [OF assms(1), of 24] atom_index [OF assms(1), of 25] by auto
  moreover have "src_chars ! 24 = CHR ''+''" "src_chars ! 25 = CHR ''-''"
    by (simp_all add: src_chars_def)
  ultimately show ?thesis
    using assms(2-4) by (cases s) (elim insertE emptyE; simp add: stage2_int_loop_def)
qed

section \<open>Printed and read back\<close>

text \<open>A printed number without a base prefix.\<close>

definition plain_number :: "int \<Rightarrow> string \<Rightarrow> string \<Rightarrow> bool" where
  "plain_number base sn ds \<longleftrightarrow> sn \<in> {[], ''-'', ''+''} \<and> ds \<noteq> [] \<and> set ds \<subseteq> set (digits_of base)"

definition number_text :: "(char \<Rightarrow> 'c) \<Rightarrow> 'c \<Rightarrow> int list \<Rightarrow> string \<Rightarrow> string \<Rightarrow> 'c list" where
  "number_text widen ts grp sn ds =
     map widen sn @ (if grp = [] then map widen ds else join ts (map (map widen) (number_groups grp ds)))"

lemma digits_of_plain:
  assumes "base \<in> {8, 10, 16}" and "d \<in> set (digits_of base)"
  shows "d \<noteq> CHR ''-'' \<and> d \<noteq> CHR ''+'' \<and> d \<noteq> CHR ''x'' \<and> d \<noteq> CHR ''X''"
  using assms by (elim insertE emptyE; auto simp: digits_of_def src_chars_def)

lemma number_printed:
  assumes "grp = [] \<or> plain_grouping grp" and "base \<in> {8, 10, 16}" and "plain_number base sn ds"
  shows "fst (widen_and_group_int widen ts grp (sn @ ds) np) = number_text widen ts grp sn ds"
proof (cases "grp = []")
  case False
  have ds: "ds \<noteq> []" "set ds \<subseteq> set (digits_of base)" and sn: "sn \<in> {[], ''-'', ''+''}"
    using assms(3) by (auto simp: plain_number_def)
  then have digit: "d \<noteq> CHR ''-'' \<and> d \<noteq> CHR ''+'' \<and> d \<noteq> CHR ''x'' \<and> d \<noteq> CHR ''X''" if "d \<in> set ds" for d
    using digits_of_plain [OF assms(2), of d] that by blast
  have "split_sign (sn @ ds) = (sn, ds)"
    using sn ds(1) digit [of "hd ds"] by (cases ds) (auto simp: split_sign_def)
  moreover have "split_0x ds = ([], ds)"
    using digit [of "ds ! 1"] by (auto simp: split_0x_def split: list.split)
  moreover have "rev (group_loop widen ts grp 0 0 (rev ds)) = join ts (map (map widen) (number_groups grp ds))"
    using assms(1) False ds(1) by (simp add: group_digits)
  ultimately show ?thesis
    using False by (simp add: widen_and_group_int_def number_text_def Let_def)
qed (simp add: widen_and_group_int_def number_text_def Let_def)

lemma number_read:
  assumes "grp = [] \<or> plain_grouping grp" and "base \<in> {8, 10, 16}" and "plain_number base sn ds" and "atoms_ok widen ts"
    and "length ds < num_get_buf_sz" and "b = [] \<or> hd b \<notin> insert ts (widen ` set (take 26 src_chars))"
  obtains s where "stage2_int widen ts grp base (number_text widen ts grp sn ds @ b) \<lparr>s2_buf = [], s2_dc = 0, s2_groups = []\<rparr> = (s, b)"
    and "s2_buf s = sn @ ds" and "\<forall>err. grouping_err grp (last_group grp s) err = err"
proof -
  have ds: "ds \<noteq> []" "set ds \<subseteq> set (digits_of base)" and sn: "sn \<in> {[], ''-'', ''+''}"
    using assms(3) by (auto simp: plain_number_def)
  let ?s0 = "\<lparr>s2_buf = [], s2_dc = 0, s2_groups = []\<rparr>"
  have start: "stage2_int widen ts grp base (map widen sn @ t) ?s0 = stage2_int widen ts grp base t \<lparr>s2_buf = sn, s2_dc = 0, s2_groups = []\<rparr>" for t
    using sign_read [OF assms(4) sn, of ?s0] by simp
  show thesis
  proof (cases "grp = []")
    case True
    then show thesis
      using start read_stops [OF assms(6)]
      by (intro that [of "\<lparr>s2_buf = sn @ ds, s2_dc = length ds, s2_groups = []\<rparr>"])
        (simp_all add: number_text_def digits_read [OF assms(4,2) ds(2)] grouping_err_def check_grouping_def)
  next
    case False
    then have grp: "plain_grouping grp" using assms(1) by simp
    let ?gs = "number_groups grp ds"
    note gs = number_groups_props [OF ds(1), of grp]
    let ?sizes = "map length ?gs"
    have sizes: "(length (hd ?gs)) # map length (tl ?gs) = ?sizes"
      using gs(2) by (cases ?gs) simp_all
    let ?s = "\<lparr>s2_buf = sn @ ds, s2_dc = last ?sizes, s2_groups = butlast ?sizes\<rparr>"
    have "stage2_int widen ts grp base (join ts (map (map widen) ?gs) @ b) \<lparr>s2_buf = sn, s2_dc = 0, s2_groups = []\<rparr> =
        stage2_int widen ts grp base b ?s"
      using gs assms(5) ds(2) sizes by (subst groups_read [OF assms(4,2) False]) simp_all
    moreover have "last_group grp ?s = ?sizes"
    proof -
      have "length ?gs - Suc 0 < num_get_buf_sz" using gs(3) assms(5) by linarith
      then show ?thesis using gs(2) False by (simp add: last_group_def)
    qed
    moreover have "check_grouping grp ?sizes = Some False"
    proof -
      have "rev ds \<noteq> []" using ds(1) by simp
      then show ?thesis using printed_sizes_accepted [OF grp, of "rev ds"] gs(4) by simp
    qed
    ultimately show thesis
      using start read_stops [OF assms(6)] False
      by (intro that [of ?s]) (simp_all add: number_text_def grouping_err_def)
  qed
qed

section \<open>Properties\<close>

lemma do_put_int_fits:
  assumes "snprintf (CHR ''%'' # format_int len signd flags) v \<noteq> []" and "length len + 4 < fmtbuf"
  shows "do_put_int snprintf widen ts grp fmtbuf len bits signd flags width fl v =
    (let nar = snprintf (CHR ''%'' # format_int len signd flags) v;
         (ob, op) = widen_and_group_int widen ts grp nar (identify_padding nar flags) in
     if length nar < nbuf_of bits signd flags then Some (pad_and_output ob op width fl) else None)"
proof -
  let ?nar = "snprintf (CHR ''%'' # format_int len signd flags) v"
  have "length (fst (widen_and_group_int widen ts grp ?nar (identify_padding ?nar flags))) \<le> 2 * length ?nar - 1"
    by (rule widen_and_group_length [OF assms(1)])
  then show ?thesis
    using assms(2) format_int_length [of len signd flags]
    by (auto simp: Let_def do_put_int_def split: prod.splits)
qed

text \<open>
  What \<open>snprintf\<close> prints of a 64 bit number: at most a sign and the decimal digits without leading zeros, or, with
  the prefix that \<open>#\<close> adds, the octal or hexadecimal digits of the unsigned number.
\<close>

definition printed_number :: "fmtflags \<Rightarrow> bool \<Rightarrow> int \<Rightarrow> string \<Rightarrow> bool" where
  "printed_number flags signd v nar \<longleftrightarrow>
     (let plain = (\<lambda>base m ds. length ds = 1 \<or> ds \<noteq> [] \<and> base ^ (length ds - 1) \<le> (m::int));
          sb = (if flags AND showbase \<noteq> 0 then 1 else 0) in
      \<exists>pre ds. nar = pre @ ds \<and>
        (if flags AND basefield = oct then length pre \<le> sb \<and> plain 8 (v mod 2 ^ 64) ds
         else if flags AND basefield = hex then length pre \<le> 2 * sb \<and> plain 16 (v mod 2 ^ 64) ds
         else length pre \<le> (if signd then 1 else 0) \<and> plain 10 \<bar>v\<bar> ds))"

lemma plain_length:
  assumes "length ds = 1 \<or> ds \<noteq> [] \<and> (base::int) ^ (length ds - 1) \<le> m" and "m < base ^ n" and "1 < base" and "0 < n"
  shows "length ds \<le> n"
proof (rule ccontr)
  assume far: "\<not> length ds \<le> n"
  then have "base ^ n \<le> base ^ (length ds - 1)" using assms(3) by (intro power_increasing) auto
  then show False using assms far by linarith
qed

lemma printed_number_fits:
  assumes "printed_number flags signd v nar" and "\<bar>v\<bar> < 2 ^ 64"
  shows "nar \<noteq> []" and "length nar < nbuf_of (if signd then 63 else 64) signd flags"
proof -
  obtain pre ds where nar: "nar = pre @ ds"
    and parts: "if flags AND basefield = oct then length pre \<le> (if flags AND showbase \<noteq> 0 then 1 else 0) \<and> (length ds = 1 \<or> ds \<noteq> [] \<and> 8 ^ (length ds - 1) \<le> v mod 2 ^ 64)
      else if flags AND basefield = hex then length pre \<le> 2 * (if flags AND showbase \<noteq> 0 then 1 else 0) \<and> (length ds = 1 \<or> ds \<noteq> [] \<and> 16 ^ (length ds - 1) \<le> v mod 2 ^ 64)
      else length pre \<le> (if signd then 1 else 0) \<and> (length ds = 1 \<or> ds \<noteq> [] \<and> 10 ^ (length ds - 1) \<le> \<bar>v\<bar>)"
    using assms(1) unfolding printed_number_def Let_def by blast
  have u: "v mod 2 ^ 64 < 8 ^ 22" "v mod 2 ^ 64 < 16 ^ 16" "\<bar>v\<bar> < 10 ^ 20"
    using assms(2) pos_mod_bound [of "2 ^ 64" v] by simp_all
  have digits: "length ds = 1 \<or> ds \<noteq> [] \<and> 8 ^ (length ds - 1) \<le> v mod 2 ^ 64 \<Longrightarrow> length ds \<le> 22"
    "length ds = 1 \<or> ds \<noteq> [] \<and> 16 ^ (length ds - 1) \<le> v mod 2 ^ 64 \<Longrightarrow> length ds \<le> 16"
    "length ds = 1 \<or> ds \<noteq> [] \<and> 10 ^ (length ds - 1) \<le> \<bar>v\<bar> \<Longrightarrow> length ds \<le> 20"
    using plain_length [OF _ u(1)] plain_length [OF _ u(2)] plain_length [OF _ u(3)] by simp_all
  show "nar \<noteq> []" using nar parts by (auto split: if_splits)
  show "length nar < nbuf_of (if signd then 63 else 64) signd flags"
    using nar parts digits by (auto simp: nbuf_of_def split: if_splits)
qed

text \<open>
  C17: No buffer of \<open>num_put\<close> overflows.  For every 64 bit number, set of flags, grouping and width, and the text that \<open>snprintf\<close>
  prints by its contract (sign, prefix and digits without leading zeros), the format string has at most three characters more
  than the length modifier and the percent sign, the number fits \<open>nar\<close>, the padding place lies within the output, the
  separators less than double the number, and so \<open>do_put\<close> writes within its three buffers; the output is as wide as asked for.
\<close>

theorem num_put_bounds:
  assumes "printed_number flags signd v (snprintf (CHR ''%'' # format_int len signd flags) v)" and "\<bar>v\<bar> < 2 ^ 64"
    and "length len + 4 < fmtbuf"
  shows "length (format_int len signd flags) \<le> length len + 3 \<and>
    (let nar = snprintf (CHR ''%'' # format_int len signd flags) v;
         (ob, op) = widen_and_group_int widen ts grp nar (identify_padding nar flags) in
     op \<le> length ob \<and> length nar \<le> length ob \<and> length ob \<le> 2 * length nar - 1 \<and>
     do_put_int snprintf widen ts grp fmtbuf len (if signd then 63 else 64) signd flags width fl v = Some (pad_and_output ob op width fl) \<and>
     length (pad_and_output ob op width fl) = max width (length ob))"
proof -
  let ?nar = "snprintf (CHR ''%'' # format_int len signd flags) v"
  let ?w = "widen_and_group_int widen ts grp ?nar (identify_padding ?nar flags)"
  note fits = printed_number_fits [OF assms(1,2)]
  have len: "length (fst ?w) \<le> 2 * length ?nar - 1" "length ?nar \<le> length (fst ?w)"
    by (rule widen_and_group_length [OF fits(1)], rule widen_and_group_covers)
  moreover have "snd ?w \<le> length (fst ?w)"
    using identify_padding_le [OF fits(1), of flags] len(2)
    by (auto simp: widen_and_group_int_def Let_def split: prod.splits)
  moreover have "0 < length ?nar" using fits(1) by simp
  ultimately show ?thesis
    using fits(2) assms(3) format_int_length [of len signd flags]
    by (auto simp: Let_def do_put_int_fits [where snprintf = snprintf and len = len and signd = signd and flags = flags and v = v, OF fits(1) assms(3)] pad_and_output_def split: prod.splits)
qed

theorem num_put_bounds_witness:
  "do_put_long (\<lambda>f v. ''-1234567'') id CHR '','' [3] dec 12 CHR ''*'' (- 1234567) \<noteq> None \<and>
   do_put_ullong (\<lambda>f v. ''01777777777777777777777'') id CHR '','' [3] (oct OR showbase) 12 CHR ''*'' (2 ^ 64 - 1) \<noteq> None"
proof -
  have "printed_number dec True (- 1234567) ''-1234567''"
    unfolding printed_number_def Let_def
    by (rule exI [of _ "''-''"], rule exI [of _ "''1234567''"]) (simp add: dec_def oct_def hex_def basefield_def)
  moreover have "printed_number (oct OR showbase) False (2 ^ 64 - 1) ''01777777777777777777777''"
    unfolding printed_number_def Let_def
    by (rule exI [of _ "''0''"], rule exI [of _ "''1777777777777777777777''"]) (simp add: dec_def oct_def hex_def basefield_def showbase_def)
  ultimately show ?thesis
    using num_put_bounds [of dec True "- 1234567" "\<lambda>f v. ''-1234567''" "''l''" 6 id "CHR '',''" "[3]" 12 "CHR ''*''"]
      num_put_bounds [of "oct OR showbase" False "2 ^ 64 - 1" "\<lambda>f v. ''01777777777777777777777''" "''ll''" 8 id "CHR '',''" "[3]" 12 "CHR ''*''"]
    unfolding do_put_long_def do_put_ullong_def by (simp add: Let_def split: prod.splits)
qed

text \<open>
  C12: What \<open>num_put\<close> prints with a field width of 0, \<open>num_get\<close> reads back, for \<open>long\<close> and \<open>unsigned long\<close>: with no grouping or any
  of sizes from 1 to 126, any digits, signs and separator that a locale tells apart, and bases 8, 10 and 16, the value comes back, the
  input is read up to the first character that is none of these, and no error is set but the end of the input.
  \<open>snprintf\<close> prints a sign and digits, and \<open>strtoll\<close> and \<open>strtoull\<close> read this text as the value.
\<close>

theorem num_round_trip:
  assumes "grp = [] \<or> plain_grouping grp" and "get_base flags \<in> {8, 10, 16}" and "atoms_ok widen ts"
    and "b = [] \<or> hd b \<notin> insert ts (widen ` set (take 26 src_chars))"
    and "snprintf (CHR ''%'' # format_int ''l'' True flags) v = sn @ ds" and "plain_number (get_base flags) sn ds"
    and "length (sn @ ds) < nbuf_of 63 True flags"
    and "strtoll (sn @ ds) (get_base flags) = (v, length (sn @ ds), False)" and "tmin \<le> v \<and> v \<le> tmax"
    and "snprintf (CHR ''%'' # format_int ''l'' False flags) u = us" and "plain_number (get_base flags) [] us"
    and "length us < nbuf_of 64 False flags" and "strtoull us (get_base flags) = (u, length us, False)" and "u \<le> umax"
  shows "(\<exists>out. do_put_long snprintf widen ts grp flags 0 fl v = Some out \<and>
      do_get_signed strtoll tmin tmax widen ts grp flags (out @ b) 0 = (v, b, if b = [] then eofbit else 0)) \<and>
    (\<exists>out. do_put_ulong snprintf widen ts grp flags 0 fl u = Some out \<and>
      do_get_unsigned strtoull umax widen ts grp flags (out @ b) 0 = (u, b, if b = [] then eofbit else 0))"
proof -
  have put: "do_put_int snprintf widen ts grp 6 ''l'' bits signd flags 0 fl x = Some (number_text widen ts grp s t)"
    if "snprintf (CHR ''%'' # format_int ''l'' signd flags) x = s @ t" "plain_number (get_base flags) s t"
      "length (s @ t) < nbuf_of bits signd flags" for bits signd x s t
  proof -
    have "s @ t \<noteq> []" using that(2) by (simp add: plain_number_def)
    then show ?thesis
      using number_printed [OF assms(1,2) that(2), of widen ts "identify_padding (s @ t) flags"] that
      by (auto simp: do_put_int_fits Let_def pad_and_output_def split: prod.split)
  qed
  have short: "length t < num_get_buf_sz" if "length (s @ t) < nbuf_of bits signd flags" "bits = 63 \<or> bits = 64" for s t bits signd
    using that by (auto simp: nbuf_of_def num_get_buf_sz_def split: if_splits)
  obtain s1 where s1: "stage2_int widen ts grp (get_base flags) (number_text widen ts grp sn ds @ b) \<lparr>s2_buf = [], s2_dc = 0, s2_groups = []\<rparr> = (s1, b)"
    "s2_buf s1 = sn @ ds" "\<forall>err. grouping_err grp (last_group grp s1) err = err"
    by (rule number_read [OF assms(1,2,6,3) short [OF assms(7)] assms(4)]) simp_all
  have signed: "do_get_signed strtoll tmin tmax widen ts grp flags (number_text widen ts grp sn ds @ b) 0 = (v, b, if b = [] then eofbit else 0)"
    using assms(6,8,9) by (simp add: do_get_signed_def s1 get_signed_integral_def plain_number_def Let_def)
  have us: "us \<noteq> []" "hd us \<noteq> CHR ''-''"
    using assms(11) digits_of_plain [OF assms(2), of "hd us"] by (cases us; simp add: plain_number_def)+
  obtain s2 where s2: "stage2_int widen ts grp (get_base flags) (number_text widen ts grp [] us @ b) \<lparr>s2_buf = [], s2_dc = 0, s2_groups = []\<rparr> = (s2, b)"
    "s2_buf s2 = us" "\<forall>err. grouping_err grp (last_group grp s2) err = err"
    by (rule number_read [OF assms(1,2,11,3) short [of "[]" us 64 False] assms(4)]) (simp_all add: assms(12))
  have unsigned: "do_get_unsigned strtoull umax widen ts grp flags (number_text widen ts grp [] us @ b) 0 = (u, b, if b = [] then eofbit else 0)"
    using us assms(13,14) by (simp add: do_get_unsigned_def s2 get_unsigned_integral_def Let_def)
  show ?thesis
    using put [OF assms(5,6,7)] put [of False u "[]" us 64] assms(10,11,12) signed unsigned
    by (simp add: do_put_long_def do_put_ulong_def)
qed

theorem num_round_trip_witness:
  "(\<exists>out. do_put_long (\<lambda>f v. if f = ''%ld'' then ''-1234567'' else ''42'') id CHR '','' [3] dec 0 CHR '' '' (- 1234567) = Some out \<and>
     do_get_signed (\<lambda>a base. (- 1234567, 8, False)) (- (2 ^ 63)) (2 ^ 63 - 1) id CHR '','' [3] dec (out @ '' x'') 0 = (- 1234567, '' x'', 0))"
proof -
  have src: "take 26 src_chars = ''0123456789abcdefABCDEFxX+-''" by (simp add: src_chars_def)
  have base: "get_base dec = 10"
    by (simp add: get_base_def basefield_def dec_def oct_def hex_def)
  have fmt: "format_int ''l'' True dec = ''ld''" "format_int ''l'' False dec = ''lu''"
    by (simp_all add: format_int_def dec_def showpos_def showbase_def basefield_def oct_def hex_def)
  have nbuf: "nbuf_of 63 True dec = 23" "nbuf_of 64 False dec = 23"
    by (simp_all add: nbuf_of_def dec_def showbase_def)
  have digits: "digits_of 10 = ''0123456789''" by (simp add: digits_of_def src_chars_def)
  note n = num_round_trip [of "[3]" dec id "CHR '',''" "'' x''" "\<lambda>f v. if f = ''%ld'' then ''-1234567'' else ''42''" "- 1234567" "''-''" "''1234567''"
      "\<lambda>a base. (- 1234567, 8, False)" "- (2 ^ 63)" "2 ^ 63 - 1" 42 "''42''" "\<lambda>a base. (42, 2, False)" "2 ^ 64 - 1" "CHR '' ''"]
  show ?thesis
    using n by (simp add: src base fmt nbuf digits plain_grouping_def CHAR_MAX_def atoms_ok_def plain_number_def)
qed

end
