(* ===== verification/Time_Format.thy ===== *)
theory Time_Format
  imports Scan_Keyword
begin

text \<open>
  The time facets of \<open>src/src/locale.cpp\<close>: the tables of \<open>__time_get_c_storage\<close>, and
  \<open>__time_get_storage\<close>, which finds out the date and time formats of a locale: \<open>init\<close> has \<open>strftime\<close> print the
  names and a sample time, and \<open>__analyze\<close> turns that text back into a format; \<open>__do_date_order\<close> reads the
  order of day, month and year from the result.

  The code exists for \<open>char\<close> and \<open>wchar_t\<close>.  A definition that both share has the character type as a
  parameter, with \<open>lit\<close> for the character literals; the names with \<open>_w\<close> are the \<open>wchar_t\<close> versions.  The
  locale's \<open>strftime_l\<close> and \<open>mbsrtowcs_l\<close> are parameters (\<open>None\<close> is the result -1), as is the facet \<open>ctype\<close>.
\<close>

type_synonym wchar = u32

definition wide :: "char \<Rightarrow> wchar" where "wide c = of_char c"

section \<open>The tables of the C locale\<close>

definition init_weeks :: "string list" where
  "init_weeks = [''Sunday'', ''Monday'', ''Tuesday'', ''Wednesday'', ''Thursday'', ''Friday'', ''Saturday'',
     ''Sun'', ''Mon'', ''Tue'', ''Wed'', ''Thu'', ''Fri'', ''Sat'']"

definition init_wweeks :: "wchar list list" where
  "init_wweeks = map (map wide)
     [''Sunday'', ''Monday'', ''Tuesday'', ''Wednesday'', ''Thursday'', ''Friday'', ''Saturday'',
      ''Sun'', ''Mon'', ''Tue'', ''Wed'', ''Thu'', ''Fri'', ''Sat'']"

definition init_months :: "string list" where
  "init_months = [''January'', ''February'', ''March'', ''April'', ''May'', ''June'', ''July'', ''August'',
     ''September'', ''October'', ''November'', ''December'',
     ''Jan'', ''Feb'', ''Mar'', ''Apr'', ''May'', ''Jun'', ''Jul'', ''Aug'', ''Sep'', ''Oct'', ''Nov'', ''Dec'']"

definition init_wmonths :: "wchar list list" where
  "init_wmonths = map (map wide)
     [''January'', ''February'', ''March'', ''April'', ''May'', ''June'', ''July'', ''August'',
      ''September'', ''October'', ''November'', ''December'',
      ''Jan'', ''Feb'', ''Mar'', ''Apr'', ''May'', ''Jun'', ''Jul'', ''Aug'', ''Sep'', ''Oct'', ''Nov'', ''Dec'']"

text \<open>Only the first two of the 24 strings are used.\<close>

definition init_am_pm :: "string list" where "init_am_pm = [''AM'', ''PM''] @ replicate 22 []"
definition init_wam_pm :: "wchar list list" where "init_wam_pm = map (map wide) [''AM'', ''PM''] @ replicate 22 []"

definition c_storage_x :: string where "c_storage_x = ''%m/%d/%y''"
definition c_storage_x_w :: "wchar list" where "c_storage_x_w = map wide ''%m/%d/%y''"
definition c_storage_X :: string where "c_storage_X = ''%H:%M:%S''"
definition c_storage_X_w :: "wchar list" where "c_storage_X_w = map wide ''%H:%M:%S''"
definition c_storage_c :: string where "c_storage_c = ''%a %b %d %H:%M:%S %Y''"
definition c_storage_c_w :: "wchar list" where "c_storage_c_w = map wide ''%a %b %d %H:%M:%S %Y''"
definition c_storage_r :: string where "c_storage_r = ''%I:%M:%S %p''"
definition c_storage_r_w :: "wchar list" where "c_storage_r_w = map wide ''%I:%M:%S %p''"

section \<open>Data\<close>

record 'c ctype =
  ct_space :: "'c \<Rightarrow> bool"
  ct_digit :: "'c \<Rightarrow> bool"
  ct_toupper :: "'c \<Rightarrow> 'c"
  ct_narrow :: "'c \<Rightarrow> char"

record tm =
  tm_sec :: int
  tm_min :: int
  tm_hour :: int
  tm_mday :: int
  tm_mon :: int
  tm_year :: int
  tm_wday :: int
  tm_yday :: int
  tm_isdst :: int

definition zero_tm :: tm where
  "zero_tm = \<lparr>tm_sec = 0, tm_min = 0, tm_hour = 0, tm_mday = 0, tm_mon = 0, tm_year = 0, tm_wday = 0, tm_yday = 0, tm_isdst = 0\<rparr>"

text \<open>The time that \<open>__analyze\<close> has printed: every field has a value of its own.\<close>

definition sample_tm :: tm where
  "sample_tm = \<lparr>tm_sec = 59, tm_min = 55, tm_hour = 23, tm_mday = 31, tm_mon = 11, tm_year = 161, tm_wday = 6,
     tm_yday = 364, tm_isdst = - 1\<rparr>"

record 'c storage =
  weeks :: "'c list list"
  months :: "'c list list"
  am_pm :: "'c list list"
  c_fmt :: "'c list"
  r_fmt :: "'c list"
  x_fmt :: "'c list"
  X_fmt :: "'c list"

section \<open>__analyze\<close>

definition number_directive :: "int \<Rightarrow> char option" where
  "number_directive r =
     (if r = 6 then Some CHR ''w'' else if r = 7 then Some CHR ''u'' else if r = 11 then Some CHR ''I''
      else if r = 12 then Some CHR ''m'' else if r = 23 then Some CHR ''H'' else if r = 31 then Some CHR ''d''
      else if r = 55 then Some CHR ''M'' else if r = 59 then Some CHR ''S'' else if r = 61 then Some CHR ''y''
      else if r = 364 then Some CHR ''j'' else if r = 2061 then Some CHR ''Y'' else None)"

definition digit_value :: "'c ctype \<Rightarrow> 'c \<Rightarrow> int" where
  "digit_value ct c = of_char (ct_narrow ct c) - 48"

text \<open>What follows the names: numbers, the percent sign and other characters.\<close>

definition analyze_other ::
  "(char \<Rightarrow> 'c) \<Rightarrow> ('c \<Rightarrow> bool) \<Rightarrow> 'c ctype \<Rightarrow> 'c list \<Rightarrow> iostate \<Rightarrow> 'c list \<times> 'c list" where
  "analyze_other lit percent ct bb err =
     (if ct_digit ct (hd bb) then
        (let (r, be, err) = get_up_to_n_digits (ct_digit ct) (digit_value ct) 4 bb err in
         (case number_directive r of
            Some d \<Rightarrow> [lit CHR ''%'', lit d]
          | None \<Rightarrow> take (length bb - length be) bb, be))
      else if percent (hd bb) then ([lit CHR ''%'', lit CHR ''%''], tl bb)
      else ([hd bb], tl bb))"

text \<open>One pass of the loop: the characters that are appended to \<open>result\<close>, and the rest.\<close>

definition analyze_step ::
  "(char \<Rightarrow> 'c) \<Rightarrow> ('c \<Rightarrow> bool) \<Rightarrow> 'c ctype \<Rightarrow> char \<Rightarrow> 'c storage \<Rightarrow> 'c list \<Rightarrow> ('c list \<times> 'c list) option" where
  "analyze_step lit percent ct fmt s bb =
     (if ct_space ct (hd bb) then Some ([lit CHR '' ''], dropWhile (ct_space ct) (tl bb))
      else case scan_keyword False (ct_toupper ct) (weeks s) bb 0 of
        None \<Rightarrow> None
      | Some (i, w, err) \<Rightarrow>
        if i < 14 then Some ([lit CHR ''%'', lit (if i < 7 then CHR ''A'' else CHR ''a'')], w)
        else case scan_keyword False (ct_toupper ct) (months s) bb err of
          None \<Rightarrow> None
        | Some (i, w, err) \<Rightarrow>
          if i < 24 then
            (let d = (if i < 12 then CHR ''B'' else CHR ''b'');
                 d = (if fmt = CHR ''x'' \<and> ct_digit ct ((months s ! i @ [lit CHR 0x00]) ! 0) then CHR ''m'' else d) in
             Some ([lit CHR ''%'', lit d], w))
          else if 0 < length (am_pm s ! 0) + length (am_pm s ! 1) then
            (case scan_keyword False (ct_toupper ct) (am_pm s) bb err of
               None \<Rightarrow> None
             | Some (i, w, err) \<Rightarrow>
               if i < 2 then Some ([lit CHR ''%'', lit CHR ''p''], w)
               else Some (analyze_other lit percent ct bb err))
          else Some (analyze_other lit percent ct bb err))"

partial_function (option) analyze_loop ::
  "(char \<Rightarrow> 'c) \<Rightarrow> ('c \<Rightarrow> bool) \<Rightarrow> 'c ctype \<Rightarrow> char \<Rightarrow> 'c storage \<Rightarrow> 'c list \<Rightarrow> 'c list \<Rightarrow> 'c list option" where
  "analyze_loop lit percent ct fmt s bb result =
     (if bb = [] then Some result
      else case analyze_step lit percent ct fmt s bb of
        None \<Rightarrow> None
      | Some (out, bb) \<Rightarrow> analyze_loop lit percent ct fmt s bb (result @ out))"

definition analyze :: "(string \<Rightarrow> tm \<Rightarrow> string) \<Rightarrow> char ctype \<Rightarrow> char \<Rightarrow> char storage \<Rightarrow> string option" where
  "analyze strftime ct fmt s =
     analyze_loop id (\<lambda>c. c = CHR ''%'') ct fmt s (strftime [CHR ''%'', fmt] sample_tm) []"

text \<open>\<open>Inl\<close>: the exception \<open>runtime_error\<close>.  \<open>None\<close>: the loop does not end.\<close>

datatype error = Runtime_error

definition analyze_w ::
  "(string \<Rightarrow> tm \<Rightarrow> string) \<Rightarrow> (string \<Rightarrow> wchar list option) \<Rightarrow> wchar ctype \<Rightarrow> char \<Rightarrow> wchar storage \<Rightarrow> (error + wchar list) option" where
  "analyze_w strftime mbsrtowcs ct fmt s =
     (case mbsrtowcs (strftime [CHR ''%'', fmt] sample_tm) of
        None \<Rightarrow> Some (Inl Runtime_error)
      | Some wbuf \<Rightarrow> map_option Inr (analyze_loop wide (\<lambda>c. ct_narrow ct c = CHR ''%'') ct fmt s wbuf []))"

section \<open>init\<close>

text \<open>The names that \<open>init\<close> has printed, with the fields of \<open>t\<close> as the loops have left them.\<close>

definition week_names :: "(string \<Rightarrow> tm \<Rightarrow> string) \<Rightarrow> string list" where
  "week_names strftime =
     map (\<lambda>i. strftime ''%A'' (zero_tm\<lparr>tm_wday := i\<rparr>)) [0..6] @ map (\<lambda>i. strftime ''%a'' (zero_tm\<lparr>tm_wday := i\<rparr>)) [0..6]"

definition month_names :: "(string \<Rightarrow> tm \<Rightarrow> string) \<Rightarrow> string list" where
  "month_names strftime =
     (let t = zero_tm\<lparr>tm_wday := 6\<rparr> in
      map (\<lambda>i. strftime ''%B'' (t\<lparr>tm_mon := i\<rparr>)) [0..11] @ map (\<lambda>i. strftime ''%b'' (t\<lparr>tm_mon := i\<rparr>)) [0..11])"

definition am_pm_names :: "(string \<Rightarrow> tm \<Rightarrow> string) \<Rightarrow> string list" where
  "am_pm_names strftime =
     (let t = zero_tm\<lparr>tm_wday := 6, tm_mon := 11\<rparr> in
      [strftime ''%p'' (t\<lparr>tm_hour := 1\<rparr>), strftime ''%p'' (t\<lparr>tm_hour := 13\<rparr>)])"

definition init :: "(string \<Rightarrow> tm \<Rightarrow> string) \<Rightarrow> char ctype \<Rightarrow> char storage option" where
  "init strftime ct =
     (let s = \<lparr>weeks = week_names strftime, months = month_names strftime, am_pm = am_pm_names strftime,
            c_fmt = [], r_fmt = [], x_fmt = [], X_fmt = []\<rparr> in
      case analyze strftime ct CHR ''c'' s of None \<Rightarrow> None | Some f \<Rightarrow> let s = s\<lparr>c_fmt := f\<rparr> in
      case analyze strftime ct CHR ''r'' s of None \<Rightarrow> None | Some f \<Rightarrow> let s = s\<lparr>r_fmt := f\<rparr> in
      case analyze strftime ct CHR ''x'' s of None \<Rightarrow> None | Some f \<Rightarrow> let s = s\<lparr>x_fmt := f\<rparr> in
      case analyze strftime ct CHR ''X'' s of None \<Rightarrow> None | Some f \<Rightarrow> Some (s\<lparr>X_fmt := f\<rparr>))"

fun convert_all :: "(string \<Rightarrow> wchar list option) \<Rightarrow> string list \<Rightarrow> error + wchar list list" where
  "convert_all mbsrtowcs [] = Inr []"
| "convert_all mbsrtowcs (buf # bufs) =
     (case mbsrtowcs buf of
        None \<Rightarrow> Inl Runtime_error
      | Some w \<Rightarrow> (case convert_all mbsrtowcs bufs of Inl e \<Rightarrow> Inl e | Inr ws \<Rightarrow> Inr (w # ws)))"

definition then_w :: "(error + 'a) option \<Rightarrow> ('a \<Rightarrow> (error + 'b) option) \<Rightarrow> (error + 'b) option" where
  "then_w r f = (case r of None \<Rightarrow> None | Some (Inl e) \<Rightarrow> Some (Inl e) | Some (Inr a) \<Rightarrow> f a)"

definition init_w ::
  "(string \<Rightarrow> tm \<Rightarrow> string) \<Rightarrow> (string \<Rightarrow> wchar list option) \<Rightarrow> wchar ctype \<Rightarrow> (error + wchar storage) option" where
  "init_w strftime mbsrtowcs ct =
     then_w (Some (convert_all mbsrtowcs (week_names strftime))) (\<lambda>ws.
     then_w (Some (convert_all mbsrtowcs (month_names strftime))) (\<lambda>ms.
     then_w (Some (convert_all mbsrtowcs (am_pm_names strftime))) (\<lambda>ps.
     let s = \<lparr>weeks = ws, months = ms, am_pm = ps, c_fmt = [], r_fmt = [], x_fmt = [], X_fmt = []\<rparr> in
     then_w (analyze_w strftime mbsrtowcs ct CHR ''c'' s) (\<lambda>f. let s = s\<lparr>c_fmt := f\<rparr> in
     then_w (analyze_w strftime mbsrtowcs ct CHR ''r'' s) (\<lambda>f. let s = s\<lparr>r_fmt := f\<rparr> in
     then_w (analyze_w strftime mbsrtowcs ct CHR ''x'' s) (\<lambda>f. let s = s\<lparr>x_fmt := f\<rparr> in
     then_w (analyze_w strftime mbsrtowcs ct CHR ''X'' s) (\<lambda>f. Some (Inr (s\<lparr>X_fmt := f\<rparr>)))))))))"

section \<open>__do_date_order\<close>

datatype dateorder = No_order | Dmy | Mdy | Ymd | Ydm

text \<open>\<open>operator[]\<close> of a string: the terminator at its end, undefined (\<open>None\<close>) behind it.\<close>

definition char_at :: "(char \<Rightarrow> 'c) \<Rightarrow> 'c list \<Rightarrow> nat \<Rightarrow> 'c option" where
  "char_at lit x i = (if i < length x then Some (x ! i) else if i = length x then Some (lit CHR 0x00) else None)"

definition find_percent :: "(char \<Rightarrow> 'c) \<Rightarrow> 'c list \<Rightarrow> nat \<Rightarrow> nat" where
  "find_percent lit x i = i + length (takeWhile (\<lambda>c. c \<noteq> lit CHR ''%'') (drop i x))"

text \<open>The character of the next directive behind place \<open>i\<close>: \<open>k\<close> continues with its place; no percent sign is a \<open>break\<close>.\<close>

definition next_directive ::
  "(char \<Rightarrow> 'c) \<Rightarrow> 'c list \<Rightarrow> nat \<Rightarrow> ('c \<Rightarrow> nat \<Rightarrow> dateorder option) \<Rightarrow> dateorder option" where
  "next_directive lit x i k =
     (let i = find_percent lit x (i + 1) in
      if i = length x then Some No_order
      else let i = i + 1 in case char_at lit x i of None \<Rightarrow> None | Some c \<Rightarrow> k c i)"

definition date_order_of :: "(char \<Rightarrow> 'c) \<Rightarrow> 'c list \<Rightarrow> dateorder option" where
  "date_order_of lit x =
     (let i = find_percent lit x 0 + 1 in
      case char_at lit x i of
        None \<Rightarrow> None
      | Some c \<Rightarrow>
        if c = lit CHR ''y'' \<or> c = lit CHR ''Y'' then
          next_directive lit x i (\<lambda>c i.
            if c = lit CHR ''m'' then
              next_directive lit x i (\<lambda>c i. Some (if c = lit CHR ''d'' then Ymd else No_order))
            else if c = lit CHR ''d'' then
              next_directive lit x i (\<lambda>c i. Some (if c = lit CHR ''m'' then Ydm else No_order))
            else Some No_order)
        else if c = lit CHR ''m'' then
          next_directive lit x i (\<lambda>c i.
            if c = lit CHR ''d'' then
              next_directive lit x i (\<lambda>c i. Some (if c = lit CHR ''y'' \<or> c = lit CHR ''Y'' then Mdy else No_order))
            else Some No_order)
        else if c = lit CHR ''d'' then
          next_directive lit x i (\<lambda>c i.
            if c = lit CHR ''m'' then
              next_directive lit x i (\<lambda>c i. Some (if c = lit CHR ''y'' \<or> c = lit CHR ''Y'' then Dmy else No_order))
            else Some No_order)
        else Some No_order)"

definition do_date_order :: "char storage \<Rightarrow> dateorder option" where
  "do_date_order s = date_order_of id (x_fmt s)"

definition do_date_order_w :: "wchar storage \<Rightarrow> dateorder option" where
  "do_date_order_w s = date_order_of wide (x_fmt s)"

section \<open>time_put\<close>

text \<open>The format that \<open>__do_put\<close> hands to \<open>strftime_l\<close>, up to the terminator, and the text it writes.\<close>

definition do_put :: "(string \<Rightarrow> tm \<Rightarrow> string) \<Rightarrow> tm \<Rightarrow> char \<Rightarrow> char \<Rightarrow> string" where
  "do_put strftime t fmt md =
     (let f = (if md \<noteq> CHR 0x00 then [CHR ''%'', md, fmt] else [CHR ''%'', fmt, md]) in
      strftime (takeWhile (\<lambda>c. c \<noteq> CHR 0x00) f) t)"

definition do_put_w ::
  "(string \<Rightarrow> tm \<Rightarrow> string) \<Rightarrow> (string \<Rightarrow> wchar list option) \<Rightarrow> tm \<Rightarrow> char \<Rightarrow> char \<Rightarrow> error + wchar list" where
  "do_put_w strftime mbsrtowcs t fmt md =
     (case mbsrtowcs (do_put strftime t fmt md) of None \<Rightarrow> Inl Runtime_error | Some wb \<Rightarrow> Inr wb)"

end
