(* ===== verification/Time_Analysis.thy ===== *)
theory Time_Analysis
  imports Time_Format
begin

text \<open>
  The analysis of a printed sample time: what each pass of the loop of \<open>__analyze\<close> does with a name, a number, a
  separator and white space, that the loop ends, and that it recovers the format.
\<close>

section \<open>Passes of the loop\<close>

abbreviation all_names :: "'c storage \<Rightarrow> 'c list list" where
  "all_names s \<equiv> weeks s @ months s @ am_pm s"

text \<open>A character that occurs in no name ends the search for one.\<close>

definition stops :: "'c ctype \<Rightarrow> 'c storage \<Rightarrow> 'c \<Rightarrow> bool" where
  "stops ct s c \<longleftrightarrow> (\<forall>ky \<in> set (all_names s). ct_toupper ct c \<notin> ct_toupper ct ` set ky)"

definition stopped :: "'c ctype \<Rightarrow> 'c storage \<Rightarrow> 'c list \<Rightarrow> bool" where
  "stopped ct s rest \<longleftrightarrow> rest = [] \<or> stops ct s (hd rest)"

lemma nothing_past:
  assumes "stopped ct s rest" and "ky \<in> set (all_names s)" and "length name < n" and "n \<le> length (name @ rest)"
  shows "\<not> begins (ct_toupper ct) (name @ rest) n ky"
proof
  assume beg: "begins (ct_toupper ct) (name @ rest) n ky"
  let ?m = "length name"
  have rest: "rest \<noteq> []"
  proof
    assume "rest = []"
    then show False using assms(3,4) by simp
  qed
  have "begins (ct_toupper ct) (name @ rest) (Suc ?m) ky"
    using beg assms(3) by (auto elim: begins_mono)
  moreover have "?m < length (name @ rest)" using assms(3,4) by linarith
  ultimately have "?m < length ky" "ct_toupper ct (hd rest) = ct_toupper ct (ky ! ?m)"
    using rest by (auto simp: begins_Suc hd_conv_nth nth_append)
  then have "ct_toupper ct (hd rest) \<in> ct_toupper ct ` set ky" by simp
  then show False using assms(1,2) rest by (auto simp: stopped_def stops_def)
qed

lemma names_subset: "set (weeks s) \<subseteq> set (all_names s)" "set (months s) \<subseteq> set (all_names s)" "set (am_pm s) \<subseteq> set (all_names s)"
  by auto

definition first_match :: "('c \<Rightarrow> 'c) \<Rightarrow> 'c list list \<Rightarrow> 'c list \<Rightarrow> nat" where
  "first_match up kys name = length (takeWhile (\<lambda>ky. map up ky \<noteq> map up name) kys)"

lemma first_match_less: "name \<in> set kys \<Longrightarrow> first_match up kys name < length kys"
  by (induction kys) (auto simp: first_match_def)

lemma scan_name:
  assumes "stopped ct s rest" and "name \<in> set kys" and "set kys \<subseteq> set (all_names s)"
  shows "scan_result (ct_toupper ct) kys (name @ rest) = (first_match (ct_toupper ct) kys name, rest)"
proof -
  have "scanned (ct_toupper ct) kys (name @ rest) = length name"
    using assms(2,3) by (intro scanned_is ballI bexI [of _ name] impI nothing_past [OF assms(1)]) (auto simp: begins_def Suc_le_eq)
  then show ?thesis by (simp add: scan_result_def first_match_def)
qed

text \<open>No keyword is found where none begins the name.\<close>

lemma scan_no_name:
  assumes "stopped ct s rest" and "set kys \<subseteq> set (all_names s)"
    and "\<forall>ky \<in> set kys. take (length ky) (map (ct_toupper ct) name) \<noteq> map (ct_toupper ct) ky"
  shows "fst (scan_result (ct_toupper ct) kys (name @ rest)) = length kys"
proof -
  let ?n = "scanned (ct_toupper ct) kys (name @ rest)" and ?up = "ct_toupper ct"
  have "map ?up ky \<noteq> map ?up (take ?n (name @ rest))" if ky: "ky \<in> set kys" for ky
  proof
    assume eq: "map ?up ky = map ?up (take ?n (name @ rest))"
    let ?m = "length ky"
    have beg: "begins ?up (name @ rest) ?m ky" and len: "?m \<le> length (name @ rest)"
      by (rule match_begins [OF eq])+
    have "?m \<le> length name"
      using nothing_past [OF assms(1), of ky name ?m] beg len ky assms(2) by force
    then show False using beg assms(3) ky by (fastforce simp: begins_def take_map)
  qed
  then have "takeWhile (\<lambda>ky. map ?up ky \<noteq> map ?up (take ?n (name @ rest))) kys = kys"
    by (simp only: takeWhile_eq_all_conv) blast
  then show ?thesis by (simp only: scan_result_def Let_def fst_conv)
qed

section \<open>Locales with usable names\<close>

text \<open>
  What is assumed of the names: seven days and twelve months in two forms, two halves of the day, none empty,
  and none beginning with a space; no name of an earlier table begins one of a later table; the short
  name of the sample day or month is not also a long name.
\<close>

definition foreign :: "'c ctype \<Rightarrow> 'c list list \<Rightarrow> 'c list \<Rightarrow> bool" where
  "foreign ct kys name \<longleftrightarrow>
     list_all (\<lambda>ky. take (length ky) (map (ct_toupper ct) name) \<noteq> map (ct_toupper ct) ky) kys"

definition ascii_digits :: string where "ascii_digits = ''0123456789''"

definition usable_names :: "(char \<Rightarrow> 'c) \<Rightarrow> 'c ctype \<Rightarrow> 'c storage \<Rightarrow> bool" where
  "usable_names lit ct s \<longleftrightarrow>
     length (weeks s) = 14 \<and> length (months s) = 24 \<and> length (am_pm s) = 2 \<and>
     list_all (\<lambda>ky. ky \<noteq> [] \<and> \<not> ct_space ct (hd ky)) (all_names s) \<and>
     list_all (\<lambda>c. stops ct s (lit c)) ascii_digits \<and>
     foreign ct (weeks s) (months s ! 11) \<and> foreign ct (weeks s) (months s ! 23) \<and>
     foreign ct (weeks s) (am_pm s ! 1) \<and> foreign ct (months s) (am_pm s ! 1) \<and>
     list_all (\<lambda>ky. map (ct_toupper ct) ky \<noteq> map (ct_toupper ct) (weeks s ! 13)) (take 7 (weeks s)) \<and>
     list_all (\<lambda>ky. map (ct_toupper ct) ky \<noteq> map (ct_toupper ct) (months s ! 23)) (take 12 (months s))"

definition usable_ctype :: "(char \<Rightarrow> 'c) \<Rightarrow> 'c ctype \<Rightarrow> bool" where
  "usable_ctype lit ct \<longleftrightarrow> (\<forall>c. ct_digit ct c \<longleftrightarrow> c \<in> lit ` set ascii_digits) \<and>
     list_all (\<lambda>c. ct_narrow ct (lit c) = c \<and> \<not> ct_space ct (lit c)) ascii_digits"

text \<open>The elements of a format: a directive, a separating character, and white space.\<close>

datatype 'c element = Directive char | Separator 'c | Blank "'c list"

definition number_directives :: string where "number_directives = ''wImHdMSyY''"

fun number_text :: "char \<Rightarrow> string" where
  "number_text d =
     (if d = CHR ''w'' then ''6'' else if d = CHR ''I'' then ''11'' else if d = CHR ''m'' then ''12''
      else if d = CHR ''H'' then ''23'' else if d = CHR ''d'' then ''31'' else if d = CHR ''M'' then ''55''
      else if d = CHR ''S'' then ''59'' else if d = CHR ''y'' then ''61'' else ''2061'')"

text \<open>What \<open>strftime\<close> prints for an element at the sample time, and the element in the format that is wanted.\<close>

fun element_text :: "(char \<Rightarrow> 'c) \<Rightarrow> 'c storage \<Rightarrow> 'c element \<Rightarrow> 'c list" where
  "element_text lit s (Directive d) =
     (if d = CHR ''A'' then weeks s ! 6 else if d = CHR ''a'' then weeks s ! 13
      else if d = CHR ''B'' then months s ! 11 else if d = CHR ''b'' then months s ! 23
      else if d = CHR ''p'' then am_pm s ! 1 else map lit (number_text d))"
| "element_text lit s (Separator c) = [c]"
| "element_text lit s (Blank ws) = ws"

fun element_format :: "(char \<Rightarrow> 'c) \<Rightarrow> ('c \<Rightarrow> bool) \<Rightarrow> 'c element \<Rightarrow> 'c list" where
  "element_format lit percent (Directive d) = [lit CHR ''%'', lit d]"
| "element_format lit percent (Separator c) = (if percent c then [lit CHR ''%'', lit CHR ''%''] else [c])"
| "element_format lit percent (Blank ws) = [lit CHR '' '']"

fun element_ok :: "'c ctype \<Rightarrow> 'c storage \<Rightarrow> 'c element \<Rightarrow> bool" where
  "element_ok ct s (Directive d) = (d \<in> {CHR ''A'', CHR ''a'', CHR ''B'', CHR ''b'', CHR ''p''} \<or> d \<in> set number_directives)"
| "element_ok ct s (Separator c) = (stops ct s c \<and> \<not> ct_space ct c \<and> \<not> ct_digit ct c)"
| "element_ok ct s (Blank ws) = (ws \<noteq> [] \<and> list_all (ct_space ct) ws \<and> stops ct s (hd ws))"

text \<open>Directives and blanks are kept apart.\<close>

fun apart :: "'c element list \<Rightarrow> bool" where
  "apart (Directive d # Directive e # es) = False"
| "apart (Blank ws # Blank vs # es) = False"
| "apart (e # es) = apart es"
| "apart [] = True"

section \<open>What a pass does\<close>

lemma fold_case_False: "fold_case False up = up"
  by (simp add: fold_case_def fun_eq_iff)

lemma scan_result_0: "scan_keyword False up kys b err = (let (i, rest) = scan_result up kys b;
    err = (if rest = [] then err OR eofbit else err) in Some (i, rest, if i = length kys then err OR failbit else err))"
  by (simp only: scan_keyword_is fold_case_False)

lemma scan_keyword_fst: "\<exists>err'. scan_keyword False up kys b err = Some (fst (scan_result up kys b), snd (scan_result up kys b), err')"
  by (cases "scan_result up kys b") (simp add: scan_result_0 Let_def)

lemma step_week:
  assumes "stopped ct s rest" and "name \<in> set (weeks s)" and "name \<noteq> []" and "\<not> ct_space ct (hd name)" and "length (weeks s) = 14"
  shows "analyze_step lit percent ct fmt s (name @ rest) =
    Some ([lit CHR ''%'', lit (if first_match (ct_toupper ct) (weeks s) name < 7 then CHR ''A'' else CHR ''a'')], rest)"
proof -
  have "first_match (ct_toupper ct) (weeks s) name < length (weeks s)"
    using assms(2) by (rule first_match_less)
  then show ?thesis
    using assms(3-5) scan_name [OF assms(1,2) names_subset(1)] by (simp add: analyze_step_def scan_result_0 Let_def)
qed

lemma step_month:
  assumes "stopped ct s rest" and "name \<in> set (months s)" and "name \<noteq> []" and "\<not> ct_space ct (hd name)"
    and "length (weeks s) = 14" and "length (months s) = 24" and "foreign ct (weeks s) name"
    and "\<forall>ky \<in> set (months s). ky \<noteq> [] \<and> \<not> ct_digit ct (hd ky)"
  shows "analyze_step lit percent ct fmt s (name @ rest) =
    Some ([lit CHR ''%'', lit (if first_match (ct_toupper ct) (months s) name < 12 then CHR ''B'' else CHR ''b'')], rest)"
proof -
  let ?i = "first_match (ct_toupper ct) (months s) name"
  have i: "?i < length (months s)"
    using assms(2) by (rule first_match_less)
  have "fst (scan_result (ct_toupper ct) (weeks s) (name @ rest)) = 14"
    using scan_no_name [OF assms(1), of "weeks s" name] assms(5,7) by (simp add: foreign_def list_all_iff)
  then obtain err where err: "scan_keyword False (ct_toupper ct) (weeks s) (name @ rest) 0 =
      Some (14, snd (scan_result (ct_toupper ct) (weeks s) (name @ rest)), err)"
    using scan_keyword_fst [of "ct_toupper ct" "weeks s" "name @ rest" 0] by auto
  have "\<not> ct_digit ct ((months s ! ?i @ [lit CHR 0x00]) ! 0)"
    using assms(8) nth_mem [OF i] by (cases "months s ! ?i") auto
  then show ?thesis
    using assms(3,4,6) i scan_name [OF assms(1,2) names_subset(2)] by (simp add: analyze_step_def err scan_result_0 [of _ "months s"] Let_def)
qed

lemma search_fails:
  assumes "stopped ct s rest" and "set kys \<subseteq> set (all_names s)" and "foreign ct kys name"
  obtains err' where "scan_keyword False (ct_toupper ct) kys (name @ rest) err =
    Some (length kys, snd (scan_result (ct_toupper ct) kys (name @ rest)), err')"
  using scan_no_name [OF assms(1,2), of name] assms(3) scan_keyword_fst [of "ct_toupper ct" kys "name @ rest" err]
  by (auto simp: foreign_def list_all_iff)

lemma step_pm:
  assumes "stopped ct s rest" and "name \<in> set (am_pm s)" and "name \<noteq> []" and "\<not> ct_space ct (hd name)"
    and "length (weeks s) = 14" and "length (months s) = 24" and "length (am_pm s) = 2"
    and "foreign ct (weeks s) name" and "foreign ct (months s) name"
  shows "analyze_step lit percent ct fmt s (name @ rest) = Some ([lit CHR ''%'', lit CHR ''p''], rest)"
proof -
  have i: "first_match (ct_toupper ct) (am_pm s) name < 2"
    using first_match_less [OF assms(2)] assms(7) by simp
  have "0 < length (am_pm s ! 0) + length (am_pm s ! 1)"
    using assms(2,3,7) by (auto simp: in_set_conv_nth less_2_cases_iff)
  moreover obtain e where e: "scan_keyword False (ct_toupper ct) (weeks s) (name @ rest) 0 =
      Some (14, snd (scan_result (ct_toupper ct) (weeks s) (name @ rest)), e)"
    by (rule search_fails [OF assms(1) names_subset(1) assms(8), where err = 0]) (auto simp: assms(5))
  moreover obtain e' where "scan_keyword False (ct_toupper ct) (months s) (name @ rest) e =
      Some (24, snd (scan_result (ct_toupper ct) (months s) (name @ rest)), e')"
    by (rule search_fails [OF assms(1) names_subset(2) assms(9), where err = e]) (auto simp: assms(6))
  ultimately show ?thesis
    using assms(3,4) i scan_name [OF assms(1,2) names_subset(3)] by (simp add: analyze_step_def scan_result_0 [of _ "am_pm s"] Let_def)
qed

text \<open>Where the text begins with a character that is in no name, no name is found.\<close>

lemma step_other:
  assumes "b \<noteq> []" and "stops ct s (hd b)" and "\<not> ct_space ct (hd b)" and "length (weeks s) = 14" and "length (months s) = 24"
    and "length (am_pm s) = 2" and "\<forall>ky \<in> set (weeks s @ months s). ky \<noteq> []"
    and "am_pm s ! 0 \<noteq> [] \<and> am_pm s ! 1 \<noteq> [] \<or> am_pm s ! 0 = [] \<and> am_pm s ! 1 = []"
  shows "\<exists>err. analyze_step lit percent ct fmt s b = Some (analyze_other lit percent ct b err)"
proof -
  have st: "stopped ct s b" using assms(1,2) by (simp add: stopped_def)
  obtain e where e: "scan_keyword False (ct_toupper ct) (weeks s) b 0 = Some (14, snd (scan_result (ct_toupper ct) (weeks s) b), e)"
    by (rule search_fails [OF st, of "weeks s" "[]" 0]) (use assms(4,7) in \<open>auto simp: foreign_def list_all_iff\<close>)
  obtain e' where e': "scan_keyword False (ct_toupper ct) (months s) b e = Some (24, snd (scan_result (ct_toupper ct) (months s) b), e')"
    by (rule search_fails [OF st, of "months s" "[]" e]) (use assms(5,7) in \<open>auto simp: foreign_def list_all_iff\<close>)
  show ?thesis
  proof (cases "am_pm s ! 0 = []")
    case False
    then have "foreign ct (am_pm s) []"
      using assms(6,8) by (auto simp: foreign_def list_all_length less_2_cases_iff)
    with search_fails [OF st, of "am_pm s" "[]" e'] obtain e'' where
      "scan_keyword False (ct_toupper ct) (am_pm s) b e' = Some (2, snd (scan_result (ct_toupper ct) (am_pm s) b), e'')"
      using assms(6) by auto
    then show ?thesis using assms(3) False by (intro exI [of _ e'']) (simp add: analyze_step_def e e')
  next
    case True
    then show ?thesis using assms(3,8) by (intro exI [of _ e']) (simp add: analyze_step_def e e')
  qed
qed

lemma step_blank:
  assumes "ws \<noteq> []" and "list_all (ct_space ct) ws" and "rest = [] \<or> \<not> ct_space ct (hd rest)"
  shows "analyze_step lit percent ct fmt s (ws @ rest) = Some ([lit CHR '' ''], rest)"
proof -
  obtain w vs where ws: "ws = w # vs" using assms(1) by (cases ws) auto
  have "dropWhile (ct_space ct) (vs @ rest) = rest"
    using assms(2,3) by (cases rest) (auto simp: ws list_all_iff)
  then show ?thesis using assms(2) by (simp add: analyze_step_def ws)
qed

section \<open>Numbers\<close>

lemma digits_loop_end:
  "n = 0 \<or> rest = [] \<or> \<not> is_digit (hd rest) \<Longrightarrow> \<exists>e. digits_loop is_digit dv n r rest err = (r, rest, e)"
  by (cases n; cases rest) auto

lemma number_step:
  assumes "usable_ctype lit ct" and "rest = [] \<or> \<not> ct_digit ct (hd rest)" and "d \<in> set number_directives"
  shows "analyze_other lit percent ct (map lit (number_text d) @ rest) err = ([lit CHR ''%'', lit d], rest)"
proof -
  have digit: "list_all (\<lambda>c. ct_digit ct (lit c) \<and> ct_narrow ct (lit c) = c) ''0123456789''"
    using assms(1) unfolding usable_ctype_def by (simp add: list_all_iff ascii_digits_def)
  have "\<forall>n r. \<exists>e. digits_loop (ct_digit ct) (digit_value ct) n r rest err = (r, rest, e)"
    using digits_loop_end [of _ rest "ct_digit ct"] assms(2) by blast
  then obtain e where e: "digits_loop (ct_digit ct) (digit_value ct) n r rest err = (r, rest, e n r)" for n r
    by metis
  show ?thesis
    using assms(3) [unfolded number_directives_def] digit
    by (auto simp: analyze_other_def get_up_to_n_digits_def digit_value_def e numeral_eq_Suc number_directive_def)
qed

section \<open>The format comes back\<close>

lemma usable_names_nth:
  assumes "usable_names lit ct s"
  shows "weeks s ! 6 \<in> set (weeks s)" "weeks s ! 13 \<in> set (weeks s)" "months s ! 11 \<in> set (months s)"
    "months s ! 23 \<in> set (months s)" "am_pm s ! 0 \<in> set (am_pm s)" "am_pm s ! 1 \<in> set (am_pm s)"
  using assms by (auto simp: usable_names_def intro!: nth_mem)

lemma usable_names_lengths:
  "usable_names lit ct s \<Longrightarrow> length (weeks s) = 14 \<and> length (months s) = 24 \<and> length (am_pm s) = 2"
  by (simp add: usable_names_def)

lemma usable_names_props:
  assumes "usable_names lit ct s" and "ky \<in> set (all_names s)"
  shows "ky \<noteq> []" "\<not> ct_space ct (hd ky)"
  using assms by (auto simp: usable_names_def list_all_iff)

lemma first_match_before:
  assumes "i < length kys"
  shows "first_match up kys (kys ! i) \<le> i"
  using assms
proof (induction kys arbitrary: i)
  case (Cons ky kys)
  then show ?case by (cases i) (auto simp: first_match_def)
qed simp

lemma first_match_after:
  assumes "list_all (\<lambda>ky. map up ky \<noteq> map up name) (take k kys)" and "k \<le> length kys"
  shows "k \<le> first_match up kys name"
  using assms by (induction kys arbitrary: k) (auto simp: first_match_def take_Cons split: nat.splits)

lemma usable_days:
  assumes "usable_names lit ct s"
  shows "first_match (ct_toupper ct) (weeks s) (weeks s ! 6) < 7" "\<not> first_match (ct_toupper ct) (weeks s) (weeks s ! 13) < 7"
  using assms first_match_before [of 6 "weeks s" "ct_toupper ct"]
    first_match_after [of "ct_toupper ct" "weeks s ! 13" 7 "weeks s"]
  unfolding usable_names_def by linarith+

lemma usable_months:
  assumes "usable_names lit ct s"
  shows "first_match (ct_toupper ct) (months s) (months s ! 11) < 12" "\<not> first_match (ct_toupper ct) (months s) (months s ! 23) < 12"
  using assms first_match_before [of 11 "months s" "ct_toupper ct"]
    first_match_after [of "ct_toupper ct" "months s ! 23" 12 "months s"]
  unfolding usable_names_def by linarith+

lemma usable_foreign:
  assumes "usable_names lit ct s"
  shows "foreign ct (weeks s) (months s ! 11)" "foreign ct (weeks s) (months s ! 23)"
    "foreign ct (weeks s) (am_pm s ! 1)" "foreign ct (months s) (am_pm s ! 1)"
  using assms unfolding usable_names_def by blast+

lemma month_digits:
  assumes "usable_names lit ct s" and "usable_ctype lit ct"
  shows "\<forall>ky \<in> set (months s). ky \<noteq> [] \<and> \<not> ct_digit ct (hd ky)"
proof
  fix ky
  assume ky: "ky \<in> set (months s)"
  then have ne: "ky \<noteq> []" using usable_names_props [OF assms(1)] by auto
  have "\<not> ct_digit ct (hd ky)"
  proof
    assume "ct_digit ct (hd ky)"
    then obtain d where d: "d \<in> set ascii_digits" "hd ky = lit d" using assms(2) by (auto simp: usable_ctype_def)
    then have "stops ct s (hd ky)" using assms(1) by (auto simp: usable_names_def list_all_iff)
    then have "ct_toupper ct (hd ky) \<notin> ct_toupper ct ` set ky" using ky by (auto simp: stops_def)
    then show False using ne by simp
  qed
  then show "ky \<noteq> [] \<and> \<not> ct_digit ct (hd ky)" using ne by blast
qed

lemma number_text_hd: "\<exists>c \<in> set ascii_digits. \<exists>cs. number_text d = c # cs"
  by (auto simp: ascii_digits_def)

lemma element_step:
  assumes names: "usable_names lit ct s" and ctype: "usable_ctype lit ct" and ok: "element_ok ct s e"
    and follow: "case e of Directive d \<Rightarrow> stopped ct s rest \<and> (rest = [] \<or> \<not> ct_digit ct (hd rest))
      | Separator c \<Rightarrow> True | Blank ws \<Rightarrow> rest = [] \<or> \<not> ct_space ct (hd rest)"
  shows "analyze_step lit percent ct fmt s (element_text lit s e @ rest) = Some (element_format lit percent e, rest)"
proof -
  note nth = usable_names_nth [OF names]
  have props: "ky \<noteq> []" "\<not> ct_space ct (hd ky)" if "ky \<in> set (weeks s) \<or> ky \<in> set (months s) \<or> ky \<in> set (am_pm s)" for ky
    using usable_names_props [OF names, of ky] that by auto
  have lens: "length (weeks s) = 14" "length (months s) = 24" "length (am_pm s) = 2"
    using usable_names_lengths [OF names] by simp_all
  have full: "am_pm s ! 0 \<noteq> []" "am_pm s ! 1 \<noteq> []" "\<forall>ky \<in> set (weeks s @ months s). ky \<noteq> []"
    by (simp_all add: props(1) nth(5,6) nth(6)[unfolded One_nat_def] ball_Un)
  note full' = props [OF disjI1 [OF nth(1)]] props [OF disjI1 [OF nth(2)]] props [OF disjI2 [OF disjI1 [OF nth(3)]]]
    props [OF disjI2 [OF disjI1 [OF nth(4)]]] props [OF disjI2 [OF disjI2 [OF nth(6)]]]
  note foreign = usable_foreign [OF names]
  have other: "\<exists>err. analyze_step lit percent ct fmt s b = Some (analyze_other lit percent ct b err)"
    if "b \<noteq> []" "stops ct s (hd b)" "\<not> ct_space ct (hd b)" for b
    using step_other [OF that lens full(3)] full(1,2) by blast
  show ?thesis
  proof (cases e)
    case (Directive d)
    then have st: "stopped ct s rest" and nd: "rest = [] \<or> \<not> ct_digit ct (hd rest)" using follow by simp_all
    consider (week) "d = CHR ''A'' \<or> d = CHR ''a''" | (month) "d = CHR ''B'' \<or> d = CHR ''b''" | (pm) "d = CHR ''p''"
      | (num) "d \<in> set number_directives" using ok Directive by (simp only: element_ok.simps insert_iff empty_iff) blast
    then show ?thesis
    proof cases
      case week
      then show ?thesis
        using step_week [OF st nth(1) full'(1,2) lens(1)] step_week [OF st nth(2) full'(3,4) lens(1)]
        by (elim disjE) (simp_all add: Directive usable_days [OF names])
    next
      case month
      note digits = month_digits [OF names ctype]
      show ?thesis
        using month step_month [OF st nth(3) full'(5,6) lens(1,2) foreign(1) digits] step_month [OF st nth(4) full'(7,8) lens(1,2) foreign(2) digits]
        by (elim disjE) (simp_all add: Directive usable_months [OF names])
    next
      case pm
      then show ?thesis
        using step_pm [OF st nth(6) full'(9,10) lens foreign(3,4)] by (simp add: Directive)
    next
      case num
      let ?b = "map lit (number_text d) @ rest"
      obtain c cs where c: "number_text d = c # cs" "c \<in> set ascii_digits" using number_text_hd by metis
      then have b: "?b \<noteq> []" "stops ct s (hd ?b)" "\<not> ct_space ct (hd ?b)"
        using names ctype by (auto simp: usable_names_def usable_ctype_def list_all_iff simp del: number_text.simps)
      have printed: "element_text lit s e = map lit (number_text d)"
        using num by (auto simp: Directive number_directives_def)
      obtain err where "analyze_step lit percent ct fmt s ?b = Some (analyze_other lit percent ct ?b err)"
        using other [OF b] by blast
      then show ?thesis
        by (simp only: printed number_step [OF ctype nd num]) (simp only: Directive element_format.simps)
    qed
  next
    case (Separator c)
    then show ?thesis
      using ok other [of "c # rest"] by (auto simp: analyze_other_def)
  next
    case (Blank ws)
    then show ?thesis using ok follow step_blank [of ws ct rest] by simp
  qed
qed

lemma element_hd:
  assumes "usable_names lit ct s" and "usable_ctype lit ct" and "element_ok ct s e"
  shows "element_text lit s e \<noteq> []"
    and "(\<exists>d. e = Directive d) \<or> stops ct s (hd (element_text lit s e)) \<and> \<not> ct_digit ct (hd (element_text lit s e))"
    and "(\<exists>ws. e = Blank ws) \<or> \<not> ct_space ct (hd (element_text lit s e))"
proof -
  have space: "\<not> ct_digit ct c" if "ct_space ct c" for c
    using that assms(2) by (auto simp: usable_ctype_def list_all_iff)
  have "element_text lit s (Directive d) \<noteq> [] \<and> \<not> ct_space ct (hd (element_text lit s (Directive d)))" for d
  proof -
    obtain c cs where c: "number_text d = c # cs" "c \<in> set ascii_digits" using number_text_hd by metis
    then have "\<not> ct_space ct (lit c)"
      using assms(2) by (simp add: usable_ctype_def list_all_iff)
    then show ?thesis
      using c usable_names_nth [OF assms(1)] usable_names_props [OF assms(1)]
      by (auto simp del: number_text.simps)
  qed
  then show "element_text lit s e \<noteq> []"
    "(\<exists>d. e = Directive d) \<or> stops ct s (hd (element_text lit s e)) \<and> \<not> ct_digit ct (hd (element_text lit s e))"
    "(\<exists>ws. e = Blank ws) \<or> \<not> ct_space ct (hd (element_text lit s e))"
    using assms(3) space by (cases e; auto simp: list_all_iff simp del: element_text.simps(1))+
qed

lemma analyze_elements:
  assumes "usable_names lit ct s" and "usable_ctype lit ct"
  shows "apart es \<Longrightarrow> list_all (element_ok ct s) es \<Longrightarrow>
    analyze_loop lit percent ct fmt s (concat (map (element_text lit s) es)) result =
      Some (result @ concat (map (element_format lit percent) es))"
proof (induction es arbitrary: result)
  case Nil
  then show ?case by (subst analyze_loop.simps) simp
next
  case (Cons e es)
  let ?rest = "concat (map (element_text lit s) es)"
  have "case e of Directive d \<Rightarrow> stopped ct s ?rest \<and> (?rest = [] \<or> \<not> ct_digit ct (hd ?rest))
      | Separator c \<Rightarrow> True | Blank ws \<Rightarrow> ?rest = [] \<or> \<not> ct_space ct (hd ?rest)"
  proof (cases es)
    case Nil
    then show ?thesis by (simp add: stopped_def split: element.split)
  next
    case (Cons e' es')
    then have "element_ok ct s e'" using Cons.prems(2) by simp
    note hd = element_hd [OF assms this]
    have "hd ?rest = hd (element_text lit s e')" using Cons hd(1) by simp
    then show ?thesis
      using hd(2,3) Cons.prems(1) Cons
      by (cases e; cases e') (simp_all add: stopped_def del: element_text.simps)
  qed
  then have "analyze_step lit percent ct fmt s (element_text lit s e @ ?rest) = Some (element_format lit percent e, ?rest)"
    using Cons.prems(2) by (intro element_step [OF assms]) simp_all
  moreover have "apart es" using Cons.prems(1) by (cases e; cases es; cases "hd es") auto
  moreover have "element_text lit s e \<noteq> []" using element_hd(1) [OF assms] Cons.prems(2) by simp
  ultimately show ?case
    using Cons.prems(2) Cons.IH by (subst analyze_loop.simps) (simp del: element_text.simps element_format.simps)
qed

section \<open>Whether the loop ends\<close>

definition full_names :: "'c storage \<Rightarrow> bool" where
  "full_names s \<longleftrightarrow> length (weeks s) = 14 \<and> length (months s) = 24 \<and> length (am_pm s) = 2 \<and>
     list_all (\<lambda>ky. ky \<noteq> []) (weeks s @ months s)"

lemma found_shorter:
  assumes "scan_keyword False up kys b err = Some (i, w, err')" and "i < length kys" and "kys ! i \<noteq> []" and "b \<noteq> []"
  shows "length w < length b"
proof -
  let ?n = "scanned up kys b"
  let ?P = "\<lambda>ky. map up ky \<noteq> map up (take ?n b)"
  have i: "i = length (takeWhile ?P kys)" and w: "w = drop ?n b"
    using assms(1) by (auto simp: scan_result_0 scan_result_def Let_def)
  have "\<not> ?P (kys ! i)"
    using nth_length_takeWhile [of ?P kys] assms(2) by (simp add: i)
  then have "0 < ?n" using assms(3) by (cases ?n) auto
  then show ?thesis using assms(4) by (simp add: w)
qed

lemma digits_loop_shorter: "length (fst (snd (digits_loop is_digit dv n r b err))) \<le> length b"
  by (induction is_digit dv n r b err rule: digits_loop.induct) auto

lemma other_shorter:
  "b \<noteq> [] \<Longrightarrow> length (snd (analyze_other lit percent ct b err)) < length b"
  using digits_loop_shorter [of "ct_digit ct" "digit_value ct" 3 _ "tl b" err]
  by (cases b) (auto simp: analyze_other_def get_up_to_n_digits_def le_imp_less_Suc split: prod.split, metis fst_conv le_imp_less_Suc snd_conv)

lemma step_shorter:
  assumes "full_names s" and "am_pm s ! 0 = [] \<longleftrightarrow> am_pm s ! 1 = []" and "b \<noteq> []"
  shows "\<exists>out b'. analyze_step lit percent ct fmt s b = Some (out, b') \<and> length b' < length b"
proof -
  let ?scan = "\<lambda>kys. scan_keyword False (ct_toupper ct) kys b"
  have len: "length (weeks s) = 14" "length (months s) = 24" "length (am_pm s) = 2"
    and ne: "ky \<in> set (weeks s) \<or> ky \<in> set (months s) \<Longrightarrow> ky \<noteq> []" for ky
    using assms(1) by (auto simp: full_names_def list_all_iff)
  obtain i w e where a: "?scan (weeks s) 0 = Some (i, w, e)" using scan_keyword_fst by blast
  obtain j v e' where m: "?scan (months s) e = Some (j, v, e')" using scan_keyword_fst by blast
  obtain k u e'' where p: "?scan (am_pm s) e' = Some (k, u, e'')" using scan_keyword_fst by blast
  have "length w < length b" if "i < 14"
    using found_shorter [OF a] that len(1) ne [of "weeks s ! i"] assms(3) by simp
  moreover have "length v < length b" if "j < 24"
    using found_shorter [OF m] that len(2) ne [of "months s ! j"] assms(3) by simp
  moreover have "length u < length b" if "k < 2" "am_pm s ! 0 \<noteq> [] \<or> am_pm s ! 1 \<noteq> []"
    using found_shorter [OF p] that len(3) assms(2,3) by (auto simp: less_2_cases_iff)
  moreover have "length (dropWhile (ct_space ct) (tl b)) < length b"
    using assms(3) length_dropWhile_le [of "ct_space ct" "tl b"] by (cases b) auto
  moreover note other = other_shorter [OF assms(3), of lit percent ct]
  ultimately show ?thesis
    using other [of e'] other [of e'']
    by (cases "analyze_other lit percent ct b e'"; cases "analyze_other lit percent ct b e''")
      (auto simp: analyze_step_def a m p Let_def)
qed

lemma analyze_loop_ends:
  assumes "full_names s" and "am_pm s ! 0 = [] \<longleftrightarrow> am_pm s ! 1 = []"
  shows "\<exists>r. analyze_loop lit percent ct fmt s b result = Some r"
proof (induction b arbitrary: result rule: length_induct)
  case (1 b)
  show ?case
  proof (cases "b = []")
    case False
    then obtain out b' where "analyze_step lit percent ct fmt s b = Some (out, b')" "length b' < length b"
      using step_shorter [OF assms] by blast
    then show ?thesis using 1 False by (subst analyze_loop.simps) simp
  qed (subst analyze_loop.simps, simp)
qed

text \<open>An empty name is found wherever no other is, and nothing is consumed.\<close>

lemma step_empty_name:
  assumes "full_names s" and "(am_pm s ! 0 = []) \<noteq> (am_pm s ! 1 = [])"
    and "b \<noteq> []" and "stops ct s (hd b)" and "\<not> ct_space ct (hd b)"
  shows "analyze_step lit percent ct fmt s b = Some ([lit CHR ''%'', lit CHR ''p''], b)"
proof -
  have len: "length (weeks s) = 14" "length (months s) = 24" "length (am_pm s) = 2"
    and ne: "foreign ct (weeks s) []" "foreign ct (months s) []"
    using assms(1) by (auto simp: full_names_def list_all_iff foreign_def)
  have st: "stopped ct s b" using assms(3,4) by (simp add: stopped_def)
  obtain e where e: "scan_keyword False (ct_toupper ct) (weeks s) b 0 = Some (14, snd (scan_result (ct_toupper ct) (weeks s) b), e)"
    using search_fails [OF st names_subset(1) ne(1), of 0] len(1) by auto
  obtain e' where e': "scan_keyword False (ct_toupper ct) (months s) b e = Some (24, snd (scan_result (ct_toupper ct) (months s) b), e')"
    using search_fails [OF st names_subset(2) ne(2), of e] len(2) by auto
  have empty: "[] \<in> set (am_pm s)"
    using assms(2) len(3) by (metis nth_mem one_less_numeral_iff zero_less_numeral semiring_norm(76))
  have "scan_result (ct_toupper ct) (am_pm s) b = (first_match (ct_toupper ct) (am_pm s) [], b)"
    using scan_name [OF st empty names_subset(3)] by simp
  moreover have "first_match (ct_toupper ct) (am_pm s) [] < 2"
    using first_match_less [OF empty] len(3) by simp
  ultimately show ?thesis
    using assms(2,5) by (simp add: analyze_step_def e e' scan_result_0 [of _ "am_pm s"] Let_def)
qed

lemma analyze_loop_diverges:
  assumes "full_names s" and "(am_pm s ! 0 = []) \<noteq> (am_pm s ! 1 = [])"
    and "b \<noteq> []" and "stops ct s (hd b)" and "\<not> ct_space ct (hd b)"
  shows "analyze_loop lit percent ct fmt s b result = None"
proof -
  let ?P = "\<lambda>l p c f t x r y. \<not> (l = lit \<and> p = percent \<and> c = ct \<and> f = fmt \<and> t = s \<and> x = b)"
  have "?P lit percent ct fmt s b result y" if "analyze_loop lit percent ct fmt s b result = Some y" for y
  proof (rule analyze_loop.raw_induct [where P = ?P, OF _ that])
    fix loop l p c f t x r y
    assume IH: "\<And>l p c f t x r y. loop l p c f t x r = Some y \<Longrightarrow> ?P l p c f t x r y"
      and body: "(if x = [] then Some r else case analyze_step l p c f t x of None \<Rightarrow> None
        | Some (out, x) \<Rightarrow> loop l p c f t x (r @ out)) = Some y"
    show "?P l p c f t x r y"
    proof
      assume eq: "l = lit \<and> p = percent \<and> c = ct \<and> f = fmt \<and> t = s \<and> x = b"
      then have "loop lit percent ct fmt s b (r @ [lit CHR ''%'', lit CHR ''p'']) = Some y"
        using body assms(3) by (simp add: step_empty_name [OF assms])
      then show False using IH by blast
    qed
  qed
  then show ?thesis by (cases "analyze_loop lit percent ct fmt s b result") auto
qed

end
