(* ===== verification/Time_Props.thy ===== *)
theory Time_Props
  imports Time_Analysis
begin

text \<open>
  What \<open>__analyze\<close> and \<open>__do_date_order\<close> find out: the date order is that of the first three directives of the
  format; the analysis of a printed sample gives the format back; it ends when every name has a character, and
  does not when exactly one of the two strings for morning and afternoon is empty.
\<close>

section \<open>The order of the date\<close>

text \<open>The characters that follow a percent sign; the terminator for one at the end.\<close>

fun directives :: "(char \<Rightarrow> 'c) \<Rightarrow> 'c list \<Rightarrow> 'c list" where
  "directives lit [] = []"
| "directives lit (c # cs) =
     (if c = lit CHR ''%'' then (case cs of [] \<Rightarrow> [lit CHR 0x00] | d # ds \<Rightarrow> d # directives lit ds)
      else directives lit cs)"

definition order_of :: "(char \<Rightarrow> 'c) \<Rightarrow> 'c list \<Rightarrow> dateorder option" where
  "order_of lit ds =
     (case ds of
        [] \<Rightarrow> None
      | a # b # c # _ \<Rightarrow>
          let year = (\<lambda>d. d = lit CHR ''y'' \<or> d = lit CHR ''Y''); month = (\<lambda>d. d = lit CHR ''m''); day = (\<lambda>d. d = lit CHR ''d'') in
          Some (if year a \<and> month b \<and> day c then Ymd else if year a \<and> day b \<and> month c then Ydm
            else if month a \<and> day b \<and> year c then Mdy else if day a \<and> month b \<and> year c then Dmy else No_order)
      | _ \<Rightarrow> Some No_order)"

lemma directives_dropWhile:
  "directives lit xs = (case dropWhile (\<lambda>c. c \<noteq> lit CHR ''%'') xs of
     [] \<Rightarrow> [] | [_] \<Rightarrow> [lit CHR 0x00] | _ # d # ds \<Rightarrow> d # directives lit ds)"
  by (induction xs) (auto split: list.split)

lemma directives_at:
  assumes "i \<le> length x"
  shows "find_percent lit x i \<le> length x" and
    "directives lit (drop i x) =
      (if find_percent lit x i = length x then []
       else the (char_at lit x (find_percent lit x i + 1)) # directives lit (drop (find_percent lit x i + 2) x))"
proof -
  let ?j = "find_percent lit x i"
  let ?P = "\<lambda>c. c \<noteq> lit CHR ''%''"
  show le: "?j \<le> length x"
    using assms length_takeWhile_le [of ?P "drop i x"] by (simp add: find_percent_def)
  have drop: "dropWhile ?P (drop i x) = drop ?j x"
    by (simp add: find_percent_def dropWhile_eq_drop add.commute)
  show "directives lit (drop i x) = (if ?j = length x then []
      else the (char_at lit x (?j + 1)) # directives lit (drop (?j + 2) x))"
  proof (cases "?j + 1 < length x")
    case True
    then have "drop ?j x = x ! ?j # x ! (?j + 1) # drop (?j + 2) x"
      by (simp add: Cons_nth_drop_Suc)
    then show ?thesis using True
      by (subst directives_dropWhile) (simp add: drop char_at_def)
  next
    case False
    show ?thesis
    proof (cases "?j = length x")
      case not_end: False
      then have "drop ?j x = [x ! ?j]" "?j + 1 = length x"
        using False le by (simp_all flip: Cons_nth_drop_Suc)
      then show ?thesis using not_end
        by (subst directives_dropWhile) (simp add: drop char_at_def)
    qed (subst directives_dropWhile, simp add: drop)
  qed
qed

lemma next_directive_is:
  assumes "i < length x"
  shows "next_directive lit x i k = (case directives lit (drop (Suc i) x) of
    [] \<Rightarrow> Some No_order | c # _ \<Rightarrow> k c (Suc (find_percent lit x (Suc i))))"
  using assms directives_at [of "Suc i" x lit]
  by (auto simp: next_directive_def Let_def char_at_def split: option.split)

lemma next_place:
  assumes "i \<le> length x" and "directives lit (drop i x) = c # cs" and "c \<noteq> lit CHR 0x00"
  shows "Suc (find_percent lit x i) < length x" "directives lit (drop (Suc (Suc (find_percent lit x i))) x) = cs"
  using assms directives_at [OF assms(1), of lit]
  by (auto simp: char_at_def split: if_splits)

lemma date_order_is:
  assumes "distinct (map lit [CHR 0x00, CHR ''y'', CHR ''Y'', CHR ''m'', CHR ''d''])"
  shows "date_order_of lit x = order_of lit (directives lit x)"
proof (cases "directives lit x")
  case Nil
  then have "find_percent lit x 0 = length x"
    using directives_at(2) [OF le0, of lit x] by (auto split: if_splits)
  then show ?thesis using Nil by (simp add: date_order_of_def order_of_def char_at_def)
next
  case (Cons a as)
  let ?i = "Suc (find_percent lit x 0)"
  have a: "char_at lit x ?i = Some a"
    using directives_at [OF le0, of lit x] Cons by (auto simp: char_at_def split: if_splits)
  show ?thesis
  proof (cases "a \<in> lit ` {CHR ''y'', CHR ''Y'', CHR ''m'', CHR ''d''}")
    case known: True
    then have "a \<noteq> lit CHR 0x00" using assms by auto
    with next_place [OF le0, of lit x a as] Cons
    have i: "?i < length x" "directives lit (drop (Suc ?i) x) = as" by simp_all
    note second = next_directive_is [OF i(1), of lit, unfolded i(2)]
    show ?thesis
    proof (cases as)
      case Nil
      then show ?thesis using a Cons by (auto simp: date_order_of_def order_of_def second)
    next
      case b: (Cons b bs)
      let ?j = "Suc (find_percent lit x (Suc ?i))"
      show ?thesis
      proof (cases "b \<in> lit ` {CHR ''m'', CHR ''d''}")
        case True
        then have "b \<noteq> lit CHR 0x00" using assms by auto
        with next_place [of "Suc ?i" x lit b bs] i b
        have j: "?j < length x" "directives lit (drop (Suc ?j) x) = bs" by simp_all
        note third = next_directive_is [OF j(1), of lit, unfolded j(2)]
        show ?thesis
          using a Cons b assms True known by (auto simp: date_order_of_def order_of_def second third split: list.split)
      next
        case False
        then show ?thesis
          using a Cons b by (auto simp: date_order_of_def order_of_def second split: list.split)
      qed
    qed
  next
    case False
    then show ?thesis
      using a Cons by (auto simp: date_order_of_def order_of_def split: list.split)
  qed
qed

lemma date_orders:
  "do_date_order s = order_of id (directives id (x_fmt s))" "do_date_order_w sw = order_of wide (directives wide (x_fmt sw))"
  unfolding do_date_order_def do_date_order_w_def by (rule date_order_is, simp add: wide_def)+

section \<open>init\<close>

lemma names_fields [simp]:
  "stops ct (s\<lparr>c_fmt := a\<rparr>) = stops ct s" "stops ct (s\<lparr>r_fmt := a\<rparr>) = stops ct s" "stops ct (s\<lparr>x_fmt := a\<rparr>) = stops ct s"
  "element_text lit (s\<lparr>c_fmt := a\<rparr>) = element_text lit s" "element_text lit (s\<lparr>r_fmt := a\<rparr>) = element_text lit s"
  "element_text lit (s\<lparr>x_fmt := a\<rparr>) = element_text lit s"
  "element_ok ct (s\<lparr>c_fmt := a\<rparr>) = element_ok ct s" "element_ok ct (s\<lparr>r_fmt := a\<rparr>) = element_ok ct s"
  "element_ok ct (s\<lparr>x_fmt := a\<rparr>) = element_ok ct s"
proof -
  show st: "stops ct (s\<lparr>c_fmt := a\<rparr>) = stops ct s" "stops ct (s\<lparr>r_fmt := a\<rparr>) = stops ct s" "stops ct (s\<lparr>x_fmt := a\<rparr>) = stops ct s"
    by (simp_all add: stops_def fun_eq_iff)
  show "element_text lit (s\<lparr>c_fmt := a\<rparr>) = element_text lit s" "element_text lit (s\<lparr>r_fmt := a\<rparr>) = element_text lit s"
    "element_text lit (s\<lparr>x_fmt := a\<rparr>) = element_text lit s"
    by (rule ext, rename_tac e, case_tac e; simp)+
  show "element_ok ct (s\<lparr>c_fmt := a\<rparr>) = element_ok ct s" "element_ok ct (s\<lparr>r_fmt := a\<rparr>) = element_ok ct s"
    "element_ok ct (s\<lparr>x_fmt := a\<rparr>) = element_ok ct s"
    by (rule ext, rename_tac e, case_tac e; simp add: st)+
qed

lemma usable_fields [simp]:
  "usable_names lit ct (s\<lparr>c_fmt := a\<rparr>) = usable_names lit ct s" "usable_names lit ct (s\<lparr>r_fmt := a\<rparr>) = usable_names lit ct s"
  "usable_names lit ct (s\<lparr>x_fmt := a\<rparr>) = usable_names lit ct s"
  by (simp_all add: usable_names_def)

definition format_of :: "char element list \<Rightarrow> string" where
  "format_of es = concat (map (element_format id (\<lambda>c. c = CHR ''%'')) es)"

definition prints :: "char ctype \<Rightarrow> char storage \<Rightarrow> string \<Rightarrow> char element list \<Rightarrow> bool" where
  "prints ct s b es \<longleftrightarrow> apart es \<and> list_all (element_ok ct s) es \<and> b = concat (map (element_text id s) es)"

lemma analyze_format:
  assumes "usable_names id ct s" and "usable_ctype id ct" and "prints ct s (strftime [CHR ''%'', f] sample_tm) es"
  shows "analyze strftime ct f s = Some (format_of es)"
  using assms analyze_elements [OF assms(1,2), of es] by (simp add: analyze_def prints_def format_of_def)

lemma prints_fields [simp]:
  "prints ct (s\<lparr>c_fmt := a\<rparr>) = prints ct s" "prints ct (s\<lparr>r_fmt := a\<rparr>) = prints ct s" "prints ct (s\<lparr>x_fmt := a\<rparr>) = prints ct s"
  by (simp_all add: prints_def fun_eq_iff)

definition name_storage :: "(string \<Rightarrow> tm \<Rightarrow> string) \<Rightarrow> char storage" where
  "name_storage strftime = \<lparr>weeks = week_names strftime, months = month_names strftime, am_pm = am_pm_names strftime,
     c_fmt = [], r_fmt = [], x_fmt = [], X_fmt = []\<rparr>"

text \<open>
  C13: \<open>__time_get_storage::init\<close> recovers the formats of a locale.  Where \<open>strftime\<close> prints the
  formats \<open>%c\<close>, \<open>%r\<close>, \<open>%x\<close> and \<open>%X\<close> as sequences of directives, separators and white space, with names that can be told
  apart, the four strings that \<open>init\<close> stores are these formats (white space reduced to one space), and
  \<open>do_date_order\<close> then gives the order of the first three directives of \<open>%x\<close>.
\<close>

theorem formats_recovered:
  assumes "usable_names id ct (name_storage strftime)" and "usable_ctype id ct"
    and "prints ct (name_storage strftime) (strftime ''%c'' sample_tm) c" and "prints ct (name_storage strftime) (strftime ''%r'' sample_tm) r"
    and "prints ct (name_storage strftime) (strftime ''%x'' sample_tm) x" and "prints ct (name_storage strftime) (strftime ''%X'' sample_tm) X"
  shows "\<exists>s. init strftime ct = Some s \<and> weeks s = week_names strftime \<and> months s = month_names strftime \<and>
    am_pm s = am_pm_names strftime \<and> c_fmt s = format_of c \<and> r_fmt s = format_of r \<and> x_fmt s = format_of x \<and> X_fmt s = format_of X \<and>
    do_date_order s = order_of id (directives id (format_of x))"
  using assms
  by (simp add: init_def analyze_format date_orders Let_def flip: name_storage_def) (simp add: name_storage_def)

definition ascii_upper :: "char \<Rightarrow> char" where
  "ascii_upper c = (case map_of (zip ''abcdefghijklmnopqrstuvwxyz'' ''ABCDEFGHIJKLMNOPQRSTUVWXYZ'') c of None \<Rightarrow> c | Some d \<Rightarrow> d)"

definition c_ctype :: "char ctype" where
  "c_ctype = \<lparr>ct_space = (\<lambda>c. c = CHR '' ''), ct_digit = (\<lambda>c. c \<in> set ''0123456789''), ct_toupper = ascii_upper, ct_narrow = id\<rparr>"

definition c_strftime :: "string \<Rightarrow> tm \<Rightarrow> string" where
  "c_strftime f t =
     (if f = ''%A'' then init_weeks ! nat (tm_wday t) else if f = ''%a'' then init_weeks ! nat (tm_wday t + 7)
      else if f = ''%B'' then init_months ! nat (tm_mon t) else if f = ''%b'' then init_months ! nat (tm_mon t + 12)
      else if f = ''%p'' then if tm_hour t < 12 then ''AM'' else ''PM''
      else if f = ''%c'' then ''Sat Dec 31 23:55:59 2061'' else if f = ''%r'' then ''11:55:59 PM''
      else if f = ''%x'' then ''12/31/61'' else ''23:55:59'')"

lemma c_names: "name_storage c_strftime = \<lparr>weeks = init_weeks, months = init_months, am_pm = [''AM'', ''PM''], c_fmt = [], r_fmt = [], x_fmt = [], X_fmt = []\<rparr>"
  by (simp add: name_storage_def week_names_def month_names_def am_pm_names_def c_strftime_def zero_tm_def
    init_weeks_def init_months_def Let_def upto_rec1)

lemma c_usable: "usable_names id c_ctype (name_storage c_strftime)"
  unfolding c_names by code_simp

lemma c_ctype_usable: "usable_ctype id c_ctype"
  by (auto simp: usable_ctype_def c_ctype_def ascii_digits_def)
definition direc :: "char \<Rightarrow> char element" where "direc = Directive"
definition colon :: "char element" where "colon = Separator CHR '':''"
definition slash :: "char element" where "slash = Separator CHR ''/''"
definition blank :: "char element" where "blank = Blank '' ''"

definition elements_c :: "char element list" where
  "elements_c = [direc CHR ''a'', blank, direc CHR ''b'', blank, direc CHR ''d'', blank, direc CHR ''H'', colon, direc CHR ''M'', colon, direc CHR ''S'', blank, direc CHR ''Y'']"
definition elements_r :: "char element list" where
  "elements_r = [direc CHR ''I'', colon, direc CHR ''M'', colon, direc CHR ''S'', blank, direc CHR ''p'']"
definition elements_x :: "char element list" where
  "elements_x = [direc CHR ''m'', slash, direc CHR ''d'', slash, direc CHR ''y'']"
definition elements_X :: "char element list" where
  "elements_X = [direc CHR ''H'', colon, direc CHR ''M'', colon, direc CHR ''S'']"

lemmas elements = elements_c_def elements_r_def elements_x_def elements_X_def direc_def colon_def slash_def blank_def

lemma c_prints:
  "prints c_ctype (name_storage c_strftime) (c_strftime ''%c'' sample_tm) elements_c"
  "prints c_ctype (name_storage c_strftime) (c_strftime ''%r'' sample_tm) elements_r"
  "prints c_ctype (name_storage c_strftime) (c_strftime ''%x'' sample_tm) elements_x"
  "prints c_ctype (name_storage c_strftime) (c_strftime ''%X'' sample_tm) elements_X"
  unfolding c_names by code_simp+

theorem formats_recovered_witness:
  "\<exists>s. init c_strftime c_ctype = Some s \<and> c_fmt s = c_storage_c \<and> r_fmt s = c_storage_r \<and> x_fmt s = c_storage_x \<and> X_fmt s = c_storage_X \<and>
    do_date_order s = Some Mdy"
proof -
  have "format_of elements_c = c_storage_c" "format_of elements_r = c_storage_r" "format_of elements_x = c_storage_x"
    "format_of elements_X = c_storage_X" "order_of id (directives id c_storage_x) = Some Mdy"
    by code_simp+
  with formats_recovered [OF c_usable c_ctype_usable c_prints] show ?thesis by auto
qed

text \<open>
  C15: The loop of \<open>__analyze\<close> ends for every text when no name is empty, or both strings for the halves of the day
  are; \<open>wchar_t\<close> adds the exception of a failed conversion.  When exactly one of them is empty, it never ends for a text
  that begins with a character that is no space and occurs in no name (a digit, say): the empty name is found without a character consumed.
\<close>

theorem analysis_ends:
  assumes "full_names s" and "full_names sw"
  shows "((am_pm s ! 0 = []) = (am_pm s ! 1 = []) \<longrightarrow> (\<exists>f. analyze strftime ct fmt s = Some f)) \<and>
    ((am_pm sw ! 0 = []) = (am_pm sw ! 1 = []) \<longrightarrow> (\<exists>r. analyze_w strftime mbsrtowcs wct fmt sw = Some r)) \<and>
    (mbsrtowcs (strftime [CHR ''%'', fmt] sample_tm) = None \<longrightarrow> analyze_w strftime mbsrtowcs wct fmt sw = Some (Inl Runtime_error)) \<and>
    ((am_pm s ! 0 = []) \<noteq> (am_pm s ! 1 = []) \<and> strftime [CHR ''%'', fmt] sample_tm = c # cs \<and> stops ct s c \<and> \<not> ct_space ct c \<longrightarrow>
      analyze strftime ct fmt s = None)"
proof (intro conjI impI)
  assume "(am_pm sw ! 0 = []) = (am_pm sw ! 1 = [])"
  then have "\<exists>r. analyze_loop wide (\<lambda>c. ct_narrow wct c = CHR ''%'') wct fmt sw b [] = Some r" for b
    by (rule analyze_loop_ends [OF assms(2)])
  then show "\<exists>r. analyze_w strftime mbsrtowcs wct fmt sw = Some r"
    by (auto simp: analyze_w_def split: option.split)
qed (use analyze_loop_ends [OF assms(1)] analyze_loop_diverges [OF assms(1), of "c # cs"] in
    \<open>auto simp: analyze_def analyze_w_def\<close>)

theorem analysis_ends_witness:
  "(\<exists>f. analyze (\<lambda>f t. ''12:30'') c_ctype CHR ''X'' (name_storage c_strftime) = Some f) \<and>
   analyze (\<lambda>f t. ''12:30'') c_ctype CHR ''X'' (name_storage c_strftime\<lparr>am_pm := [[], ''PM'']\<rparr>) = None"
proof -
  have full: "full_names (name_storage c_strftime)" "full_names (name_storage c_strftime\<lparr>am_pm := [[], ''PM'']\<rparr>)"
    "full_names \<lparr>weeks = init_wweeks, months = init_wmonths, am_pm = map (map wide) [''AM'', ''PM''], c_fmt = [], r_fmt = [], x_fmt = [], X_fmt = []\<rparr>"
    unfolding c_names
    by (simp_all add: full_names_def init_weeks_def init_months_def init_wweeks_def init_wmonths_def)
  have st: "stops c_ctype (name_storage c_strftime\<lparr>am_pm := [[], ''PM'']\<rparr>) CHR ''1''" "\<not> ct_space c_ctype CHR ''1''"
    unfolding c_names by code_simp+
  show ?thesis
    using analysis_ends [OF full(1) full(3), of "\<lambda>f t. ''12:30''" c_ctype "CHR ''X''"]
      analysis_ends [OF full(2) full(3), of "\<lambda>f t. ''12:30''" c_ctype "CHR ''X''" _ _ "CHR ''1''" "''2:30''"] st
    by (simp add: c_names)
qed

end
