(* ===== verification/Gslice.thy ===== *)
theory Gslice
  imports Prelude
begin

text \<open>
  \<open>gslice::__init\<close> of \<open>src/src/valarray.cpp\<close>: the list of the places in an array that a generalised slice selects, for
  any number of dimensions.  Sizes and counters are natural numbers (a counter stays below its size), the product
  of the sizes, the strides and the places are 64 bit numbers that wrap.  A write behind the end of the result is \<open>None\<close>.
\<close>

section \<open>The code\<close>

text \<open>The number of places: \<open>__k\<close> before the result is resized.\<close>

definition slice_count :: "nat list \<Rightarrow> nat" where
  "slice_count sizes = foldl (\<lambda>k s. (k * s) mod 2 ^ 64) (if sizes \<noteq> [] then 1 else 0) sizes"

text \<open>The inner loop: the counters are advanced from the last one on; \<open>None\<close> is the \<open>return\<close>.\<close>

fun advance_counters :: "nat list \<Rightarrow> nat \<Rightarrow> nat list \<Rightarrow> (nat list \<times> nat) option" where
  "advance_counters sizes i indices =
     (let indices = indices[i := indices ! i + 1] in
      if indices ! i < sizes ! i then Some (indices, i)
      else if i = 0 then None
      else advance_counters sizes (i - 1) (indices[i := 0]))"

declare advance_counters.simps [simp del]

text \<open>The place that follows \<open>p\<close> when the counter \<open>i\<close> was advanced.\<close>

definition next_place :: "nat list \<Rightarrow> u64 list \<Rightarrow> nat \<Rightarrow> u64 \<Rightarrow> u64" where
  "next_place sizes strides i p =
     foldl (\<lambda>p j. p - strides ! j * (of_nat (sizes ! j) - 1)) (p + strides ! i) [i + 1..<length sizes]"

partial_function (option) slice_loop :: "nat list \<Rightarrow> u64 list \<Rightarrow> nat list \<Rightarrow> nat \<Rightarrow> u64 list \<Rightarrow> u64 list option" where
  "slice_loop sizes strides indices k places =
     (case advance_counters sizes (length indices - 1) indices of
        None \<Rightarrow> Some places
      | Some (indices, i) \<Rightarrow>
          (let k = k + 1 in
           if k < length places then
             slice_loop sizes strides indices k (places[k := next_place sizes strides i (places ! (k - 1))])
           else None))"

definition gslice_init :: "u64 \<Rightarrow> nat list \<Rightarrow> u64 list \<Rightarrow> u64 list option" where
  "gslice_init start sizes strides =
     (let k = slice_count sizes; places = replicate k 0 in
      if places \<noteq> [] then slice_loop sizes strides (replicate (length sizes) 0) 0 (places[0 := start])
      else Some places)"

section \<open>Counting\<close>

text \<open>The multi-index with number \<open>r\<close> in the order that varies the last one fastest.\<close>

fun multi_index :: "nat list \<Rightarrow> nat \<Rightarrow> nat list" where
  "multi_index [] r = []"
| "multi_index (s # ss) r = r div prod_list ss # multi_index ss (r mod prod_list ss)"

lemma length_multi_index [simp]: "length (multi_index ss r) = length ss"
  by (induction ss arbitrary: r) auto

lemma multi_index_0: "multi_index ss 0 = replicate (length ss) 0"
  by (induction ss) auto

lemma upt_mult: "[0..<s * p] = concat (map (\<lambda>x. map (\<lambda>r. r + x * p) [0..<p]) [0..<s])"
proof (induction s)
  case (Suc s)
  have "[0..<Suc s * p] = [0..<s * p] @ [s * p..<p + s * p]"
    using upt_add_eq_append [of 0 "s * p" p] by (simp add: add.commute)
  then show ?case
    using Suc by (simp add: map_add_upt)
qed simp

lemma product_lists_multi_index:
  "product_lists (map (\<lambda>s. [0..<s]) ss) = map (multi_index ss) [0..<prod_list ss]"
proof (induction ss)
  case (Cons s ss)
  have block: "map (multi_index (s # ss)) (map (\<lambda>r. r + x * prod_list ss) [0..<prod_list ss])
      = map (Cons x) (map (multi_index ss) [0..<prod_list ss])" for x
    by (cases "prod_list ss = 0") auto
  have "map (multi_index (s # ss)) [0..<prod_list (s # ss)]
      = concat (map (\<lambda>x. map (multi_index (s # ss)) (map (\<lambda>r. r + x * prod_list ss) [0..<prod_list ss])) [0..<s])"
    by (simp add: upt_mult map_concat comp_def)
  also have "\<dots> = product_lists (map (\<lambda>s. [0..<s]) (s # ss))"
    unfolding block using Cons by simp
  finally show ?case ..
qed simp

text \<open>The next multi-index, by recursion over the dimensions.\<close>

fun next_index :: "nat list \<Rightarrow> nat list \<Rightarrow> nat list option" where
  "next_index (s # ss) (x # xs) =
     (case next_index ss xs of
        Some ys \<Rightarrow> Some (x # ys)
      | None \<Rightarrow> if x + 1 < s then Some ((x + 1) # replicate (length ss) 0) else None)"
| "next_index ss xs = None"

lemma next_index_snoc:
  "length ss = length xs \<Longrightarrow>
   next_index (ss @ [s]) (xs @ [x]) =
     (if x + 1 < s then Some (xs @ [x + 1]) else map_option (\<lambda>ys. ys @ [0]) (next_index ss xs))"
  by (induction ss xs rule: list_induct2) (auto simp: replicate_append_same split: option.splits)

lemma next_index_multi_index:
  "r < prod_list ss \<Longrightarrow>
   next_index ss (multi_index ss r) = (if r + 1 < prod_list ss then Some (multi_index ss (r + 1)) else None)"
proof (induction ss arbitrary: r)
  case (Cons s ss)
  let ?p = "prod_list ss"
  have p: "0 < ?p"
    using Cons.prems by (cases "?p = 0") auto
  have rs: "r div ?p < s"
    using Cons.prems p by (simp add: less_mult_imp_div_less)
  show ?case
  proof (cases "r mod ?p + 1 < ?p")
    case True
    then have step: "(r + 1) div ?p = r div ?p" "(r + 1) mod ?p = r mod ?p + 1"
      by (simp_all add: mod_Suc div_Suc)
    have "r + 1 = (r div ?p) * ?p + (r mod ?p + 1)"
      by simp
    also have "\<dots> < (r div ?p) * ?p + ?p"
      using True by (rule add_strict_left_mono)
    also have "\<dots> = (r div ?p + 1) * ?p"
      by simp
    also have "\<dots> \<le> s * ?p"
      using rs by (intro mult_right_mono) auto
    finally have "r + 1 < s * ?p" .
    then show ?thesis
      using Cons.IH [of "r mod ?p"] True p step by simp
  next
    case False
    then have wrap: "Suc (r mod ?p) = ?p"
      using p mod_less_divisor [of ?p r] by linarith
    then have step: "(r + 1) div ?p = r div ?p + 1" "(r + 1) mod ?p = 0"
      by (simp_all add: mod_Suc div_Suc)
    have "r + 1 = (r div ?p + 1) * ?p"
      using wrap by (metis Suc_eq_plus1 add.commute add_Suc_right div_mult_mod_eq mult_Suc)
    then have "r + 1 < s * ?p \<longleftrightarrow> r div ?p + 1 < s"
      using p by (metis mult_less_cancel2)
    then show ?thesis
      using Cons.IH [of "r mod ?p"] False p step by (simp add: multi_index_0)
  qed
qed simp

lemma multi_index_less: "r < prod_list ss \<Longrightarrow> m < length ss \<Longrightarrow> multi_index ss r ! m < ss ! m"
proof (induction ss arbitrary: r m)
  case (Cons s ss)
  then have "0 < prod_list ss"
    by (cases "prod_list ss = 0") auto
  then show ?case
    using Cons by (cases m) (auto simp: less_mult_imp_div_less)
qed simp

section \<open>The loops\<close>

lemma advance_hit: "i < length ix \<Longrightarrow> ix ! i + 1 < ss ! i \<Longrightarrow> advance_counters ss i ix = Some (ix[i := ix ! i + 1], i)"
  by (simp add: advance_counters.simps [of ss i ix])

lemma advance_miss:
  "i < length ix \<Longrightarrow> \<not> ix ! i + 1 < ss ! i \<Longrightarrow>
   advance_counters ss i ix = (if i = 0 then None else advance_counters ss (i - 1) (ix[i := 0]))"
  by (simp add: advance_counters.simps [of ss i ix])

lemma advance_next_index:
  "i < length ix \<Longrightarrow> length ix = length ss \<Longrightarrow>
   map_option fst (advance_counters ss i ix) =
     map_option (\<lambda>ys. ys @ drop (Suc i) ix) (next_index (take (Suc i) ss) (take (Suc i) ix))"
proof (induction i arbitrary: ix)
  case 0
  then show ?case
    by (cases ix; cases ss) (auto simp: advance_counters.simps [of _ 0])
next
  case (Suc i)
  let ?n = "Suc i"
  have cut: "take (Suc ?n) ss = take ?n ss @ [ss ! ?n]" "take (Suc ?n) ix = take ?n ix @ [ix ! ?n]"
    using Suc.prems by (simp_all add: take_Suc_conv_app_nth)
  have rest: "drop ?n (ix[?n := 0]) = 0 # drop (Suc ?n) ix"
    using Suc.prems by (simp add: drop_update_swap Cons_nth_drop_Suc [of ?n ix, symmetric])
  show ?case
  proof (cases "ix ! ?n + 1 < ss ! ?n")
    case True
    then show ?thesis
      using Suc.prems cut next_index_snoc [of "take ?n ss" "take ?n ix" "ss ! ?n" "ix ! ?n"]
      by (simp add: advance_hit upd_conv_take_nth_drop)
  next
    case False
    then have "advance_counters ss ?n ix = advance_counters ss i (ix[?n := 0])"
      using Suc.prems by (simp add: advance_miss)
    then show ?thesis
      using Suc.IH [of "ix[?n := 0]"] Suc.prems False cut rest next_index_snoc [of "take ?n ss" "take ?n ix" "ss ! ?n" "ix ! ?n"]
      by (simp add: option.map_comp comp_def)
  qed
qed

lemma advance_Some:
  "advance_counters ss i ix = Some (ix', j) \<Longrightarrow> i < length ix \<Longrightarrow>
   j \<le> i \<and> (\<forall>m. j < m \<and> m \<le> i \<longrightarrow> \<not> ix ! m + 1 < ss ! m) \<and>
   ix' = take j ix @ (ix ! j + 1) # replicate (i - j) 0 @ drop (Suc i) ix"
proof (induction i arbitrary: ix)
  case 0
  then show ?case
    by (auto simp: advance_counters.simps [of _ 0] Let_def upd_conv_take_nth_drop split: if_splits)
next
  case (Suc i)
  show ?case
  proof (cases "ix ! Suc i + 1 < ss ! Suc i")
    case True
    then show ?thesis
      using Suc.prems by (auto simp: advance_hit upd_conv_take_nth_drop)
  next
    case False
    then have "advance_counters ss i (ix[Suc i := 0]) = Some (ix', j)"
      using Suc.prems by (simp add: advance_miss)
    from Suc.IH [OF this] Suc.prems(2) have IH:
      "j \<le> i" "\<forall>m. j < m \<and> m \<le> i \<longrightarrow> \<not> ix[Suc i := 0] ! m + 1 < ss ! m"
      "ix' = take j (ix[Suc i := 0]) @ (ix[Suc i := 0] ! j + 1) # replicate (i - j) 0 @ drop (Suc i) (ix[Suc i := 0])"
      by auto
    have "drop (Suc i) (ix[Suc i := 0]) = 0 # drop (Suc (Suc i)) ix"
      using Suc.prems by (simp add: drop_update_swap Cons_nth_drop_Suc [of "Suc i" ix, symmetric])
    moreover have "replicate (Suc i - j) 0 = replicate (i - j) 0 @ [0::nat]"
      using IH(1) by (simp add: Suc_diff_le replicate_append_same)
    ultimately have "ix' = take j ix @ (ix ! j + 1) # replicate (Suc i - j) 0 @ drop (Suc (Suc i)) ix"
      using IH by simp
    moreover have "\<not> ix ! m + 1 < ss ! m" if "j < m" "m \<le> Suc i" for m
      using IH(2) False that by (cases "m = Suc i") auto
    ultimately show ?thesis
      using IH(1) by simp
  qed
qed

section \<open>Places\<close>

text \<open>The place of a multi-index: the start and each counter times its stride.\<close>

definition place :: "u64 \<Rightarrow> u64 list \<Rightarrow> nat list \<Rightarrow> u64" where
  "place start strides ix = start + sum_list (map2 (\<lambda>d x. d * of_nat x) strides ix)"

lemma place_sum: "length ix = length strides \<Longrightarrow> place start strides ix = start + (\<Sum>m<length ix. strides ! m * of_nat (ix ! m))"
  by (simp add: place_def sum_list_sum_nth atLeast0LessThan)

lemma foldl_minus: "foldl (\<lambda>p j. p - f j) (p::u64) js = p - sum_list (map f js)"
  by (induction js arbitrary: p) (simp_all add: algebra_simps)

lemma next_place_eq:
  "next_place sizes strides i p = p + strides ! i - (\<Sum>j = i + 1..<length sizes. strides ! j * (of_nat (sizes ! j) - 1))"
  by (simp add: next_place_def foldl_minus sum_list_distinct_conv_sum_set)

lemma sum_split_at:
  assumes "j < (n::nat)"
  shows "(\<Sum>m<n. f m) = (\<Sum>m<j. f m) + f j + (\<Sum>m = j + 1..<n. (f m :: 'a :: comm_monoid_add))"
proof -
  have "{..<n} = {..<j} \<union> {j} \<union> {j + 1..<n}" using assms by auto
  then have "(\<Sum>m<n. f m) = sum f ({..<j} \<union> {j} \<union> {j + 1..<n})" by simp
  also have "\<dots> = sum f ({..<j} \<union> {j}) + (\<Sum>m = j + 1..<n. f m)" by (rule sum.union_disjoint) auto
  also have "sum f ({..<j} \<union> {j}) = (\<Sum>m<j. f m) + f j" by (subst sum.union_disjoint) auto
  finally show ?thesis .
qed

lemma next_place_advance:
  assumes "advance_counters ss (length ix - 1) ix = Some (ix', j)" and "ix \<noteq> []"
    and "length ix = length ss" and "length strides = length ss" and "\<forall>m<length ss. ix ! m < ss ! m"
  shows "next_place ss strides j (place start strides ix) = place start strides ix'"
proof -
  let ?n = "length ss"
  have n: "length ix - 1 < length ix" using assms(2) by (cases ix) auto
  have adv: "j < ?n" "\<forall>m. j < m \<and> m < ?n \<longrightarrow> \<not> ix ! m + 1 < ss ! m"
    "ix' = take j ix @ (ix ! j + 1) # replicate (?n - 1 - j) 0"
    using advance_Some [OF assms(1) n] assms(2,3) n by (auto simp: less_Suc_eq_le [symmetric])
  have len: "length ix' = ?n" using adv assms(3) by simp
  have nth: "m < j \<Longrightarrow> ix' ! m = ix ! m" "ix' ! j = ix ! j + 1" "j < m \<Longrightarrow> m < ?n \<Longrightarrow> ix' ! m = 0" for m
    using adv assms(3) by (simp_all add: nth_append)
  have top: "of_nat (ss ! m) - (1::u64) = of_nat (ix ! m)" if "j < m" "m < ?n" for m
  proof -
    have "\<not> ix ! m + 1 < ss ! m" and "ix ! m < ss ! m" using adv(2) assms(5) that by simp_all
    then have "ss ! m = Suc (ix ! m)" by simp
    then show ?thesis by simp
  qed
  have tail: "(\<Sum>m = j + 1..<?n. strides ! m * (of_nat (ss ! m) - 1)) = (\<Sum>m = j + 1..<?n. strides ! m * of_nat (ix ! m))"
    by (rule sum.cong) (simp_all add: top)
  have "place start strides ix' = start + ((\<Sum>m<j. strides ! m * of_nat (ix ! m)) + strides ! j * of_nat (ix ! j + 1))"
    using len assms(4) nth sum_split_at [OF adv(1), of "\<lambda>m. strides ! m * of_nat (ix' ! m)"] by (simp add: place_sum)
  moreover have "place start strides ix =
      start + ((\<Sum>m<j. strides ! m * of_nat (ix ! m)) + strides ! j * of_nat (ix ! j) + (\<Sum>m = j + 1..<?n. strides ! m * of_nat (ix ! m)))"
    using assms(3,4) sum_split_at [OF adv(1), of "\<lambda>m. strides ! m * of_nat (ix ! m)"] by (simp add: place_sum)
  ultimately show ?thesis
    unfolding next_place_eq tail by (simp add: algebra_simps)
qed

section \<open>The result\<close>

lemma advance_multi_index:
  assumes "r < prod_list ss" and "ss \<noteq> []"
  shows "map_option fst (advance_counters ss (length ss - 1) (multi_index ss r)) =
    (if r + 1 < prod_list ss then Some (multi_index ss (r + 1)) else None)"
  using assms advance_next_index [of "length ss - 1" "multi_index ss r" ss]
  by (simp add: next_index_multi_index option.map_ident)

lemma slice_loop_correct:
  assumes "ss \<noteq> []" and "length strides = length ss" and "k < prod_list ss" and "length places = prod_list ss"
    and "take (k + 1) places = map (\<lambda>r. place start strides (multi_index ss r)) [0..<k + 1]"
  shows "slice_loop ss strides (multi_index ss k) k places = Some (map (\<lambda>r. place start strides (multi_index ss r)) [0..<prod_list ss])"
  using assms(3-)
proof (induction "prod_list ss - k" arbitrary: k places)
  case (Suc d)
  let ?at = "\<lambda>r. place start strides (multi_index ss r)"
  note adv = advance_multi_index [OF Suc.prems(1) assms(1)]
  show ?case
  proof (cases "k + 1 < prod_list ss")
    case False
    then have "prod_list ss = k + 1" using Suc.prems(1) by simp
    then show ?thesis using adv False Suc.prems(2,3) by (simp add: slice_loop.simps)
  next
    case True
    then obtain i where step: "advance_counters ss (length ss - 1) (multi_index ss k) = Some (multi_index ss (k + 1), i)"
      using adv by (auto simp: map_option_case split: option.splits)
    have at: "places ! k = ?at k"
    proof -
      have "places ! k = take (k + 1) places ! k" by simp
      also have "\<dots> = ?at k" unfolding Suc.prems(3) by (simp del: upt_Suc)
      finally show ?thesis .
    qed
    have "multi_index ss k \<noteq> []" using assms(1) by (metis length_0_conv length_multi_index)
    then have nxt: "next_place ss strides i (places ! k) = ?at (k + 1)"
      using next_place_advance [of ss "multi_index ss k" "multi_index ss (k + 1)" i strides start] step assms(2)
        multi_index_less [OF Suc.prems(1)] by (simp add: at)
    have "take (k + 2) (places[k + 1 := ?at (k + 1)]) = take (k + 1) places @ [?at (k + 1)]"
      using True Suc.prems(2) by (simp add: take_Suc_conv_app_nth [of "Suc k"])
    then have "take (k + 1 + 1) (places[k + 1 := ?at (k + 1)]) = map ?at [0..<k + 1 + 1]"
      using Suc.prems(3) by simp
    then have "slice_loop ss strides (multi_index ss (k + 1)) (k + 1) (places[k + 1 := ?at (k + 1)]) = Some (map ?at [0..<prod_list ss])"
      using Suc.hyps(2) Suc.prems(2) True by (intro Suc.hyps(1)) simp_all
    moreover have "slice_loop ss strides (multi_index ss k) k places =
        slice_loop ss strides (multi_index ss (k + 1)) (k + 1) (places[k + 1 := ?at (k + 1)])"
      using step nxt True Suc.prems(2) by (subst slice_loop.simps) simp
    ultimately show ?thesis by simp
  qed
qed simp

lemma foldl_times_mod: "k < m \<Longrightarrow> foldl (\<lambda>k s. (k * s) mod m) k ss = (k * prod_list ss) mod (m::nat)"
proof (induction ss arbitrary: k)
  case (Cons s ss)
  have "(k * s) mod m < m" using Cons.prems by simp
  from Cons.IH [OF this] show ?case by (simp add: mod_mult_left_eq mult.assoc)
qed simp

lemma slice_count_eq: "prod_list ss < 2 ^ 64 \<Longrightarrow> slice_count ss = (if ss = [] then 0 else prod_list ss)"
  by (simp add: slice_count_def foldl_times_mod)

lemma place_zeros: "place start strides (replicate (length strides) 0) = start"
  by (simp add: place_sum)

text \<open>
  C19: \<open>gslice::__init\<close> returns, for any number of dimensions with less than \<open>2 ^ 64\<close> places, the places of
  all multi-indices in the order that varies the last dimension fastest (none if a size is zero or there is no
  dimension): the incremental update with its wrapping subtractions agrees with the sum of the products of
  index and stride, and no write is behind the end of the result.
\<close>

theorem gslice_places:
  assumes "length strides = length sizes" and "prod_list sizes < 2 ^ 64"
  shows "gslice_init start sizes strides =
    Some (if sizes = [] then [] else map (place start strides) (product_lists (map (\<lambda>s. [0..<s]) sizes)))"
proof (cases "sizes = [] \<or> prod_list sizes = 0")
  case True
  then show ?thesis
    using assms(2) by (auto simp: gslice_init_def slice_count_eq product_lists_multi_index)
next
  case False
  let ?places = "(replicate (prod_list sizes) 0)[0 := start]"
  have "take (0 + 1) ?places = map (\<lambda>r. place start strides (multi_index sizes r)) [0..<0 + 1]"
    using False assms(1) place_zeros [of start strides] by (simp add: multi_index_0 take_Suc_conv_app_nth)
  then show ?thesis
    using False assms slice_loop_correct [of sizes strides 0 ?places start]
    by (simp add: gslice_init_def slice_count_eq product_lists_multi_index multi_index_0 comp_def)
qed

theorem gslice_places_witness:
  "gslice_init 3 [2, 3] [10, 1] = Some [3, 4, 5, 13, 14, 15]"
  using gslice_places [of "[10, 1]" "[2, 3]" 3] by (simp add: place_def upt_rec)

end
