(* ===== verification/Ios_Base.thy ===== *)
theory Ios_Base
  imports Num_Format
begin

text \<open>
  \<open>ios_base\<close> of \<open>src/src/ios.cpp\<close>: the state of a stream, its callbacks and the two arrays behind \<open>iword\<close> and \<open>pword\<close>,
  with \<open>basic_ios::copyfmt\<close> of \<open>src/include/ios\<close>, which is built on them.  An array is the list of the elements
  that are allocated (the null pointer is the empty list) beside its size and capacity; \<open>junk\<close> stands for
  what freshly allocated memory holds, and \<open>mem n\<close> tells whether \<open>n\<close> bytes can be allocated.
\<close>

section \<open>State\<close>

definition badbit :: iostate where "badbit = 1"
definition goodbit :: iostate where "goodbit = 0"
definition skipws :: fmtflags where "skipws = 0x1000"

record ('f, 'l) ios_base =
  ib_fmtflags :: fmtflags
  ib_precision :: int
  ib_width :: int
  ib_rdstate :: iostate
  ib_exceptions :: iostate
  ib_rdbuf :: nat
  ib_loc :: 'l
  ib_fn :: "'f list"
  ib_index :: "int list"
  ib_event_size :: nat
  ib_event_cap :: nat
  ib_iarray :: "u64 list"
  ib_iarray_size :: nat
  ib_iarray_cap :: nat
  ib_parray :: "nat list"
  ib_parray_size :: nat
  ib_parray_cap :: nat

text \<open>How a call ends; the state is returned beside it.\<close>

datatype 'a outcome = Returns 'a | Failure | Bad_alloc | Undefined

fun bind_ios :: "'a outcome \<times> 's \<Rightarrow> ('a \<Rightarrow> 's \<Rightarrow> 'b outcome \<times> 's) \<Rightarrow> 'b outcome \<times> 's" where
  "bind_ios (Returns a, s) k = k a s"
| "bind_ios (Failure, s) k = (Failure, s)"
| "bind_ios (Bad_alloc, s) k = (Bad_alloc, s)"
| "bind_ios (Undefined, s) k = (Undefined, s)"

definition ios_clear :: "iostate \<Rightarrow> ('f, 'l, 'z) ios_base_scheme \<Rightarrow> unit outcome \<times> ('f, 'l, 'z) ios_base_scheme" where
  "ios_clear state s =
     (if (state OR (if ib_rdbuf s \<noteq> 0 then goodbit else badbit)) AND ib_exceptions s \<noteq> 0 then Failure else Returns (),
      s\<lparr>ib_rdstate := (if ib_rdbuf s \<noteq> 0 then state else state OR badbit)\<rparr>)"

definition ios_setstate :: "iostate \<Rightarrow> ('f, 'l, 'z) ios_base_scheme \<Rightarrow> unit outcome \<times> ('f, 'l, 'z) ios_base_scheme" where
  "ios_setstate state s = ios_clear (ib_rdstate s OR state) s"

definition ios_set_exceptions :: "iostate \<Rightarrow> ('f, 'l, 'z) ios_base_scheme \<Rightarrow> unit outcome \<times> ('f, 'l, 'z) ios_base_scheme" where
  "ios_set_exceptions e s = ios_clear (ib_rdstate s) (s\<lparr>ib_exceptions := e\<rparr>)"

text \<open>\<open>__set_badbit_and_consider_rethrow\<close> and its variant for \<open>failbit\<close>: whether the current exception is thrown again.\<close>

definition set_bit_and_rethrow :: "iostate \<Rightarrow> ('f, 'l, 'z) ios_base_scheme \<Rightarrow> bool \<times> ('f, 'l, 'z) ios_base_scheme" where
  "set_bit_and_rethrow b s = (ib_exceptions s AND b \<noteq> 0, s\<lparr>ib_rdstate := ib_rdstate s OR b\<rparr>)"

definition ios_init :: "'l \<Rightarrow> nat \<Rightarrow> ('f, 'l, 'z) ios_base_scheme \<Rightarrow> ('f, 'l, 'z) ios_base_scheme" where
  "ios_init loc sb s = s\<lparr>
     ib_rdbuf := sb, ib_rdstate := (if sb \<noteq> 0 then goodbit else badbit), ib_exceptions := goodbit,
     ib_fmtflags := skipws OR dec, ib_width := 0, ib_precision := 6,
     ib_fn := [], ib_index := [], ib_event_size := 0, ib_event_cap := 0,
     ib_iarray := [], ib_iarray_size := 0, ib_iarray_cap := 0,
     ib_parray := [], ib_parray_size := 0, ib_parray_cap := 0, ib_loc := loc\<rparr>"

section \<open>Storage\<close>

text \<open>The number of elements of \<open>sz\<close> bytes; \<open>req > cap\<close>.\<close>

definition ios_new_cap :: "nat \<Rightarrow> nat \<Rightarrow> nat \<Rightarrow> nat" where
  "ios_new_cap sz req cap =
     (let mx = (2 ^ 64 - 1) div sz in if req < mx div 2 then max (2 * cap) req else mx)"

definition realloc :: "'a \<Rightarrow> nat \<Rightarrow> 'a list \<Rightarrow> 'a list" where
  "realloc junk n xs = take n xs @ replicate (n - length xs) junk"

definition zero_from :: "nat \<Rightarrow> 'a \<Rightarrow> 'a list \<Rightarrow> 'a list" where
  "zero_from n z xs = take n xs @ replicate (length xs - n) z"

text \<open>\<open>static_cast<size_t>(index) + 1\<close>.\<close>

definition required :: "int \<Rightarrow> nat" where
  "required index = nat ((index + 1) mod 2 ^ 64)"

text \<open>The reference that is returned: an element of the array, or the static variable \<open>error\<close>, which is zero.\<close>

datatype element_ref = Element nat | Error_element

definition element_of :: "int \<Rightarrow> 'a list \<Rightarrow> element_ref outcome" where
  "element_of index xs = (if 0 \<le> index \<and> nat index < length xs then Returns (Element (nat index)) else Undefined)"

definition iword_end :: "int \<Rightarrow> ('f, 'l, 'z) ios_base_scheme \<Rightarrow> element_ref outcome \<times> ('f, 'l, 'z) ios_base_scheme" where
  "iword_end index s =
     (element_of index (ib_iarray s), s\<lparr>ib_iarray_size := max (ib_iarray_size s) (required index)\<rparr>)"

definition iword :: "(nat \<Rightarrow> bool) \<Rightarrow> u64 \<Rightarrow> int \<Rightarrow> ('f, 'l, 'z) ios_base_scheme \<Rightarrow> element_ref outcome \<times> ('f, 'l, 'z) ios_base_scheme" where
  "iword mem junk index s =
     (if required index > ib_iarray_cap s then
        let newcap = ios_new_cap 8 (required index) (ib_iarray_cap s) in
        if \<not> mem (newcap * 8) then bind_ios (ios_setstate badbit s) (\<lambda>_ s. (Returns Error_element, s))
        else iword_end index (s\<lparr>ib_iarray := zero_from (ib_iarray_size s) 0 (realloc junk newcap (ib_iarray s)),
               ib_iarray_cap := newcap\<rparr>)
      else iword_end index s)"

definition pword_end :: "int \<Rightarrow> ('f, 'l, 'z) ios_base_scheme \<Rightarrow> element_ref outcome \<times> ('f, 'l, 'z) ios_base_scheme" where
  "pword_end index s =
     (element_of index (ib_parray s), s\<lparr>ib_parray_size := max (ib_parray_size s) (required index)\<rparr>)"

text \<open>As in the source, the new capacity is computed from \<open>__iarray_cap_\<close>.\<close>

definition pword :: "(nat \<Rightarrow> bool) \<Rightarrow> nat \<Rightarrow> int \<Rightarrow> ('f, 'l, 'z) ios_base_scheme \<Rightarrow> element_ref outcome \<times> ('f, 'l, 'z) ios_base_scheme" where
  "pword mem junk index s =
     (if required index > ib_parray_cap s then
        let newcap = ios_new_cap 8 (required index) (ib_iarray_cap s) in
        if \<not> mem (newcap * 8) then bind_ios (ios_setstate badbit s) (\<lambda>_ s. (Returns Error_element, s))
        else pword_end index (s\<lparr>ib_parray := zero_from (ib_parray_size s) 0 (realloc junk newcap (ib_parray s)),
               ib_parray_cap := newcap\<rparr>)
      else pword_end index s)"

text \<open>\<open>xalloc\<close>: the static counter, an \<open>int\<close>.\<close>

definition xalloc :: "u32 \<Rightarrow> u32 \<times> u32" where "xalloc xindex = (xindex, xindex + 1)"

text \<open>\<open>sync_with_stdio\<close>: the old value, and the new value of the static variable \<open>previous_state\<close>.\<close>

definition sync_with_stdio :: "bool \<Rightarrow> bool \<Rightarrow> bool \<times> bool" where "sync_with_stdio sync previous_state = (previous_state, sync)"

section \<open>Callbacks\<close>

datatype event = Erase_event | Imbue_event | Copyfmt_event

text \<open>A callback is a function of the event, its index and the stream; \<open>run\<close> says what it does.\<close>

fun call_loop ::
  "('f \<Rightarrow> event \<Rightarrow> int \<Rightarrow> ('f, 'l, 'z) ios_base_scheme \<Rightarrow> ('f, 'l, 'z) ios_base_scheme) \<Rightarrow> event \<Rightarrow> nat \<Rightarrow>
   ('f, 'l, 'z) ios_base_scheme \<Rightarrow> unit outcome \<times> ('f, 'l, 'z) ios_base_scheme" where
  "call_loop run ev 0 s = (Returns (), s)"
| "call_loop run ev (Suc i) s =
     (if i < length (ib_fn s) \<and> i < length (ib_index s) then call_loop run ev i (run (ib_fn s ! i) ev (ib_index s ! i) s)
      else (Undefined, s))"

definition call_callbacks where
  "call_callbacks run ev s = call_loop run ev (ib_event_size s) s"

definition ios_imbue where
  "ios_imbue run loc s = bind_ios (call_callbacks run Imbue_event (s\<lparr>ib_loc := loc\<rparr>)) (\<lambda>_ s'. (Returns (ib_loc s), s'))"

definition ios_destroy where
  "ios_destroy run s = call_callbacks run Erase_event s"

text \<open>
  \<open>register_callback\<close>.  When an allocation fails and \<open>setstate\<close> does not throw, the pointer is set to null and used.
\<close>

definition grow_fn :: "(nat \<Rightarrow> bool) \<Rightarrow> 'f \<Rightarrow> nat \<Rightarrow> ('f, 'l, 'z) ios_base_scheme \<Rightarrow> unit outcome \<times> ('f, 'l, 'z) ios_base_scheme" where
  "grow_fn mem junk newcap s =
     (if mem (newcap * 8) then (Returns (), s\<lparr>ib_fn := realloc junk newcap (ib_fn s)\<rparr>)
      else bind_ios (ios_setstate badbit s) (\<lambda>_ s. (Returns (), s\<lparr>ib_fn := []\<rparr>)))"

definition grow_index :: "(nat \<Rightarrow> bool) \<Rightarrow> nat \<Rightarrow> ('f, 'l, 'z) ios_base_scheme \<Rightarrow> unit outcome \<times> ('f, 'l, 'z) ios_base_scheme" where
  "grow_index mem newcap s =
     (if mem (newcap * 4) then (Returns (), s\<lparr>ib_index := realloc 0 newcap (ib_index s)\<rparr>)
      else bind_ios (ios_setstate badbit s) (\<lambda>_ s. (Returns (), s\<lparr>ib_index := []\<rparr>)))"

definition store_callback :: "'f \<Rightarrow> int \<Rightarrow> ('f, 'l, 'z) ios_base_scheme \<Rightarrow> unit outcome \<times> ('f, 'l, 'z) ios_base_scheme" where
  "store_callback f i s =
     (if ib_event_size s < length (ib_fn s) \<and> ib_event_size s < length (ib_index s) then
        (Returns (), s\<lparr>ib_fn := (ib_fn s)[ib_event_size s := f], ib_index := (ib_index s)[ib_event_size s := i],
           ib_event_size := ib_event_size s + 1\<rparr>)
      else (Undefined, s))"

definition register_callback ::
  "(nat \<Rightarrow> bool) \<Rightarrow> 'f \<Rightarrow> 'f \<Rightarrow> int \<Rightarrow> ('f, 'l, 'z) ios_base_scheme \<Rightarrow> unit outcome \<times> ('f, 'l, 'z) ios_base_scheme" where
  "register_callback mem junk f i s =
     (if ib_event_size s + 1 > ib_event_cap s then
        let newcap = ios_new_cap 8 (ib_event_size s + 1) (ib_event_cap s) in
        bind_ios (grow_fn mem junk newcap s) (\<lambda>_ s.
        bind_ios (grow_index mem newcap s) (\<lambda>_ s.
        store_callback f i (s\<lparr>ib_event_cap := newcap\<rparr>)))
      else store_callback f i s)"

section \<open>Copying\<close>

text \<open>The first \<open>n\<close> elements of \<open>src\<close> over those of \<open>dst\<close>, in new memory where \<open>dst\<close> has no room.\<close>

definition copy_array :: "'a \<Rightarrow> nat \<Rightarrow> nat \<Rightarrow> 'a list \<Rightarrow> 'a list \<Rightarrow> 'a list" where
  "copy_array junk cap n src dst = take n src @ drop n (if cap < n then replicate n junk else dst)"

definition ios_copyfmt ::
  "(nat \<Rightarrow> bool) \<Rightarrow> 'f \<Rightarrow> ('f, 'l, 'z) ios_base_scheme \<Rightarrow> ('f, 'l, 'z) ios_base_scheme \<Rightarrow> unit outcome \<times> ('f, 'l, 'z) ios_base_scheme" where
  "ios_copyfmt mem junk rhs s =
     (let es = ib_event_size rhs; is = ib_iarray_size rhs; ps = ib_parray_size rhs in
      if ib_event_cap s < es \<and> \<not> (mem (8 * es) \<and> mem (4 * es)) then (Bad_alloc, s)
      else if ib_iarray_cap s < is \<and> \<not> mem (8 * is) then (Bad_alloc, s)
      else if ib_parray_cap s < ps \<and> \<not> mem (8 * ps) then (Bad_alloc, s)
      else (Returns (), s\<lparr>
        ib_fmtflags := ib_fmtflags rhs, ib_precision := ib_precision rhs, ib_width := ib_width rhs, ib_loc := ib_loc rhs,
        ib_fn := copy_array junk (ib_event_cap s) es (ib_fn rhs) (ib_fn s),
        ib_index := copy_array 0 (ib_event_cap s) es (ib_index rhs) (ib_index s),
        ib_event_cap := max (ib_event_cap s) es, ib_event_size := es,
        ib_iarray := copy_array 0 (ib_iarray_cap s) is (ib_iarray rhs) (ib_iarray s),
        ib_iarray_cap := max (ib_iarray_cap s) is, ib_iarray_size := is,
        ib_parray := copy_array 0 (ib_parray_cap s) ps (ib_parray rhs) (ib_parray s),
        ib_parray_cap := max (ib_parray_cap s) ps, ib_parray_size := ps\<rparr>))"

text \<open>\<open>move\<close> and \<open>swap\<close>: both objects.\<close>

definition ios_move ::
  "('f, 'l, 'z) ios_base_scheme \<Rightarrow> ('f, 'l, 'z) ios_base_scheme \<Rightarrow> ('f, 'l, 'z) ios_base_scheme \<times> ('f, 'l, 'z) ios_base_scheme" where
  "ios_move s rhs =
     (s\<lparr>ib_fmtflags := ib_fmtflags rhs, ib_precision := ib_precision rhs, ib_width := ib_width rhs,
        ib_rdstate := ib_rdstate rhs, ib_exceptions := ib_exceptions rhs, ib_rdbuf := 0, ib_loc := ib_loc rhs,
        ib_fn := ib_fn rhs, ib_index := ib_index rhs, ib_event_size := ib_event_size rhs, ib_event_cap := ib_event_cap rhs,
        ib_iarray := ib_iarray rhs, ib_iarray_size := ib_iarray_size rhs, ib_iarray_cap := ib_iarray_cap rhs,
        ib_parray := ib_parray rhs, ib_parray_size := ib_parray_size rhs, ib_parray_cap := ib_parray_cap rhs\<rparr>,
      rhs\<lparr>ib_fn := [], ib_index := [], ib_event_size := 0, ib_event_cap := 0,
        ib_iarray := [], ib_iarray_size := 0, ib_iarray_cap := 0,
        ib_parray := [], ib_parray_size := 0, ib_parray_cap := 0\<rparr>)"

definition ios_swap ::
  "('f, 'l, 'z) ios_base_scheme \<Rightarrow> ('f, 'l, 'z) ios_base_scheme \<Rightarrow> ('f, 'l, 'z) ios_base_scheme \<times> ('f, 'l, 'z) ios_base_scheme" where
  "ios_swap s rhs =
     (let from = (\<lambda>a b. a\<lparr>ib_fmtflags := ib_fmtflags b, ib_precision := ib_precision b, ib_width := ib_width b,
        ib_rdstate := ib_rdstate b, ib_exceptions := ib_exceptions b, ib_loc := ib_loc b,
        ib_fn := ib_fn b, ib_index := ib_index b, ib_event_size := ib_event_size b, ib_event_cap := ib_event_cap b,
        ib_iarray := ib_iarray b, ib_iarray_size := ib_iarray_size b, ib_iarray_cap := ib_iarray_cap b,
        ib_parray := ib_parray b, ib_parray_size := ib_parray_size b, ib_parray_cap := ib_parray_cap b\<rparr>) in
      (from s rhs, from rhs s))"

section \<open>basic_ios\<close>

record ('f, 'l) basic_ios = "('f, 'l) ios_base" +
  bi_tie :: nat
  bi_fill :: int

definition basic_init :: "'l \<Rightarrow> int \<Rightarrow> nat \<Rightarrow> ('f, 'l) basic_ios \<Rightarrow> ('f, 'l) basic_ios" where
  "basic_init loc eof sb s = (ios_init loc sb s)\<lparr>bi_tie := 0, bi_fill := eof\<rparr>"

text \<open>\<open>basic_ios::copyfmt\<close> from another object.\<close>

definition basic_copyfmt ::
  "('f \<Rightarrow> event \<Rightarrow> int \<Rightarrow> ('f, 'l) basic_ios \<Rightarrow> ('f, 'l) basic_ios) \<Rightarrow> (nat \<Rightarrow> bool) \<Rightarrow> 'f \<Rightarrow> ('f, 'l) basic_ios \<Rightarrow>
   ('f, 'l) basic_ios \<Rightarrow> unit outcome \<times> ('f, 'l) basic_ios" where
  "basic_copyfmt run mem junk rhs s =
     bind_ios (call_callbacks run Erase_event s) (\<lambda>_ s.
     bind_ios (ios_copyfmt mem junk rhs s) (\<lambda>_ s.
     bind_ios (call_callbacks run Copyfmt_event (s\<lparr>bi_tie := bi_tie rhs, bi_fill := bi_fill rhs\<rparr>)) (\<lambda>_ s.
     ios_set_exceptions (ib_exceptions rhs) s)))"

definition basic_move :: "('f, 'l) basic_ios \<Rightarrow> ('f, 'l) basic_ios \<Rightarrow> ('f, 'l) basic_ios \<times> ('f, 'l) basic_ios" where
  "basic_move s rhs = (let (s, r) = ios_move s rhs in (s\<lparr>bi_tie := bi_tie rhs, bi_fill := bi_fill rhs\<rparr>, r\<lparr>bi_tie := 0\<rparr>))"

definition basic_swap :: "('f, 'l) basic_ios \<Rightarrow> ('f, 'l) basic_ios \<Rightarrow> ('f, 'l) basic_ios \<times> ('f, 'l) basic_ios" where
  "basic_swap s rhs =
     (let (a, b) = ios_swap s rhs in
      (a\<lparr>bi_tie := bi_tie rhs, bi_fill := bi_fill rhs\<rparr>, b\<lparr>bi_tie := bi_tie s, bi_fill := bi_fill s\<rparr>))"

end
