(* ===== verification/Ios_Props.thy ===== *)
theory Ios_Props
  imports Ios_Base
begin

text \<open>
  What \<open>ios_base\<close> promises: \<open>iword\<close> and \<open>pword\<close> are two maps from indices to values that are zero where nothing was stored,
  the callbacks are called in the opposite order of their registration, and \<open>copyfmt\<close> either copies all of these
  or throws \<open>bad_alloc\<close> and changes nothing.
\<close>

section \<open>What a state stands for\<close>

definition words :: "('f, 'l, 'z) ios_base_scheme \<Rightarrow> nat \<Rightarrow> u64" where
  "words s i = (if i < ib_iarray_size s then ib_iarray s ! i else 0)"

definition pointers :: "('f, 'l, 'z) ios_base_scheme \<Rightarrow> nat \<Rightarrow> nat" where
  "pointers s i = (if i < ib_parray_size s then ib_parray s ! i else 0)"

definition callbacks :: "('f, 'l, 'z) ios_base_scheme \<Rightarrow> ('f \<times> int) list" where
  "callbacks s = zip (take (ib_event_size s) (ib_fn s)) (take (ib_event_size s) (ib_index s))"

definition ios_ok :: "('f, 'l, 'z) ios_base_scheme \<Rightarrow> bool" where
  "ios_ok s \<longleftrightarrow>
     length (ib_iarray s) = ib_iarray_cap s \<and> ib_iarray_size s \<le> ib_iarray_cap s \<and>
     length (ib_parray s) = ib_parray_cap s \<and> ib_parray_size s \<le> ib_parray_cap s \<and>
     ib_event_size s \<le> ib_event_cap s \<and> ib_event_cap s \<le> length (ib_fn s) \<and> ib_event_cap s \<le> length (ib_index s)"

text \<open>Nothing but zeros behind the size of an array.\<close>

definition zero_tail :: "nat \<Rightarrow> 'a::zero list \<Rightarrow> bool" where
  "zero_tail n xs \<longleftrightarrow> (\<forall>x\<in>set (drop n xs). x = 0)"

definition ios_clean :: "('f, 'l, 'z) ios_base_scheme \<Rightarrow> bool" where
  "ios_clean s \<longleftrightarrow> zero_tail (ib_iarray_size s) (ib_iarray s) \<and> zero_tail (ib_parray_size s) (ib_parray s)"

text \<open>Storing through a reference.\<close>

definition store_word :: "nat \<Rightarrow> u64 \<Rightarrow> ('f, 'l, 'z) ios_base_scheme \<Rightarrow> ('f, 'l, 'z) ios_base_scheme" where
  "store_word i v s = s\<lparr>ib_iarray := (ib_iarray s)[i := v]\<rparr>"

definition store_pointer :: "nat \<Rightarrow> nat \<Rightarrow> ('f, 'l, 'z) ios_base_scheme \<Rightarrow> ('f, 'l, 'z) ios_base_scheme" where
  "store_pointer i v s = s\<lparr>ib_parray := (ib_parray s)[i := v]\<rparr>"

section \<open>Arrays\<close>

definition array_lookup :: "nat \<Rightarrow> 'a::zero list \<Rightarrow> nat \<Rightarrow> 'a" where
  "array_lookup n xs i = (if i < n then xs ! i else 0)"

lemma words_lookup: "words s = array_lookup (ib_iarray_size s) (ib_iarray s)"
  and pointers_lookup: "pointers s = array_lookup (ib_parray_size s) (ib_parray s)"
  by (simp_all add: fun_eq_iff words_def pointers_def array_lookup_def)

lemma zero_tail_nth: "zero_tail n xs \<longleftrightarrow> (\<forall>i. n \<le> i \<longrightarrow> i < length xs \<longrightarrow> xs ! i = 0)"
proof -
  have "zero_tail n xs \<longleftrightarrow> (\<forall>i < length xs - n. xs ! (n + i) = 0)"
    by (auto simp: zero_tail_def all_set_conv_all_nth)
  also have "\<dots> \<longleftrightarrow> (\<forall>i. n \<le> i \<longrightarrow> i < length xs \<longrightarrow> xs ! i = 0)"
    by (auto simp: less_diff_conv add.commute dest!: le_Suc_ex)
  finally show ?thesis .
qed

lemma lookup_larger: "zero_tail n xs \<Longrightarrow> n \<le> m \<Longrightarrow> m \<le> length xs \<Longrightarrow> array_lookup m xs = array_lookup n xs"
  by (auto simp: fun_eq_iff array_lookup_def zero_tail_nth)

lemma zero_tail_larger: "zero_tail n xs \<Longrightarrow> n \<le> m \<Longrightarrow> zero_tail m xs"
  by (auto simp: zero_tail_nth)

lemma zero_from_props:
  "n \<le> length xs \<Longrightarrow> length (zero_from n 0 xs) = length xs \<and> zero_tail n (zero_from n 0 xs) \<and> array_lookup n (zero_from n 0 xs) = array_lookup n xs"
  by (auto simp: zero_from_def zero_tail_def array_lookup_def fun_eq_iff nth_append)

lemma length_realloc [simp]: "length (realloc junk n xs) = n"
  by (simp add: realloc_def)

lemma nth_realloc: "i < length xs \<Longrightarrow> i < n \<Longrightarrow> realloc junk n xs ! i = xs ! i"
  by (simp add: realloc_def nth_append)

lemma lookup_realloc: "m \<le> length xs \<Longrightarrow> m \<le> n \<Longrightarrow> array_lookup m (realloc junk n xs) = array_lookup m xs"
  by (auto simp: array_lookup_def fun_eq_iff nth_realloc)

lemma ios_new_cap_covers: "req < 2 ^ 60 \<Longrightarrow> req \<le> ios_new_cap 8 req cap"
  by (simp add: ios_new_cap_def)

lemma required_int: "0 \<le> index \<Longrightarrow> index < 2 ^ 31 \<Longrightarrow> required index = nat index + 1 \<and> required index < 2 ^ 60"
  by (simp add: required_def nat_add_distrib)

text \<open>An array that has grown, or has room already, with its new size.\<close>

lemma array_grown:
  assumes "zero_tail n xs" and "n \<le> length xs" and "req \<le> newcap" and "length xs \<le> newcap"
  shows "let ys = zero_from n 0 (realloc junk newcap xs) in length ys = newcap \<and>
    array_lookup (max n req) ys = array_lookup n xs \<and> zero_tail (max n req) ys"
proof -
  let ?ys = "zero_from n 0 (realloc junk newcap xs)"
  have *: "length ?ys = newcap" "zero_tail n ?ys" "array_lookup n ?ys = array_lookup n xs"
    using zero_from_props [of n "realloc junk newcap xs"] lookup_realloc [of n xs newcap junk] assms by simp_all
  then show ?thesis
    using lookup_larger [OF *(2), of "max n req"] zero_tail_larger [OF *(2), of "max n req"] assms by (simp add: Let_def)
qed

lemma lookup_store: "i < n \<Longrightarrow> n \<le> length xs \<Longrightarrow> array_lookup n (xs[i := v]) = (array_lookup n xs)(i := v)"
  by (auto simp: array_lookup_def fun_eq_iff)

lemma zero_tail_store: "i < n \<Longrightarrow> zero_tail n xs \<Longrightarrow> zero_tail n (xs[i := v])"
  by (simp add: zero_tail_def)

lemma lookup_0 [simp]: "array_lookup 0 xs = (\<lambda>_. 0)"
  by (simp add: array_lookup_def fun_eq_iff)

section \<open>The interface of a storage\<close>

text \<open>
  A state with a view of it as a map: \<open>get\<close> returns a reference to the element of an index without changing the view, and
  \<open>put\<close> stores through such a reference (\<open>ready\<close>: there is such an element).
\<close>

locale storage =
  fixes good :: "'s \<Rightarrow> bool" and view :: "'s \<Rightarrow> nat \<Rightarrow> 'v::zero" and ready :: "nat \<Rightarrow> 's \<Rightarrow> bool"
    and get :: "int \<Rightarrow> 's \<Rightarrow> element_ref outcome \<times> 's" and put :: "nat \<Rightarrow> 'v \<Rightarrow> 's \<Rightarrow> 's"
  assumes get: "good s \<Longrightarrow> 0 \<le> i \<Longrightarrow> i < 2 ^ 31 \<Longrightarrow> get i s = (Returns (Element k), s') \<Longrightarrow>
      k = nat i \<and> good s' \<and> view s' = view s \<and> ready k s'"
    and put: "good s \<Longrightarrow> ready k s \<Longrightarrow> good (put k v s) \<and> view (put k v s) = (view s)(k := v)"
begin

lemma read_after_write:
  assumes "good s" and "0 \<le> i" "i < 2 ^ 31" "0 \<le> j" "j < 2 ^ 31"
    and "get i s = (Returns (Element k), s1)" and "get j (put k v s1) = (Returns (Element m), s2)"
  shows "view s2 m = (if i = j then v else view s m)"
proof -
  have 1: "k = nat i" "good s1" "view s1 = view s" "ready k s1" using get [OF assms(1,2,3,6)] by auto
  then have "good (put k v s1)" and 2: "view (put k v s1) = (view s)(k := v)" using put by auto
  from get [OF this(1) assms(4,5,7)] have "m = nat j" "view s2 = (view s)(k := v)" using 2 by auto
  then show ?thesis using 1 assms(2,4) by auto
qed

end

lemma setstate_badbit:
  "ios_setstate badbit s =
    (if (ib_rdstate s OR badbit) AND ib_exceptions s \<noteq> 0 then Failure else Returns (), s\<lparr>ib_rdstate := ib_rdstate s OR badbit\<rparr>)"
proof -
  have "(a OR badbit) OR badbit = a OR badbit" "(a OR badbit) OR goodbit = a OR badbit" for a
    by (simp_all add: or.assoc goodbit_def)
  then show ?thesis by (simp add: ios_setstate_def ios_clear_def)
qed

definition no_memory_outcome :: "('f, 'l, 'z) ios_base_scheme \<Rightarrow> element_ref outcome \<times> ('f, 'l, 'z) ios_base_scheme" where
  "no_memory_outcome s = (if (ib_rdstate s OR badbit) AND ib_exceptions s \<noteq> 0 then Failure else Returns Error_element,
     s\<lparr>ib_rdstate := ib_rdstate s OR badbit\<rparr>)"

text \<open>The array has room for the index, or there is memory to enlarge it.\<close>

definition iword_room :: "(nat \<Rightarrow> bool) \<Rightarrow> int \<Rightarrow> ('f, 'l, 'z) ios_base_scheme \<Rightarrow> bool" where
  "iword_room mem i s \<longleftrightarrow> nat i < ib_iarray_cap s \<or> mem (ios_new_cap 8 (nat i + 1) (ib_iarray_cap s) * 8)"

lemma iword_no_room:
  assumes "0 \<le> i" and "i < 2 ^ 31" and "\<not> iword_room mem i s"
  shows "iword mem junk i s = no_memory_outcome s"
  using required_int [OF assms(1,2)] assms(3)
  by (simp add: iword_def iword_room_def setstate_badbit no_memory_outcome_def Let_def)

lemma iword_cases:
  assumes "ios_ok s" and "0 \<le> i" and "i < 2 ^ 31" and "iword_room mem i s"
  shows "\<exists>s'. iword mem junk i s = (Returns (Element (nat i)), s') \<and> ios_ok s' \<and>
      (\<forall>j < ib_iarray_size s. ib_iarray s' ! j = ib_iarray s ! j) \<and> ib_iarray_size s \<le> ib_iarray_size s' \<and>
      (ios_clean s \<longrightarrow> ios_clean s' \<and> words s' = words s) \<and>
      pointers s' = pointers s \<and> callbacks s' = callbacks s \<and> nat i < ib_iarray_size s'"
proof -
  note req = required_int [OF assms(2,3)]
  let ?new = "ios_new_cap 8 (required i) (ib_iarray_cap s)"
  have ok: "length (ib_iarray s) = ib_iarray_cap s" "ib_iarray_size s \<le> ib_iarray_cap s"
    and clean: "ios_clean s \<Longrightarrow> zero_tail (ib_iarray_size s) (ib_iarray s)"
    using assms(1) by (auto simp: ios_ok_def ios_clean_def)
  show ?thesis
  proof (cases "required i > ib_iarray_cap s")
    case False
    then show ?thesis
      using req assms(1,2) ok lookup_larger [OF clean, of "max (ib_iarray_size s) (required i)"]
        zero_tail_larger [OF clean, of "max (ib_iarray_size s) (required i)"]
      by (auto simp: iword_def iword_end_def element_of_def ios_ok_def ios_clean_def words_lookup pointers_lookup callbacks_def)
  next
    case True
    then have mem: "mem (?new * 8)" using assms(4) req by (simp add: iword_room_def)
    have new: "required i \<le> ?new" "ib_iarray_cap s \<le> ?new"
      using ios_new_cap_covers [of "required i" "ib_iarray_cap s"] req True by auto
    let ?ys = "zero_from (ib_iarray_size s) 0 (realloc junk ?new (ib_iarray s))"
    have old: "?ys ! j = ib_iarray s ! j" if "j < ib_iarray_size s" for j
      using that ok new by (simp add: zero_from_def nth_append nth_realloc)
    have len: "length ?ys = ?new" using ok new by (simp add: zero_from_def)
    show ?thesis
      using True mem req assms(1,2) ok new old len array_grown [OF clean, of "required i" ?new junk]
      by (auto simp: iword_def iword_end_def element_of_def ios_ok_def ios_clean_def words_lookup pointers_lookup callbacks_def Let_def)
  qed
qed

text \<open>The array has room for the index, or there is memory to enlarge it.\<close>

definition pword_room :: "(nat \<Rightarrow> bool) \<Rightarrow> int \<Rightarrow> ('f, 'l, 'z) ios_base_scheme \<Rightarrow> bool" where
  "pword_room mem i s \<longleftrightarrow> nat i < ib_parray_cap s \<or> mem (ios_new_cap 8 (nat i + 1) (ib_iarray_cap s) * 8)"

lemma pword_no_room:
  assumes "0 \<le> i" and "i < 2 ^ 31" and "\<not> pword_room mem i s"
  shows "pword mem junk i s = no_memory_outcome s"
  using required_int [OF assms(1,2)] assms(3)
  by (simp add: pword_def pword_room_def setstate_badbit no_memory_outcome_def Let_def)

lemma pword_cases:
  assumes "ios_ok s" and "0 \<le> i" and "i < 2 ^ 31" and "pword_room mem i s"
  shows "\<exists>s'. pword mem junk i s = (Returns (Element (nat i)), s') \<and> ios_ok s' \<and>
      (\<forall>j < ib_parray_size s. ib_parray s' ! j = ib_parray s ! j) \<and> ib_parray_size s \<le> ib_parray_size s' \<and>
      (ios_clean s \<longrightarrow> ios_clean s' \<and> pointers s' = pointers s) \<and>
      words s' = words s \<and> callbacks s' = callbacks s \<and> nat i < ib_parray_size s'"
proof -
  note req = required_int [OF assms(2,3)]
  let ?new = "ios_new_cap 8 (required i) (ib_iarray_cap s)"
  have ok: "length (ib_parray s) = ib_parray_cap s" "ib_parray_size s \<le> ib_parray_cap s"
    and clean: "ios_clean s \<Longrightarrow> zero_tail (ib_parray_size s) (ib_parray s)"
    using assms(1) by (auto simp: ios_ok_def ios_clean_def)
  show ?thesis
  proof (cases "required i > ib_parray_cap s")
    case False
    then show ?thesis
      using req assms(1,2) ok lookup_larger [OF clean, of "max (ib_parray_size s) (required i)"]
        zero_tail_larger [OF clean, of "max (ib_parray_size s) (required i)"]
      by (auto simp: pword_def pword_end_def element_of_def ios_ok_def ios_clean_def words_lookup pointers_lookup callbacks_def)
  next
    case True
    then have mem: "mem (?new * 8)" using assms(4) req by (simp add: pword_room_def)
    have new: "required i \<le> ?new" "ib_parray_cap s \<le> ?new"
      using ios_new_cap_covers [of "required i" "ib_iarray_cap s"] req True by auto
    let ?ys = "zero_from (ib_parray_size s) 0 (realloc junk ?new (ib_parray s))"
    have old: "?ys ! j = ib_parray s ! j" if "j < ib_parray_size s" for j
      using that ok new by (simp add: zero_from_def nth_append nth_realloc)
    have len: "length ?ys = ?new" using ok new by (simp add: zero_from_def)
    show ?thesis
      using True mem req assms(1,2) ok new old len array_grown [OF clean, of "required i" ?new junk]
      by (auto simp: pword_def pword_end_def element_of_def ios_ok_def ios_clean_def words_lookup pointers_lookup callbacks_def Let_def)
  qed
qed

lemma store_word_props:
  "ios_ok s \<Longrightarrow> k < ib_iarray_size s \<Longrightarrow>
   ios_ok (store_word k v s) \<and> (ios_clean s \<longrightarrow> ios_clean (store_word k v s)) \<and> words (store_word k v s) = (words s)(k := v)"
  by (simp add: store_word_def ios_ok_def ios_clean_def words_lookup lookup_store zero_tail_store)

lemma store_pointer_props:
  "ios_ok s \<Longrightarrow> k < ib_parray_size s \<Longrightarrow>
   ios_ok (store_pointer k v s) \<and> (ios_clean s \<longrightarrow> ios_clean (store_pointer k v s)) \<and> pointers (store_pointer k v s) = (pointers s)(k := v)"
  by (simp add: store_pointer_def ios_ok_def ios_clean_def pointers_lookup lookup_store zero_tail_store)

lemma no_memory_not_element [simp]:
  "no_memory_outcome s \<noteq> (Returns (Element k), s')" "(Returns (Element k), s') \<noteq> no_memory_outcome s"
  by (simp_all add: no_memory_outcome_def)

lemma iword_step:
  assumes "ios_ok s \<and> ios_clean s" and "0 \<le> i" and "i < 2 ^ 31" and "iword mem junk i s = (Returns (Element k), s')"
  shows "k = nat i \<and> (ios_ok s' \<and> ios_clean s') \<and> words s' = words s \<and> k < ib_iarray_size s'"
  using iword_cases [of s i mem junk] iword_no_room [of i mem s junk] assms by (cases "iword_room mem i s") auto

lemma pword_step:
  assumes "ios_ok s \<and> ios_clean s" and "0 \<le> i" and "i < 2 ^ 31" and "pword mem junk i s = (Returns (Element k), s')"
  shows "k = nat i \<and> (ios_ok s' \<and> ios_clean s') \<and> pointers s' = pointers s \<and> k < ib_parray_size s'"
  using pword_cases [of s i mem junk] pword_no_room [of i mem s junk] assms by (cases "pword_room mem i s") auto

lemma iword_storage:
  "storage (\<lambda>s. ios_ok s \<and> ios_clean s) words (\<lambda>k s. k < ib_iarray_size s) (iword mem junk) store_word"
  using iword_step store_word_props by unfold_locales blast+

interpretation word_storage: storage "\<lambda>s. ios_ok s \<and> ios_clean s" words "\<lambda>k s. k < ib_iarray_size s" "iword mem junk" store_word for mem junk
  by (rule iword_storage)

lemma pword_storage:
  "storage (\<lambda>s. ios_ok s \<and> ios_clean s) pointers (\<lambda>k s. k < ib_parray_size s) (pword mem junk) store_pointer"
  using pword_step store_pointer_props by unfold_locales blast+

interpretation pointer_storage: storage "\<lambda>s. ios_ok s \<and> ios_clean s" pointers "\<lambda>k s. k < ib_parray_size s" "pword mem junk" store_pointer for mem junk
  by (rule pword_storage)

section \<open>Copying\<close>

lemma copy_array_props:
  assumes "n \<le> length src" and "cap \<le> length dst"
  shows "take n (copy_array junk cap n src dst) = take n src"
    and "n \<le> length (copy_array junk cap n src dst)" and "max cap n \<le> length (copy_array junk cap n src dst)"
    and "length dst = cap \<Longrightarrow> length (copy_array junk cap n src dst) = max cap n"
  using assms by (auto simp: copy_array_def min_def)

lemma lookup_take: "array_lookup n xs = array_lookup n (take n xs)"
  by (simp add: array_lookup_def fun_eq_iff)

lemma lookup_copy: "n \<le> length src \<Longrightarrow> cap \<le> length dst \<Longrightarrow> array_lookup n (copy_array junk cap n src dst) = array_lookup n src"
  using copy_array_props(1) [of n src cap dst junk] lookup_take [of n "copy_array junk cap n src dst"] lookup_take [of n src] by simp

lemma copy_array_old: "n \<le> k \<Longrightarrow> n \<le> cap \<Longrightarrow> n \<le> length src \<Longrightarrow> k < length dst \<Longrightarrow> copy_array junk cap n src dst ! k = dst ! k"
  by (simp add: copy_array_def nth_append min_def)

lemma zero_tail_copy:
  "zero_tail m dst \<Longrightarrow> m \<le> n \<Longrightarrow> n \<le> length src \<Longrightarrow> zero_tail n (copy_array junk cap n src dst)"
  using zero_tail_larger [of m dst n] by (auto simp: zero_tail_def copy_array_def min_def)

text \<open>There is memory for each array of the source that is longer than the capacity of its target.\<close>

definition copy_room ::
  "(nat \<Rightarrow> bool) \<Rightarrow> ('f, 'l, 'z) ios_base_scheme \<Rightarrow> ('f, 'l, 'z) ios_base_scheme \<Rightarrow> bool" where
  "copy_room mem rhs s \<longleftrightarrow>
     (ib_event_cap s < ib_event_size rhs \<longrightarrow> mem (8 * ib_event_size rhs) \<and> mem (4 * ib_event_size rhs)) \<and>
     (ib_iarray_cap s < ib_iarray_size rhs \<longrightarrow> mem (8 * ib_iarray_size rhs)) \<and>
     (ib_parray_cap s < ib_parray_size rhs \<longrightarrow> mem (8 * ib_parray_size rhs))"

lemma copyfmt_no_room: "\<not> copy_room mem rhs s \<Longrightarrow> ios_copyfmt mem junk rhs s = (Bad_alloc, s)"
  by (auto simp: ios_copyfmt_def copy_room_def Let_def)

lemma copyfmt_cases:
  assumes "ios_ok s" and "ios_ok rhs" and room: "copy_room mem rhs s"
  shows "\<exists>s'. ios_copyfmt mem junk rhs s = (Returns (), s') \<and> ios_ok s' \<and>
      words s' = words rhs \<and> pointers s' = pointers rhs \<and> callbacks s' = callbacks rhs \<and>
      ib_fmtflags s' = ib_fmtflags rhs \<and> ib_precision s' = ib_precision rhs \<and> ib_width s' = ib_width rhs \<and> ib_loc s' = ib_loc rhs \<and>
      ib_rdstate s' = ib_rdstate s \<and> ib_exceptions s' = ib_exceptions s \<and> ib_rdbuf s' = ib_rdbuf s \<and>
      ib_iarray s' = copy_array 0 (ib_iarray_cap s) (ib_iarray_size rhs) (ib_iarray rhs) (ib_iarray s) \<and>
      ib_parray s' = copy_array 0 (ib_parray_cap s) (ib_parray_size rhs) (ib_parray rhs) (ib_parray s) \<and>
      ib_iarray_size s' = ib_iarray_size rhs \<and> ib_parray_size s' = ib_parray_size rhs \<and>
      ib_iarray_cap s' = max (ib_iarray_cap s) (ib_iarray_size rhs)"
proof -
  note ok = assms(1,2) [unfolded ios_ok_def]
  have fn: "ib_event_size rhs \<le> length (ib_fn rhs)" "ib_event_cap s \<le> length (ib_fn s)"
    and ix: "ib_event_size rhs \<le> length (ib_index rhs)" "ib_event_cap s \<le> length (ib_index s)"
    and ia: "ib_iarray_size rhs \<le> length (ib_iarray rhs)" "ib_iarray_cap s \<le> length (ib_iarray s)"
    and pa: "ib_parray_size rhs \<le> length (ib_parray rhs)" "ib_parray_cap s \<le> length (ib_parray s)"
    using ok by auto
  show ?thesis
    using ok copy_array_props [OF fn, of junk] copy_array_props [OF ix, of 0] copy_array_props [OF ia, of 0] copy_array_props [OF pa, of 0] room [unfolded copy_room_def]
    by (simp add: ios_copyfmt_def Let_def ios_ok_def callbacks_def words_lookup pointers_lookup lookup_copy [OF ia] lookup_copy [OF pa])
qed

section \<open>Callbacks\<close>

lemma take_realloc: "m \<le> n \<Longrightarrow> m \<le> length xs \<Longrightarrow> take m (realloc junk n xs) = take m xs"
  by (simp add: realloc_def min_def)

text \<open>Whether \<open>setstate(badbit)\<close> throws.\<close>

definition badbit_throws :: "('f, 'l, 'z) ios_base_scheme \<Rightarrow> bool" where
  "badbit_throws s \<longleftrightarrow> (ib_rdstate s OR badbit) AND ib_exceptions s \<noteq> 0"

lemma setstate_badbit': "ios_setstate badbit s = (if badbit_throws s then Failure else Returns (), s\<lparr>ib_rdstate := ib_rdstate s OR badbit\<rparr>)"
  by (simp add: setstate_badbit badbit_throws_def)

lemma store_callback_props:
  assumes "ib_event_size s < ib_event_cap s" and "ib_event_cap s \<le> length (ib_fn s)" and "ib_event_cap s \<le> length (ib_index s)"
  shows "\<exists>s'. store_callback f i s = (Returns (), s') \<and> callbacks s' = callbacks s @ [(f, i)] \<and>
    length (ib_fn s') = length (ib_fn s) \<and> length (ib_index s') = length (ib_index s) \<and>
    s' = s\<lparr>ib_fn := ib_fn s', ib_index := ib_index s', ib_event_size := ib_event_size s + 1\<rparr>"
  using assms by (simp add: store_callback_def callbacks_def take_Suc_conv_app_nth)

text \<open>The arrays of callbacks have room for one more, or there is memory to enlarge both of them.\<close>

definition callback_room :: "(nat \<Rightarrow> bool) \<Rightarrow> ('f, 'l, 'z) ios_base_scheme \<Rightarrow> bool" where
  "callback_room mem s \<longleftrightarrow> ib_event_size s < ib_event_cap s \<or>
     (let n = ios_new_cap 8 (ib_event_size s + 1) (ib_event_cap s) in mem (n * 8) \<and> mem (n * 4))"

lemma register_cases:
  assumes "ios_ok s" and "ib_event_size s < 2 ^ 59"
  shows "if callback_room mem s
    then \<exists>s'. register_callback mem junk f i s = (Returns (), s') \<and> ios_ok s' \<and> (ios_clean s' \<longleftrightarrow> ios_clean s) \<and>
      callbacks s' = callbacks s @ [(f, i)] \<and> words s' = words s \<and> pointers s' = pointers s
    else if badbit_throws s
    then \<exists>s'. register_callback mem junk f i s = (Failure, s') \<and> ios_ok s' \<and> (ios_clean s' \<longleftrightarrow> ios_clean s) \<and>
      callbacks s' = callbacks s \<and> words s' = words s \<and> pointers s' = pointers s \<and> ib_rdstate s' = ib_rdstate s OR badbit
    else fst (register_callback mem junk f i s) = Undefined"
proof (cases "ib_event_size s + 1 > ib_event_cap s")
  case False
  then have room: "ib_event_size s < ib_event_cap s" by simp
  have ok: "ib_event_cap s \<le> length (ib_fn s)" "ib_event_cap s \<le> length (ib_index s)" using assms(1) by (auto simp: ios_ok_def)
  obtain s' where s': "store_callback f i s = (Returns (), s')" "callbacks s' = callbacks s @ [(f, i)]"
    "length (ib_fn s') = length (ib_fn s)" "length (ib_index s') = length (ib_index s)"
    "s' = s\<lparr>ib_fn := ib_fn s', ib_index := ib_index s', ib_event_size := ib_event_size s + 1\<rparr>"
    using store_callback_props [OF room ok, of f i] by blast
  have eq: "ib_iarray s' = ib_iarray s" "ib_iarray_size s' = ib_iarray_size s" "ib_iarray_cap s' = ib_iarray_cap s"
    "ib_parray s' = ib_parray s" "ib_parray_size s' = ib_parray_size s" "ib_parray_cap s' = ib_parray_cap s"
    "ib_event_size s' = ib_event_size s + 1" "ib_event_cap s' = ib_event_cap s"
    by (subst s'(5), simp)+
  show ?thesis
    using False s'(1-4) eq room assms(1) by (simp add: callback_room_def register_callback_def ios_ok_def ios_clean_def words_lookup pointers_lookup)
next
  case True
  then have full: "ib_event_cap s = ib_event_size s" using assms(1) by (simp add: ios_ok_def)
  let ?n = "ios_new_cap 8 (ib_event_size s + 1) (ib_event_cap s)"
  have n: "ib_event_size s + 1 \<le> ?n" using ios_new_cap_covers [of "ib_event_size s + 1" "ib_event_cap s"] assms(2) by simp
  have ok: "ib_event_size s \<le> length (ib_fn s)" "ib_event_size s \<le> length (ib_index s)" using assms(1) full by (auto simp: ios_ok_def)
  let ?t = "s\<lparr>ib_fn := realloc junk ?n (ib_fn s), ib_index := realloc 0 ?n (ib_index s), ib_event_cap := ?n\<rparr>"
  consider (both) "mem (?n * 8)" "mem (?n * 4)" | (throws) "\<not> (mem (?n * 8) \<and> mem (?n * 4))" "badbit_throws s"
    | (null) "\<not> (mem (?n * 8) \<and> mem (?n * 4))" "\<not> badbit_throws s" by blast
  then show ?thesis
  proof cases
    case both
    obtain s' where s': "store_callback f i ?t = (Returns (), s')" "callbacks s' = callbacks ?t @ [(f, i)]"
      "length (ib_fn s') = length (ib_fn ?t)" "length (ib_index s') = length (ib_index ?t)"
      "s' = ?t\<lparr>ib_fn := ib_fn s', ib_index := ib_index s', ib_event_size := ib_event_size ?t + 1\<rparr>"
      using store_callback_props [of ?t f i] n by auto
    have eq: "ib_iarray s' = ib_iarray s" "ib_iarray_size s' = ib_iarray_size s" "ib_iarray_cap s' = ib_iarray_cap s"
      "ib_parray s' = ib_parray s" "ib_parray_size s' = ib_parray_size s" "ib_parray_cap s' = ib_parray_cap s"
      "ib_event_size s' = ib_event_size s + 1" "ib_event_cap s' = ?n"
      by (subst s'(5), simp)+
    have "callbacks ?t = callbacks s" using n ok by (simp add: callbacks_def take_realloc)
    then show ?thesis
      using True both s'(1-4) eq n assms(1)
      by (simp add: callback_room_def register_callback_def grow_fn_def grow_index_def Let_def ios_ok_def ios_clean_def words_lookup pointers_lookup)
  next
    case throws
    then show ?thesis
      using True n ok assms(1) full
      by (auto simp: callback_room_def register_callback_def grow_fn_def grow_index_def Let_def setstate_badbit' badbit_throws_def ios_ok_def ios_clean_def words_lookup pointers_lookup
        callbacks_def take_realloc)
  next
    case null
    then show ?thesis
      using True n ok full
      by (auto simp: callback_room_def register_callback_def grow_fn_def grow_index_def Let_def setstate_badbit' badbit_throws_def store_callback_def or.assoc)
  qed
qed

lemma call_loop_fold:
  assumes "\<And>f i s. ib_fn (run f ev i s) = ib_fn s \<and> ib_index (run f ev i s) = ib_index s"
  shows "n \<le> length (ib_fn s) \<Longrightarrow> n \<le> length (ib_index s) \<Longrightarrow>
    call_loop run ev n s = (Returns (), fold (\<lambda>(f, i). run f ev i) (rev (zip (take n (ib_fn s)) (take n (ib_index s)))) s)"
  by (induction n arbitrary: s) (simp_all add: take_Suc_conv_app_nth assms)

section \<open>Reachable states\<close>

text \<open>
  The states that calls reach from \<open>init\<close>, but for calls with undefined behaviour.  The first argument says whether no \<open>copyfmt\<close> from
  a stream with smaller arrays has come before: behind such a copy the arrays keep old values (see \<open>ios_guarantees\<close>).
\<close>

inductive ios_reached :: "bool \<Rightarrow> ('f, 'l, 'z) ios_base_scheme \<Rightarrow> bool" where
  init: "ios_reached True (ios_init loc sb s)"
| word: "ios_reached z s \<Longrightarrow> 0 \<le> i \<Longrightarrow> i < 2 ^ 31 \<Longrightarrow> iword mem junk i s = (r, s') \<Longrightarrow> ios_reached z s'"
| store: "ios_reached z s \<Longrightarrow> k < ib_iarray_size s \<Longrightarrow> ios_reached z (store_word k v s)"
| pointer: "ios_reached z s \<Longrightarrow> 0 \<le> i \<Longrightarrow> i < 2 ^ 31 \<Longrightarrow> pword mem junk' i s = (r, s') \<Longrightarrow> ios_reached z s'"
| store_pointer: "ios_reached z s \<Longrightarrow> k < ib_parray_size s \<Longrightarrow> ios_reached z (store_pointer k p s)"
| callback: "ios_reached z s \<Longrightarrow> ib_event_size s < 2 ^ 59 \<Longrightarrow> register_callback mem f' f i s = (r', s') \<Longrightarrow> r' \<noteq> Undefined \<Longrightarrow>
    ios_reached z s'"
| format: "ios_reached z s \<Longrightarrow>
    ios_reached z (s\<lparr>ib_fmtflags := fl, ib_precision := a, ib_width := b, ib_loc := loc, ib_rdbuf := sb\<rparr>)"
| state: "ios_reached z s \<Longrightarrow> ios_reached z (snd (ios_clear st (s\<lparr>ib_exceptions := e\<rparr>)))"
| rethrow: "ios_reached z s \<Longrightarrow> ios_reached z (snd (set_bit_and_rethrow st s))"
| copy: "ios_reached z s \<Longrightarrow> ios_reached y rhs \<Longrightarrow> ios_copyfmt mem f' rhs s = (r', s') \<Longrightarrow>
    ios_reached (z \<and> ib_iarray_size s \<le> ib_iarray_size rhs \<and> ib_parray_size s \<le> ib_parray_size rhs) s'"
| move: "ios_reached y rhs \<Longrightarrow> ios_move s rhs = (s', rhs') \<Longrightarrow> ios_reached y s'"
| moved: "ios_reached y rhs \<Longrightarrow> ios_move s rhs = (s', rhs') \<Longrightarrow> ios_reached True rhs'"
| swap: "ios_reached z s \<Longrightarrow> ios_reached y rhs \<Longrightarrow> ios_swap s rhs = (s', rhs') \<Longrightarrow> ios_reached y s'"

lemma zero_tail_Nil [simp]: "zero_tail n []"
  by (simp add: zero_tail_def)

lemma no_memory_keeps: "no_memory_outcome s = (r, s') \<Longrightarrow> (ios_ok s' \<longleftrightarrow> ios_ok s) \<and> (ios_clean s' \<longleftrightarrow> ios_clean s)"
  by (auto simp: no_memory_outcome_def ios_ok_def ios_clean_def)

lemma ios_reached_ok: "ios_reached z s \<Longrightarrow> ios_ok s \<and> (z \<longrightarrow> ios_clean s)"
proof (induction rule: ios_reached.induct)
  case (init loc sb s)
  then show ?case by (simp add: ios_init_def ios_ok_def ios_clean_def)
next
  case (word z s i mem junk r s')
  then show ?case
    using iword_cases [of s i mem junk] iword_no_room [of i mem s junk] no_memory_keeps [of s r s'] by (cases "iword_room mem i s") auto
next
  case (store z s k v)
  then show ?case using store_word_props by blast
next
  case (pointer z s i mem junk' r s')
  then show ?case
    using pword_cases [of s i mem junk'] pword_no_room [of i mem s junk'] no_memory_keeps [of s r s'] by (cases "pword_room mem i s") auto
next
  case (store_pointer z s k p)
  then show ?case using store_pointer_props by blast
next
  case (callback z s mem f' f i r' s')
  then show ?case
    using register_cases [where s = s and mem = mem and junk = f' and f = f and i = i] by (auto split: if_splits)
next
  case (format z s sb loc b a fl)
  then show ?case by (simp add: ios_ok_def ios_clean_def)
next
  case (state z s st e)
  then show ?case by (simp add: ios_clear_def ios_ok_def ios_clean_def)
next
  case (rethrow z s st)
  then show ?case by (simp add: set_bit_and_rethrow_def ios_ok_def ios_clean_def)
next
  case (copy z s y rhs mem f' r' s')
  have ok: "ios_ok s" "ios_ok rhs" using copy.IH by auto
  have "ib_iarray_size rhs \<le> length (ib_iarray rhs)" "ib_parray_size rhs \<le> length (ib_parray rhs)"
    using ok(2) by (auto simp: ios_ok_def)
  then show ?case
    using copyfmt_cases [OF ok, of mem f'] copyfmt_no_room [of mem rhs s f'] copy.IH copy.hyps
      zero_tail_copy [of "ib_iarray_size s" "ib_iarray s" "ib_iarray_size rhs" "ib_iarray rhs" 0 "ib_iarray_cap s"]
      zero_tail_copy [of "ib_parray_size s" "ib_parray s" "ib_parray_size rhs" "ib_parray rhs" 0 "ib_parray_cap s"]
    by (cases "copy_room mem rhs s") (auto simp: ios_clean_def)
next
  case (move y rhs s s' rhs')
  then show ?case by (auto simp: ios_move_def ios_ok_def ios_clean_def)
next
  case (moved y rhs s s' rhs')
  then show ?case by (auto simp: ios_move_def ios_ok_def ios_clean_def)
next
  case (swap z s y rhs s' rhs')
  then show ?case by (auto simp: ios_swap_def Let_def ios_ok_def ios_clean_def)
qed

section \<open>Properties\<close>

lemma iword_returns:
  assumes "ios_ok s" and "z \<longrightarrow> ios_clean s" and "0 \<le> i" and "i < 2 ^ 31" and "iword_room mem i s"
  shows "\<exists>s'. iword mem junk i s = (Returns (Element (nat i)), s') \<and> ib_iarray s' ! nat i = words s' (nat i) \<and>
    (\<forall>k < ib_iarray_size s. words s' k = words s k) \<and> (z \<longrightarrow> words s' = words s) \<and>
    pointers s' = pointers s \<and> callbacks s' = callbacks s \<and> words (store_word (nat i) v s') = (words s')(nat i := v)"
  using iword_cases [OF assms(1,3,4,5), of junk] store_word_props [where v = v and k = "nat i"] assms(2)
  by (fastforce simp: words_def)

lemma pword_returns:
  assumes "ios_ok s" and "z \<longrightarrow> ios_clean s" and "0 \<le> i" and "i < 2 ^ 31" and "pword_room mem i s"
  shows "\<exists>s'. pword mem junk i s = (Returns (Element (nat i)), s') \<and> ib_parray s' ! nat i = pointers s' (nat i) \<and>
    (\<forall>k < ib_parray_size s. pointers s' k = pointers s k) \<and> (z \<longrightarrow> pointers s' = pointers s) \<and>
    words s' = words s \<and> callbacks s' = callbacks s \<and> pointers (store_pointer (nat i) v s') = (pointers s')(nat i := v)"
  using pword_cases [OF assms(1,3,4,5), of junk] store_pointer_props [where v = v and k = "nat i"] assms(2)
  by (fastforce simp: pointers_def)

text \<open>
  C20: In every state that calls reach without undefined behaviour, \<open>iword\<close> and \<open>pword\<close> with a non-negative index return, if the array has room or there is
  memory to enlarge it, a reference to the element: the values stored so far and the callbacks stay the same, however the array grows, and storing through
  the reference changes that value alone.  If no \<open>copyfmt\<close> from a stream with smaller arrays came before (it leaves old values behind the end),
  both are maps from indices to values that are zero until something is stored: no value at all changes, and a later call finds what was stored.
  If there is neither room nor memory, \<open>badbit\<close> is set and nothing else changes; \<open>failure\<close> is thrown if the exception mask has a bit of the
  new state, otherwise a reference to a zero outside of the array is returned.
\<close>

theorem ios_storage:
  assumes "ios_reached z s" and "0 \<le> i" and "i < 2 ^ 31" and "0 \<le> j" and "j < 2 ^ 31"
  shows "(iword_room mem i s \<longrightarrow>
      (\<exists>s'. iword mem junk i s = (Returns (Element (nat i)), s') \<and> ib_iarray s' ! nat i = words s' (nat i) \<and>
        (\<forall>k < ib_iarray_size s. words s' k = words s k) \<and> (z \<longrightarrow> words s' = words s) \<and>
        pointers s' = pointers s \<and> callbacks s' = callbacks s \<and> words (store_word (nat i) v s') = (words s')(nat i := v))) \<and>
    (pword_room mem i s \<longrightarrow>
      (\<exists>s'. pword mem junk' i s = (Returns (Element (nat i)), s') \<and> ib_parray s' ! nat i = pointers s' (nat i) \<and>
        (\<forall>k < ib_parray_size s. pointers s' k = pointers s k) \<and> (z \<longrightarrow> pointers s' = pointers s) \<and>
        words s' = words s \<and> callbacks s' = callbacks s \<and> pointers (store_pointer (nat i) p s') = (pointers s')(nat i := p))) \<and>
    (\<not> iword_room mem i s \<longrightarrow> iword mem junk i s = no_memory_outcome s) \<and>
    (\<not> pword_room mem i s \<longrightarrow> pword mem junk' i s = no_memory_outcome s) \<and>
    (z \<and> iword mem junk i s = (Returns (Element k), s1) \<and> iword mem junk j (store_word k v s1) = (Returns (Element m), s2) \<longrightarrow>
      words s2 m = (if i = j then v else words s m)) \<and>
    (z \<and> pword mem junk' i s = (Returns (Element k), t1) \<and> pword mem junk' j (store_pointer k p t1) = (Returns (Element m), t2) \<longrightarrow>
      pointers t2 m = (if i = j then p else pointers s m))"
proof -
  have s: "ios_ok s" "z \<longrightarrow> ios_clean s" using ios_reached_ok [OF assms(1)] by auto
  note ret = iword_returns [OF s assms(2,3)] pword_returns [OF s assms(2,3)]
  note fails = iword_no_room [OF assms(2,3)] pword_no_room [OF assms(2,3)]
  show ?thesis
    using word_storage.read_after_write [of s i j mem junk k s1 v m s2]
      pointer_storage.read_after_write [of s i j mem junk' k t1 p m t2] s assms(2-5)
    by (intro conjI impI ret fails) blast+
qed

theorem ios_storage_witness:
  "\<exists>s1 s2. iword (\<lambda>n. True) 5 0 (ios_init () 1 (undefined :: (unit, unit) ios_base)) = (Returns (Element 0), s1) \<and>
     iword (\<lambda>n. True) 5 3 (store_word 0 7 s1) = (Returns (Element 3), s2) \<and> words s2 3 = 0"
proof -
  let ?s = "ios_init () 1 (undefined :: (unit, unit) ios_base)"
  note st = ios_storage [OF ios_reached.init [of "()" 1 "undefined :: (unit, unit) ios_base"], where i = 0 and j = 3 and mem = "\<lambda>n. True" and junk = 5 and v = 7]
  obtain s1 where 1: "iword (\<lambda>n. True) 5 0 ?s = (Returns (Element 0), s1)"
    using st [THEN conjunct1] by (auto simp: iword_room_def)
  have "ios_reached True s1" and "0 < ib_iarray_size s1"
    using ios_reached.word [OF ios_reached.init _ _ 1] 1 by (auto simp: iword_def ios_init_def iword_end_def required_def Let_def)
  then have "ios_reached True (store_word 0 7 s1)" by (rule ios_reached.store)
  note ios_storage [OF this, where i = 3 and j = 3 and mem = "\<lambda>n. True" and junk = 5, THEN conjunct1]
  then obtain s2 where 2: "iword (\<lambda>n. True) 5 3 (store_word 0 7 s1) = (Returns (Element 3), s2)" by (auto simp: iword_room_def)
  have "words s2 3 = (if (0::int) = 3 then 7 else words ?s 3)"
    using st [THEN conjunct2, THEN conjunct2, THEN conjunct2, THEN conjunct2, THEN conjunct1, of 0 s1 3 s2] 1 2 by simp
  then show ?thesis using 1 2 by (auto simp: words_def ios_init_def)
qed

lemma copyfmt_stale:
  assumes "ios_ok s" and "ios_ok rhs" and "ios_ok s'"
    and "ib_iarray s' = copy_array 0 (ib_iarray_cap s) (ib_iarray_size rhs) (ib_iarray rhs) (ib_iarray s)"
    and "ib_iarray_cap s' = max (ib_iarray_cap s) (ib_iarray_size rhs)"
    and "0 \<le> k" "k < 2 ^ 31" "ib_iarray_size rhs \<le> nat k" "nat k < ib_iarray_size s"
  shows "\<exists>s''. iword mem junk k s' = (Returns (Element (nat k)), s'') \<and> ib_iarray s'' ! nat k = words s (nat k)"
proof -
  have "nat k < ib_iarray_cap s" "ib_iarray_size rhs \<le> length (ib_iarray rhs)" "length (ib_iarray s) = ib_iarray_cap s"
    "length (ib_iarray s') = ib_iarray_cap s'"
    using assms(1-3,9) by (auto simp: ios_ok_def)
  moreover from this have "ib_iarray s' ! nat k = ib_iarray s ! nat k" using assms(4,8) by (simp add: copy_array_old)
  ultimately show ?thesis
    using required_int [OF assms(6,7)] assms(5,6,9) by (simp add: iword_def iword_end_def element_of_def words_def)
qed

text \<open>
  C21: If there is memory for each array that has to be enlarged, \<open>copyfmt\<close> copies the format, the callbacks and all values of \<open>iword\<close> and
  \<open>pword\<close>, and leaves the state bits, the exception mask and the buffer alone; if not, it throws \<open>bad_alloc\<close> and changes nothing.  But where the
  array was longer before, a later \<open>iword\<close> behind the copied values finds the old value instead of zero.  A callback that is registered with room or
  memory for both of its arrays comes last in the list; callbacks that do not register others are called from the last one to the first.  Without
  memory for one of them, \<open>failure\<close> is thrown with all callbacks kept if \<open>setstate(badbit)\<close> throws; if it does not, a null pointer is written through
  (for fewer than 2^59 callbacks).
\<close>

theorem ios_guarantees:
  assumes "ios_ok s" and "ios_ok rhs" and "ib_event_size s < 2 ^ 59"
  shows "(if copy_room mem rhs s
    then \<exists>s'. ios_copyfmt mem junk rhs s = (Returns (), s') \<and> ios_ok s' \<and>
        words s' = words rhs \<and> pointers s' = pointers rhs \<and> callbacks s' = callbacks rhs \<and>
        ib_fmtflags s' = ib_fmtflags rhs \<and> ib_precision s' = ib_precision rhs \<and> ib_width s' = ib_width rhs \<and> ib_loc s' = ib_loc rhs \<and>
        ib_rdstate s' = ib_rdstate s \<and> ib_exceptions s' = ib_exceptions s \<and> ib_rdbuf s' = ib_rdbuf s \<and>
        (0 \<le> k \<and> k < 2 ^ 31 \<and> ib_iarray_size rhs \<le> nat k \<and> nat k < ib_iarray_size s \<longrightarrow>
          (\<exists>s''. iword mem' junk' k s' = (Returns (Element (nat k)), s'') \<and> ib_iarray s'' ! nat k = words s (nat k)))
    else ios_copyfmt mem junk rhs s = (Bad_alloc, s)) \<and>
   (if callback_room mem s
    then \<exists>s'. register_callback mem junk f i s = (Returns (), s') \<and> ios_ok s' \<and>
        callbacks s' = callbacks s @ [(f, i)] \<and> words s' = words s \<and> pointers s' = pointers s
    else if badbit_throws s
    then \<exists>s'. register_callback mem junk f i s = (Failure, s') \<and> ios_ok s' \<and>
        callbacks s' = callbacks s \<and> words s' = words s \<and> pointers s' = pointers s \<and> ib_rdstate s' = ib_rdstate s OR badbit
    else fst (register_callback mem junk f i s) = Undefined) \<and>
   ((\<forall>f i s. ib_fn (run f ev i s) = ib_fn s \<and> ib_index (run f ev i s) = ib_index s) \<longrightarrow>
      call_callbacks run ev s = (Returns (), fold (\<lambda>(f, i). run f ev i) (rev (callbacks s)) s))"
proof (intro conjI, goal_cases)
  case 1
  show ?case
  proof (cases "copy_room mem rhs s")
    case True
    from copyfmt_cases [OF assms(1,2) True, of junk] obtain s' where cp:
      "ios_copyfmt mem junk rhs s = (Returns (), s')" "ios_ok s'"
      "words s' = words rhs" "pointers s' = pointers rhs" "callbacks s' = callbacks rhs"
      "ib_fmtflags s' = ib_fmtflags rhs" "ib_precision s' = ib_precision rhs" "ib_width s' = ib_width rhs" "ib_loc s' = ib_loc rhs"
      "ib_rdstate s' = ib_rdstate s" "ib_exceptions s' = ib_exceptions s" "ib_rdbuf s' = ib_rdbuf s"
      and arr: "ib_iarray s' = copy_array 0 (ib_iarray_cap s) (ib_iarray_size rhs) (ib_iarray rhs) (ib_iarray s)"
      "ib_iarray_cap s' = max (ib_iarray_cap s) (ib_iarray_size rhs)" by blast
    show ?thesis
      using True cp copyfmt_stale [OF assms(1,2) cp(2) arr, of k mem' junk'] by simp
  qed (simp add: copyfmt_no_room)
next
  case 2
  show ?case
    using register_cases [OF assms(1,3), where mem = mem and junk = junk and f = f and i = i] by (auto split: if_splits)
next
  case 3
  show ?case
    using call_loop_fold [of run ev "ib_event_size s" s] assms(1) by (auto simp: call_callbacks_def callbacks_def ios_ok_def)
qed

text \<open>A stream whose \<open>iword(0)\<close> is 7, and a fresh one.\<close>

definition sample_ios :: "(nat, unit) ios_base" where
  "sample_ios = snd (iword (\<lambda>n. True) 0 0 (ios_init () 1 undefined))\<lparr>ib_iarray := [7]\<rparr>"

definition fresh_ios :: "(nat, unit) ios_base" where
  "fresh_ios = ios_init () 1 undefined"

theorem ios_guarantees_witness:
  "words (snd (ios_copyfmt (\<lambda>n. True) 0 fresh_ios sample_ios)) 0 = 0 \<and>
   (\<exists>s''. iword (\<lambda>n. True) 0 0 (snd (ios_copyfmt (\<lambda>n. True) 0 fresh_ios sample_ios)) = (Returns (Element 0), s'') \<and>
     ib_iarray s'' ! 0 = 7) \<and>
   fst (register_callback (\<lambda>n. False) 0 1 2 sample_ios) = Undefined"
proof -
  have fresh: "ios_ok fresh_ios" "ib_iarray_size fresh_ios = 0"
    by (simp_all add: fresh_ios_def ios_init_def ios_ok_def)
  have sample: "ios_ok sample_ios" "ib_iarray_size sample_ios = 1" "ib_event_size sample_ios = 0" "ib_event_cap sample_ios = 0"
    "\<not> badbit_throws sample_ios" "words sample_ios 0 = 7"
    by (simp_all add: sample_ios_def ios_init_def ios_ok_def iword_def iword_end_def required_def ios_new_cap_def Let_def words_def
      badbit_throws_def goodbit_def)
  have es: "ib_event_size sample_ios < 2 ^ 59" using sample(3) by simp
  note g = ios_guarantees [OF sample(1) fresh(1) es, where mem = "\<lambda>n. True" and mem' = "\<lambda>n. True" and k = 0 and junk = 0 and junk' = 0]
  have room: "copy_room (\<lambda>n. True) fresh_ios sample_ios" "\<not> callback_room (\<lambda>n. False) sample_ios"
    using sample by (simp_all add: copy_room_def callback_room_def)
  obtain s' where cp: "ios_copyfmt (\<lambda>n. True) 0 fresh_ios sample_ios = (Returns (), s')"
    and "words s' = words fresh_ios" "\<exists>s''. iword (\<lambda>n. True) 0 0 s' = (Returns (Element 0), s'') \<and> ib_iarray s'' ! 0 = 7"
    using g [THEN conjunct1] sample fresh room by auto
  moreover have "fst (register_callback (\<lambda>n. False) 0 1 2 sample_ios) = Undefined"
    using ios_guarantees [OF sample(1) fresh(1) es, where mem = "\<lambda>n. False" and junk = 0 and f = 1 and i = 2, THEN conjunct2, THEN conjunct1]
      room sample by simp
  ultimately show ?thesis using cp fresh(2) by (simp add: words_def)
qed

end
