(* ===== verification/String_Conv.thy ===== *)
theory String_Conv
  imports Prelude
begin

text \<open>
  \<open>src/src/string.cpp\<close>: \<open>stoi\<close> to \<open>stold\<close>, which map the results of \<open>strtol\<close> and its relatives to values and exceptions, and
  \<open>to_string\<close> and \<open>to_wstring\<close>, which call \<open>snprintf\<close> or \<open>swprintf\<close> until the text fits.  Strings are lists of 8 bit, wide
  strings of 32 bit characters.  The functions of the C library are parameters: \<open>f str base\<close> gives the value, the number of
  characters read and the \<open>errno\<close> it leaves (0 if it sets none); a printing function gives its status and what it has
  written, without the terminator, into a buffer of the given size.  So is the capacity of a string of a given length.
\<close>

section \<open>Reading\<close>

datatype conv_error = Out_of_range | Invalid_argument

definition ERANGE :: int where "ERANGE = 34"
definition INT_MIN :: int where "INT_MIN = - 2147483648"
definition INT_MAX :: int where "INT_MAX = 2147483647"

definition c_str :: "'c::zero list \<Rightarrow> 'c list" where
  "c_str str = takeWhile (\<lambda>c. c \<noteq> 0) str"

text \<open>The result, \<open>*idx\<close> (\<open>None\<close> for a null pointer) and \<open>errno\<close>.\<close>

definition as_integer_helper ::
  "('c::zero list \<Rightarrow> int \<Rightarrow> int \<times> nat \<times> int) \<Rightarrow> 'c list \<Rightarrow> nat option \<Rightarrow> int \<Rightarrow> int \<Rightarrow> (conv_error + int) \<times> nat option \<times> int" where
  "as_integer_helper f str idx base errno =
     (let errno_save = errno;
          (r, n, errno) = f (c_str str) base;
          (errno, errno_save) = (errno_save, errno) in
      if errno_save = ERANGE then (Inl Out_of_range, idx, errno)
      else if n = 0 then (Inl Invalid_argument, idx, errno)
      else (Inr r, map_option (\<lambda>_. n) idx, errno))"

text \<open>For \<open>int\<close>: a \<open>long\<close> is read and its range checked; \<open>*idx\<close> has been set by then.\<close>

definition as_integer_int ::
  "('c::zero list \<Rightarrow> int \<Rightarrow> int \<times> nat \<times> int) \<Rightarrow> 'c list \<Rightarrow> nat option \<Rightarrow> int \<Rightarrow> int \<Rightarrow> (conv_error + int) \<times> nat option \<times> int" where
  "as_integer_int f str idx base errno =
     (case as_integer_helper f str idx base errno of
        (Inl e, idx, errno) \<Rightarrow> (Inl e, idx, errno)
      | (Inr r, idx, errno) \<Rightarrow>
          if r < INT_MIN \<or> INT_MAX < r then (Inl Out_of_range, idx, errno) else (Inr r, idx, errno))"

definition as_float_helper ::
  "('c::zero list \<Rightarrow> 'v \<times> nat \<times> int) \<Rightarrow> 'c list \<Rightarrow> nat option \<Rightarrow> int \<Rightarrow> (conv_error + 'v) \<times> nat option \<times> int" where
  "as_float_helper f str idx errno =
     (let errno_save = errno;
          (r, n, errno) = f (c_str str);
          (errno, errno_save) = (errno_save, errno) in
      if errno_save = ERANGE then (Inl Out_of_range, idx, errno)
      else if n = 0 then (Inl Invalid_argument, idx, errno)
      else (Inr r, map_option (\<lambda>_. n) idx, errno))"

definition stoi :: "(u8 list \<Rightarrow> int \<Rightarrow> int \<times> nat \<times> int) \<Rightarrow> u8 list \<Rightarrow> nat option \<Rightarrow> int \<Rightarrow> int \<Rightarrow> (conv_error + int) \<times> nat option \<times> int" where
  "stoi strtol str idx base errno = as_integer_int strtol str idx base errno"

definition stoi_w :: "(u32 list \<Rightarrow> int \<Rightarrow> int \<times> nat \<times> int) \<Rightarrow> u32 list \<Rightarrow> nat option \<Rightarrow> int \<Rightarrow> int \<Rightarrow> (conv_error + int) \<times> nat option \<times> int" where
  "stoi_w wcstol str idx base errno = as_integer_int wcstol str idx base errno"

definition stol :: "(u8 list \<Rightarrow> int \<Rightarrow> int \<times> nat \<times> int) \<Rightarrow> u8 list \<Rightarrow> nat option \<Rightarrow> int \<Rightarrow> int \<Rightarrow> (conv_error + int) \<times> nat option \<times> int" where
  "stol strtol str idx base errno = as_integer_helper strtol str idx base errno"

definition stol_w :: "(u32 list \<Rightarrow> int \<Rightarrow> int \<times> nat \<times> int) \<Rightarrow> u32 list \<Rightarrow> nat option \<Rightarrow> int \<Rightarrow> int \<Rightarrow> (conv_error + int) \<times> nat option \<times> int" where
  "stol_w wcstol str idx base errno = as_integer_helper wcstol str idx base errno"

definition stoul :: "(u8 list \<Rightarrow> int \<Rightarrow> int \<times> nat \<times> int) \<Rightarrow> u8 list \<Rightarrow> nat option \<Rightarrow> int \<Rightarrow> int \<Rightarrow> (conv_error + int) \<times> nat option \<times> int" where
  "stoul strtoul str idx base errno = as_integer_helper strtoul str idx base errno"

definition stoul_w :: "(u32 list \<Rightarrow> int \<Rightarrow> int \<times> nat \<times> int) \<Rightarrow> u32 list \<Rightarrow> nat option \<Rightarrow> int \<Rightarrow> int \<Rightarrow> (conv_error + int) \<times> nat option \<times> int" where
  "stoul_w wcstoul str idx base errno = as_integer_helper wcstoul str idx base errno"

definition stoll :: "(u8 list \<Rightarrow> int \<Rightarrow> int \<times> nat \<times> int) \<Rightarrow> u8 list \<Rightarrow> nat option \<Rightarrow> int \<Rightarrow> int \<Rightarrow> (conv_error + int) \<times> nat option \<times> int" where
  "stoll strtoll str idx base errno = as_integer_helper strtoll str idx base errno"

definition stoll_w :: "(u32 list \<Rightarrow> int \<Rightarrow> int \<times> nat \<times> int) \<Rightarrow> u32 list \<Rightarrow> nat option \<Rightarrow> int \<Rightarrow> int \<Rightarrow> (conv_error + int) \<times> nat option \<times> int" where
  "stoll_w wcstoll str idx base errno = as_integer_helper wcstoll str idx base errno"

definition stoull :: "(u8 list \<Rightarrow> int \<Rightarrow> int \<times> nat \<times> int) \<Rightarrow> u8 list \<Rightarrow> nat option \<Rightarrow> int \<Rightarrow> int \<Rightarrow> (conv_error + int) \<times> nat option \<times> int" where
  "stoull strtoull str idx base errno = as_integer_helper strtoull str idx base errno"

definition stoull_w :: "(u32 list \<Rightarrow> int \<Rightarrow> int \<times> nat \<times> int) \<Rightarrow> u32 list \<Rightarrow> nat option \<Rightarrow> int \<Rightarrow> int \<Rightarrow> (conv_error + int) \<times> nat option \<times> int" where
  "stoull_w wcstoull str idx base errno = as_integer_helper wcstoull str idx base errno"

definition stof :: "(u8 list \<Rightarrow> 'v \<times> nat \<times> int) \<Rightarrow> u8 list \<Rightarrow> nat option \<Rightarrow> int \<Rightarrow> (conv_error + 'v) \<times> nat option \<times> int" where
  "stof strtof str idx errno = as_float_helper strtof str idx errno"

definition stof_w :: "(u32 list \<Rightarrow> 'v \<times> nat \<times> int) \<Rightarrow> u32 list \<Rightarrow> nat option \<Rightarrow> int \<Rightarrow> (conv_error + 'v) \<times> nat option \<times> int" where
  "stof_w wcstof str idx errno = as_float_helper wcstof str idx errno"

definition stod :: "(u8 list \<Rightarrow> 'v \<times> nat \<times> int) \<Rightarrow> u8 list \<Rightarrow> nat option \<Rightarrow> int \<Rightarrow> (conv_error + 'v) \<times> nat option \<times> int" where
  "stod strtod str idx errno = as_float_helper strtod str idx errno"

definition stod_w :: "(u32 list \<Rightarrow> 'v \<times> nat \<times> int) \<Rightarrow> u32 list \<Rightarrow> nat option \<Rightarrow> int \<Rightarrow> (conv_error + 'v) \<times> nat option \<times> int" where
  "stod_w wcstod str idx errno = as_float_helper wcstod str idx errno"

definition stold :: "(u8 list \<Rightarrow> 'v \<times> nat \<times> int) \<Rightarrow> u8 list \<Rightarrow> nat option \<Rightarrow> int \<Rightarrow> (conv_error + 'v) \<times> nat option \<times> int" where
  "stold strtold str idx errno = as_float_helper strtold str idx errno"

definition stold_w :: "(u32 list \<Rightarrow> 'v \<times> nat \<times> int) \<Rightarrow> u32 list \<Rightarrow> nat option \<Rightarrow> int \<Rightarrow> (conv_error + 'v) \<times> nat option \<times> int" where
  "stold_w wcstold str idx errno = as_float_helper wcstold str idx errno"

section \<open>Printing\<close>

definition resize :: "nat \<Rightarrow> 'c::zero list \<Rightarrow> 'c list" where
  "resize n s = take n s @ replicate (n - length s) 0"

text \<open>What a printing function has written, with its terminator, over the buffer.\<close>

definition written :: "'c::zero list \<Rightarrow> 'c list \<Rightarrow> 'c list" where
  "written s w = take (length s) (w @ [0] @ drop (length w + 1) s)"

text \<open>\<open>as_string\<close>: \<open>None\<close> where the loop does not end.\<close>

partial_function (option) as_string :: "(nat \<Rightarrow> int \<times> 'c::zero list) \<Rightarrow> 'c list \<Rightarrow> 'c list option" where
  "as_string sprintf_like s =
     (let available = length s;
          (status, w) = sprintf_like (available + 1);
          s = written s w in
      if 0 \<le> status then
        let used = nat status in
        if used \<le> available then Some (resize used s)
        else as_string sprintf_like (resize used s)
      else as_string sprintf_like (resize (available * 2 + 1) s))"

definition initial_string :: "(nat \<Rightarrow> nat) \<Rightarrow> u8 list" where
  "initial_string capacity = resize (capacity 0) []"

definition initial_wstring :: "(nat \<Rightarrow> nat) \<Rightarrow> u32 list" where
  "initial_wstring capacity =
     (let n = 64 div 3 + (if 64 mod 3 \<noteq> (0::nat) then 1 else 0) + 1; s = replicate n 0 in resize (capacity n) s)"

definition initial_wstring_float :: "(nat \<Rightarrow> nat) \<Rightarrow> u32 list" where
  "initial_wstring_float capacity = (let s = replicate 20 0 in resize (capacity 20) s)"

definition to_string_int :: "(string \<Rightarrow> 'v \<Rightarrow> nat \<Rightarrow> int \<times> u8 list) \<Rightarrow> (nat \<Rightarrow> nat) \<Rightarrow> 'v \<Rightarrow> u8 list option" where
  "to_string_int snprintf capacity val = as_string (snprintf ''%d'' val) (initial_string capacity)"

definition to_string_unsigned :: "(string \<Rightarrow> 'v \<Rightarrow> nat \<Rightarrow> int \<times> u8 list) \<Rightarrow> (nat \<Rightarrow> nat) \<Rightarrow> 'v \<Rightarrow> u8 list option" where
  "to_string_unsigned snprintf capacity val = as_string (snprintf ''%u'' val) (initial_string capacity)"

definition to_string_long :: "(string \<Rightarrow> 'v \<Rightarrow> nat \<Rightarrow> int \<times> u8 list) \<Rightarrow> (nat \<Rightarrow> nat) \<Rightarrow> 'v \<Rightarrow> u8 list option" where
  "to_string_long snprintf capacity val = as_string (snprintf ''%ld'' val) (initial_string capacity)"

definition to_string_ulong :: "(string \<Rightarrow> 'v \<Rightarrow> nat \<Rightarrow> int \<times> u8 list) \<Rightarrow> (nat \<Rightarrow> nat) \<Rightarrow> 'v \<Rightarrow> u8 list option" where
  "to_string_ulong snprintf capacity val = as_string (snprintf ''%lu'' val) (initial_string capacity)"

definition to_string_llong :: "(string \<Rightarrow> 'v \<Rightarrow> nat \<Rightarrow> int \<times> u8 list) \<Rightarrow> (nat \<Rightarrow> nat) \<Rightarrow> 'v \<Rightarrow> u8 list option" where
  "to_string_llong snprintf capacity val = as_string (snprintf ''%lld'' val) (initial_string capacity)"

definition to_string_ullong :: "(string \<Rightarrow> 'v \<Rightarrow> nat \<Rightarrow> int \<times> u8 list) \<Rightarrow> (nat \<Rightarrow> nat) \<Rightarrow> 'v \<Rightarrow> u8 list option" where
  "to_string_ullong snprintf capacity val = as_string (snprintf ''%llu'' val) (initial_string capacity)"

definition to_string_float :: "(string \<Rightarrow> 'v \<Rightarrow> nat \<Rightarrow> int \<times> u8 list) \<Rightarrow> (nat \<Rightarrow> nat) \<Rightarrow> 'v \<Rightarrow> u8 list option" where
  "to_string_float snprintf capacity val = as_string (snprintf ''%f'' val) (initial_string capacity)"

definition to_string_double :: "(string \<Rightarrow> 'v \<Rightarrow> nat \<Rightarrow> int \<times> u8 list) \<Rightarrow> (nat \<Rightarrow> nat) \<Rightarrow> 'v \<Rightarrow> u8 list option" where
  "to_string_double snprintf capacity val = as_string (snprintf ''%f'' val) (initial_string capacity)"

definition to_string_ldouble :: "(string \<Rightarrow> 'v \<Rightarrow> nat \<Rightarrow> int \<times> u8 list) \<Rightarrow> (nat \<Rightarrow> nat) \<Rightarrow> 'v \<Rightarrow> u8 list option" where
  "to_string_ldouble snprintf capacity val = as_string (snprintf ''%Lf'' val) (initial_string capacity)"

definition to_wstring_int :: "(string \<Rightarrow> 'v \<Rightarrow> nat \<Rightarrow> int \<times> u32 list) \<Rightarrow> (nat \<Rightarrow> nat) \<Rightarrow> 'v \<Rightarrow> u32 list option" where
  "to_wstring_int swprintf capacity val = as_string (swprintf ''%d'' val) (initial_wstring capacity)"

definition to_wstring_unsigned :: "(string \<Rightarrow> 'v \<Rightarrow> nat \<Rightarrow> int \<times> u32 list) \<Rightarrow> (nat \<Rightarrow> nat) \<Rightarrow> 'v \<Rightarrow> u32 list option" where
  "to_wstring_unsigned swprintf capacity val = as_string (swprintf ''%u'' val) (initial_wstring capacity)"

definition to_wstring_long :: "(string \<Rightarrow> 'v \<Rightarrow> nat \<Rightarrow> int \<times> u32 list) \<Rightarrow> (nat \<Rightarrow> nat) \<Rightarrow> 'v \<Rightarrow> u32 list option" where
  "to_wstring_long swprintf capacity val = as_string (swprintf ''%ld'' val) (initial_wstring capacity)"

definition to_wstring_ulong :: "(string \<Rightarrow> 'v \<Rightarrow> nat \<Rightarrow> int \<times> u32 list) \<Rightarrow> (nat \<Rightarrow> nat) \<Rightarrow> 'v \<Rightarrow> u32 list option" where
  "to_wstring_ulong swprintf capacity val = as_string (swprintf ''%lu'' val) (initial_wstring capacity)"

definition to_wstring_llong :: "(string \<Rightarrow> 'v \<Rightarrow> nat \<Rightarrow> int \<times> u32 list) \<Rightarrow> (nat \<Rightarrow> nat) \<Rightarrow> 'v \<Rightarrow> u32 list option" where
  "to_wstring_llong swprintf capacity val = as_string (swprintf ''%lld'' val) (initial_wstring capacity)"

definition to_wstring_ullong :: "(string \<Rightarrow> 'v \<Rightarrow> nat \<Rightarrow> int \<times> u32 list) \<Rightarrow> (nat \<Rightarrow> nat) \<Rightarrow> 'v \<Rightarrow> u32 list option" where
  "to_wstring_ullong swprintf capacity val = as_string (swprintf ''%llu'' val) (initial_wstring capacity)"

definition to_wstring_float :: "(string \<Rightarrow> 'v \<Rightarrow> nat \<Rightarrow> int \<times> u32 list) \<Rightarrow> (nat \<Rightarrow> nat) \<Rightarrow> 'v \<Rightarrow> u32 list option" where
  "to_wstring_float swprintf capacity val = as_string (swprintf ''%f'' val) (initial_wstring_float capacity)"

definition to_wstring_double :: "(string \<Rightarrow> 'v \<Rightarrow> nat \<Rightarrow> int \<times> u32 list) \<Rightarrow> (nat \<Rightarrow> nat) \<Rightarrow> 'v \<Rightarrow> u32 list option" where
  "to_wstring_double swprintf capacity val = as_string (swprintf ''%f'' val) (initial_wstring_float capacity)"

definition to_wstring_ldouble :: "(string \<Rightarrow> 'v \<Rightarrow> nat \<Rightarrow> int \<times> u32 list) \<Rightarrow> (nat \<Rightarrow> nat) \<Rightarrow> 'v \<Rightarrow> u32 list option" where
  "to_wstring_ldouble swprintf capacity val = as_string (swprintf ''%Lf'' val) (initial_wstring_float capacity)"

section \<open>The loop ends\<close>

text \<open>
  The contracts of the C library for a text: \<open>snprintf\<close> returns its length and writes as much of it as fits; \<open>swprintf\<close> writes
  it if it fits, and returns a negative number otherwise, having written anything that fits.
\<close>

definition narrow_prints :: "(nat \<Rightarrow> int \<times> 'c list) \<Rightarrow> 'c list \<Rightarrow> bool" where
  "narrow_prints p t \<longleftrightarrow> (\<forall>n. p (Suc n) = (int (length t), take n t))"

definition wide_prints :: "(nat \<Rightarrow> int \<times> 'c list) \<Rightarrow> 'c list \<Rightarrow> bool" where
  "wide_prints p t \<longleftrightarrow>
     (\<forall>n. if length t \<le> n then p (Suc n) = (int (length t), t) else fst (p (Suc n)) < 0 \<and> length (snd (p (Suc n))) \<le> n)"

lemma written_text: "length t \<le> length s \<Longrightarrow> resize (length t) (written s t) = t"
  by (auto simp: resize_def written_def)

lemma length_written: "length w \<le> length s \<Longrightarrow> length (written s w) = length s"
  by (simp add: written_def)

lemma length_resize [simp]: "length (resize n s) = n"
  by (simp add: resize_def)

lemma as_string_narrow:
  assumes "narrow_prints p t"
  shows "as_string p s = Some t"
proof -
  have p: "p (Suc n) = (int (length t), take n t)" for n using assms by (simp add: narrow_prints_def)
  have fits: "as_string p s = Some t" if "length t \<le> length s" for s
    using that by (subst as_string.simps) (simp add: p written_text)
  show ?thesis
  proof (cases "length t \<le> length s")
    case False
    then have "as_string p s = as_string p (resize (length t) (written s (take (length s) t)))"
      by (subst as_string.simps) (simp add: p)
    then show ?thesis using fits by simp
  qed (rule fits)
qed

lemma as_string_wide:
  assumes "wide_prints p t"
  shows "as_string p s = Some t"
proof (induction "length t - length s" arbitrary: s rule: less_induct)
  case less
  show ?case
  proof (cases "length t \<le> length s")
    case True
    then have "p (Suc (length s)) = (int (length t), t)" using assms by (auto simp: wide_prints_def)
    then show ?thesis using True by (subst as_string.simps) (simp add: written_text)
  next
    case False
    then have short: "fst (p (Suc (length s))) < 0" using assms by (auto simp: wide_prints_def)
    obtain st w where p: "p (Suc (length s)) = (st, w)" by fastforce
    have "as_string p s = as_string p (resize (length s * 2 + 1) (written s w))"
      using short p by (subst as_string.simps) simp
    also have "\<dots> = Some t" using False by (intro less) simp
    finally show ?thesis .
  qed
qed

section \<open>Properties\<close>

text \<open>What a conversion returns for an arbitrary result of the C function.\<close>

definition reads_as :: "'v \<times> nat \<times> int \<Rightarrow> ('v \<Rightarrow> bool) \<Rightarrow> nat option \<Rightarrow> int \<Rightarrow> (conv_error + 'v) \<times> nat option \<times> int" where
  "reads_as res inside idx errno =
     (let (r, n, e) = res in
      (if e = ERANGE then Inl Out_of_range else if n = 0 then Inl Invalid_argument
       else if \<not> inside r then Inl Out_of_range else Inr r,
       if e = ERANGE \<or> n = 0 then idx else map_option (\<lambda>_. n) idx, errno))"

definition in_int :: "int \<Rightarrow> bool" where "in_int r \<longleftrightarrow> INT_MIN \<le> r \<and> r \<le> INT_MAX"

lemma as_integer_reads:
  "as_integer_helper f str idx base errno = reads_as (f (c_str str) base) (\<lambda>_. True) idx errno"
  "as_integer_int f str idx base errno = reads_as (f (c_str str) base) in_int idx errno"
  "as_float_helper g str idx errno = reads_as (g (c_str str)) (\<lambda>_. True) idx errno"
  by (auto simp: as_integer_helper_def as_integer_int_def as_float_helper_def reads_as_def in_int_def Let_def split: prod.splits)

lemmas to_string_defs =
  to_string_int_def to_string_unsigned_def to_string_long_def to_string_ulong_def to_string_llong_def to_string_ullong_def
  to_string_float_def to_string_double_def to_string_ldouble_def
  to_wstring_int_def to_wstring_unsigned_def to_wstring_long_def to_wstring_ulong_def to_wstring_llong_def to_wstring_ullong_def
  to_wstring_float_def to_wstring_double_def to_wstring_ldouble_def

lemmas sto_defs =
  stoi_def stol_def stoul_def stoll_def stoull_def stof_def stod_def stold_def
  stoi_w_def stol_w_def stoul_w_def stoll_w_def stoull_w_def stof_w_def stod_w_def stold_w_def

text \<open>
  C22: Every version of \<open>to_string\<close> and \<open>to_wstring\<close> returns, and returns the text that \<open>snprintf\<close> or \<open>swprintf\<close> prints with its
  format, however small the first buffer is and whether or not the function tells how much room it needs.  Every version of \<open>stoi\<close>
  to \<open>stold\<close> throws \<open>out_of_range\<close> exactly for \<open>ERANGE\<close> (\<open>stoi\<close> also for a value outside of \<open>int\<close>), \<open>invalid_argument\<close> exactly when
  nothing was read, and otherwise returns the value and the index behind it; \<open>errno\<close> is always restored.  So \<open>stoi\<close> gives back the
  number that \<open>to_string\<close> has printed.
\<close>

theorem string_conversions:
  assumes "\<And>fmt. narrow_prints (snprintf fmt val) (t fmt)" and "\<And>fmt. wide_prints (swprintf fmt val) (wt fmt)"
  shows "(to_string_int snprintf capacity val = Some (t ''%d'') \<and>
     to_wstring_int swprintf capacity val = Some (wt ''%d'') \<and>
     to_string_unsigned snprintf capacity val = Some (t ''%u'') \<and>
     to_wstring_unsigned swprintf capacity val = Some (wt ''%u'') \<and>
     to_string_long snprintf capacity val = Some (t ''%ld'') \<and>
     to_wstring_long swprintf capacity val = Some (wt ''%ld'') \<and>
     to_string_ulong snprintf capacity val = Some (t ''%lu'') \<and>
     to_wstring_ulong swprintf capacity val = Some (wt ''%lu'') \<and>
     to_string_llong snprintf capacity val = Some (t ''%lld'') \<and>
     to_wstring_llong swprintf capacity val = Some (wt ''%lld'') \<and>
     to_string_ullong snprintf capacity val = Some (t ''%llu'') \<and>
     to_wstring_ullong swprintf capacity val = Some (wt ''%llu'') \<and>
     to_string_float snprintf capacity val = Some (t ''%f'') \<and>
     to_wstring_float swprintf capacity val = Some (wt ''%f'') \<and>
     to_string_double snprintf capacity val = Some (t ''%f'') \<and>
     to_wstring_double swprintf capacity val = Some (wt ''%f'') \<and>
     to_string_ldouble snprintf capacity val = Some (t ''%Lf'') \<and>
     to_wstring_ldouble swprintf capacity val = Some (wt ''%Lf'')) \<and>
    (stoi f str idx base errno = reads_as (f (c_str str) base) in_int idx errno \<and>
     stoi_w fw wstr idx base errno = reads_as (fw (c_str wstr) base) in_int idx errno \<and>
     stol f str idx base errno = reads_as (f (c_str str) base) (\<lambda>_. True) idx errno \<and>
     stol_w fw wstr idx base errno = reads_as (fw (c_str wstr) base) (\<lambda>_. True) idx errno \<and>
     stoul f str idx base errno = reads_as (f (c_str str) base) (\<lambda>_. True) idx errno \<and>
     stoul_w fw wstr idx base errno = reads_as (fw (c_str wstr) base) (\<lambda>_. True) idx errno \<and>
     stoll f str idx base errno = reads_as (f (c_str str) base) (\<lambda>_. True) idx errno \<and>
     stoll_w fw wstr idx base errno = reads_as (fw (c_str wstr) base) (\<lambda>_. True) idx errno \<and>
     stoull f str idx base errno = reads_as (f (c_str str) base) (\<lambda>_. True) idx errno \<and>
     stoull_w fw wstr idx base errno = reads_as (fw (c_str wstr) base) (\<lambda>_. True) idx errno \<and>
     stof g str idx errno = reads_as (g (c_str str)) (\<lambda>_. True) idx errno \<and>
     stof_w gw wstr idx errno = reads_as (gw (c_str wstr)) (\<lambda>_. True) idx errno \<and>
     stod g str idx errno = reads_as (g (c_str str)) (\<lambda>_. True) idx errno \<and>
     stod_w gw wstr idx errno = reads_as (gw (c_str wstr)) (\<lambda>_. True) idx errno \<and>
     stold g str idx errno = reads_as (g (c_str str)) (\<lambda>_. True) idx errno \<and>
     stold_w gw wstr idx errno = reads_as (gw (c_str wstr)) (\<lambda>_. True) idx errno) \<and>
    (f (c_str (t ''%d'')) 10 = (v, length (t ''%d''), 0) \<and> t ''%d'' \<noteq> [] \<and> INT_MIN \<le> v \<and> v \<le> INT_MAX \<longrightarrow>
      stoi f (the (to_string_int snprintf capacity val)) idx 10 errno = (Inr v, map_option (\<lambda>_. length (t ''%d'')) idx, errno))"
proof -
  note prints = as_string_narrow [OF assms(1)] as_string_wide [OF assms(2)]
  have "to_string_int snprintf capacity val = Some (t ''%d'') \<and>
     to_wstring_int swprintf capacity val = Some (wt ''%d'') \<and>
     to_string_unsigned snprintf capacity val = Some (t ''%u'') \<and>
     to_wstring_unsigned swprintf capacity val = Some (wt ''%u'') \<and>
     to_string_long snprintf capacity val = Some (t ''%ld'') \<and>
     to_wstring_long swprintf capacity val = Some (wt ''%ld'') \<and>
     to_string_ulong snprintf capacity val = Some (t ''%lu'') \<and>
     to_wstring_ulong swprintf capacity val = Some (wt ''%lu'') \<and>
     to_string_llong snprintf capacity val = Some (t ''%lld'') \<and>
     to_wstring_llong swprintf capacity val = Some (wt ''%lld'') \<and>
     to_string_ullong snprintf capacity val = Some (t ''%llu'') \<and>
     to_wstring_ullong swprintf capacity val = Some (wt ''%llu'') \<and>
     to_string_float snprintf capacity val = Some (t ''%f'') \<and>
     to_wstring_float swprintf capacity val = Some (wt ''%f'') \<and>
     to_string_double snprintf capacity val = Some (t ''%f'') \<and>
     to_wstring_double swprintf capacity val = Some (wt ''%f'') \<and>
     to_string_ldouble snprintf capacity val = Some (t ''%Lf'') \<and>
     to_wstring_ldouble swprintf capacity val = Some (wt ''%Lf'')"
    unfolding to_string_defs by (intro conjI prints)
  moreover have "stoi f str idx base errno = reads_as (f (c_str str) base) in_int idx errno \<and>
     stoi_w fw wstr idx base errno = reads_as (fw (c_str wstr) base) in_int idx errno \<and>
     stol f str idx base errno = reads_as (f (c_str str) base) (\<lambda>_. True) idx errno \<and>
     stol_w fw wstr idx base errno = reads_as (fw (c_str wstr) base) (\<lambda>_. True) idx errno \<and>
     stoul f str idx base errno = reads_as (f (c_str str) base) (\<lambda>_. True) idx errno \<and>
     stoul_w fw wstr idx base errno = reads_as (fw (c_str wstr) base) (\<lambda>_. True) idx errno \<and>
     stoll f str idx base errno = reads_as (f (c_str str) base) (\<lambda>_. True) idx errno \<and>
     stoll_w fw wstr idx base errno = reads_as (fw (c_str wstr) base) (\<lambda>_. True) idx errno \<and>
     stoull f str idx base errno = reads_as (f (c_str str) base) (\<lambda>_. True) idx errno \<and>
     stoull_w fw wstr idx base errno = reads_as (fw (c_str wstr) base) (\<lambda>_. True) idx errno \<and>
     stof g str idx errno = reads_as (g (c_str str)) (\<lambda>_. True) idx errno \<and>
     stof_w gw wstr idx errno = reads_as (gw (c_str wstr)) (\<lambda>_. True) idx errno \<and>
     stod g str idx errno = reads_as (g (c_str str)) (\<lambda>_. True) idx errno \<and>
     stod_w gw wstr idx errno = reads_as (gw (c_str wstr)) (\<lambda>_. True) idx errno \<and>
     stold g str idx errno = reads_as (g (c_str str)) (\<lambda>_. True) idx errno \<and>
     stold_w gw wstr idx errno = reads_as (gw (c_str wstr)) (\<lambda>_. True) idx errno"
    unfolding sto_defs by (intro conjI as_integer_reads)
  moreover have "f (c_str (t ''%d'')) 10 = (v, length (t ''%d''), 0) \<and> t ''%d'' \<noteq> [] \<and> INT_MIN \<le> v \<and> v \<le> INT_MAX \<longrightarrow>
      stoi f (the (to_string_int snprintf capacity val)) idx 10 errno = (Inr v, map_option (\<lambda>_. length (t ''%d'')) idx, errno)"
    by (simp add: to_string_int_def prints stoi_def as_integer_reads reads_as_def ERANGE_def in_int_def)
  ultimately show ?thesis by blast
qed

text \<open>\<open>snprintf\<close> and \<open>swprintf\<close> of the number 42, and \<open>strtol\<close> of its text.\<close>

definition print_42 :: "'c list \<Rightarrow> string \<Rightarrow> int \<Rightarrow> nat \<Rightarrow> int \<times> 'c list" where
  "print_42 t fmt val n = (int (length t), take (n - 1) t)"

definition wide_print_42 :: "'c list \<Rightarrow> string \<Rightarrow> int \<Rightarrow> nat \<Rightarrow> int \<times> 'c list" where
  "wide_print_42 t fmt val n = (if length t < n then (int (length t), t) else (- 1, take (n - 1) t))"

definition read_42 :: "'c::zero list \<Rightarrow> int \<Rightarrow> int \<times> nat \<times> int" where
  "read_42 t base = (if t = [] then (0, 0, 0) else (42, length t, 0))"

theorem string_conversions_witness:
  "to_string_int (print_42 [0x34, 0x32]) (\<lambda>n. 0) 42 = Some [0x34, 0x32] \<and>
   to_wstring_double (wide_print_42 [0x34, 0x32]) (\<lambda>n. 1) 42 = Some [0x34, 0x32] \<and>
   stoi read_42 [0x34, 0x32] (Some 9) 10 5 = (Inr 42, Some 2, 5) \<and>
   stol read_42 [] (Some 9) 10 5 = (Inl Invalid_argument, Some 9, 5)"
proof -
  have p: "narrow_prints (print_42 [0x34, 0x32] fmt 42) ([0x34, 0x32] :: u8 list)"
    "wide_prints (wide_print_42 [0x34, 0x32] fmt 42) ([0x34, 0x32] :: u32 list)" for fmt
    by (auto simp: narrow_prints_def wide_prints_def print_42_def wide_print_42_def)
  note c = string_conversions [where snprintf = "print_42 [0x34, 0x32]" and swprintf = "wide_print_42 [0x34, 0x32]" and val = 42
    and t = "\<lambda>fmt. [0x34, 0x32]" and wt = "\<lambda>fmt. [0x34, 0x32]" and f = read_42 and v = 42 and fw = "\<lambda>_ _. (0, 0, 0)" and wstr = "[]" and g = "\<lambda>_. ((), 0, 0)" and gw = "\<lambda>_. ((), 0, 0)"
    and idx = "Some 9" and errno = 5 and str = "[]" and base = 10, OF p]
  have "read_42 (c_str ([0x34, 0x32] :: u8 list)) 10 = (42, length ([0x34, 0x32] :: u8 list), 0) \<and>
      [0x34, 0x32] \<noteq> ([] :: u8 list) \<and> INT_MIN \<le> 42 \<and> 42 \<le> INT_MAX"
    by (simp add: INT_MIN_def INT_MAX_def read_42_def c_str_def)
  then have "stoi read_42 (the (to_string_int (print_42 [0x34, 0x32]) (\<lambda>n. 0) 42)) (Some 9) 10 5 =
      (Inr 42, map_option (\<lambda>_. length ([0x34, 0x32] :: u8 list)) (Some (9 :: nat)), 5)"
    by (rule c [where capacity = "\<lambda>n. 0", THEN conjunct2, THEN conjunct2, THEN mp])
  moreover have "to_string_int (print_42 [0x34, 0x32]) (\<lambda>n. 0) 42 = Some [0x34, 0x32]"
    and "stol read_42 [] (Some 9) 10 5 = reads_as (read_42 (c_str ([] :: u8 list)) 10) (\<lambda>_. True) (Some 9) 5"
    using c [where capacity = "\<lambda>n. 0"] by blast+
  moreover have "to_wstring_double (wide_print_42 [0x34, 0x32]) (\<lambda>n. 1) 42 = Some [0x34, 0x32]"
    using c [where capacity = "\<lambda>n. 1"] by blast
  ultimately show ?thesis
    by (simp add: reads_as_def read_42_def c_str_def ERANGE_def)
qed

end
