(* ===== verification/Shared_Count.thy ===== *)
theory Shared_Count
  imports Prelude "HOL-Library.Multiset"
begin

text \<open>
  The reference counts behind \<open>shared_ptr\<close> and \<open>weak_ptr\<close>: \<open>__shared_count\<close> and \<open>__shared_weak_count\<close> of
  \<open>src/include/memory\<close> and \<open>src/src/memory.cpp\<close>.  Each atomic operation is one step, and the handles (the pointers that refer
  to the control block, and the calls that are under way for one) form a multiset: any number of threads may work on them in
  any order, as long as each handle is used by one thread at a time.  Counters are integers: there are less than \<open>2 ^ 63\<close> handles.
\<close>

section \<open>The functions\<close>

text \<open>
  A handle: a \<open>shared_ptr\<close>, a \<open>weak_ptr\<close>, or a call: \<open>__release_shared\<close> before \<open>__on_zero_shared\<close>, \<open>__release_weak\<close> at its start and
  before its decrement, a call before \<open>__on_zero_shared_weak\<close>, and \<open>lock\<close> of a \<open>weak_ptr\<close> with the value of \<open>object_owners\<close>.
\<close>

datatype handle = Strong | Weak | Destroying | Releasing_weak | Releasing_weak_dec | Deleting | Locking int

text \<open>\<open>__release_shared\<close>: the new count and the handle that is left.\<close>

definition release_shared :: "int \<Rightarrow> int \<times> handle multiset" where
  "release_shared owners = (let owners = owners - 1 in (owners, if owners = - 1 then {#Destroying#} else {#}))"

text \<open>\<open>__release_weak\<close>: the load, and the decrement where the load has not given 0.\<close>

definition release_weak_load :: "int \<Rightarrow> handle" where
  "release_weak_load weak = (if weak = 0 then Deleting else Releasing_weak_dec)"

definition release_weak_dec :: "int \<Rightarrow> int \<times> handle multiset" where
  "release_weak_dec weak = (let weak = weak - 1 in (weak, if weak = - 1 then {#Deleting#} else {#}))"

text \<open>\<open>lock\<close>: the test of the loop; a call that has returned null leaves the \<open>weak_ptr\<close>.\<close>

definition lock_test :: "int \<Rightarrow> handle" where
  "lock_test object_owners = (if object_owners \<noteq> - 1 then Locking object_owners else Weak)"

text \<open>The exchange: the new count, and the handles when the call returns or goes on with the value found.\<close>

definition lock_exchange :: "int \<Rightarrow> int \<Rightarrow> int \<times> handle multiset" where
  "lock_exchange owners object_owners =
     (if owners = object_owners then (object_owners + 1, {#Strong, Weak#}) else (owners, {#lock_test owners#}))"

definition use_count :: "int \<Rightarrow> int" where "use_count owners = owners + 1"

section \<open>The steps\<close>

record control =
  shared_owners :: int
  weak_owners :: int
  handles :: "handle multiset"
  destroyed :: nat
  deleted :: nat

text \<open>A new control block belongs to one \<open>shared_ptr\<close>.\<close>

definition count_start :: control where
  "count_start = \<lparr>shared_owners = 0, weak_owners = 0, handles = {#Strong#}, destroyed = 0, deleted = 0\<rparr>"

inductive count_step :: "control \<Rightarrow> control \<Rightarrow> bool" where
  add_shared: "handles c = add_mset Strong m \<Longrightarrow>
    count_step c (c\<lparr>shared_owners := shared_owners c + 1, handles := add_mset Strong (handles c)\<rparr>)"
| add_weak: "handles c = add_mset h m \<Longrightarrow> h = Strong \<or> h = Weak \<Longrightarrow>
    count_step c (c\<lparr>weak_owners := weak_owners c + 1, handles := add_mset Weak (handles c)\<rparr>)"
| release: "handles c = add_mset Strong m \<Longrightarrow> release_shared (shared_owners c) = (n, l) \<Longrightarrow>
    count_step c (c\<lparr>shared_owners := n, handles := m + l\<rparr>)"
| destroy: "handles c = add_mset Destroying m \<Longrightarrow>
    count_step c (c\<lparr>destroyed := destroyed c + 1, handles := add_mset Releasing_weak m\<rparr>)"
| release_weak: "handles c = add_mset Weak m \<Longrightarrow> count_step c (c\<lparr>handles := add_mset Releasing_weak m\<rparr>)"
| weak_load: "handles c = add_mset Releasing_weak m \<Longrightarrow>
    count_step c (c\<lparr>handles := add_mset (release_weak_load (weak_owners c)) m\<rparr>)"
| weak_dec: "handles c = add_mset Releasing_weak_dec m \<Longrightarrow> release_weak_dec (weak_owners c) = (n, l) \<Longrightarrow>
    count_step c (c\<lparr>weak_owners := n, handles := m + l\<rparr>)"
| delete: "handles c = add_mset Deleting m \<Longrightarrow> count_step c (c\<lparr>deleted := deleted c + 1, handles := m\<rparr>)"
| lock: "handles c = add_mset Weak m \<Longrightarrow> count_step c (c\<lparr>handles := add_mset (lock_test (shared_owners c)) m\<rparr>)"
| exchange: "handles c = add_mset (Locking n) m \<Longrightarrow> lock_exchange (shared_owners c) n = (k, l) \<Longrightarrow>
    count_step c (c\<lparr>shared_owners := k, handles := m + l\<rparr>)"

abbreviation count_steps :: "control \<Rightarrow> control \<Rightarrow> bool" where
  "count_steps \<equiv> count_step\<^sup>*\<^sup>*"

inductive_cases count_stepE: "count_step c c'"

section \<open>The invariant\<close>

abbreviation strong :: "handle multiset \<Rightarrow> nat" where
  "strong h \<equiv> count h Strong"

text \<open>The handles that own a part of the weak count; all \<open>shared_ptr\<close> together own one more.\<close>

fun owns_weak :: "handle \<Rightarrow> bool" where
  "owns_weak Strong = False"
| "owns_weak Deleting = False"
| "owns_weak _ = True"

definition weak_refs :: "handle multiset \<Rightarrow> nat" where
  "weak_refs h = size (filter_mset owns_weak h)"

definition locks_positive :: "handle multiset \<Rightarrow> bool" where
  "locks_positive h \<longleftrightarrow> (\<forall>n. Locking n \<in># h \<longrightarrow> 0 \<le> n)"

definition counts_ok :: "control \<Rightarrow> bool" where
  "counts_ok c \<longleftrightarrow> (let h = handles c in
     shared_owners c = int (strong h) - 1 \<and> locks_positive h \<and>
     (if Deleting \<in># h then h = {#Deleting#} \<and> destroyed c = 1 \<and> deleted c = 0
      else if h = {#} then destroyed c = 1 \<and> deleted c = 1
      else deleted c = 0 \<and> weak_owners c + 1 = int (weak_refs h) + of_bool (Strong \<in># h) \<and>
        destroyed c + count h Destroying = of_bool (Strong \<notin># h)))"

lemma weak_refs_simps [simp]:
  "weak_refs {#} = 0" "weak_refs (add_mset x h) = of_bool (owns_weak x) + weak_refs h"
  "weak_refs (h + h') = weak_refs h + weak_refs h'"
  by (simp_all add: weak_refs_def)

lemma locks_positive_simps [simp]:
  "locks_positive {#}" "locks_positive (add_mset x h) \<longleftrightarrow> (\<forall>n. x = Locking n \<longrightarrow> 0 \<le> n) \<and> locks_positive h"
  "locks_positive (h + h') \<longleftrightarrow> locks_positive h \<and> locks_positive h'"
  by (auto simp: locks_positive_def)

text \<open>Every handle but \<open>Deleting\<close> counts in one of the two counters.\<close>

lemma no_refs: "int (weak_refs h) + of_bool (Strong \<in># h) = 0 \<Longrightarrow> Deleting \<notin># h \<Longrightarrow> h = {#}"
proof (induction h)
  case (add x h)
  then show ?case by (cases x) (auto simp: of_bool_def split: if_splits)
qed simp

text \<open>The invariant while the control block is in use.\<close>

lemma counts_ok_live:
  assumes "counts_ok c" and "handles c = add_mset x m" and "x \<noteq> Deleting"
  shows "Deleting \<notin># m" and "shared_owners c = int (strong (add_mset x m)) - 1" and "locks_positive (add_mset x m)" and "deleted c = 0"
    and "weak_owners c + 1 = int (weak_refs (add_mset x m)) + of_bool (Strong \<in># add_mset x m)"
    and "destroyed c + count (add_mset x m) Destroying = of_bool (Strong \<notin># add_mset x m)"
  using assms unfolding counts_ok_def Let_def by (simp_all only: assms(2) split: if_splits) auto

lemma counts_okI:
  assumes "shared_owners c = int (strong (handles c)) - 1" and "locks_positive (handles c)"
    and "Deleting \<notin># handles c" and "handles c \<noteq> {#}" and "deleted c = 0"
    and "weak_owners c + 1 = int (weak_refs (handles c)) + of_bool (Strong \<in># handles c)"
    and "destroyed c + count (handles c) Destroying = of_bool (Strong \<notin># handles c)"
  shows "counts_ok c"
  using assms by (simp add: counts_ok_def Let_def)

lemma count_step_ok:
  assumes "count_step c c'" and "counts_ok c"
  shows "counts_ok c'"
  using assms(1)
proof (cases rule: count_step.cases)
  case (add_shared m)
  from counts_ok_live [OF assms(2) this(2)] show ?thesis unfolding add_shared(1) using add_shared(2) by (intro counts_okI) auto
next
  case (add_weak h m)
  from add_weak(3) have "h \<noteq> Deleting" by auto
  from counts_ok_live [OF assms(2) add_weak(2) this] show ?thesis unfolding add_weak(1) using add_weak(2,3) by (intro counts_okI) auto
next
  case (release m n l)
  note live = counts_ok_live [OF assms(2) release(2) handle.distinct(9)]
  show ?thesis
  proof (cases "Strong \<in># m")
    case False
    then have "strong m = 0" by (simp add: not_in_iff)
    then show ?thesis using False release live unfolding release(1) by (intro counts_okI) (auto simp: release_shared_def Let_def)
  next
    case True
    then have "m \<noteq> {#}" and "1 \<le> int (strong m)" by (auto simp: Suc_le_eq)
    moreover from this live(2) have "shared_owners c - 1 \<noteq> - 1" by simp
    with release(3) have "l = {#}" "n = shared_owners c - 1" by (simp_all add: release_shared_def Let_def)
    ultimately show ?thesis using live True unfolding release(1) by (intro counts_okI) simp_all
  qed
next
  case (destroy m)
  from counts_ok_live [OF assms(2) this(2)] show ?thesis unfolding destroy(1) using destroy(2) by (intro counts_okI) (auto split: if_splits)
next
  case (release_weak m)
  from counts_ok_live [OF assms(2) this(2)] show ?thesis unfolding release_weak(1) using release_weak(2) by (intro counts_okI) (auto split: if_splits)
next
  case (weak_load m)
  note live = counts_ok_live [OF assms(2) this(2)]
  show ?thesis
  proof (cases "weak_owners c = 0")
    case True
    then have "m = {#}" using live by (intro no_refs) auto
    then show ?thesis using True live weak_load by (simp add: counts_ok_def release_weak_load_def)
  next
    case False
    then show ?thesis using live weak_load unfolding weak_load(1) by (intro counts_okI) (auto simp: release_weak_load_def split: if_splits)
  qed
next
  case (weak_dec m n l)
  note live = counts_ok_live [OF assms(2) this(2)]
  show ?thesis
  proof (cases "weak_owners c = 0")
    case True
    then have "m = {#}" using live by (intro no_refs) auto
    then show ?thesis using True live weak_dec by (auto simp: counts_ok_def release_weak_dec_def Let_def)
  next
    case False
    then have "m \<noteq> {#}" using live by auto
    then show ?thesis using False live weak_dec unfolding weak_dec(1) by (intro counts_okI) (auto simp: release_weak_dec_def Let_def split: if_splits)
  qed
next
  case (delete m)
  then show ?thesis using assms(2) by (auto simp: counts_ok_def Let_def split: if_splits)
next
  case (lock m)
  from counts_ok_live [OF assms(2) this(2)] show ?thesis unfolding lock(1) using lock(2) by (intro counts_okI) (auto simp: lock_test_def split: if_splits)
next
  case (exchange n m k l)
  note live = counts_ok_live [OF assms(2) this(2)]
  show ?thesis
  proof (cases "Strong \<in># m")
    case True
    then have "1 \<le> int (strong m)" by (simp add: Suc_le_eq)
    then have "lock_test (shared_owners c) = Locking (shared_owners c)" and "0 \<le> shared_owners c"
      using live(2) by (simp_all add: lock_test_def)
    with exchange(3) have "k = shared_owners c + 1 \<and> l = {#Strong, Weak#} \<or> k = shared_owners c \<and> l = {#Locking k#}"
      by (auto simp: lock_exchange_def split: if_splits)
    with \<open>0 \<le> shared_owners c\<close> show ?thesis using True live unfolding exchange(1) by (intro counts_okI; elim disjE conjE) simp_all
  next
    case False
    then have "shared_owners c = - 1" and "n \<noteq> - 1" using live by (simp_all add: not_in_iff)
    then show ?thesis using False exchange(3) live unfolding exchange(1) by (intro counts_okI) (auto simp: lock_exchange_def lock_test_def not_in_iff)
  qed
qed

lemma count_steps_ok: "count_steps count_start c \<Longrightarrow> counts_ok c"
proof (induction rule: rtranclp_induct)
  case base
  show ?case by (simp add: counts_ok_def count_start_def Let_def)
qed (rule count_step_ok)

section \<open>Every handle can be given back\<close>

fun is_locking :: "handle \<Rightarrow> bool" where
  "is_locking (Locking n) = True"
| "is_locking _ = False"

definition no_locks :: "handle multiset \<Rightarrow> bool" where
  "no_locks h \<longleftrightarrow> filter_mset is_locking h = {#}"

lemma no_locks_simps [simp]:
  "no_locks {#}" "no_locks (add_mset x h) \<longleftrightarrow> \<not> is_locking x \<and> no_locks h" "no_locks (h + h') \<longleftrightarrow> no_locks h \<and> no_locks h'"
  by (auto simp: no_locks_def)

text \<open>A call of \<open>lock\<close> ends, at the latest with its second exchange when no other call comes in between.\<close>

lemma lock_ends:
  assumes "handles c = add_mset (Locking n) m"
  shows "\<exists>c' l. count_steps c c' \<and> handles c' = m + l \<and> no_locks l"
proof (cases "lock_exchange (shared_owners c) n")
  case (Pair k l)
  let ?c = "c\<lparr>shared_owners := k, handles := m + l\<rparr>" and ?l = "{#Strong, Weak#}"
  have first: "count_step c ?c" by (rule count_step.exchange [OF assms Pair])
  show ?thesis
  proof (cases "shared_owners c = n \<or> shared_owners c = - 1")
    case True
    with Pair have "no_locks l" by (auto simp: lock_exchange_def lock_test_def split: if_splits)
    with first show ?thesis by (intro exI [where x = ?c] exI [where x = l]) (simp add: r_into_rtranclp)
  next
    case False
    with Pair have l: "l = {#Locking k#}" "k = shared_owners c" by (auto simp: lock_exchange_def lock_test_def)
    have "count_step ?c (?c\<lparr>shared_owners := k + 1, handles := m + ?l\<rparr>)"
      by (rule count_step.exchange [where n = k]) (simp_all add: l lock_exchange_def)
    with first have "count_steps c (?c\<lparr>shared_owners := k + 1, handles := m + ?l\<rparr>)" by (meson converse_rtranclp_into_rtranclp r_into_rtranclp)
    then show ?thesis by (intro exI [where x = "?c\<lparr>shared_owners := k + 1, handles := m + ?l\<rparr>"] exI [where x = ?l]) simp
  qed
qed

lemma locks_end: "\<exists>c'. count_steps c c' \<and> no_locks (handles c')"
proof (induction "size (filter_mset is_locking (handles c))" arbitrary: c)
  case 0
  then show ?case by (auto simp: no_locks_def)
next
  case (Suc k)
  from size_eq_Suc_imp_elem [OF Suc(2) [symmetric]] obtain h where "h \<in># handles c" "is_locking h" by auto
  then obtain n m where m: "handles c = add_mset (Locking n) m" by (metis is_locking.elims(2) multi_member_split)
  from lock_ends [OF m] obtain c' l where c': "count_steps c c'" "handles c' = m + l" "no_locks l" by blast
  with Suc(2) m have "k = size (filter_mset is_locking (handles c'))" by (simp add: no_locks_def)
  from Suc(1) [OF this] c'(1) show ?case by (meson rtranclp_trans)
qed

text \<open>The number of steps that a handle needs to its end, at most.\<close>

fun steps_left :: "handle \<Rightarrow> nat" where
  "steps_left Deleting = 1"
| "steps_left Releasing_weak_dec = 2"
| "steps_left Releasing_weak = 3"
| "steps_left Destroying = 4"
| "steps_left Weak = 4"
| "steps_left Strong = 5"
| "steps_left (Locking n) = 0"

lemma handle_step:
  assumes "handles c = add_mset h m" and "\<not> is_locking h"
  shows "\<exists>c' l. count_step c c' \<and> handles c' = m + l \<and> no_locks l \<and> sum_mset (image_mset steps_left l) < steps_left h"
proof (cases h)
  case Strong
  with assms(1) have "handles c = add_mset Strong m" by simp
  from count_step.release [OF this, unfolded release_shared_def Let_def, OF refl] show ?thesis
    unfolding Strong by (intro exI [where x = "if shared_owners c - 1 = - 1 then {#Destroying#} else {#}"] exI conjI, assumption) simp_all
next
  case Weak
  with assms(1) have "handles c = add_mset Weak m" by simp
  from count_step.release_weak [OF this] show ?thesis
    unfolding Weak by (intro exI [where x = "{#Releasing_weak#}"] exI conjI, assumption) auto
next
  case Destroying
  with assms(1) have "handles c = add_mset Destroying m" by simp
  from count_step.destroy [OF this] show ?thesis
    unfolding Destroying by (intro exI [where x = "{#Releasing_weak#}"] exI conjI, assumption) auto
next
  case Releasing_weak
  with assms(1) have "handles c = add_mset Releasing_weak m" by simp
  from count_step.weak_load [OF this] show ?thesis
    unfolding Releasing_weak by (intro exI [where x = "{#release_weak_load (weak_owners c)#}"] exI conjI, assumption) (auto simp: release_weak_load_def)
next
  case Releasing_weak_dec
  with assms(1) have "handles c = add_mset Releasing_weak_dec m" by simp
  from count_step.weak_dec [OF this, unfolded release_weak_dec_def Let_def, OF refl] show ?thesis
    unfolding Releasing_weak_dec by (intro exI [where x = "if weak_owners c - 1 = - 1 then {#Deleting#} else {#}"] exI conjI, assumption) simp_all
next
  case Deleting
  with assms(1) have "handles c = add_mset Deleting m" by simp
  from count_step.delete [OF this] show ?thesis
    unfolding Deleting by (intro exI [where x = "{#}"] exI conjI, assumption) auto
next
  case (Locking n)
  with assms(2) show ?thesis by simp
qed

lemma handles_end: "no_locks (handles c) \<Longrightarrow> \<exists>c'. count_steps c c' \<and> handles c' = {#}"
proof (induction "sum_mset (image_mset steps_left (handles c))" arbitrary: c rule: less_induct)
  case less
  show ?case
  proof (cases "handles c")
    case (add h m)
    with less(2) have "\<not> is_locking h" by simp
    from handle_step [OF add this] obtain c' l where c': "count_step c c'" "handles c' = m + l" "no_locks l"
      and "sum_mset (image_mset steps_left l) < steps_left h" by blast
    with add have "sum_mset (image_mset steps_left (handles c')) < sum_mset (image_mset steps_left (handles c))" by simp
    from less(1) [OF this] c' less(2) add obtain d where "count_steps c' d" "handles d = {#}" by auto
    with c'(1) show ?thesis by (meson converse_rtranclp_into_rtranclp)
  qed auto
qed

section \<open>The property\<close>

text \<open>C23:
  Whatever the threads that share an object do, in every state that can be reached from a new control block: \<open>use_count\<close> is the
  number of \<open>shared_ptr\<close>s; the object is not destroyed and its destruction has not begun as long as there is one, also one that
  \<open>lock\<close> has just returned; the object is destroyed at most once, the control block is not deleted while a handle refers to it,
  and its deletion is the last step and follows the destruction; without handles both have happened exactly once.  All
  handles can be given back from every state: the calls under way end, so nothing is lost.
\<close>

theorem shared_count_safe:
  assumes "count_steps count_start c"
  shows "use_count (shared_owners c) = int (count (handles c) Strong) \<and>
    (Strong \<in># handles c \<longrightarrow> destroyed c = 0 \<and> Destroying \<notin># handles c) \<and>
    destroyed c + count (handles c) Destroying \<le> 1 \<and>
    (handles c \<noteq> {#} \<longrightarrow> deleted c = 0) \<and>
    (Deleting \<in># handles c \<longrightarrow> handles c = {#Deleting#} \<and> destroyed c = 1) \<and>
    (handles c = {#} \<longrightarrow> destroyed c = 1 \<and> deleted c = 1) \<and>
    (\<exists>c'. count_steps c c' \<and> handles c' = {#} \<and> destroyed c' = 1 \<and> deleted c' = 1)"
proof -
  from count_steps_ok [OF assms] have ok: "counts_ok c" .
  from locks_end obtain d where d: "count_steps c d" "no_locks (handles d)" by blast
  from handles_end [OF this(2)] obtain c' where c': "count_steps d c'" "handles c' = {#}" by blast
  with d have steps: "count_steps c c'" by (meson rtranclp_trans)
  with assms have "counts_ok c'" by (meson count_steps_ok rtranclp_trans)
  with c' have "destroyed c' = 1 \<and> deleted c' = 1" by (simp add: counts_ok_def Let_def)
  with steps c'(2) have "\<exists>c'. count_steps c c' \<and> handles c' = {#} \<and> destroyed c' = 1 \<and> deleted c' = 1" by blast
  moreover from ok have "use_count (shared_owners c) = int (count (handles c) Strong)"
    by (simp add: counts_ok_def Let_def use_count_def)
  moreover from ok have "Strong \<in># handles c \<Longrightarrow> destroyed c = 0 \<and> Destroying \<notin># handles c"
    "destroyed c + count (handles c) Destroying \<le> 1" "handles c \<noteq> {#} \<Longrightarrow> deleted c = 0"
    "Deleting \<in># handles c \<Longrightarrow> handles c = {#Deleting#} \<and> destroyed c = 1"
    "handles c = {#} \<Longrightarrow> destroyed c = 1 \<and> deleted c = 1"
    by (auto simp: counts_ok_def Let_def not_in_iff split: if_splits)
  ultimately show ?thesis by blast
qed

text \<open>A \<open>weak_ptr\<close> is made, and its \<open>lock\<close> loads the count.\<close>

theorem shared_count_safe_witness:
  "\<exists>c. count_steps count_start c \<and> handles c = {#Strong, Locking 0#} \<and> destroyed c = 0 \<and>
     (\<exists>c'. count_steps c c' \<and> handles c' = {#} \<and> destroyed c' = 1 \<and> deleted c' = 1)"
proof -
  let ?c = "\<lambda>h. \<lparr>shared_owners = 0, weak_owners = 1, handles = {#Strong, h#}, destroyed = 0, deleted = 0\<rparr>"
  have "count_step count_start (?c Weak)"
    using count_step.add_weak [of count_start Strong "{#}"] by (simp add: count_start_def add_mset_commute)
  moreover have "count_step (?c Weak) (?c (Locking 0))"
    using count_step.lock [of "?c Weak" "{#Strong#}"] by (simp add: lock_test_def add_mset_commute)
  ultimately have steps: "count_steps count_start (?c (Locking 0))" by (meson converse_rtranclp_into_rtranclp r_into_rtranclp)
  show ?thesis
    by (rule exI [where x = "?c (Locking 0)"]) (use steps shared_count_safe [OF steps] in auto)
qed

end
