(* ===== verification/Fs_Status.thy ===== *)
theory Fs_Status
  imports Path_Parser
begin

text \<open>
  The vocabulary of the file system operations: error codes and the two ways to report them, \<open>file_status\<close>, and the mapping from
  \<open>stat\<close> to it (\<open>src/include/experimental/filesystem\<close> 250-450, 763-780, 1463-1615 and the first part of
  \<open>src/src/experimental/filesystem/operations.cpp\<close>).  An \<open>error_code\<close> of the generic category is its value, 0 for no error.
  A pointer to one is an option: \<open>None\<close> is the null pointer of the throwing overloads, \<open>Some e\<close> the value it points to.  System
  calls are parameters that give a value or \<open>errno\<close>.
\<close>

section \<open>Errors\<close>

text \<open>The result of an operation, \<open>Inl\<close> for a \<open>filesystem_error\<close>, and what \<open>*ec\<close> is afterwards.\<close>

type_synonym 'a fs_result = "(int + 'a) \<times> int option"

definition ENOENT :: int where "ENOENT = 2"
definition EACCES :: int where "EACCES = 13"
definition EEXIST :: int where "EEXIST = 17"
definition ENOTDIR :: int where "ENOTDIR = 20"

text \<open>\<open>set_or_throw\<close>, and the value that the caller returns after it.\<close>

definition set_or_throw :: "int \<Rightarrow> int option \<Rightarrow> 'a \<Rightarrow> 'a fs_result" where
  "set_or_throw m_ec ec v = (case ec of Some _ \<Rightarrow> (Inr v, Some m_ec) | None \<Rightarrow> (Inl m_ec, None))"

text \<open>\<open>if (ec) ec->clear()\<close> and \<open>if (ec) *ec = m_ec\<close>.\<close>

definition set_ec :: "int \<Rightarrow> int option \<Rightarrow> int option" where
  "set_ec m_ec ec = map_option (\<lambda>_. m_ec) ec"

abbreviation clear_ec :: "int option \<Rightarrow> int option" where
  "clear_ec \<equiv> set_ec 0"

lemma set_ec_simps [simp]: "set_ec e None = None" "set_ec e (Some x) = Some e" "set_ec e (set_ec e' ec) = set_ec e ec"
  by (simp_all add: set_ec_def option.map_comp comp_def)

lemma set_or_throw_simps [simp]:
  "set_or_throw e None v = (Inl e, None)" "set_or_throw e (Some x) v = (Inr v, Some e)"
  "set_or_throw e (set_ec e' ec) v = set_or_throw e ec v"
  by (simp_all add: set_or_throw_def set_ec_def split: option.splits)

section \<open>File status\<close>

datatype file_type = No_type | Not_found | Regular | Directory | Symlink | Block | Character | Fifo | Socket | Unknown

record file_status =
  fs_type :: file_type
  fs_permissions :: u32

definition perms_mask :: u32 where "perms_mask = 0xFFF"
definition perms_unknown :: u32 where "perms_unknown = 0xFFFF"

definition file_status_of :: "file_type \<Rightarrow> file_status" where
  "file_status_of ft = \<lparr>fs_type = ft, fs_permissions = perms_unknown\<rparr>"

definition status_known :: "file_status \<Rightarrow> bool" where "status_known s \<longleftrightarrow> fs_type s \<noteq> No_type"
definition fs_exists :: "file_status \<Rightarrow> bool" where "fs_exists s \<longleftrightarrow> status_known s \<and> fs_type s \<noteq> Not_found"
definition is_directory :: "file_status \<Rightarrow> bool" where "is_directory s \<longleftrightarrow> fs_type s = Directory"
definition is_regular_file :: "file_status \<Rightarrow> bool" where "is_regular_file s \<longleftrightarrow> fs_type s = Regular"
definition is_symlink :: "file_status \<Rightarrow> bool" where "is_symlink s \<longleftrightarrow> fs_type s = Symlink"

definition is_other :: "file_status \<Rightarrow> bool" where
  "is_other s \<longleftrightarrow> fs_exists s \<and> \<not> is_regular_file s \<and> \<not> is_directory s \<and> \<not> is_symlink s"

text \<open>The fields of \<open>struct stat\<close> that the code reads; the time is in seconds and nanoseconds.\<close>

record stat =
  st_mode :: u32
  st_dev :: u64
  st_ino :: u64
  st_size :: u64
  st_nlink :: u64
  st_mtim :: "int \<times> int"

definition stat_zero :: stat where
  "stat_zero = \<lparr>st_mode = 0, st_dev = 0, st_ino = 0, st_size = 0, st_nlink = 0, st_mtim = (0, 0)\<rparr>"

text \<open>The macros of \<open>sys/stat.h\<close>.\<close>

definition S_IFMT :: u32 where "S_IFMT = 0xF000"
definition S_ISLNK :: "u32 \<Rightarrow> bool" where "S_ISLNK mode \<longleftrightarrow> mode AND S_IFMT = 0xA000"
definition S_ISREG :: "u32 \<Rightarrow> bool" where "S_ISREG mode \<longleftrightarrow> mode AND S_IFMT = 0x8000"
definition S_ISDIR :: "u32 \<Rightarrow> bool" where "S_ISDIR mode \<longleftrightarrow> mode AND S_IFMT = 0x4000"
definition S_ISBLK :: "u32 \<Rightarrow> bool" where "S_ISBLK mode \<longleftrightarrow> mode AND S_IFMT = 0x6000"
definition S_ISCHR :: "u32 \<Rightarrow> bool" where "S_ISCHR mode \<longleftrightarrow> mode AND S_IFMT = 0x2000"
definition S_ISFIFO :: "u32 \<Rightarrow> bool" where "S_ISFIFO mode \<longleftrightarrow> mode AND S_IFMT = 0x1000"
definition S_ISSOCK :: "u32 \<Rightarrow> bool" where "S_ISSOCK mode \<longleftrightarrow> mode AND S_IFMT = 0xC000"

definition posix_get_perms :: "stat \<Rightarrow> u32" where
  "posix_get_perms st = st_mode st AND perms_mask"

definition create_file_status :: "int \<Rightarrow> stat \<Rightarrow> int option \<Rightarrow> file_status fs_result" where
  "create_file_status m_ec path_stat ec =
     (let ec = set_ec m_ec ec in
      if m_ec \<noteq> 0 \<and> (m_ec = ENOENT \<or> m_ec = ENOTDIR) then (Inr (file_status_of Not_found), ec)
      else if m_ec \<noteq> 0 then set_or_throw m_ec ec (file_status_of No_type)
      else
        let mode = st_mode path_stat;
            ft = (if S_ISLNK mode then Symlink
                  else if S_ISREG mode then Regular
                  else if S_ISDIR mode then Directory
                  else if S_ISBLK mode then Block
                  else if S_ISCHR mode then Character
                  else if S_ISFIFO mode then Fifo
                  else if S_ISSOCK mode then Socket
                  else Unknown) in
        (Inr \<lparr>fs_type = ft, fs_permissions = posix_get_perms path_stat\<rparr>, ec))"

text \<open>\<open>posix_stat\<close> and \<open>posix_lstat\<close> for the system calls \<open>stat\<close> and \<open>lstat\<close>, with the structure that they fill.\<close>

definition posix_stat :: "(string \<Rightarrow> int + stat) \<Rightarrow> string \<Rightarrow> stat \<Rightarrow> int option \<Rightarrow> file_status fs_result \<times> stat" where
  "posix_stat sys_stat p path_stat ec =
     (case sys_stat p of
        Inl errno \<Rightarrow> (create_file_status errno path_stat ec, path_stat)
      | Inr path_stat \<Rightarrow> (create_file_status 0 path_stat ec, path_stat))"

definition posix_lstat :: "(string \<Rightarrow> int + stat) \<Rightarrow> string \<Rightarrow> stat \<Rightarrow> int option \<Rightarrow> file_status fs_result \<times> stat" where
  "posix_lstat sys_lstat p path_stat ec =
     (case sys_lstat p of
        Inl errno \<Rightarrow> (create_file_status errno path_stat ec, path_stat)
      | Inr path_stat \<Rightarrow> (create_file_status 0 path_stat ec, path_stat))"

definition fs_status :: "(string \<Rightarrow> int + stat) \<Rightarrow> string \<Rightarrow> int option \<Rightarrow> file_status fs_result" where
  "fs_status sys_stat p ec = fst (posix_stat sys_stat p stat_zero ec)"

definition fs_symlink_status :: "(string \<Rightarrow> int + stat) \<Rightarrow> string \<Rightarrow> int option \<Rightarrow> file_status fs_result" where
  "fs_symlink_status sys_lstat p ec = fst (posix_lstat sys_lstat p stat_zero ec)"

text \<open>A status query with the local \<open>m_ec\<close>.\<close>

definition status_code :: "file_status fs_result \<Rightarrow> file_status \<times> int" where
  "status_code r = (case r of (Inr st, Some m_ec) \<Rightarrow> (st, m_ec) | _ \<Rightarrow> (file_status_of No_type, 0))"

section \<open>Appending to a path\<close>

definition append_sep_if_needed :: "string \<Rightarrow> char \<Rightarrow> string" where
  "append_sep_if_needed pn first_or_null =
     (let null_val = CHR 0x00;
          append_sep = (pn \<noteq> [] \<and> last pn \<noteq> sep \<and> first_or_null \<noteq> null_val \<and> first_or_null \<noteq> sep) in
      if append_sep then pn @ [sep] else pn)"

definition path_append :: "string \<Rightarrow> string \<Rightarrow> string" where
  "path_append pn p = append_sep_if_needed pn (case p of [] \<Rightarrow> CHR 0x00 | c # _ \<Rightarrow> c) @ p"

section \<open>Lemmas\<close>

text \<open>What a status query with an error code means.\<close>

lemma create_file_status_Some:
  "create_file_status e st (Some x) =
     (if e = 0 then create_file_status 0 st (Some x)
      else (Inr (file_status_of (if e = ENOENT \<or> e = ENOTDIR then Not_found else No_type)), Some e))"
  by (simp add: create_file_status_def)

lemma create_status_directory:
  "\<exists>s. create_file_status 0 st ec = (Inr s, clear_ec ec) \<and> status_known s \<and> fs_exists s \<and> (is_directory s \<longleftrightarrow> S_ISDIR (st_mode st)) \<and>
     (is_symlink s \<longrightarrow> \<not> S_ISDIR (st_mode st))"
  by (auto simp: create_file_status_def Let_def status_known_def fs_exists_def is_directory_def is_symlink_def S_ISDIR_def S_ISLNK_def S_ISREG_def)

end
