(* ===== verification/Dir_Iterator.thy ===== *)
theory Dir_Iterator
  imports Fs_Status "HOL-Library.Monad_Syntax"
begin

text \<open>
  \<open>src/src/experimental/filesystem/directory_iterator.cpp\<close> for POSIX: \<open>__dir_stream\<close>, \<open>directory_iterator\<close> and
  \<open>recursive_directory_iterator\<close> with its stack of open directories.  The system calls are parameters; an open directory
  (\<open>DIR*\<close>) is the names that \<open>readdir\<close> still gives and the \<open>errno\<close> at their end, 0 where the directory ends.  A null pointer that is
  used and a failed assertion are \<open>None\<close>.  An iterator does not share its state with copies.
\<close>

section \<open>The directory stream\<close>

record dir_os =
  sys_opendir :: "string \<Rightarrow> int + string list \<times> int"
  sys_stat :: "string \<Rightarrow> int + stat"
  sys_lstat :: "string \<Rightarrow> int + stat"

record dir_stream =
  ds_stream :: "(string list \<times> int) option"
  ds_root :: string
  ds_entry :: string

definition follow_directory_symlink :: u8 where "follow_directory_symlink = 1"
definition skip_permission_denied :: u8 where "skip_permission_denied = 2"

definition ds_good :: "dir_stream \<Rightarrow> bool" where "ds_good s \<longleftrightarrow> ds_stream s \<noteq> None"

text \<open>The loop of \<open>advance\<close>: the names and the \<open>errno\<close> that \<open>posix_readdir\<close> gives one after the other; \<open>close\<close> drops its error.\<close>

fun advance_loop :: "dir_stream \<Rightarrow> string list \<Rightarrow> int \<Rightarrow> dir_stream \<times> bool \<times> int" where
  "advance_loop s [] errno = (s\<lparr>ds_stream := None\<rparr>, False, errno)"
| "advance_loop s (str # names) errno =
     (if str = ''.'' \<or> str = ''..'' then advance_loop s names errno
      else if str = [] then (s\<lparr>ds_stream := None\<rparr>, False, 0)
      else (s\<lparr>ds_stream := Some (names, errno), ds_entry := path_append (ds_root s) str\<rparr>, True, 0))"

definition ds_advance :: "dir_stream \<Rightarrow> (dir_stream \<times> bool \<times> int) option" where
  "ds_advance s = (case ds_stream s of None \<Rightarrow> None | Some (names, errno) \<Rightarrow> Some (advance_loop s names errno))"

text \<open>The constructor, with the value of \<open>ec\<close>.\<close>

definition dir_stream_new :: "dir_os \<Rightarrow> string \<Rightarrow> u8 \<Rightarrow> dir_stream \<times> int" where
  "dir_stream_new os root opts =
     (let s = \<lparr>ds_stream = None, ds_root = root, ds_entry = []\<rparr> in
      case sys_opendir os root of
        Inl errno \<Rightarrow>
          let ec = errno;
              allow_eacces = (opts AND skip_permission_denied \<noteq> 0) in
          (s, if allow_eacces \<and> ec = EACCES then 0 else ec)
      | Inr (names, errno) \<Rightarrow>
          let (s, _, ec) = advance_loop (s\<lparr>ds_stream := Some (names, errno)\<rparr>) names errno in (s, ec))"

section \<open>directory_iterator\<close>

text \<open>The iterator is its \<open>__imp_\<close>.\<close>

definition directory_iterator :: "dir_os \<Rightarrow> string \<Rightarrow> int option \<Rightarrow> u8 \<Rightarrow> dir_stream option fs_result" where
  "directory_iterator os p ec opts =
     (let (imp, m_ec) = dir_stream_new os p opts;
          ec = set_ec m_ec ec in
      if \<not> ds_good imp then
        if m_ec \<noteq> 0 then set_or_throw m_ec ec None else (Inr None, ec)
      else (Inr (Some imp), ec))"

definition directory_increment :: "dir_stream option \<Rightarrow> int option \<Rightarrow> (dir_stream option \<times> unit fs_result) option" where
  "directory_increment it ec =
     do {
       imp \<leftarrow> it;
       (imp, advanced, m_ec) \<leftarrow> ds_advance imp;
       Some (if \<not> advanced then (None, if m_ec \<noteq> 0 then set_or_throw m_ec ec () else (Inr (), ec))
             else (Some imp, (Inr (), clear_ec ec)))
     }"

definition directory_dereference :: "dir_stream option \<Rightarrow> string option" where
  "directory_dereference it = map_option ds_entry it"

section \<open>recursive_directory_iterator\<close>

record rec_iterator =
  rd_imp :: "(dir_stream list \<times> u8) option"
  rd_rec :: bool

definition rec_iterator_new :: "dir_os \<Rightarrow> string \<Rightarrow> u8 \<Rightarrow> int option \<Rightarrow> rec_iterator fs_result" where
  "rec_iterator_new os p opt ec =
     (let it = \<lparr>rd_imp = None, rd_rec = True\<rparr>;
          ec = clear_ec ec;
          (new_s, m_ec) = dir_stream_new os p opt in
      if m_ec \<noteq> 0 then set_or_throw m_ec ec it
      else if \<not> ds_good new_s then (Inr it, ec)
      else (Inr (it\<lparr>rd_imp := Some ([new_s], opt)\<rparr>), ec))"

definition rec_options :: "rec_iterator \<Rightarrow> u8 option" where "rec_options it = map_option snd (rd_imp it)"

definition rec_depth :: "rec_iterator \<Rightarrow> nat option" where
  "rec_depth it = map_option (\<lambda>(stack, _). length stack - 1) (rd_imp it)"

definition rec_dereference :: "rec_iterator \<Rightarrow> string option" where
  "rec_dereference it = (case rd_imp it of Some (cur # _, _) \<Rightarrow> Some (ds_entry cur) | _ \<Rightarrow> None)"

definition disable_recursion_pending :: "rec_iterator \<Rightarrow> rec_iterator" where
  "disable_recursion_pending it = it\<lparr>rd_rec := False\<rparr>"

text \<open>The loop of \<open>__advance\<close>: the stack, \<open>m_ec\<close>, and whether the function has returned from it.\<close>

fun rec_advance_loop :: "dir_stream list \<Rightarrow> int \<Rightarrow> (dir_stream list \<times> int \<times> bool) option" where
  "rec_advance_loop [] m_ec = Some ([], m_ec, False)"
| "rec_advance_loop (cur # stack) m_ec =
     (case ds_advance cur of
        None \<Rightarrow> None
      | Some (cur, advanced, m_ec) \<Rightarrow>
          if advanced then Some (cur # stack, m_ec, True)
          else if m_ec \<noteq> 0 then Some (cur # stack, m_ec, False)
          else rec_advance_loop stack m_ec)"

definition rec_advance :: "rec_iterator \<Rightarrow> int option \<Rightarrow> (rec_iterator \<times> unit fs_result) option" where
  "rec_advance it ec =
     do {
       (stack, opts) \<leftarrow> rd_imp it;
       (stack, m_ec, returned) \<leftarrow> rec_advance_loop stack 0;
       Some (if returned then (it\<lparr>rd_imp := Some (stack, opts)\<rparr>, (Inr (), ec))
             else (it\<lparr>rd_imp := None\<rparr>, if m_ec \<noteq> 0 then set_or_throw m_ec ec () else (Inr (), ec)))
     }"

text \<open>The end of \<open>__try_recursion\<close> where no directory was entered.\<close>

definition recursion_failed :: "rec_iterator \<Rightarrow> u8 \<Rightarrow> int \<Rightarrow> int option \<Rightarrow> rec_iterator \<times> bool fs_result" where
  "recursion_failed it opts m_ec ec =
     (if m_ec \<noteq> 0 then
        let allow_eacces = (opts AND skip_permission_denied \<noteq> 0) in
        if m_ec = EACCES \<and> allow_eacces then (it, (Inr False, clear_ec ec))
        else (it\<lparr>rd_imp := None\<rparr>, set_or_throw m_ec ec False)
      else (it, (Inr False, ec)))"

definition try_recursion :: "dir_os \<Rightarrow> rec_iterator \<Rightarrow> int option \<Rightarrow> (rec_iterator \<times> bool fs_result) option" where
  "try_recursion os it ec =
     (case rd_imp it of
        Some (curr_it # stack, opts) \<Rightarrow>
          let rec_sym = (opts AND follow_directory_symlink \<noteq> 0);
              (st, m_ec) = status_code (if \<not> rec_sym then fs_symlink_status (sys_lstat os) (ds_entry curr_it) (Some 0)
                                        else fs_status (sys_stat os) (ds_entry curr_it) (Some 0));
              m_ec = (if m_ec \<noteq> 0 \<and> status_known st then 0 else m_ec);
              skip_rec = (m_ec \<noteq> 0 \<or> (\<not> rec_sym \<and> is_symlink st) \<or> \<not> is_directory st) in
          if \<not> skip_rec then
            let (new_it, m_ec) = dir_stream_new os (ds_entry curr_it) opts in
            Some (if ds_good new_it then (it\<lparr>rd_imp := Some (new_it # curr_it # stack, opts)\<rparr>, (Inr True, ec))
                  else recursion_failed it opts m_ec ec)
          else Some (recursion_failed it opts m_ec ec)
      | _ \<Rightarrow> None)"

definition rec_increment :: "dir_os \<Rightarrow> rec_iterator \<Rightarrow> int option \<Rightarrow> (rec_iterator \<times> unit fs_result) option" where
  "rec_increment os it ec =
     (let ec = clear_ec ec in
      if rd_rec it then
        do {
          (it, res, ec) \<leftarrow> try_recursion os it ec;
          case res of
            Inl e \<Rightarrow> Some (it, (Inl e, ec))
          | Inr entered \<Rightarrow>
              if entered \<or> (ec \<noteq> None \<and> ec \<noteq> Some 0) then Some (it, (Inr (), ec))
              else rec_advance (it\<lparr>rd_rec := True\<rparr>) ec
        }
      else rec_advance (it\<lparr>rd_rec := True\<rparr>) ec)"

definition rec_pop :: "rec_iterator \<Rightarrow> int option \<Rightarrow> (rec_iterator \<times> unit fs_result) option" where
  "rec_pop it ec =
     do {
       (stack, opts) \<leftarrow> rd_imp it;
       let ec = clear_ec ec;
       let stack = tl stack;
       if stack = [] then Some (it\<lparr>rd_imp := None\<rparr>, (Inr (), ec))
       else rec_advance (it\<lparr>rd_imp := Some (stack, opts)\<rparr>) ec
     }"

section \<open>Visiting a directory tree\<close>

text \<open>A loop over an iterator: the paths and depths it visits, and how it ends.\<close>

partial_function (option) visit_all ::
  "dir_os \<Rightarrow> rec_iterator \<Rightarrow> int option \<Rightarrow> ((string \<times> nat) list \<times> unit fs_result) option" where
  "visit_all os it ec =
     (if rd_imp it = None then Some ([], (Inr (), ec))
      else do {
        entry \<leftarrow> rec_dereference it;
        depth \<leftarrow> rec_depth it;
        (it, res, ec) \<leftarrow> rec_increment os it ec;
        case res of
          Inl e \<Rightarrow> Some ([(entry, depth)], (Inl e, ec))
        | Inr _ \<Rightarrow> do {
            (visited, r) \<leftarrow> visit_all os it ec;
            Some ((entry, depth) # visited, r)
          }
      })"

definition visit_tree :: "dir_os \<Rightarrow> string \<Rightarrow> u8 \<Rightarrow> int option \<Rightarrow> ((string \<times> nat) list \<times> unit fs_result) option" where
  "visit_tree os p opts ec =
     (case rec_iterator_new os p opts ec of
        (Inl e, ec) \<Rightarrow> Some ([], (Inl e, ec))
      | (Inr it, ec) \<Rightarrow> visit_all os it ec)"

text \<open>The same loop over a \<open>directory_iterator\<close>.\<close>

partial_function (option) visit_entries :: "dir_stream option \<Rightarrow> int option \<Rightarrow> (string list \<times> unit fs_result) option" where
  "visit_entries it ec =
     (if it = None then Some ([], (Inr (), ec))
      else do {
        entry \<leftarrow> directory_dereference it;
        (it, res, ec) \<leftarrow> directory_increment it ec;
        case res of
          Inl e \<Rightarrow> Some ([entry], (Inl e, ec))
        | Inr _ \<Rightarrow> do {
            (visited, r) \<leftarrow> visit_entries it ec;
            Some (entry # visited, r)
          }
      })"

definition visit_directory :: "dir_os \<Rightarrow> string \<Rightarrow> u8 \<Rightarrow> int option \<Rightarrow> (string list \<times> unit fs_result) option" where
  "visit_directory os p opts ec =
     (case directory_iterator os p ec opts of
        (Inl e, ec) \<Rightarrow> Some ([], (Inl e, ec))
      | (Inr it, ec) \<Rightarrow> visit_entries it ec)"

text \<open>
  A directory tree: an entry that is not entered (no directory, or a symbolic link that is not followed), a directory that may not
  be read and is skipped, one where an error occurs, and one with its entries and the \<open>errno\<close> behind the last.
\<close>

datatype ftree = Leaf string | Locked string | Broken string int | Folder string "ftree list" int

fun tree_name :: "ftree \<Rightarrow> string" where
  "tree_name (Leaf n) = n"
| "tree_name (Locked n) = n"
| "tree_name (Broken n e) = n"
| "tree_name (Folder n ts e) = n"

definition entry_stat :: "dir_os \<Rightarrow> u8 \<Rightarrow> string \<Rightarrow> int + stat" where
  "entry_stat os opts p = (if opts AND follow_directory_symlink \<noteq> 0 then sys_stat os p else sys_lstat os p)"

definition is_folder :: "dir_os \<Rightarrow> u8 \<Rightarrow> string \<Rightarrow> bool" where
  "is_folder os opts p = (case entry_stat os opts p of Inl _ \<Rightarrow> False | Inr st \<Rightarrow> S_ISDIR (st_mode st))"

definition missing :: "int \<Rightarrow> bool" where "missing e \<longleftrightarrow> e = ENOENT \<or> e = ENOTDIR"

definition skipped_error :: "u8 \<Rightarrow> int \<Rightarrow> bool" where
  "skipped_error opts e \<longleftrightarrow> opts AND skip_permission_denied \<noteq> 0 \<and> e = EACCES"

text \<open>What \<open>readdir\<close> gives for a directory, with the entries \<open>.\<close> and \<open>..\<close> anywhere.\<close>

definition contents :: "dir_os \<Rightarrow> u8 \<Rightarrow> string \<Rightarrow> ftree list \<Rightarrow> int \<Rightarrow> bool" where
  "contents os opts p ts e = (\<not> skipped_error opts e \<and>
     (case sys_opendir os p of
        Inl _ \<Rightarrow> False
      | Inr (names, errno) \<Rightarrow> errno = e \<and> [] \<notin> set names \<and>
          filter (\<lambda>n. n \<noteq> ''.'' \<and> n \<noteq> ''..'') names = map tree_name ts))"

fun described :: "dir_os \<Rightarrow> u8 \<Rightarrow> string \<Rightarrow> ftree \<Rightarrow> bool" where
  "described os opts p (Leaf n) = (case entry_stat os opts (path_append p n) of Inl e \<Rightarrow> missing e | Inr st \<Rightarrow> \<not> S_ISDIR (st_mode st))"
| "described os opts p (Locked n) = (skipped_error opts EACCES \<and>
     (entry_stat os opts (path_append p n) = Inl EACCES \<or>
      is_folder os opts (path_append p n) \<and> sys_opendir os (path_append p n) = Inl EACCES))"
| "described os opts p (Broken n e) = (e \<noteq> 0 \<and> \<not> skipped_error opts e \<and>
     (entry_stat os opts (path_append p n) = Inl e \<and> \<not> missing e \<or>
      is_folder os opts (path_append p n) \<and> sys_opendir os (path_append p n) = Inl e))"
| "described os opts p (Folder n ts e) = (is_folder os opts (path_append p n) \<and> contents os opts (path_append p n) ts e \<and>
     list_all (described os opts (path_append p n)) ts)"

text \<open>The reference: the entries in preorder up to the first error, and the error, 0 for none.\<close>

definition followed_by :: "'a list \<times> int \<Rightarrow> 'a list \<times> int \<Rightarrow> 'a list \<times> int" where
  "followed_by x y = (if snd x \<noteq> 0 then x else (fst x @ fst y, snd y))"

fun preorder :: "string \<Rightarrow> nat \<Rightarrow> ftree \<Rightarrow> (string \<times> nat) list \<times> int" and
    preorders :: "string \<Rightarrow> nat \<Rightarrow> ftree list \<Rightarrow> (string \<times> nat) list \<times> int" where
  "preorder p d (Leaf n) = ([(path_append p n, d)], 0)"
| "preorder p d (Locked n) = ([(path_append p n, d)], 0)"
| "preorder p d (Broken n e) = ([(path_append p n, d)], e)"
| "preorder p d (Folder n ts e) =
     followed_by ([(path_append p n, d)], 0) (followed_by (preorders (path_append p n) (d + 1) ts) ([], e))"
| "preorders p d [] = ([], 0)"
| "preorders p d (t # ts) = followed_by (preorder p d t) (preorders p d ts)"

lemma followed_by_assoc: "followed_by (followed_by x y) z = followed_by x (followed_by y z)"
  by (simp add: followed_by_def)

lemma followed_by_simps [simp]: "followed_by ([], 0) x = x" "followed_by x ([], 0) = x" "e \<noteq> 0 \<Longrightarrow> followed_by (v, e) x = (v, e)"
  by (simp_all add: followed_by_def prod_eq_iff)

section \<open>Frames\<close>

text \<open>The open directories of a stack, with the entries that are still to come.\<close>

type_synonym frame = "string \<times> ftree list \<times> int"

fun frame_ok :: "dir_os \<Rightarrow> u8 \<Rightarrow> dir_stream \<Rightarrow> frame \<Rightarrow> bool" where
  "frame_ok os opts s (p, ts, e) \<longleftrightarrow> ds_root s = p \<and> \<not> skipped_error opts e \<and> list_all (described os opts p) ts \<and>
     (\<exists>names. ds_stream s = Some (names, e) \<and> [] \<notin> set names \<and>
        filter (\<lambda>n. n \<noteq> ''.'' \<and> n \<noteq> ''..'') names = map tree_name ts)"

fun to_come :: "frame list \<Rightarrow> (string \<times> nat) list \<times> int" where
  "to_come [] = ([], 0)"
| "to_come ((p, ts, e) # fs) = followed_by (preorders p (length fs) ts) (followed_by ([], e) (to_come fs))"

fun tree_size :: "ftree \<Rightarrow> nat" where
  "tree_size (Folder n ts e) = 3 + sum_list (map tree_size ts)"
| "tree_size _ = 1"

fun frames_size :: "frame list \<Rightarrow> nat" where
  "frames_size [] = 0"
| "frames_size ((p, ts, e) # fs) = 1 + sum_list (map tree_size ts) + frames_size fs"

lemma advance_loop_frame:
  assumes "[] \<notin> set names" and "filter (\<lambda>n. n \<noteq> ''.'' \<and> n \<noteq> ''..'') names = map tree_name ts"
  shows "case ts of
      [] \<Rightarrow> advance_loop s names e = (s\<lparr>ds_stream := None\<rparr>, False, e)
    | t # ts' \<Rightarrow> \<exists>names'. advance_loop s names e =
        (s\<lparr>ds_stream := Some (names', e), ds_entry := path_append (ds_root s) (tree_name t)\<rparr>, True, 0) \<and>
        [] \<notin> set names' \<and> filter (\<lambda>n. n \<noteq> ''.'' \<and> n \<noteq> ''..'') names' = map tree_name ts'"
  using assms by (induction names) (auto split: list.splits if_splits)

lemma advance_Nil:
  assumes "frame_ok os opts s (p, [], e)"
  shows "ds_advance s = Some (s\<lparr>ds_stream := None\<rparr>, False, e)"
  using assms advance_loop_frame [where ts = "[]"] by (auto simp: ds_advance_def)

lemma advance_Cons:
  assumes "frame_ok os opts s (p, t # ts, e)"
  obtains s' where "ds_advance s = Some (s', True, 0)" and "ds_entry s' = path_append p (tree_name t)" and "frame_ok os opts s' (p, ts, e)"
proof -
  from assms obtain names where names: "ds_stream s = Some (names, e)" "[] \<notin> set names"
      "filter (\<lambda>n. n \<noteq> ''.'' \<and> n \<noteq> ''..'') names = map tree_name (t # ts)" and ok: "ds_root s = p" "\<not> skipped_error opts e"
      "list_all (described os opts p) (t # ts)" by auto
  from advance_loop_frame [OF names(2,3), of s e] obtain names' where
    "advance_loop s names e = (s\<lparr>ds_stream := Some (names', e), ds_entry := path_append p (tree_name t)\<rparr>, True, 0)"
    "[] \<notin> set names'" "filter (\<lambda>n. n \<noteq> ''.'' \<and> n \<noteq> ''..'') names' = map tree_name ts" using ok by auto
  with names(1) ok show ?thesis by (intro that) (auto simp: ds_advance_def)
qed

text \<open>Opening a directory is advancing in a fresh stream.\<close>

lemma dir_stream_new_contents:
  assumes "contents os opts p ts e" and "list_all (described os opts p) ts"
  shows "\<exists>s. frame_ok os opts s (p, ts, e) \<and> (\<exists>s' b e'. ds_advance s = Some (s', b, e') \<and> dir_stream_new os p opts = (s', e'))"
proof -
  from assms(1) obtain names where names: "sys_opendir os p = Inr (names, e)" "[] \<notin> set names"
      "filter (\<lambda>n. n \<noteq> ''.'' \<and> n \<noteq> ''..'') names = map tree_name ts" "\<not> skipped_error opts e"
    by (auto simp: contents_def split: sum.splits prod.splits)
  let ?s = "\<lparr>ds_stream = Some (names, e), ds_root = p, ds_entry = []\<rparr>"
  have "frame_ok os opts ?s (p, ts, e)" using names assms(2) by simp
  moreover have "\<exists>s' b e'. ds_advance ?s = Some (s', b, e') \<and> dir_stream_new os p opts = (s', e')"
    using names(1) by (cases "advance_loop ?s names e") (simp add: ds_advance_def dir_stream_new_def)
  ultimately show ?thesis by blast
qed

section \<open>One step of the loop\<close>

abbreviation at_stack :: "dir_stream list \<Rightarrow> u8 \<Rightarrow> rec_iterator" where
  "at_stack stack opts \<equiv> \<lparr>rd_imp = Some (stack, opts), rd_rec = True\<rparr>"

text \<open>Going on with the loop after an operation on the iterator.\<close>

definition visit_after :: "dir_os \<Rightarrow> (rec_iterator \<times> unit fs_result) option \<Rightarrow> ((string \<times> nat) list \<times> unit fs_result) option" where
  "visit_after os r =
     (case r of
        None \<Rightarrow> None
      | Some (it, (Inl e, ec)) \<Rightarrow> Some ([], (Inl e, ec))
      | Some (it, (Inr _, ec)) \<Rightarrow> visit_all os it ec)"

definition resume :: "dir_os \<Rightarrow> u8 \<Rightarrow> dir_stream list \<Rightarrow> int option \<Rightarrow> ((string \<times> nat) list \<times> unit fs_result) option" where
  "resume os opts stack ec = visit_after os (rec_advance (at_stack stack opts) ec)"

definition ending :: "int option \<Rightarrow> (string \<times> nat) list \<times> int \<Rightarrow> ((string \<times> nat) list \<times> unit fs_result) option" where
  "ending ec x = Some (fst x, if snd x \<noteq> 0 then set_or_throw (snd x) ec () else (Inr (), ec))"

lemma visit_end [simp]: "visit_all os \<lparr>rd_imp = None, rd_rec = r\<rparr> ec = Some ([], (Inr (), ec))"
  by (simp add: visit_all.simps)

lemma ending_Cons: "map_option (apfst ((#) x)) (ending ec y) = ending ec (followed_by ([x], 0) y)"
  by (simp add: ending_def followed_by_def)

lemma rec_increment_at:
  assumes "clear_ec ec = ec" and "try_recursion os (at_stack (cur # stack) opts) ec = Some (it, (Inr b, ec))" and "rd_rec it"
  shows "rec_increment os (at_stack (cur # stack) opts) ec = (if b then Some (it, (Inr (), ec)) else rec_advance it ec)"
proof -
  have "ec = None \<or> ec = Some 0" using assms(1) by (cases ec) auto
  moreover obtain imp where "it = \<lparr>rd_imp = imp, rd_rec = True\<rparr>" using assms(3) by (cases it) simp
  ultimately show ?thesis using assms by (auto simp: rec_increment_def)
qed

lemma visit_not_entered:
  assumes "clear_ec ec = ec" and "try_recursion os (at_stack (cur # stack) opts) ec = Some (at_stack (cur # stack) opts, (Inr False, ec))"
  shows "visit_all os (at_stack (cur # stack) opts) ec = map_option (apfst ((#) (ds_entry cur, length stack))) (resume os opts (cur # stack) ec)"
proof -
  have "rec_increment os (at_stack (cur # stack) opts) ec = rec_advance (at_stack (cur # stack) opts) ec"
    by (simp add: rec_increment_at [OF assms])
  then show ?thesis
    by (subst visit_all.simps) (auto simp: rec_dereference_def rec_depth_def resume_def visit_after_def Option.bind_eq_Some_conv
      split: option.splits sum.splits bind_splits)
qed

lemma visit_entered:
  assumes "clear_ec ec = ec" and "try_recursion os (at_stack (cur # stack) opts) ec = Some (at_stack (new # cur # stack) opts, (Inr True, ec))"
  shows "visit_all os (at_stack (cur # stack) opts) ec =
    map_option (apfst ((#) (ds_entry cur, length stack))) (visit_all os (at_stack (new # cur # stack) opts) ec)"
proof -
  have "rec_increment os (at_stack (cur # stack) opts) ec = Some (at_stack (new # cur # stack) opts, (Inr (), ec))"
    by (simp add: rec_increment_at [OF assms])
  then show ?thesis
    by (subst visit_all.simps) (auto simp: rec_dereference_def rec_depth_def split: option.splits bind_splits)
qed

lemma visit_failed:
  assumes "clear_ec ec = ec" and "e \<noteq> 0"
    and "try_recursion os (at_stack (cur # stack) opts) ec = Some (\<lparr>rd_imp = None, rd_rec = True\<rparr>, set_or_throw e ec False)"
  shows "visit_all os (at_stack (cur # stack) opts) ec = ending ec ([(ds_entry cur, length stack)], e)"
proof -
  have "rec_increment os (at_stack (cur # stack) opts) ec = Some (\<lparr>rd_imp = None, rd_rec = True\<rparr>, set_or_throw e ec ())"
    using assms by (cases ec) (auto simp: rec_increment_def)
  then show ?thesis
    by (subst visit_all.simps) (cases ec; simp add: rec_dereference_def rec_depth_def ending_def assms(2))
qed

text \<open>What \<open>__try_recursion\<close> does for each kind of entry.\<close>

lemma status_code_entry:
  "status_code (if \<not> (opts AND follow_directory_symlink \<noteq> 0) then fs_symlink_status (sys_lstat os) q (Some 0)
      else fs_status (sys_stat os) q (Some 0)) =
   status_code (case entry_stat os opts q of Inl e \<Rightarrow> create_file_status e stat_zero (Some 0) | Inr st \<Rightarrow> create_file_status 0 st (Some 0))"
  by (simp add: entry_stat_def fs_symlink_status_def fs_status_def posix_lstat_def posix_stat_def split: sum.splits)

lemma try_error:
  assumes "entry_stat os opts (ds_entry cur) = Inl e" and "e \<noteq> 0"
  shows "try_recursion os (at_stack (cur # stack) opts) ec =
    Some (recursion_failed (at_stack (cur # stack) opts) opts (if missing e then 0 else e) ec)"
  using assms unfolding try_recursion_def
  by (simp only: rec_iterator.simps option.case prod.case list.case Let_def status_code_entry)
    (simp add: create_file_status_Some status_code_def missing_def status_known_def file_status_of_def is_directory_def)

lemma try_entry:
  assumes "entry_stat os opts (ds_entry cur) = Inr st"
  shows "try_recursion os (at_stack (cur # stack) opts) ec =
    (if S_ISDIR (st_mode st) then
       let (new_it, m_ec) = dir_stream_new os (ds_entry cur) opts in
       Some (if ds_good new_it then (at_stack (new_it # cur # stack) opts, (Inr True, ec))
             else recursion_failed (at_stack (cur # stack) opts) opts m_ec ec)
     else Some (recursion_failed (at_stack (cur # stack) opts) opts 0 ec))"
proof -
  obtain s where s: "create_file_status 0 st (Some 0) = (Inr s, Some 0)" "is_directory s \<longleftrightarrow> S_ISDIR (st_mode st)"
    "is_symlink s \<longrightarrow> \<not> S_ISDIR (st_mode st)" using create_status_directory [of st "Some 0"] by auto
  then show ?thesis unfolding try_recursion_def
    by (simp only: rec_iterator.simps option.case prod.case list.case Let_def status_code_entry assms sum.case)
      (auto simp: status_code_def split: prod.splits)
qed

lemma opendir_failed: "sys_opendir os p = Inl e \<Longrightarrow>
    \<exists>s. dir_stream_new os p opts = (s, if skipped_error opts e then 0 else e) \<and> \<not> ds_good s"
  by (auto simp: dir_stream_new_def skipped_error_def ds_good_def Let_def)

lemma recursion_failed_simps:
  "recursion_failed it opts 0 ec = (it, (Inr False, ec))"
  "e \<noteq> 0 \<Longrightarrow> \<not> skipped_error opts e \<Longrightarrow> recursion_failed it opts e ec = (it\<lparr>rd_imp := None\<rparr>, set_or_throw e ec False)"
  "skipped_error opts e \<Longrightarrow> clear_ec ec = ec \<Longrightarrow> recursion_failed it opts e ec = (it, (Inr False, ec))"
  by (auto simp: recursion_failed_def skipped_error_def)

section \<open>The walk\<close>

text \<open>Going on: with the next entry of the top directory, with the directory below it, or not at all after an error.\<close>

lemma resume_next: "ds_advance cur = Some (cur', True, e) \<Longrightarrow> resume os opts (cur # stack) ec = visit_all os (at_stack (cur' # stack) opts) ec"
  by (simp add: resume_def visit_after_def rec_advance_def)

lemma resume_pop: "ds_advance cur = Some (cur', False, 0) \<Longrightarrow> resume os opts (cur # stack) ec = resume os opts stack ec"
  by (cases "rec_advance_loop stack 0") (auto simp: resume_def visit_after_def rec_advance_def split: prod.splits)

lemma resume_error:
  "ds_advance cur = Some (cur', False, e) \<Longrightarrow> e \<noteq> 0 \<Longrightarrow> resume os opts (cur # stack) ec = ending ec ([], e)"
  by (cases ec) (simp_all add: resume_def visit_after_def rec_advance_def ending_def)

lemma resume_end: "resume os opts [] ec = ending ec ([], 0)"
  by (simp add: resume_def visit_after_def rec_advance_def ending_def)

lemma visit_over:
  assumes "clear_ec ec = ec"
    and "try_recursion os (at_stack (cur # stack) opts) ec = Some (recursion_failed (at_stack (cur # stack) opts) opts e ec)"
    and "e = 0 \<or> skipped_error opts e"
  shows "visit_all os (at_stack (cur # stack) opts) ec = map_option (apfst ((#) (ds_entry cur, length stack))) (resume os opts (cur # stack) ec)"
  using assms by (intro visit_not_entered) (auto simp: recursion_failed_simps)

lemma visit_error:
  assumes "clear_ec ec = ec" and "e \<noteq> 0" and "\<not> skipped_error opts e"
    and "try_recursion os (at_stack (cur # stack) opts) ec = Some (recursion_failed (at_stack (cur # stack) opts) opts e ec)"
  shows "visit_all os (at_stack (cur # stack) opts) ec = ending ec ([(ds_entry cur, length stack)], e)"
  using assms by (intro visit_failed) (auto simp: recursion_failed_simps)

text \<open>One entry: it is not entered, an error ends the loop, or its directory becomes the top of the stack.\<close>

lemma visit_folder:
  assumes "is_folder os opts (ds_entry cur)" and "contents os opts (ds_entry cur) ts e"
    and "list_all (described os opts (ds_entry cur)) ts" and "clear_ec ec = ec"
  shows "\<exists>new. frame_ok os opts new (ds_entry cur, ts, e) \<and> visit_all os (at_stack (cur # stack) opts) ec =
    map_option (apfst ((#) (ds_entry cur, length stack))) (resume os opts (new # cur # stack) ec)"
proof -
  from assms(1) obtain st where st: "entry_stat os opts (ds_entry cur) = Inr st" "S_ISDIR (st_mode st)"
    by (auto simp: is_folder_def split: sum.splits)
  from dir_stream_new_contents [OF assms(2,3)] obtain new s' b e' where new: "frame_ok os opts new (ds_entry cur, ts, e)"
      "ds_advance new = Some (s', b, e')" "dir_stream_new os (ds_entry cur) opts = (s', e')" by blast
  show ?thesis
  proof (cases ts)
    case Nil
    have "ds_advance new = Some (new\<lparr>ds_stream := None\<rparr>, False, e)" by (rule advance_Nil [OF new(1) [unfolded Nil]])
    with new(2,3) have s': "ds_advance new = Some (s', False, e)" "dir_stream_new os (ds_entry cur) opts = (s', e)" "\<not> ds_good s'"
      by (auto simp: ds_good_def)
    have tried: "try_recursion os (at_stack (cur # stack) opts) ec = Some (recursion_failed (at_stack (cur # stack) opts) opts e ec)"
      using s' st(2) by (simp add: try_entry [OF st(1)])
    show ?thesis
    proof (cases "e = 0")
      case True
      then show ?thesis using visit_over [OF assms(4) tried] resume_pop [of new s'] s'(1) new(1) by auto
    next
      case False
      moreover have "\<not> skipped_error opts e" using new(1) by simp
      ultimately show ?thesis using visit_error [OF assms(4) _ _ tried] resume_error [OF s'(1)] new(1)
        by (auto simp: ending_def set_or_throw_def split: option.splits)
    qed
  next
    case (Cons t us)
    from advance_Cons [OF new(1) [unfolded Cons]]
    obtain s where s: "ds_advance new = Some (s, True, 0)" "frame_ok os opts s (ds_entry cur, us, e)" by blast
    with new(2,3) have "dir_stream_new os (ds_entry cur) opts = (s, 0)" "ds_good s" by (auto simp: ds_good_def)
    then have "try_recursion os (at_stack (cur # stack) opts) ec = Some (at_stack (s # cur # stack) opts, (Inr True, ec))"
      using st(2) by (simp add: try_entry [OF st(1)])
    from visit_entered [OF assms(4) this] resume_next [OF s(1)] new(1) show ?thesis by auto
  qed
qed

lemma visit_entry:
  assumes "described os opts p t" and "ds_entry cur = path_append p (tree_name t)" and "clear_ec ec = ec"
  shows "case t of
      Folder n ts e \<Rightarrow> \<exists>new. frame_ok os opts new (ds_entry cur, ts, e) \<and> visit_all os (at_stack (cur # stack) opts) ec =
        map_option (apfst ((#) (ds_entry cur, length stack))) (resume os opts (new # cur # stack) ec)
    | Broken n e \<Rightarrow> e \<noteq> 0 \<and> visit_all os (at_stack (cur # stack) opts) ec = ending ec ([(ds_entry cur, length stack)], e)
    | _ \<Rightarrow> visit_all os (at_stack (cur # stack) opts) ec =
        map_option (apfst ((#) (ds_entry cur, length stack))) (resume os opts (cur # stack) ec)"
proof (cases t)
  case (Leaf n)
  have "try_recursion os (at_stack (cur # stack) opts) ec = Some (recursion_failed (at_stack (cur # stack) opts) opts 0 ec)"
  proof (cases "entry_stat os opts (ds_entry cur)")
    case (Inl e)
    with assms(1,2) Leaf have "missing e" by simp
    moreover from this have "e \<noteq> 0" by (auto simp: missing_def ENOENT_def ENOTDIR_def)
    ultimately show ?thesis by (simp add: try_error [OF Inl])
  next
    case (Inr st)
    with assms(1,2) Leaf show ?thesis by (simp add: try_entry [OF Inr])
  qed
  from visit_over [OF assms(3) this] show ?thesis by (simp add: Leaf)
next
  case (Locked n)
  from assms(1) Locked have skip: "skipped_error opts EACCES" by simp
  have "\<exists>e. (e = 0 \<or> skipped_error opts e) \<and>
    try_recursion os (at_stack (cur # stack) opts) ec = Some (recursion_failed (at_stack (cur # stack) opts) opts e ec)"
  proof (cases "entry_stat os opts (ds_entry cur)")
    case (Inl e)
    with assms(1,2) Locked have "e = EACCES" by (auto simp: is_folder_def)
    then show ?thesis using skip by (auto simp: try_error [OF Inl] missing_def EACCES_def ENOENT_def ENOTDIR_def)
  next
    case (Inr st)
    with assms(1,2) Locked have "S_ISDIR (st_mode st)" "sys_opendir os (ds_entry cur) = Inl EACCES" by (auto simp: is_folder_def)
    moreover from opendir_failed [OF this(2), of opts] skip obtain s where "dir_stream_new os (ds_entry cur) opts = (s, 0)" "\<not> ds_good s" by auto
    ultimately show ?thesis by (auto simp: try_entry [OF Inr])
  qed
  then show ?thesis using visit_over [OF assms(3)] by (auto simp: Locked)
next
  case (Broken n e)
  from assms(1) Broken have e: "e \<noteq> 0" "\<not> skipped_error opts e" by simp_all
  have "try_recursion os (at_stack (cur # stack) opts) ec = Some (recursion_failed (at_stack (cur # stack) opts) opts e ec)"
  proof (cases "entry_stat os opts (ds_entry cur)")
    case (Inl e')
    with assms(1,2) Broken have "e' = e" "\<not> missing e" by (auto simp: is_folder_def)
    then show ?thesis using e(1) by (simp add: try_error [OF Inl])
  next
    case (Inr st)
    with assms(1,2) Broken have "S_ISDIR (st_mode st)" "sys_opendir os (ds_entry cur) = Inl e" by (auto simp: is_folder_def)
    moreover from opendir_failed [OF this(2), of opts] e obtain s where "dir_stream_new os (ds_entry cur) opts = (s, e)" "\<not> ds_good s" by auto
    ultimately show ?thesis by (simp add: try_entry [OF Inr])
  qed
  from visit_error [OF assms(3) e this] e(1) show ?thesis by (simp add: Broken)
next
  case (Folder n ts e)
  with assms(1,2) visit_folder [OF _ _ _ assms(3), of os opts cur ts e stack] show ?thesis by simp
qed

text \<open>A loop that goes on with a stack visits the entries that are still to come.\<close>

lemma visit_frames:
  assumes "list_all2 (frame_ok os opts) stack fs" and "clear_ec ec = ec"
  shows "resume os opts stack ec = ending ec (to_come fs)"
  using assms(1)
proof (induction "frames_size fs" arbitrary: stack fs rule: less_induct)
  case less
  show ?case
  proof (cases fs)
    case Nil
    with less(2) show ?thesis by (simp add: resume_end)
  next
    case (Cons f fs')
    obtain p ts e where f: "f = (p, ts, e)" by (cases f)
    with less(2) Cons obtain cur stack' where stack: "stack = cur # stack'" and cur: "frame_ok os opts cur (p, ts, e)"
      and rest: "list_all2 (frame_ok os opts) stack' fs'" by (auto simp: list_all2_Cons2)
    have len: "length stack' = length fs'" using rest by (rule list_all2_lengthD)
    show ?thesis
    proof (cases ts)
      case Nil
      from advance_Nil [OF cur [unfolded Nil]] show ?thesis
        using less(1) [OF _ rest] resume_pop resume_error Cons f Nil stack by (cases "e = 0") (simp_all add: ending_def)
    next
      case (Cons t ts')
      with cur have t: "described os opts p t" by simp
      from advance_Cons [OF cur [unfolded Cons]] obtain cur' where cur': "ds_advance cur = Some (cur', True, 0)" "ds_entry cur' = path_append p (tree_name t)"
        "frame_ok os opts cur' (p, ts', e)" by blast
      note here = visit_entry [OF t cur'(2) assms(2), of stack', folded resume_next [OF cur'(1), of os opts stack' ec], folded stack]
      have fs: "fs = (p, t # ts', e) # fs'" using \<open>fs = f # fs'\<close> f Cons by simp
      have next_frames: "list_all2 (frame_ok os opts) (cur' # stack') ((p, ts', e) # fs')" using cur'(3) rest by simp
      show ?thesis
      proof (cases t)
        case (Folder n us e')
        from here Folder obtain new where new: "frame_ok os opts new (ds_entry cur', us, e')"
          "resume os opts stack ec = map_option (apfst ((#) (ds_entry cur', length stack'))) (resume os opts (new # cur' # stack') ec)" by auto
        have "resume os opts (new # cur' # stack') ec = ending ec (to_come ((ds_entry cur', us, e') # (p, ts', e) # fs'))"
          by (rule less(1)) (use fs Folder new(1) next_frames in simp_all)
        with new(2) fs Folder cur'(2) len show ?thesis by (simp add: ending_Cons followed_by_assoc)
      next
        case (Broken n e')
        with here fs cur'(2) len show ?thesis by (simp add: ending_def)
      next
        case (Leaf n)
        have "resume os opts (cur' # stack') ec = ending ec (to_come ((p, ts', e) # fs'))"
          by (rule less(1)) (use fs Leaf next_frames in simp_all)
        with here fs Leaf cur'(2) len show ?thesis by (simp add: ending_Cons followed_by_assoc)
      next
        case (Locked n)
        have "resume os opts (cur' # stack') ec = ending ec (to_come ((p, ts', e) # fs'))"
          by (rule less(1)) (use fs Locked next_frames in simp_all)
        with here fs Locked cur'(2) len show ?thesis by (simp add: ending_Cons followed_by_assoc)
      qed
    qed
  qed
qed

lemma walk_contents:
  assumes "contents os opts p ts e" and "list_all (described os opts p) ts"
  shows "visit_tree os p opts ec = ending (clear_ec ec) (followed_by (preorders p 0 ts) ([], e))"
proof -
  from dir_stream_new_contents [OF assms] obtain s s' b e' where s: "frame_ok os opts s (p, ts, e)"
      "ds_advance s = Some (s', b, e')" "dir_stream_new os p opts = (s', e')" by blast
  have all: "resume os opts [s] (clear_ec ec) = ending (clear_ec ec) (followed_by (preorders p 0 ts) ([], e))"
    using visit_frames [of os opts "[s]" "[(p, ts, e)]" "clear_ec ec"] s(1) by simp
  show ?thesis
  proof (cases ts)
    case Nil
    from advance_Nil [OF s(1) [unfolded Nil]] s(2,3) have "ds_advance s = Some (s', False, e)" "e' = e" "\<not> ds_good s'"
      by (auto simp: ds_good_def)
    then show ?thesis using s(3) Nil by (cases ec) (auto simp: visit_tree_def rec_iterator_new_def ending_def)
  next
    case (Cons t us)
    from advance_Cons [OF s(1) [unfolded Cons]] s(2) have "b \<and> e' = 0 \<and> frame_ok os opts s' (p, us, e)"
      by (metis option.inject prod.inject)
    then have "b" "e' = 0" "ds_good s'" by (auto simp: ds_good_def)
    then show ?thesis using s(2,3) resume_next [of s s' 0 os opts "[]" "clear_ec ec"] all by (simp add: visit_tree_def rec_iterator_new_def)
  qed
qed

lemma walk_opendir_failed:
  assumes "sys_opendir os p = Inl e"
  shows "visit_tree os p opts ec = ending (clear_ec ec) ([], if skipped_error opts e then 0 else e)"
  using opendir_failed [OF assms, of opts] by (cases ec) (auto simp: visit_tree_def rec_iterator_new_def ending_def)

lemma pop_frames:
  assumes "list_all2 (frame_ok os opts) (cur # stack) (f # fs)"
  shows "visit_after os (rec_pop (at_stack (cur # stack) opts) ec) = ending (clear_ec ec) (to_come fs)"
proof (cases stack)
  case Nil
  with assms show ?thesis by (simp add: rec_pop_def visit_after_def ending_def)
next
  case (Cons s ss)
  with visit_frames [of os opts stack fs "clear_ec ec"] assms show ?thesis by (simp add: rec_pop_def resume_def)
qed

lemma disabled_frames:
  assumes "list_all2 (frame_ok os opts) stack fs"
  shows "visit_after os (rec_increment os (disable_recursion_pending (at_stack stack opts)) ec) = ending (clear_ec ec) (to_come fs)"
  using visit_frames [OF assms, of "clear_ec ec"] by (simp add: rec_increment_def disable_recursion_pending_def resume_def)

section \<open>The entries of one directory\<close>

lemma visit_entries_names:
  assumes "ds_stream s = Some (names, e)" and "[] \<notin> set names" and "filter (\<lambda>n. n \<noteq> ''.'' \<and> n \<noteq> ''..'') names = xs" and "clear_ec ec = ec"
  shows "visit_entries (Some s) ec = Some (ds_entry s # map (path_append (ds_root s)) xs, if e \<noteq> 0 then set_or_throw e ec () else (Inr (), ec))"
  using assms
proof (induction xs arbitrary: s names)
  case Nil
  have "advance_loop s names e = (s\<lparr>ds_stream := None\<rparr>, False, e)"
    using advance_loop_frame [of names "[]" s e] Nil by simp
  then have "directory_increment (Some s) ec = Some (None, if e \<noteq> 0 then set_or_throw e ec () else (Inr (), ec))"
    using Nil by (simp add: directory_increment_def ds_advance_def)
  then show ?case
    by (subst visit_entries.simps) (cases ec; auto simp: directory_dereference_def visit_entries.simps [of None])
next
  case (Cons x xs)
  from advance_loop_frame [of names "map Leaf (x # xs)" s e] Cons(3,4) obtain names' where
    "advance_loop s names e = (s\<lparr>ds_stream := Some (names', e), ds_entry := path_append (ds_root s) x\<rparr>, True, 0)"
    and rest: "[] \<notin> set names'" "filter (\<lambda>n. n \<noteq> ''.'' \<and> n \<noteq> ''..'') names' = xs" by (auto simp: comp_def)
  then have "directory_increment (Some s) ec =
      Some (Some (s\<lparr>ds_stream := Some (names', e), ds_entry := path_append (ds_root s) x\<rparr>), (Inr (), ec))"
    using Cons(2,5) by (simp add: directory_increment_def ds_advance_def)
  then show ?case using Cons(1) [OF _ rest Cons(5), of "s\<lparr>ds_stream := Some (names', e), ds_entry := path_append (ds_root s) x\<rparr>"]
    by (subst visit_entries.simps) (simp add: directory_dereference_def)
qed

lemma visit_directory_contents:
  assumes "contents os opts p ts e"
  shows "visit_directory os p opts ec =
    Some (map (\<lambda>t. path_append p (tree_name t)) ts, if e \<noteq> 0 then set_or_throw e (clear_ec ec) () else (Inr (), clear_ec ec))"
proof -
  from assms obtain names where names: "sys_opendir os p = Inr (names, e)" "[] \<notin> set names"
      "filter (\<lambda>n. n \<noteq> ''.'' \<and> n \<noteq> ''..'') names = map tree_name ts"
    by (auto simp: contents_def split: sum.splits prod.splits)
  let ?s = "\<lparr>ds_stream = Some (names, e), ds_root = p, ds_entry = []\<rparr>"
  note frame = advance_loop_frame [OF names(2,3), of ?s e]
  show ?thesis
  proof (cases ts)
    case Nil
    with frame names(1) show ?thesis
      by (cases ec) (simp_all add: visit_directory_def directory_iterator_def dir_stream_new_def ds_good_def visit_entries.simps [of None])
  next
    case (Cons t us)
    with frame obtain names' where step: "advance_loop ?s names e = (?s\<lparr>ds_stream := Some (names', e), ds_entry := path_append p (tree_name t)\<rparr>, True, 0)"
      and rest: "[] \<notin> set names'" "filter (\<lambda>n. n \<noteq> ''.'' \<and> n \<noteq> ''..'') names' = map tree_name us" by auto
    have "visit_directory os p opts ec = visit_entries (Some (?s\<lparr>ds_stream := Some (names', e), ds_entry := path_append p (tree_name t)\<rparr>)) (clear_ec ec)"
      using step names(1) by (simp add: visit_directory_def directory_iterator_def dir_stream_new_def ds_good_def)
    also have "\<dots> = Some (map (\<lambda>t. path_append p (tree_name t)) ts, if e \<noteq> 0 then set_or_throw e (clear_ec ec) () else (Inr (), clear_ec ec))"
      by (subst visit_entries_names [OF _ rest]) (simp_all add: Cons comp_def)
    finally show ?thesis .
  qed
qed

section \<open>The property\<close>

text \<open>C24:
  A loop over a \<open>recursive_directory_iterator\<close> ends and visits exactly the entries of the directory tree in preorder, each once and
  with its depth, in directories that may not be read as far as the options skip them, up to the first error; the error is the
  one that is thrown or, with an \<open>error_code\<close>, the one that is stored, and without an error that is cleared.  \<open>pop\<close> goes on behind the
  current directory, \<open>disable_recursion_pending\<close> behind the current entry.  A loop over a \<open>directory_iterator\<close> visits the entries of
  the directory only.  But \<open>directory_iterator\<close> leaves \<open>*ec\<close> as it was when an increment reaches the end.
\<close>

theorem directory_walk:
  assumes "contents os opts p ts e" and "list_all (described os opts p) ts"
    and "list_all2 (frame_ok os opts) (cur # stack) (f # fs)" and "sys_opendir os q = Inl e'"
    and "ds_advance s = Some (s', False, 0)"
  shows "visit_tree os p opts ec = ending (clear_ec ec) (followed_by (preorders p 0 ts) ([], e)) \<and>
    visit_tree os q opts ec = ending (clear_ec ec) ([], if skipped_error opts e' then 0 else e') \<and>
    visit_after os (rec_pop (at_stack (cur # stack) opts) ec) = ending (clear_ec ec) (to_come fs) \<and>
    visit_after os (rec_increment os (disable_recursion_pending (at_stack (cur # stack) opts)) ec) = ending (clear_ec ec) (to_come (f # fs)) \<and>
    visit_directory os p opts ec =
      Some (map (\<lambda>t. path_append p (tree_name t)) ts, if e \<noteq> 0 then set_or_throw e ec () else (Inr (), clear_ec ec)) \<and>
    directory_increment (Some s) ec = Some (None, (Inr (), ec))"
proof -
  have "directory_increment (Some s) ec = Some (None, (Inr (), ec))" using assms(5) by (simp add: directory_increment_def)
  then show ?thesis
    using walk_contents [OF assms(1,2)] walk_opendir_failed [OF assms(4)] pop_frames [OF assms(3)] disabled_frames [OF assms(3)]
      visit_directory_contents [OF assms(1)] by simp
qed

text \<open>
  A directory with two files and two directories, one of which may not be read; \<open>b\<close> contains a file and a link to a directory.
\<close>

definition sample_mode :: "string \<Rightarrow> u32" where
  "sample_mode p = (if p = ''/d/b'' \<or> p = ''/d/c'' then 0x41ED else if p = ''/d/b/y'' then 0xA1FF else 0x81A4)"

definition sample_os :: dir_os where
  "sample_os = \<lparr>sys_opendir = (\<lambda>p. if p = ''/d'' then Inr ([''a'', ''.'', ''b'', ''c'', ''..'', ''e''], 0)
        else if p = ''/d/b'' then Inr ([''..'', ''.'', ''x'', ''y''], 0) else Inl 13),
      sys_stat = (\<lambda>p. Inl 2), sys_lstat = (\<lambda>p. Inr (stat_zero\<lparr>st_mode := sample_mode p\<rparr>))\<rparr>"

theorem directory_walk_witness:
  "visit_tree sample_os ''/d'' skip_permission_denied (Some 7) =
     Some ([(''/d/a'', 0), (''/d/b'', 0), (''/d/b/x'', 1), (''/d/b/y'', 1), (''/d/c'', 0), (''/d/e'', 0)], (Inr (), Some 0)) \<and>
   visit_after sample_os (rec_pop (at_stack [\<lparr>ds_stream = Some ([], 0), ds_root = ''/d/b'', ds_entry = ''/d/b/y''\<rparr>,
       \<lparr>ds_stream = Some ([''c'', ''..'', ''e''], 0), ds_root = ''/d'', ds_entry = ''/d/b''\<rparr>] skip_permission_denied) None) =
     Some ([(''/d/c'', 0), (''/d/e'', 0)], (Inr (), None))"
proof -
  let ?ts = "[Leaf ''a'', Folder ''b'' [Leaf ''x'', Leaf ''y''] 0, Locked ''c'', Leaf ''e'']"
  have c: "contents sample_os skip_permission_denied ''/d'' ?ts 0" by code_simp
  have d: "list_all (described sample_os skip_permission_denied ''/d'') ?ts" by code_simp
  have l: "list_all (described sample_os skip_permission_denied ''/d'') [Locked ''c'', Leaf ''e'']" by code_simp
  have n: "\<not> skipped_error skip_permission_denied 0" by (simp add: skipped_error_def EACCES_def)
  have f: "list_all2 (frame_ok sample_os skip_permission_denied)
     [\<lparr>ds_stream = Some ([], 0), ds_root = ''/d/b'', ds_entry = ''/d/b/y''\<rparr>,
       \<lparr>ds_stream = Some ([''c'', ''..'', ''e''], 0), ds_root = ''/d'', ds_entry = ''/d/b''\<rparr>]
     [(''/d/b'', [], 0), (''/d'', [Locked ''c'', Leaf ''e''], 0)]" using l n by simp
  have q: "sys_opendir sample_os ''/q'' = Inl 13" by code_simp
  have s: "ds_advance \<lparr>ds_stream = Some ([], 0), ds_root = [], ds_entry = []\<rparr> = Some (\<lparr>ds_stream = None, ds_root = [], ds_entry = []\<rparr>, False, 0)"
    by code_simp
  note walk = directory_walk [OF c d f q s]
  from walk [of "Some 7"] walk [of None] show ?thesis
    by (simp add: ending_def followed_by_def path_append_def append_sep_if_needed_def sep_def)
qed

end
