(* ===== verification/Fs_Time.thy ===== *)
theory Fs_Time
  imports Prelude "HOL-Library.Monad_Syntax"
begin

text \<open>
  The conversion of file times, \<open>src/src/experimental/filesystem/filesystem_time_helper.h\<close>: a \<open>file_time_type\<close> counts
  microseconds in a \<open>long long\<close>, the kernel uses seconds and nanoseconds (\<open>timespec\<close>) or microseconds.  The arithmetic of \<open>chrono\<close>
  is that of signed 64 bit integers; \<open>None\<close> is an overflow.
\<close>

section \<open>The conversions\<close>

definition rep_max :: int where "rep_max = 9223372036854775807"
definition rep_min :: int where "rep_min = - 9223372036854775808"

text \<open>A signed result.\<close>

definition signed :: "int \<Rightarrow> int option" where
  "signed x = (if rep_min \<le> x \<and> x \<le> rep_max then Some x else None)"

text \<open>\<open>duration_cast\<close> to a coarser unit truncates towards zero.\<close>

definition cast_down :: "int \<Rightarrow> int \<Rightarrow> int" where
  "cast_down n x = (if 0 \<le> x then x div n else - ((- x) div n))"

definition max_seconds :: int where "max_seconds = cast_down 1000000 rep_max"
definition max_nsec :: int where "max_nsec = (rep_max - max_seconds * 1000000) * 1000"
definition min_seconds :: int where "min_seconds = cast_down 1000000 rep_min"
definition min_nsec_timespec :: int where "min_nsec_timespec = ((rep_min - min_seconds * 1000000) + 1000000) * 1000"

definition timespec_representable :: "int \<times> int \<Rightarrow> bool" where
  "timespec_representable tm =
     (let (tv_sec, tv_nsec) = tm in
      if 0 \<le> tv_sec then tv_sec < max_seconds \<or> (tv_sec = max_seconds \<and> tv_nsec \<le> max_nsec)
      else if tv_sec = min_seconds - 1 then min_nsec_timespec \<le> tv_nsec
      else min_seconds \<le> tv_sec)"

definition time_representable :: "int \<Rightarrow> bool" where
  "time_representable tm =
     (let secs = cast_down 1000000 tm;
          nsecs = (tm - secs * 1000000) * 1000;
          secs = (if nsecs < 0 then secs + 1 else secs) in
      if 0 \<le> secs then secs \<le> rep_max else rep_min \<le> secs)"

definition convert_timespec :: "int \<times> int \<Rightarrow> int option" where
  "convert_timespec tm =
     (let (tv_sec, tv_nsec) = tm;
          adj_msec = cast_down 1000 tv_nsec in
      if 0 \<le> tv_sec then do { us \<leftarrow> signed (tv_sec * 1000000); signed (us + adj_msec) }
      else if cast_down 1000 tv_nsec = 0 then signed (tv_sec * 1000000)
      else
        let adj_subsec = cast_down 1000 (1000000000 - tv_nsec) in
        do { us \<leftarrow> signed ((tv_sec + 1) * 1000000); signed (us - adj_subsec) })"

text \<open>\<open>checked_set\<close> for \<open>time_t\<close> and \<open>long\<close>.\<close>

definition checked_set :: "int \<Rightarrow> int option" where
  "checked_set time = (if rep_max < time \<or> time < rep_min then None else Some time)"

text \<open>\<open>set_times_checked\<close>, with the number of units of the smaller field in a microsecond (1000 or 1).\<close>

definition set_times_checked :: "int \<Rightarrow> int \<Rightarrow> (int \<times> int) option" where
  "set_times_checked units dur =
     (let sec_dur = cast_down 1000000 dur;
          subsec_dur = (dur - sec_dur * 1000000) * units;
          (sec_dur, subsec_dur) =
            (if subsec_dur < 0 then
               if min_seconds < sec_dur then (sec_dur - 1, subsec_dur + 1000000 * units) else (sec_dur, 0)
             else (sec_dur, subsec_dur)) in
      do {
        sec \<leftarrow> checked_set sec_dur;
        subsec \<leftarrow> checked_set subsec_dur;
        Some (sec, subsec)
      })"

section \<open>Lemmas\<close>

text \<open>The nanoseconds since the epoch.\<close>

definition exact_time :: "int \<times> int \<Rightarrow> int" where
  "exact_time tm = fst tm * 1000000000 + snd tm"

lemma limits:
  "max_seconds = 9223372036854" "max_nsec = 775807000" "min_seconds = - 9223372036854" "min_nsec_timespec = 224192000"
  by (simp_all add: max_seconds_def max_nsec_def min_seconds_def min_nsec_timespec_def cast_down_def rep_max_def rep_min_def)

lemma representable_exact:
  assumes "0 \<le> nsec" and "nsec < 1000000000"
  shows "timespec_representable (sec, nsec) \<longleftrightarrow> rep_min * 1000 \<le> exact_time (sec, nsec) \<and> exact_time (sec, nsec) \<le> rep_max * 1000"
  using assms unfolding timespec_representable_def exact_time_def Let_def limits rep_min_def rep_max_def by simp arith

lemma cast_nsec: "0 \<le> x \<Longrightarrow> cast_down 1000 x = x div 1000"
  by (simp add: cast_down_def)

lemma split_micro: "\<exists>q r. (x::int) = 1000 * q + r \<and> 0 \<le> r \<and> r < 1000 \<and> x div 1000 = q"
  by (rule exI [where x = "x div 1000"], rule exI [where x = "x mod 1000"]) simp

text \<open>What \<open>convert_timespec\<close> returns for a representable time, and that no intermediate result overflows.\<close>

lemma convert_close:
  assumes "0 \<le> nsec" and "nsec < 1000000000" and "timespec_representable (sec, nsec)"
  shows "\<exists>t. convert_timespec (sec, nsec) = Some t \<and> rep_min \<le> t \<and> t \<le> rep_max \<and> \<bar>t * 1000 - exact_time (sec, nsec)\<bar> < 1000"
proof -
  have range: "rep_min * 1000 \<le> sec * 1000000000 + nsec" "sec * 1000000000 + nsec \<le> rep_max * 1000"
    using representable_exact [OF assms(1,2)] assms(3) by (simp_all add: exact_time_def)
  obtain q r where q: "nsec = 1000 * q + r" "0 \<le> r" "r < 1000" "nsec div 1000 = q" using split_micro by blast
  obtain sub r' where sub: "1000000000 - nsec = 1000 * sub + r'" "0 \<le> r'" "r' < 1000" "(1000000000 - nsec) div 1000 = sub"
    using split_micro by blast
  have pos: "0 \<le> q" "0 \<le> sub" using assms(1,2) q(4) sub(4) by (auto simp: pos_imp_zdiv_nonneg_iff)
  consider "0 \<le> sec" | "sec < 0" "q = 0" | "sec < 0" "q \<noteq> 0" by linarith
  then show ?thesis
  proof cases
    case 1
    with range q pos have "sec * 1000000 + q \<le> rep_max" by linarith
    moreover have "rep_min \<le> sec * 1000000" "sec * 1000000 \<le> rep_max" "rep_min \<le> sec * 1000000 + q"
      using 1 calculation pos by (simp_all add: rep_min_def)
    ultimately show ?thesis using 1 assms(1) q by (simp add: convert_timespec_def cast_nsec signed_def exact_time_def)
  next
    case 2
    with q have "nsec < 1000" by simp
    then have "min_seconds \<le> sec" using assms(3) 2(1) by (auto simp: timespec_representable_def limits split: if_splits)
    then have "rep_min \<le> sec * 1000000" "sec * 1000000 \<le> rep_max" using 2(1) by (simp_all add: limits rep_min_def rep_max_def)
    then show ?thesis using 2 assms(1) q by (simp add: convert_timespec_def cast_nsec signed_def exact_time_def)
  next
    case 3
    with range sub have "rep_min \<le> (sec + 1) * 1000000 - sub" by (simp add: algebra_simps)
    moreover have "rep_min \<le> (sec + 1) * 1000000" "(sec + 1) * 1000000 - sub \<le> rep_max" "(sec + 1) * 1000000 \<le> rep_max"
      using 3(1) pos calculation by (simp_all add: rep_max_def)
    moreover have "convert_timespec (sec, nsec) = signed ((sec + 1) * 1000000) \<bind> (\<lambda>us. signed (us - sub))"
      using 3 assms(1,2) q(4) sub(4) by (simp add: convert_timespec_def cast_nsec)
    ultimately show ?thesis using sub(1-3) by (simp add: signed_def exact_time_def)
  qed
qed

text \<open>\<open>set_times_checked\<close> gives a proper \<open>timespec\<close>, except for the last fraction of a second before the smallest time.\<close>

lemma set_times_exact:
  assumes "rep_min \<le> t" and "t \<le> rep_max"
  shows "\<exists>s n. set_times_checked 1000 t = Some (s, n) \<and> 0 \<le> n \<and> n < 1000000000 \<and> 1000 dvd n \<and>
    exact_time (s, n) = max t (min_seconds * 1000000) * 1000"
proof -
  obtain q r where q: "\<bar>t\<bar> = 1000000 * q + r" "0 \<le> r" "r < 1000000" "\<bar>t\<bar> div 1000000 = q"
    by (metis mult_div_mod_eq pos_mod_bound pos_mod_sign zero_less_numeral)
  have pos: "0 \<le> q" "q \<le> 9223372036854" using q assms by (simp_all add: rep_min_def rep_max_def)
  consider "0 \<le> t" | "t < 0" "r = 0" | "t < 0" "r \<noteq> 0" "- q = min_seconds" | "t < 0" "r \<noteq> 0" "min_seconds < - q"
    unfolding limits using pos by linarith
  then show ?thesis
  proof cases
    case 1
    then have "cast_down 1000000 t = q" using q by (simp add: cast_down_def)
    then show ?thesis using 1 q pos assms by (simp add: set_times_checked_def checked_set_def rep_max_def rep_min_def exact_time_def limits)
  next
    case 2
    then have "cast_down 1000000 t = - q" using q by (simp add: cast_down_def)
    then show ?thesis using 2 q pos assms by (simp add: set_times_checked_def checked_set_def rep_max_def rep_min_def exact_time_def limits)
  next
    case 3
    then have "cast_down 1000000 t = - q" using q by (simp add: cast_down_def)
    then show ?thesis using 3 q pos assms by (simp add: set_times_checked_def checked_set_def rep_max_def rep_min_def exact_time_def limits)
  next
    case 4
    then have "cast_down 1000000 t = - q" using q by (simp add: cast_down_def)
    then show ?thesis using 4 q pos assms
      by (simp add: set_times_checked_def checked_set_def rep_max_def rep_min_def exact_time_def limits)
  qed
qed

lemma exact_time_inject:
  "0 \<le> n \<Longrightarrow> n < 1000000000 \<Longrightarrow> 0 \<le> n' \<Longrightarrow> n' < 1000000000 \<Longrightarrow> exact_time (s, n) = exact_time (s', n') \<Longrightarrow> s = s' \<and> n = n'"
  by (cases s s' rule: linorder_cases) (simp_all add: exact_time_def)

lemma close_exact: "\<bar>t * 1000 - (1000 * x :: int)\<bar> < 1000 \<Longrightarrow> t = x"
  by linarith

text \<open>C37:
  File times.  \<open>is_representable\<close> accepts exactly the times of the kernel between the smallest and the largest \<open>file_time_type\<close>; for
  these \<open>convert_timespec\<close> never overflows and is less than a microsecond away from the exact time, and exact for whole
  microseconds, which \<open>set_times_checked\<close> restores from second \<open>min_seconds\<close> on.  In the other direction
  \<open>set_times_checked\<close> accepts every \<open>file_time_type\<close> and gives a proper \<open>timespec\<close> that is converted back to the same time; only
  times before \<open>min_seconds\<close>, in the last fraction of a second, are silently replaced by \<open>min_seconds\<close>.
\<close>

theorem file_times:
  assumes "0 \<le> nsec" and "nsec < 1000000000" and "rep_min \<le> t" and "t \<le> rep_max"
  shows "(timespec_representable (sec, nsec) \<longleftrightarrow>
      rep_min * 1000 \<le> exact_time (sec, nsec) \<and> exact_time (sec, nsec) \<le> rep_max * 1000) \<and>
    (timespec_representable (sec, nsec) \<longrightarrow>
      (\<exists>u. convert_timespec (sec, nsec) = Some u \<and> rep_min \<le> u \<and> u \<le> rep_max \<and> \<bar>u * 1000 - exact_time (sec, nsec)\<bar> < 1000 \<and>
        (1000 dvd nsec \<longrightarrow> u * 1000 = exact_time (sec, nsec) \<and>
          (min_seconds \<le> sec \<longrightarrow> set_times_checked 1000 u = Some (sec, nsec))))) \<and>
    (\<exists>s n. set_times_checked 1000 t = Some (s, n) \<and> 0 \<le> n \<and> n < 1000000000 \<and> timespec_representable (s, n) \<and>
      convert_timespec (s, n) = Some (max t (min_seconds * 1000000)))"
proof (intro conjI impI)
  assume rep: "timespec_representable (sec, nsec)"
  from convert_close [OF assms(1,2) rep] obtain u where u: "convert_timespec (sec, nsec) = Some u" "rep_min \<le> u" "u \<le> rep_max"
    "\<bar>u * 1000 - exact_time (sec, nsec)\<bar> < 1000" by blast
  have "u * 1000 = exact_time (sec, nsec) \<and> (min_seconds \<le> sec \<longrightarrow> set_times_checked 1000 u = Some (sec, nsec))" if "1000 dvd nsec"
  proof -
    from that have "exact_time (sec, nsec) = 1000 * (sec * 1000000 + nsec div 1000)" by (simp add: exact_time_def)
    with u(4) have exact: "u * 1000 = exact_time (sec, nsec)" using close_exact [of u "sec * 1000000 + nsec div 1000"] by simp
    moreover have "set_times_checked 1000 u = Some (sec, nsec)" if "min_seconds \<le> sec"
    proof -
      from exact that assms(1) have "min_seconds * 1000000 \<le> u" by (simp add: exact_time_def)
      then show ?thesis using set_times_exact [OF u(2,3)] exact exact_time_inject [OF _ _ assms(1,2)] by (auto simp: max_def)
    qed
    ultimately show ?thesis by blast
  qed
  with u show "\<exists>u. convert_timespec (sec, nsec) = Some u \<and> rep_min \<le> u \<and> u \<le> rep_max \<and> \<bar>u * 1000 - exact_time (sec, nsec)\<bar> < 1000 \<and>
        (1000 dvd nsec \<longrightarrow> u * 1000 = exact_time (sec, nsec) \<and>
          (min_seconds \<le> sec \<longrightarrow> set_times_checked 1000 u = Some (sec, nsec)))" by blast
next
  from set_times_exact [OF assms(3,4)] obtain s n where sn: "set_times_checked 1000 t = Some (s, n)" "0 \<le> n" "n < 1000000000" "1000 dvd n"
    "exact_time (s, n) = max t (min_seconds * 1000000) * 1000" by blast
  have "rep_min \<le> min_seconds * 1000000" "min_seconds * 1000000 \<le> rep_max" by (simp_all add: limits rep_min_def rep_max_def)
  with sn assms(3,4) have rep: "timespec_representable (s, n)" by (simp add: representable_exact)
  from convert_close [OF sn(2,3) rep] sn(5) have "convert_timespec (s, n) = Some (max t (min_seconds * 1000000))"
    using close_exact [of _ "max t (min_seconds * 1000000)"] by (auto simp: mult.commute)
  with sn rep show "\<exists>s n. set_times_checked 1000 t = Some (s, n) \<and> 0 \<le> n \<and> n < 1000000000 \<and> timespec_representable (s, n) \<and>
      convert_timespec (s, n) = Some (max t (min_seconds * 1000000))" by blast
qed (use representable_exact [OF assms(1,2)] in auto)

theorem file_times_witness:
  "convert_timespec (- 9223372036855, 224192000) = Some rep_min \<and> set_times_checked 1000 rep_min = Some (- 9223372036854, 0) \<and>
   timespec_representable (- 9223372036855, 224192000) \<and> \<not> timespec_representable (- 9223372036855, 224191999)"
proof -
  have "0 \<le> (224192000 :: int) \<and> (224192000 :: int) < 1000000000 \<and> rep_min \<le> rep_min \<and> rep_min \<le> rep_max" by (simp add: rep_min_def rep_max_def)
  then have "timespec_representable (- 9223372036855, 224192000)"
    using file_times [where sec = "- 9223372036855" and nsec = 224192000 and t = rep_min] by (simp add: exact_time_def rep_min_def rep_max_def)
  then show ?thesis by code_simp
qed

end
