(* ===== verification/Fs_Ops.thy ===== *)
theory Fs_Ops
  imports Dir_Iterator Fs_Time Path_Ops
begin

text \<open>
  \<open>src/src/experimental/filesystem/operations.cpp\<close>: the operations of the file system library.  The system calls and the copying of
  bytes between two streams are parameters on an abstract state of the file system; a call that changes the state gives 0 or \<open>errno\<close>.
  Every operation takes \<open>ec\<close>, where \<open>None\<close> is the throwing overload, and returns the result, \<open>*ec\<close> and the new state.  Assertions are those
  of a release build, without effect.
\<close>

section \<open>System calls\<close>

record statvfs =
  f_frsize :: u64
  f_blocks :: u64
  f_bfree :: u64
  f_bavail :: u64

record 's posix =
  px_stat :: "'s \<Rightarrow> string \<Rightarrow> int + stat"
  px_lstat :: "'s \<Rightarrow> string \<Rightarrow> int + stat"
  px_opendir :: "'s \<Rightarrow> string \<Rightarrow> int + string list \<times> int"
  px_getcwd :: "'s \<Rightarrow> int + string"
  px_readlink :: "'s \<Rightarrow> string \<Rightarrow> int + string"
  px_realpath :: "'s \<Rightarrow> string \<Rightarrow> int + string"
  px_statvfs :: "'s \<Rightarrow> string \<Rightarrow> int + statvfs"
  px_getenv :: "string \<Rightarrow> string option"
  px_mkdir :: "string \<Rightarrow> u32 \<Rightarrow> 's \<Rightarrow> int \<times> 's"
  px_symlink :: "string \<Rightarrow> string \<Rightarrow> 's \<Rightarrow> int \<times> 's"
  px_link :: "string \<Rightarrow> string \<Rightarrow> 's \<Rightarrow> int \<times> 's"
  px_rename :: "string \<Rightarrow> string \<Rightarrow> 's \<Rightarrow> int \<times> 's"
  px_chdir :: "string \<Rightarrow> 's \<Rightarrow> int \<times> 's"
  px_remove :: "string \<Rightarrow> 's \<Rightarrow> int \<times> 's"
  px_truncate :: "string \<Rightarrow> u64 \<Rightarrow> 's \<Rightarrow> int \<times> 's"
  px_fchmodat :: "string \<Rightarrow> u32 \<Rightarrow> bool \<Rightarrow> 's \<Rightarrow> int \<times> 's"
  px_utimensat :: "string \<Rightarrow> int \<times> int \<Rightarrow> 's \<Rightarrow> int \<times> 's"
  px_copy_bytes :: "string \<Rightarrow> string \<Rightarrow> 's \<Rightarrow> bool \<times> 's"

definition EPERM :: int where "EPERM = 1"
definition EISDIR :: int where "EISDIR = 21"
definition EINVAL :: int where "EINVAL = 22"
definition ENOSYS :: int where "ENOSYS = 38"
definition EOVERFLOW :: int where "EOVERFLOW = 75"
definition ENOTSUP :: int where "ENOTSUP = 95"

definition os_at :: "'s posix \<Rightarrow> 's \<Rightarrow> dir_os" where
  "os_at px s = \<lparr>sys_opendir = px_opendir px s, sys_stat = px_stat px s, sys_lstat = px_lstat px s\<rparr>"

text \<open>\<open>if (ec && *ec)\<close>.\<close>

definition ec_is_set :: "int option \<Rightarrow> bool" where
  "ec_is_set ec \<longleftrightarrow> ec \<noteq> None \<and> ec \<noteq> Some 0"

text \<open>A call of another operation: an exception is passed on, and where \<open>ec\<close> is set afterwards the function returns \<open>v\<close>.\<close>

definition fs_then :: "'a fs_result \<times> 's \<Rightarrow> 'b \<Rightarrow> ('a \<Rightarrow> int option \<Rightarrow> 's \<Rightarrow> 'b fs_result \<times> 's) \<Rightarrow> 'b fs_result \<times> 's" where
  "fs_then r v k =
     (case r of
        ((Inl e, ec), s) \<Rightarrow> ((Inl e, ec), s)
      | ((Inr a, ec), s) \<Rightarrow> if ec_is_set ec then ((Inr v, ec), s) else k a ec s)"

section \<open>Operations that are one system call\<close>

text \<open>An error is reported, otherwise \<open>ec\<close> is cleared.\<close>

definition fs_call :: "int \<times> 's \<Rightarrow> int option \<Rightarrow> unit fs_result \<times> 's" where
  "fs_call r ec = (case r of (errno, s) \<Rightarrow> (if errno \<noteq> 0 then set_or_throw errno ec () else (Inr (), clear_ec ec), s))"

definition fs_query :: "int + 'a \<Rightarrow> 'a \<Rightarrow> 's \<Rightarrow> int option \<Rightarrow> 'a fs_result \<times> 's" where
  "fs_query r v s ec = (case r of Inl errno \<Rightarrow> set_or_throw errno ec v | Inr a \<Rightarrow> (Inr a, clear_ec ec), s)"

definition create_directory_symlink :: "'s posix \<Rightarrow> string \<Rightarrow> string \<Rightarrow> 's \<Rightarrow> int option \<Rightarrow> unit fs_result \<times> 's" where
  "create_directory_symlink px from to s ec = fs_call (px_symlink px from to s) ec"

definition create_hard_link :: "'s posix \<Rightarrow> string \<Rightarrow> string \<Rightarrow> 's \<Rightarrow> int option \<Rightarrow> unit fs_result \<times> 's" where
  "create_hard_link px from to s ec = fs_call (px_link px from to s) ec"

definition create_symlink :: "'s posix \<Rightarrow> string \<Rightarrow> string \<Rightarrow> 's \<Rightarrow> int option \<Rightarrow> unit fs_result \<times> 's" where
  "create_symlink px from to s ec = fs_call (px_symlink px from to s) ec"

definition get_current_path :: "'s posix \<Rightarrow> 's \<Rightarrow> int option \<Rightarrow> string fs_result \<times> 's" where
  "get_current_path px s ec = fs_query (px_getcwd px s) [] s ec"

definition set_current_path :: "'s posix \<Rightarrow> string \<Rightarrow> 's \<Rightarrow> int option \<Rightarrow> unit fs_result \<times> 's" where
  "set_current_path px p s ec = fs_call (px_chdir px p s) ec"

definition read_symlink :: "'s posix \<Rightarrow> string \<Rightarrow> 's \<Rightarrow> int option \<Rightarrow> string fs_result \<times> 's" where
  "read_symlink px p s ec = fs_query (px_readlink px s p) [] s ec"

definition fs_remove :: "'s posix \<Rightarrow> string \<Rightarrow> 's \<Rightarrow> int option \<Rightarrow> bool fs_result \<times> 's" where
  "fs_remove px p s ec =
     (let ec = clear_ec ec; (errno, s) = px_remove px p s in
      if errno \<noteq> 0 then (set_or_throw errno ec False, s) else ((Inr True, ec), s))"

definition fs_rename :: "'s posix \<Rightarrow> string \<Rightarrow> string \<Rightarrow> 's \<Rightarrow> int option \<Rightarrow> unit fs_result \<times> 's" where
  "fs_rename px from to s ec = fs_call (px_rename px from to s) ec"

definition resize_file :: "'s posix \<Rightarrow> string \<Rightarrow> u64 \<Rightarrow> 's \<Rightarrow> int option \<Rightarrow> unit fs_result \<times> 's" where
  "resize_file px p new_size s ec = fs_call (px_truncate px p new_size s) ec"

section \<open>Queries\<close>

text \<open>\<open>posix_stat\<close> with a local \<open>m_ec\<close>: the status, \<open>m_ec\<close> and the structure.\<close>

definition stat_code :: "file_status fs_result \<times> stat \<Rightarrow> file_status \<times> int \<times> stat" where
  "stat_code r = (case r of (q, path_stat) \<Rightarrow> case status_code q of (st, m_ec) \<Rightarrow> (st, m_ec, path_stat))"

definition fs_equivalent :: "'s posix \<Rightarrow> string \<Rightarrow> string \<Rightarrow> 's \<Rightarrow> int option \<Rightarrow> bool fs_result \<times> 's" where
  "fs_equivalent px p1 p2 s ec =
     (let (s1, ec1, st1) = stat_code (posix_stat (px_stat px s) p1 stat_zero (Some 0)) in
      if \<not> fs_exists s1 then (set_or_throw ENOTSUP ec False, s)
      else
        let (s2, ec2, st2) = stat_code (posix_stat (px_stat px s) p2 stat_zero (Some 0)) in
        if \<not> fs_exists s2 then (set_or_throw ENOTSUP ec False, s)
        else ((Inr (st_dev st1 = st_dev st2 \<and> st_ino st1 = st_ino st2), clear_ec ec), s))"

definition file_size :: "'s posix \<Rightarrow> string \<Rightarrow> 's \<Rightarrow> int option \<Rightarrow> u64 fs_result \<times> 's" where
  "file_size px p s ec =
     (let (fst, m_ec, st) = stat_code (posix_stat (px_stat px s) p stat_zero (Some 0)) in
      if \<not> fs_exists fst \<or> \<not> is_regular_file fst then
        let m_ec = (if m_ec = 0 then ENOTSUP else m_ec) in
        (set_or_throw m_ec ec (- 1), s)
      else ((Inr (st_size st), clear_ec ec), s))"

definition hard_link_count :: "'s posix \<Rightarrow> string \<Rightarrow> 's \<Rightarrow> int option \<Rightarrow> u64 fs_result \<times> 's" where
  "hard_link_count px p s ec =
     (let (_, m_ec, st) = stat_code (posix_stat (px_stat px s) p stat_zero (Some 0)) in
      if m_ec \<noteq> 0 then (set_or_throw m_ec ec (- 1), s) else ((Inr (st_nlink st), clear_ec ec), s))"

definition fs_is_empty :: "'s posix \<Rightarrow> string \<Rightarrow> 's \<Rightarrow> int option \<Rightarrow> bool fs_result \<times> 's" where
  "fs_is_empty px p s ec =
     (let ec = clear_ec ec;
          (st, m_ec, pst) = stat_code (posix_stat (px_stat px s) p stat_zero (Some 0)) in
      if m_ec \<noteq> 0 then (set_or_throw m_ec ec False, s)
      else if \<not> is_directory st \<and> \<not> is_regular_file st then (set_or_throw ENOTSUP ec False, s)
      else if is_directory st then
        fs_then (directory_iterator (os_at px s) p ec 0, s) False (\<lambda>it ec s. ((Inr (it = None), ec), s))
      else ((Inr (st_size pst = 0), ec), s))"

definition get_last_write_time :: "'s posix \<Rightarrow> string \<Rightarrow> 's \<Rightarrow> int option \<Rightarrow> int fs_result \<times> 's" where
  "get_last_write_time px p s ec =
     (let (_, m_ec, st) = stat_code (posix_stat (px_stat px s) p stat_zero (Some 0)) in
      if m_ec \<noteq> 0 then (set_or_throw m_ec ec rep_min, s)
      else
        let ec = clear_ec ec; ts = st_mtim st in
        if \<not> timespec_representable ts then (set_or_throw EOVERFLOW ec rep_min, s)
        else ((Inr (the (convert_timespec ts)), ec), s))"

definition set_last_write_time :: "'s posix \<Rightarrow> string \<Rightarrow> int \<Rightarrow> 's \<Rightarrow> int option \<Rightarrow> unit fs_result \<times> 's" where
  "set_last_write_time px p new_time s ec =
     (case set_times_checked 1000 new_time of
        None \<Rightarrow> (set_or_throw EINVAL ec (), s)
      | Some tbuf \<Rightarrow>
          let (errno, s) = px_utimensat px p tbuf s; m_ec = errno in
          if m_ec \<noteq> 0 then (set_or_throw m_ec ec (), s) else ((Inr (), clear_ec ec), s))"

text \<open>\<open>space_info\<close>: capacity, free and available bytes.\<close>

definition do_mult :: "u64 \<Rightarrow> u64 \<Rightarrow> u64" where
  "do_mult frsize other =
     (let out = other * frsize in if other = 0 \<or> out div other \<noteq> frsize then - 1 else out)"

definition fs_space :: "'s posix \<Rightarrow> string \<Rightarrow> 's \<Rightarrow> int option \<Rightarrow> (u64 \<times> u64 \<times> u64) fs_result \<times> 's" where
  "fs_space px p s ec =
     (case px_statvfs px s p of
        Inl errno \<Rightarrow> (set_or_throw errno ec (- 1, - 1, - 1), s)
      | Inr m \<Rightarrow> ((Inr (do_mult (f_frsize m) (f_blocks m), do_mult (f_frsize m) (f_bfree m), do_mult (f_frsize m) (f_bavail m)), clear_ec ec), s))"

definition temp_directory_path :: "'s posix \<Rightarrow> 's \<Rightarrow> int option \<Rightarrow> string fs_result \<times> 's" where
  "temp_directory_path px s ec =
     (let env_paths = [''TMPDIR'', ''TMP'', ''TEMP'', ''TEMPDIR''];
          ret = (case List.map_filter (px_getenv px) env_paths of r # _ \<Rightarrow> r | [] \<Rightarrow> ''/tmp'');
          p = ret;
          (st, m_ec) = status_code (fs_status (px_stat px s) p (Some 0));
          m_ec = (if status_known st then 0 else m_ec);
          (fine, m_ec) =
            (if fs_exists st then let (st, m_ec) = status_code (fs_status (px_stat px s) p (Some m_ec)) in (is_directory st, m_ec)
             else (False, m_ec)) in
      if \<not> fine then
        let m_ec = (if m_ec = 0 \<or> m_ec = ENOENT then ENOTDIR else m_ec) in
        (set_or_throw m_ec ec [], s)
      else ((Inr p, clear_ec ec), s))"

section \<open>Permissions\<close>

definition perms_add :: u32 where "perms_add = 0x10000"
definition perms_remove :: u32 where "perms_remove = 0x20000"
definition perms_symlink_nofollow :: u32 where "perms_symlink_nofollow = 0x40000"
definition perms_all :: u32 where "perms_all = 0x1FF"

definition fs_permissions_op :: "'s posix \<Rightarrow> string \<Rightarrow> u32 \<Rightarrow> 's \<Rightarrow> int option \<Rightarrow> unit fs_result \<times> 's" where
  "fs_permissions_op px p prms s ec =
     (let resolve_symlinks = (perms_symlink_nofollow AND prms = 0);
          add_perms = (perms_add AND prms \<noteq> 0);
          remove_perms = (perms_remove AND prms \<noteq> 0);
          prms = prms AND perms_mask;
          (st, m_ec, _) = (if resolve_symlinks then stat_code (posix_stat (px_stat px s) p stat_zero (Some 0))
                           else stat_code (posix_lstat (px_lstat px s) p stat_zero (Some 0)));
          needed = (\<not> resolve_symlinks \<or> add_perms \<or> remove_perms);
          set_sym_perms = (needed \<and> is_symlink st) in
      if needed \<and> m_ec \<noteq> 0 then (set_or_throw m_ec ec (), s)
      else
        let prms = (if needed \<and> add_perms then prms OR fs_permissions st
                    else if needed \<and> remove_perms then fs_permissions st AND NOT prms
                    else prms);
            real_perms = prms AND perms_mask;
            (errno, s) = px_fchmodat px p real_perms set_sym_perms s in
        if errno \<noteq> 0 then (set_or_throw errno ec (), s) else ((Inr (), clear_ec ec), s))"

section \<open>Directories\<close>

text \<open>
  What follows a failed \<open>mkdir\<close>: \<open>is_directory(p)\<close> is the throwing overload whatever \<open>ec\<close> is, and \<open>errno\<close> is read again after it.
\<close>

definition mkdir_failed :: "'s posix \<Rightarrow> string \<Rightarrow> int \<Rightarrow> 's \<Rightarrow> int option \<Rightarrow> bool fs_result \<times> 's" where
  "mkdir_failed px p errno s ec =
     (if errno \<noteq> EEXIST then (set_or_throw errno ec False, s)
      else
        case fs_status (px_stat px s) p None of
          (Inl e, _) \<Rightarrow> ((Inl e, ec), s)
        | (Inr st, _) \<Rightarrow>
            let errno = (case px_stat px s p of Inl e \<Rightarrow> e | Inr _ \<Rightarrow> errno) in
            if \<not> is_directory st then (set_or_throw errno ec False, s) else ((Inr False, ec), s))"

definition create_directory :: "'s posix \<Rightarrow> string \<Rightarrow> 's \<Rightarrow> int option \<Rightarrow> bool fs_result \<times> 's" where
  "create_directory px p s ec =
     (let ec = clear_ec ec; (errno, s) = px_mkdir px p perms_all s in
      if errno = 0 then ((Inr True, ec), s) else mkdir_failed px p errno s ec)"

definition create_directory_like :: "'s posix \<Rightarrow> string \<Rightarrow> string \<Rightarrow> 's \<Rightarrow> int option \<Rightarrow> bool fs_result \<times> 's" where
  "create_directory_like px p attributes s ec =
     (let (st, mec, attr_stat) = stat_code (posix_stat (px_stat px s) attributes stat_zero (Some 0)) in
      if \<not> status_known st then (set_or_throw mec ec False, s)
      else
        let ec = clear_ec ec; (errno, s) = px_mkdir px p (st_mode attr_stat) s in
        if errno = 0 then ((Inr True, ec), s) else mkdir_failed px p errno s ec)"

text \<open>\<open>None\<close> where the recursion over the parents does not end.\<close>

partial_function (option) create_directories :: "'s posix \<Rightarrow> string \<Rightarrow> 's \<Rightarrow> int option \<Rightarrow> (bool fs_result \<times> 's) option" where
  "create_directories px p s ec =
     (let (st, m_ec, _) = stat_code (posix_stat (px_stat px s) p stat_zero (Some 0)) in
      if \<not> status_known st then Some (set_or_throw m_ec ec False, s)
      else if is_directory st then Some ((Inr False, clear_ec ec), s)
      else if fs_exists st then Some (set_or_throw EEXIST ec False, s)
      else do {
        parent \<leftarrow> path_parent_path p;
        if parent \<noteq> [] then
          let (parent_st, m_ec) = status_code (fs_status (px_stat px s) parent (Some m_ec)) in
          if \<not> status_known parent_st then Some (set_or_throw m_ec ec False, s)
          else if \<not> fs_exists parent_st then do {
            r \<leftarrow> create_directories px parent s ec;
            Some (fs_then r False (\<lambda>_ ec s. create_directory px p s ec))
          }
          else Some (create_directory px p s ec)
        else Some (create_directory px p s ec)
      })"

section \<open>Removing\<close>

text \<open>
  \<open>remove_all_impl\<close>, where \<open>ec\<close> is a reference: for \<open>Inl p\<close> the function, for \<open>Inr (it, count)\<close> its loop.  The result is the count and \<open>ec\<close>.
\<close>

partial_function (option) remove_all_impl ::
  "'s posix \<Rightarrow> string + dir_stream option \<times> u64 \<Rightarrow> 's \<Rightarrow> int \<Rightarrow> ((u64 \<times> int) \<times> 's) option" where
  "remove_all_impl px q s ec =
     (case q of
        Inl p \<Rightarrow>
          let (st, ec) = status_code (fs_symlink_status (px_lstat px s) p (Some ec)) in
          if ec \<noteq> 0 then Some ((- 1, ec), s)
          else do {
            ((count, ec), s) \<leftarrow>
              (if is_directory st then
                 case directory_iterator (os_at px s) p (Some ec) 0 of
                   (Inr it, Some ec) \<Rightarrow> if ec \<noteq> 0 then Some ((- 1, ec), s) else remove_all_impl px (Inr (it, 1)) s ec
                 | _ \<Rightarrow> None
               else Some ((1, ec), s));
            if ec \<noteq> 0 then Some ((- 1, ec), s)
            else
              case fs_remove px p s (Some ec) of
                ((Inr removed, Some ec), s) \<Rightarrow> Some ((if removed then count else - 1, ec), s)
              | _ \<Rightarrow> None
          }
      | Inr (it, count) \<Rightarrow>
          (case directory_dereference it of
             None \<Rightarrow> Some ((count, ec), s)
           | Some p \<Rightarrow> do {
               ((other_count, ec), s) \<leftarrow> remove_all_impl px (Inl p) s ec;
               if ec \<noteq> 0 then Some ((- 1, ec), s)
               else
                 let count = count + other_count in
                 (case directory_increment it (Some ec) of
                    Some (it, (Inr _, Some ec)) \<Rightarrow>
                      if ec \<noteq> 0 then Some ((- 1, ec), s) else remove_all_impl px (Inr (it, count)) s ec
                  | _ \<Rightarrow> None)
             }))"

definition fs_remove_all :: "'s posix \<Rightarrow> string \<Rightarrow> 's \<Rightarrow> int option \<Rightarrow> (u64 fs_result \<times> 's) option" where
  "fs_remove_all px p s ec =
     do {
       ((count, mec), s) \<leftarrow> remove_all_impl px (Inl p) s 0;
       Some (if mec \<noteq> 0 then (set_or_throw mec ec (- 1), s) else ((Inr count, clear_ec ec), s))
     }"

section \<open>Copying\<close>

definition copy_file_impl :: "'s posix \<Rightarrow> string \<Rightarrow> string \<Rightarrow> u32 \<Rightarrow> 's \<Rightarrow> int option \<Rightarrow> bool fs_result \<times> 's" where
  "copy_file_impl px from to from_perms s ec =
     (let (good, s) = px_copy_bytes px from to s in
      if \<not> good then (set_or_throw EPERM ec False, s)
      else
        case fs_permissions_op px to from_perms s ec of
          ((Inl e, ec), s) \<Rightarrow> ((Inl e, ec), s)
        | ((Inr _, ec), s) \<Rightarrow> ((Inr True, ec), s))"

definition copy_skip_existing :: u16 where "copy_skip_existing = 1"
definition copy_overwrite_existing :: u16 where "copy_overwrite_existing = 2"
definition copy_update_existing :: u16 where "copy_update_existing = 4"
definition copy_recursive :: u16 where "copy_recursive = 8"
definition copy_symlinks :: u16 where "copy_symlinks = 16"
definition copy_skip_symlinks :: u16 where "copy_skip_symlinks = 32"
definition copy_directories_only :: u16 where "copy_directories_only = 64"
definition copy_create_symlinks :: u16 where "copy_create_symlinks = 128"
definition copy_create_hard_links :: u16 where "copy_create_hard_links = 256"
definition copy_in_recursive :: u16 where "copy_in_recursive = 512"

definition copy_file :: "'s posix \<Rightarrow> string \<Rightarrow> string \<Rightarrow> u16 \<Rightarrow> 's \<Rightarrow> int option \<Rightarrow> bool fs_result \<times> 's" where
  "copy_file px from to options s ec =
     (let ec = clear_ec ec;
          (from_st, m_ec, _) = stat_code (posix_stat (px_stat px s) from stat_zero (Some 0)) in
      if \<not> is_regular_file from_st then
        let m_ec = (if m_ec = 0 then ENOTSUP else m_ec) in (set_or_throw m_ec ec False, s)
      else
        let (to_st, m_ec, _) = stat_code (posix_stat (px_stat px s) to stat_zero (Some m_ec)) in
        if \<not> status_known to_st then (set_or_throw m_ec ec False, s)
        else
          let to_exists = fs_exists to_st in
          if to_exists \<and> \<not> is_regular_file to_st then (set_or_throw ENOTSUP ec False, s)
          else if to_exists \<and> copy_skip_existing AND options \<noteq> 0 then ((Inr False, ec), s)
          else if to_exists \<and> copy_update_existing AND options \<noteq> 0 then
            fs_then (get_last_write_time px from s ec) False (\<lambda>from_time ec s.
              fs_then (get_last_write_time px to s ec) False (\<lambda>to_time ec s.
                if from_time \<le> to_time then ((Inr False, ec), s)
                else copy_file_impl px from to (fs_permissions from_st) s ec))
          else if \<not> to_exists \<or> copy_overwrite_existing AND options \<noteq> 0 then
            copy_file_impl px from to (fs_permissions from_st) s ec
          else (set_or_throw EEXIST ec False, s))"

definition copy_symlink :: "'s posix \<Rightarrow> string \<Rightarrow> string \<Rightarrow> 's \<Rightarrow> int option \<Rightarrow> unit fs_result \<times> 's" where
  "copy_symlink px existing_symlink new_symlink s ec =
     fs_then (read_symlink px existing_symlink s ec) () (\<lambda>real_path ec s. create_symlink px real_path new_symlink s ec)"

definition stat_equivalent :: "stat \<Rightarrow> stat \<Rightarrow> bool" where
  "stat_equivalent st1 st2 \<longleftrightarrow> st_dev st1 = st_dev st2 \<and> st_ino st1 = st_ino st2"

text \<open>Another value, where the code does not use that of a call.\<close>

definition fs_map :: "('a \<Rightarrow> 'b) \<Rightarrow> 'a fs_result \<times> 's \<Rightarrow> 'b fs_result \<times> 's" where
  "fs_map f r = (case r of ((Inl e, ec), s) \<Rightarrow> ((Inl e, ec), s) | ((Inr v, ec), s) \<Rightarrow> ((Inr (f v), ec), s))"

text \<open>\<open>__copy\<close> for an entry that is not a directory, after the tests.\<close>

definition copy_link :: "'s posix \<Rightarrow> string \<Rightarrow> string \<Rightarrow> u16 \<Rightarrow> file_status \<Rightarrow> 's \<Rightarrow> int option \<Rightarrow> unit fs_result \<times> 's" where
  "copy_link px from to options t s ec =
     (if copy_skip_symlinks AND options \<noteq> 0 then ((Inr (), ec), s)
      else if \<not> fs_exists t then copy_symlink px from to s ec
      else (set_or_throw EEXIST ec (), s))"

definition copy_regular :: "'s posix \<Rightarrow> string \<Rightarrow> string \<Rightarrow> u16 \<Rightarrow> file_status \<Rightarrow> 's \<Rightarrow> int option \<Rightarrow> unit fs_result \<times> 's" where
  "copy_regular px from to options t s ec =
     (if copy_directories_only AND options \<noteq> 0 then ((Inr (), ec), s)
      else if copy_create_symlinks AND options \<noteq> 0 then create_symlink px from to s ec
      else if copy_create_hard_links AND options \<noteq> 0 then create_hard_link px from to s ec
      else if is_directory t then fs_map (\<lambda>_. ()) (copy_file px from (path_append to (the (path_filename from))) options s ec)
      else fs_map (\<lambda>_. ()) (copy_file px from to options s ec))"

text \<open>\<open>__copy\<close> up to its loop: \<open>None\<close> where it has returned, and otherwise the iterator of the loop.\<close>

definition copy_start :: "'s posix \<Rightarrow> string \<Rightarrow> string \<Rightarrow> u16 \<Rightarrow> 's \<Rightarrow> int option \<Rightarrow> dir_stream option option fs_result \<times> 's" where
  "copy_start px from to options s ec =
     (let sym_status = (options AND (copy_create_symlinks OR copy_skip_symlinks) \<noteq> 0);
          sym_status2 = (options AND copy_symlinks \<noteq> 0);
          (f, m_ec1, f_st) = stat_code (if sym_status \<or> sym_status2 then posix_lstat (px_lstat px s) from stat_zero (Some 0)
                                        else posix_stat (px_stat px s) from stat_zero (Some 0)) in
      if m_ec1 \<noteq> 0 then (set_or_throw m_ec1 ec None, s)
      else
        let (t, m_ec1, t_st) = stat_code (if sym_status then posix_lstat (px_lstat px s) to stat_zero (Some m_ec1)
                                          else posix_stat (px_stat px s) to stat_zero (Some m_ec1)) in
        if \<not> status_known t then (set_or_throw m_ec1 ec None, s)
        else if \<not> fs_exists f \<or> is_other f \<or> is_other t \<or> (is_directory f \<and> is_regular_file t) \<or> stat_equivalent f_st t_st then
          (set_or_throw ENOSYS ec None, s)
        else
          let ec = clear_ec ec in
          if is_symlink f then fs_map (\<lambda>_. None) (copy_link px from to options t s ec)
          else if is_regular_file f then fs_map (\<lambda>_. None) (copy_regular px from to options t s ec)
          else if is_directory f \<and> copy_create_symlinks AND options \<noteq> 0 then (set_or_throw EISDIR ec None, s)
          else if is_directory f \<and> (copy_recursive AND options \<noteq> 0 \<or> options = 0) then
            fs_then (if \<not> fs_exists t then create_directory_like px to from s ec else ((Inr False, ec), s)) None (\<lambda>_ ec s.
              fs_then (directory_iterator (os_at px s) from ec 0, s) None (\<lambda>it ec s. ((Inr (Some it), ec), s)))
          else ((Inr None, ec), s))"

text \<open>
  \<open>__copy\<close>: for \<open>Inl (from, to)\<close> the function, for \<open>Inr (it, m_ec2, from, to)\<close> the loop over a directory, which tests \<open>m_ec2\<close> only
  while the iterator is not at its end.  \<open>None\<close> where the recursion does not end.
\<close>

partial_function (option) fs_copy ::
  "'s posix \<Rightarrow> (string \<times> string) + (dir_stream option \<times> int \<times> string \<times> string) \<Rightarrow> u16 \<Rightarrow> 's \<Rightarrow> int option \<Rightarrow> (unit fs_result \<times> 's) option" where
  "fs_copy px q options s ec =
     (case q of
        Inl (from, to) \<Rightarrow>
          (case copy_start px from to options s ec of
             ((Inl e, ec), s) \<Rightarrow> Some ((Inl e, ec), s)
           | ((Inr None, ec), s) \<Rightarrow> Some ((Inr (), ec), s)
           | ((Inr (Some it), ec), s) \<Rightarrow> fs_copy px (Inr (it, 0, from, to)) options s ec)
      | Inr (it, m_ec2, from, to) \<Rightarrow>
          (case directory_dereference it of
             None \<Rightarrow> Some ((Inr (), ec), s)
           | Some p \<Rightarrow>
               if m_ec2 \<noteq> 0 then Some (set_or_throw m_ec2 ec (), s)
               else do {
                 filename \<leftarrow> path_filename p;
                 ((res, ec), s) \<leftarrow> fs_copy px (Inl (p, path_append to filename)) (options OR copy_in_recursive) s ec;
                 case res of
                   Inl e \<Rightarrow> Some ((Inl e, ec), s)
                 | Inr _ \<Rightarrow>
                     if ec_is_set ec then Some ((Inr (), ec), s)
                     else
                       (case directory_increment it (Some m_ec2) of
                          Some (it, (Inr _, Some m_ec2)) \<Rightarrow> fs_copy px (Inr (it, m_ec2, from, to)) options s ec
                        | _ \<Rightarrow> None)
               }))"

section \<open>Absolute paths\<close>

definition is_absolute :: "string \<Rightarrow> bool" where "is_absolute p \<longleftrightarrow> the (path_root_directory p) \<noteq> []"

text \<open>\<open>absolute\<close> after the base has been made absolute.\<close>

definition absolute_from :: "string \<Rightarrow> string \<Rightarrow> string" where
  "absolute_from p abs_base =
     (let root_name = the (path_root_name p); root_dir = the (path_root_directory p) in
      if root_name = [] \<and> root_dir = [] then path_append abs_base p
      else if root_name \<noteq> [] then
        path_append (path_append (path_append root_name (the (path_root_directory abs_base))) (the (path_relative_path abs_base)))
          (the (path_relative_path p))
      else if the (path_root_name abs_base) \<noteq> [] then path_append (the (path_root_name abs_base)) p
      else p)"

text \<open>\<open>Inl\<close> is the exception of \<open>current_path()\<close>; \<open>None\<close> a recursion that does not end, for a current directory that is not absolute.\<close>

partial_function (option) absolute :: "'s posix \<Rightarrow> string \<Rightarrow> string \<Rightarrow> 's \<Rightarrow> (int + string) option" where
  "absolute px p base s =
     (if the (path_root_name p) \<noteq> [] \<and> the (path_root_directory p) \<noteq> [] then Some (Inr p)
      else if is_absolute base then Some (Inr (absolute_from p base))
      else
        case fst (get_current_path px s None) of
          (Inl e, _) \<Rightarrow> Some (Inl e)
        | (Inr cwd, _) \<Rightarrow> do {
            r \<leftarrow> absolute px base cwd s;
            Some (map_sum id (absolute_from p) r)
          })"

definition canonical :: "'s posix \<Rightarrow> string \<Rightarrow> string \<Rightarrow> 's \<Rightarrow> int option \<Rightarrow> (string fs_result \<times> 's) option" where
  "canonical px orig_p base s ec =
     do {
       r \<leftarrow> absolute px orig_p base s;
       Some (case r of
           Inl e \<Rightarrow> ((Inl e, ec), s)
         | Inr p \<Rightarrow> fs_query (px_realpath px s p) [] s ec)
     }"

definition system_complete :: "'s posix \<Rightarrow> string \<Rightarrow> 's \<Rightarrow> int option \<Rightarrow> (string fs_result \<times> 's) option" where
  "system_complete px p s ec =
     (let ec = clear_ec ec in
      case fst (get_current_path px s None) of
        (Inl e, _) \<Rightarrow> Some ((Inl e, ec), s)
      | (Inr cwd, _) \<Rightarrow> do {
          r \<leftarrow> absolute px p cwd s;
          Some (case r of Inl e \<Rightarrow> ((Inl e, ec), s) | Inr q \<Rightarrow> ((Inr q, ec), s))
        })"

section \<open>Error numbers\<close>

lemma errno_values [simp]: "EPERM \<noteq> 0" "EISDIR \<noteq> 0" "EINVAL \<noteq> 0" "ENOSYS \<noteq> 0" "EOVERFLOW \<noteq> 0" "ENOTSUP \<noteq> 0" "EEXIST \<noteq> 0" "ENOENT \<noteq> 0" "ENOTDIR \<noteq> 0"
  by (simp_all add: EPERM_def EISDIR_def EINVAL_def ENOSYS_def EOVERFLOW_def ENOTSUP_def EEXIST_def ENOENT_def ENOTDIR_def)

end
