(* ===== verification/Fs_Trees.thy ===== *)
theory Fs_Trees
  imports Fs_Ops
begin

text \<open>
  What \<open>create_directories\<close> and \<open>remove_all\<close> do to a file system whose \<open>mkdir\<close> and \<open>remove\<close> behave as POSIX says: the first makes a directory
  with all its missing parents, up to the first that cannot be made, the second removes a tree from its leaves upwards.
\<close>

section \<open>Creating directories with their parents\<close>

definition dir_at :: "'s posix \<Rightarrow> 's \<Rightarrow> string \<Rightarrow> bool" where
  "dir_at px s p \<longleftrightarrow> (case px_stat px s p of Inl _ \<Rightarrow> False | Inr st \<Rightarrow> S_ISDIR (st_mode st))"

definition absent_at :: "'s posix \<Rightarrow> 's \<Rightarrow> string \<Rightarrow> bool" where
  "absent_at px s p \<longleftrightarrow> (case px_stat px s p of Inl e \<Rightarrow> missing e | Inr _ \<Rightarrow> False)"

text \<open>Paths without the names \<open>.\<close> and \<open>..\<close>, and paths below another.\<close>

definition plain :: "string \<Rightarrow> bool" where
  "plain p \<longleftrightarrow> ''.'' \<notin> set (path_elements p) \<and> ''..'' \<notin> set (path_elements p)"

definition below :: "string \<Rightarrow> string \<Rightarrow> bool" where
  "below q p \<longleftrightarrow> (\<exists>xs. xs \<noteq> [] \<and> path_elements q = path_elements p @ xs)"

text \<open>
  What POSIX says of \<open>mkdir\<close>: where it succeeds, the path is a directory, directories stay what they are, and the new one is empty; where it fails,
  nothing is changed.
\<close>

definition mkdir_contract :: "'s posix \<Rightarrow> bool" where
  "mkdir_contract px \<longleftrightarrow> (\<forall>s p m errno s'. px_mkdir px p m s = (errno, s') \<longrightarrow>
     (if errno = 0
      then dir_at px s' p \<and> (\<forall>q. dir_at px s q \<longrightarrow> dir_at px s' q) \<and>
        (\<forall>q. absent_at px s q \<and> plain q \<and> below q p \<longrightarrow> absent_at px s' q)
      else s' = s))"

text \<open>The reference: \<open>mkdir\<close> on each of some paths, up to the first that fails, with its \<open>errno\<close>.\<close>

fun make_each :: "'s posix \<Rightarrow> string list \<Rightarrow> 's \<Rightarrow> (string \<times> int) option \<times> 's" where
  "make_each px [] s = (None, s)"
| "make_each px (p # ps) s =
     (let (errno, s') = px_mkdir px p perms_all s in
      if errno = 0 then make_each px ps s' else (Some (p, errno), s'))"

text \<open>The error that is reported: after \<open>EEXIST\<close>, for a path that \<open>stat\<close> does not find (a dangling link), it is that of \<open>stat\<close>.\<close>

definition mkdir_error :: "'s posix \<Rightarrow> 's \<Rightarrow> string \<Rightarrow> int \<Rightarrow> int" where
  "mkdir_error px s p errno =
     (if errno = EEXIST then case px_stat px s p of Inl e \<Rightarrow> e | Inr _ \<Rightarrow> errno else errno)"

lemma path_elements_Nil_iff: "path_elements p = [] \<longleftrightarrow> p = []"
proof -
  have "path_names p \<noteq> []" if "p \<noteq> []" for p using that by (subst path_names.simps) (simp add: Let_def)
  then show ?thesis by (auto simp: path_elements_def Let_def dropWhile_eq_Nil_conv takeWhile_eq_Nil_iff split: if_splits) (metis dropWhile_eq_self_iff takeWhile_eq_Nil_iff)
qed

lemma parent_elements:
  obtains q where "path_parent_path p = Some q" "path_elements q = butlast (path_elements p)"
    "p \<noteq> [] \<Longrightarrow> length (path_elements q) < length (path_elements p) \<and> below p q"
proof -
  from path_parent_butlast [of p] obtain q where q: "path_parent_path p = Some q" "path_elements q = butlast (path_elements p)" by blast
  moreover have "path_elements p = path_elements q @ [last (path_elements p)]" if "p \<noteq> []"
    using that q(2) path_elements_Nil_iff [of p] by simp
  moreover from this have "length (path_elements q) < length (path_elements p) \<and> below p q" if "p \<noteq> []"
    using that by (metis below_def length_append_singleton lessI not_Cons_self2)
  ultimately show ?thesis using that [of q] by blast
qed

text \<open>A path and all its parents.\<close>

function path_chain :: "string \<Rightarrow> string list" where
  "path_chain p = (if p = [] then [] else p # path_chain (the (path_parent_path p)))"
  by pat_completeness auto
termination
proof (relation "measure (length \<circ> path_elements)")
  fix p :: string assume "p \<noteq> []"
  then show "(the (path_parent_path p), p) \<in> measure (length \<circ> path_elements)" using parent_elements [of p] by force
qed simp

declare path_chain.simps [simp del]

lemma stat_kinds:
  "dir_at px s p \<Longrightarrow> \<exists>st m st'. stat_code (posix_stat (px_stat px s) p stat_zero (Some x)) = (st, m, st') \<and>
     status_code (fs_status (px_stat px s) p (Some x)) = (st, m) \<and> status_known st \<and> is_directory st \<and> fs_exists st"
  "absent_at px s p \<Longrightarrow> \<exists>st m st'. stat_code (posix_stat (px_stat px s) p stat_zero (Some x)) = (st, m, st') \<and>
     status_code (fs_status (px_stat px s) p (Some x)) = (st, m) \<and> status_known st \<and> \<not> is_directory st \<and> \<not> fs_exists st"
proof -
  show "\<exists>st m st'. stat_code (posix_stat (px_stat px s) p stat_zero (Some x)) = (st, m, st') \<and>
     status_code (fs_status (px_stat px s) p (Some x)) = (st, m) \<and> status_known st \<and> is_directory st \<and> fs_exists st" if d: "dir_at px s p"
  proof -
    from d obtain st where st: "px_stat px s p = Inr st" "S_ISDIR (st_mode st)" by (auto simp: dir_at_def split: sum.splits)
    with create_status_directory [of st "Some x"] show ?thesis by (auto simp: stat_code_def posix_stat_def fs_status_def status_code_def)
  qed
  show "\<exists>st m st'. stat_code (posix_stat (px_stat px s) p stat_zero (Some x)) = (st, m, st') \<and>
     status_code (fs_status (px_stat px s) p (Some x)) = (st, m) \<and> status_known st \<and> \<not> is_directory st \<and> \<not> fs_exists st" if a: "absent_at px s p"
    using a by (auto simp: absent_at_def stat_code_def posix_stat_def fs_status_def status_code_def missing_def create_file_status_def
      file_status_of_def status_known_def is_directory_def fs_exists_def split: sum.splits)
qed

text \<open>Every parent is a directory or missing, and those of a directory are directories.\<close>

definition chain_ok :: "'s posix \<Rightarrow> 's \<Rightarrow> string \<Rightarrow> bool" where
  "chain_ok px s p \<longleftrightarrow> (\<forall>q\<in>set (path_chain p). (dir_at px s q \<or> absent_at px s q) \<and>
     (dir_at px s q \<longrightarrow> (\<forall>r\<in>set (path_chain q). dir_at px s r)))"

lemma chain_okD:
  "chain_ok px s p \<Longrightarrow> q \<in> set (path_chain p) \<Longrightarrow> dir_at px s q \<or> absent_at px s q"
  "chain_ok px s p \<Longrightarrow> q \<in> set (path_chain p) \<Longrightarrow> dir_at px s q \<Longrightarrow> r \<in> set (path_chain q) \<Longrightarrow> dir_at px s r"
  "chain_ok px s p \<Longrightarrow> set (path_chain q) \<subseteq> set (path_chain p) \<Longrightarrow> chain_ok px s q"
  unfolding chain_ok_def by blast+

lemma chain_self: "p \<noteq> [] \<Longrightarrow> p \<in> set (path_chain p)"
  by (subst path_chain.simps) simp

lemma chain_Cons: "p \<noteq> [] \<Longrightarrow> path_parent_path p = Some q \<Longrightarrow> path_chain p = p # path_chain q"
  by (simp add: path_chain.simps [of p])

text \<open>What a creation returns, from the outcome of the reference.\<close>

definition creation :: "'s posix \<Rightarrow> bool \<Rightarrow> int option \<Rightarrow> (string \<times> int) option \<times> 's \<Rightarrow> bool fs_result \<times> 's" where
  "creation px made ec r =
     (case r of
        (None, s') \<Rightarrow> ((Inr made, clear_ec ec), s')
      | (Some (q, errno), s') \<Rightarrow> (set_or_throw (mkdir_error px s' q errno) ec False, s'))"

text \<open>The missing paths among a path and its parents, the outermost first.\<close>

definition missing_chain :: "'s posix \<Rightarrow> 's \<Rightarrow> string \<Rightarrow> string list" where
  "missing_chain px s p = rev (filter (absent_at px s) (path_chain p))"

lemma make_each_append:
  "make_each px (ps @ [p]) s = (case make_each px ps s of (None, s') \<Rightarrow> make_each px [p] s' | r \<Rightarrow> r)"
  by (induction ps arbitrary: s) (simp_all add: Let_def split: prod.split)

lemma make_each_keeps:
  assumes "mkdir_contract px"
  shows "make_each px ps s = (r, s') \<Longrightarrow> dir_at px s q \<Longrightarrow> dir_at px s' q"
    and "make_each px ps s = (r, s') \<Longrightarrow> absent_at px s q \<Longrightarrow> plain q \<Longrightarrow> \<forall>p\<in>set ps. below q p \<Longrightarrow> absent_at px s' q"
    and "make_each px ps s = (None, s') \<Longrightarrow> p \<in> set ps \<Longrightarrow> dir_at px s' p"
proof -
  have step: "px_mkdir px p perms_all s = (errno, s1) \<Longrightarrow>
      (if errno = 0 then dir_at px s1 p \<and> (\<forall>q. dir_at px s q \<longrightarrow> dir_at px s1 q) \<and>
        (\<forall>q. absent_at px s q \<and> plain q \<and> below q p \<longrightarrow> absent_at px s1 q) else s1 = s)" for p s errno s1
    using assms unfolding mkdir_contract_def by blast
  have made: "px_mkdir px p perms_all s = (0, s1) \<Longrightarrow> dir_at px s1 p" for p s s1
    using step [of p s 0 s1] by simp
  show dirs: "make_each px ps s = (r, s') \<Longrightarrow> dir_at px s q \<Longrightarrow> dir_at px s' q" for ps s r s' q
    by (induction ps arbitrary: s) (auto simp: Let_def split: prod.splits if_splits dest: step)
  show "make_each px ps s = (r, s') \<Longrightarrow> absent_at px s q \<Longrightarrow> plain q \<Longrightarrow> \<forall>p\<in>set ps. below q p \<Longrightarrow> absent_at px s' q"
    by (induction ps arbitrary: s) (auto simp: Let_def split: prod.splits if_splits dest: step)
  show "make_each px ps s = (None, s') \<Longrightarrow> p \<in> set ps \<Longrightarrow> dir_at px s' p"
    by (induction ps arbitrary: s) (auto simp: Let_def split: prod.splits if_splits intro: dirs dest: made)
qed

lemma create_directory_missing:
  assumes "mkdir_contract px" and "absent_at px s p"
  shows "create_directory px p s ec = creation px True ec (make_each px [p] s)"
    and "make_each px [p] s = (Some (q, errno), s') \<Longrightarrow> mkdir_error px s' q errno \<noteq> 0"
proof -
  obtain errno0 s0 where mk: "px_mkdir px p perms_all s = (errno0, s0)" by fastforce
  have same: "s0 = s" if "errno0 \<noteq> 0"
    using assms(1) mk that unfolding mkdir_contract_def by metis
  obtain e where e: "px_stat px s p = Inl e" "missing e"
    using assms(2) by (auto simp: absent_at_def split: sum.splits)
  then have status: "fs_status (px_stat px s) p None = (Inr (file_status_of Not_found), None)"
    by (auto simp: fs_status_def posix_stat_def create_file_status_def missing_def)
  show "create_directory px p s ec = creation px True ec (make_each px [p] s)"
    using mk same e status
    by (auto simp: create_directory_def creation_def mkdir_failed_def mkdir_error_def is_directory_def file_status_of_def Let_def)
  show "mkdir_error px s' q errno \<noteq> 0" if "make_each px [p] s = (Some (q, errno), s')"
    using that mk same e by (auto simp: mkdir_error_def missing_def EEXIST_def split: if_splits)
qed

lemma creation_set_ec [simp]: "creation px made (set_ec e ec) r = creation px made ec r"
  by (simp add: creation_def split: prod.split option.split)

lemma fs_then_creation:
  "fs_then (creation px made ec (None, s')) False k = k made (clear_ec ec) s'"
  "mkdir_error px s' q errno \<noteq> 0 \<Longrightarrow>
    fs_then (creation px made ec (Some (q, errno), s')) False k = creation px made ec (Some (q, errno), s')"
  by (cases ec; simp add: creation_def fs_then_def ec_is_set_def)+

lemma below_trans: "below p q \<Longrightarrow> below q r \<Longrightarrow> below p r"
  by (auto simp: below_def)

lemma plain_parent: "plain p \<Longrightarrow> path_elements q = butlast (path_elements p) \<Longrightarrow> plain q"
  by (auto simp: plain_def dest: in_set_butlastD)

lemma create_directories_parent:
  assumes "mkdir_contract px" and "absent_at px s p" and "path_parent_path p = Some q" and "q = [] \<or> dir_at px s q"
  shows "create_directories px p s ec = Some (create_directory px p s ec)"
proof -
  from stat_kinds(2) [OF assms(2), of 0] obtain st m st' where st: "stat_code (posix_stat (px_stat px s) p stat_zero (Some 0)) = (st, m, st')"
    "status_known st" "\<not> is_directory st" "\<not> fs_exists st" by blast
  show ?thesis
  proof (cases "q = []")
    case True
    then show ?thesis using st assms(3) by (subst create_directories.simps) simp
  next
    case False
    with assms(4) stat_kinds(1) [of px s q m] obtain st2 m2 where "status_code (fs_status (px_stat px s) q (Some m)) = (st2, m2)"
      "status_known st2" "fs_exists st2" by blast
    then show ?thesis using False st assms(3) by (subst create_directories.simps) simp
  qed
qed

lemma create_directories_recurse:
  assumes "absent_at px s p" and "path_parent_path p = Some q" and "q \<noteq> []" and "absent_at px s q"
    and "create_directories px q s ec = Some r"
  shows "create_directories px p s ec = Some (fs_then r False (\<lambda>_ ec s. create_directory px p s ec))"
proof -
  from stat_kinds(2) [OF assms(1), of 0] obtain st m st' where st: "stat_code (posix_stat (px_stat px s) p stat_zero (Some 0)) = (st, m, st')"
    "status_known st" "\<not> is_directory st" "\<not> fs_exists st" by blast
  from stat_kinds(2) [OF assms(4), of m] obtain st2 m2 where "status_code (fs_status (px_stat px s) q (Some m)) = (st2, m2)"
    "status_known st2" "\<not> fs_exists st2" by blast
  with st assms(2,3,5) show ?thesis by (subst create_directories.simps) simp
qed

lemma absent_not_dir: "absent_at px s p \<Longrightarrow> \<not> dir_at px s p"
  by (auto simp: absent_at_def dir_at_def split: sum.splits)

lemma chain_of_parents:
  "path_parent_path p = Some q \<Longrightarrow> below p q \<Longrightarrow> r \<in> set (path_chain q) \<Longrightarrow> below p r"
proof (induction q arbitrary: p rule: path_chain.induct)
  case (1 q)
  then have q: "q \<noteq> []" by (auto simp: path_chain.simps)
  obtain q' where q': "path_parent_path q = Some q'" "below q q'"
    using parent_elements [of q] q by metis
  have "r = q \<or> r \<in> set (path_chain q')"
    using 1(4) chain_Cons [OF q q'(1)] by simp
  then show ?case
    using 1(1) [OF q, of q] 1(3) q' below_trans [of p q r] by auto
qed

lemma create_directories_chain:
  assumes "mkdir_contract px"
  shows "plain p \<Longrightarrow> p \<noteq> [] \<Longrightarrow> chain_ok px s p \<Longrightarrow>
    create_directories px p s ec = Some (creation px (\<not> dir_at px s p) ec (make_each px (missing_chain px s p) s)) \<and>
    (\<forall>q errno s'. make_each px (missing_chain px s p) s = (Some (q, errno), s') \<longrightarrow> mkdir_error px s' q errno \<noteq> 0)"
proof (induction p rule: path_chain.induct)
  case (1 p)
  obtain q where q: "path_parent_path p = Some q" "path_elements q = butlast (path_elements p)" "below p q"
    using parent_elements [of p] 1(3) by metis
  have chain: "path_chain p = p # path_chain q" using chain_Cons [OF 1(3) q(1)] .
  show ?case
  proof (cases "dir_at px s p")
    case True
    have "missing_chain px s p = []"
      using chain_okD(2) [OF 1(4) chain_self [OF 1(3)] True] absent_not_dir by (fastforce simp: missing_chain_def filter_empty_conv)
    moreover from stat_kinds(1) [OF True, of 0] have "create_directories px p s ec = Some ((Inr False, clear_ec ec), s)"
      by (subst create_directories.simps) auto
    ultimately show ?thesis using True by (simp add: creation_def)
  next
    case False
    with chain_okD(1) [OF 1(4) chain_self [OF 1(3)]] have absent: "absent_at px s p" by blast
    then have split: "missing_chain px s p = missing_chain px s q @ [p]"
      by (simp add: missing_chain_def chain)
    show ?thesis
    proof (cases "q = [] \<or> dir_at px s q")
      case True
      have "\<forall>r\<in>set (path_chain q). dir_at px s r"
      proof (cases "q = []")
        case False
        then have "q \<in> set (path_chain p)" using chain_self [of q] chain by simp
        with False True show ?thesis using chain_okD(2) [OF 1(4)] by blast
      qed (simp add: path_chain.simps)
      then have "missing_chain px s q = []"
        using absent_not_dir by (fastforce simp: missing_chain_def filter_empty_conv)
      then show ?thesis
        using create_directories_parent [OF assms absent q(1) True, of ec] create_directory_missing [OF assms absent] False split
        by simp
    next
      case False
      then have q': "q \<noteq> []" "\<not> dir_at px s q" by auto
      have "q \<in> set (path_chain q)" using chain_self [OF q'(1)] .
      with chain_okD(1) [OF 1(4)] q'(2) chain have absent_q: "absent_at px s q" by auto
      have "chain_ok px s q" using chain_okD(3) [OF 1(4)] chain by (simp add: subset_insertI)
      with 1(1) [OF 1(3)] q q'(1) plain_parent [OF 1(2) q(2)] have
        IH: "create_directories px q s ec = Some (creation px (\<not> dir_at px s q) ec (make_each px (missing_chain px s q) s))"
        "\<And>q0 errno s'. make_each px (missing_chain px s q) s = (Some (q0, errno), s') \<Longrightarrow> mkdir_error px s' q0 errno \<noteq> 0" by auto
      have still: "absent_at px s1 p" if "make_each px (missing_chain px s q) s = (r, s1)" for r s1
        using make_each_keeps(2) [OF assms that absent 1(2)] chain_of_parents [OF q(1,3)] by (simp add: missing_chain_def)
      show ?thesis
      proof (cases "make_each px (missing_chain px s q) s")
        case (Pair r s1)
        show ?thesis
        proof (cases r)
          case None
          have "create_directories px p s ec = Some (create_directory px p s1 (clear_ec ec))"
            using create_directories_recurse [OF absent q(1) q'(1) absent_q IH(1)] fs_then_creation(1) Pair None by simp
          also have "\<dots> = Some (creation px True ec (make_each px [p] s1))"
            by (simp only: create_directory_missing(1) [OF assms still [OF Pair]] creation_set_ec)
          finally show ?thesis
            using create_directory_missing(2) [OF assms still [OF Pair]] Pair None split \<open>\<not> dir_at px s p\<close>
            by (simp only: make_each_append) simp
        next
          case (Some x)
          then obtain q0 e where x: "make_each px (missing_chain px s q) s = (Some (q0, e), s1)"
            using Pair by (cases x) simp
          then have err: "mkdir_error px s1 q0 e \<noteq> 0" by (rule IH(2))
          have "create_directories px p s ec = Some (creation px (\<not> dir_at px s q) ec (Some (q0, e), s1))"
            using create_directories_recurse [OF absent q(1) q'(1) absent_q IH(1)] x fs_then_creation(2) [OF err] by simp
          then show ?thesis
            using x split err by (simp add: make_each_append creation_def)
        qed
      qed
    qed
  qed
qed

lemma created_chain:
  assumes "mkdir_contract px" and "chain_ok px s p" and "make_each px (missing_chain px s p) s = (None, s')" and "q \<in> set (path_chain p)"
  shows "dir_at px s' q"
  using chain_okD(1) [OF assms(2,4)] make_each_keeps(1,3) [OF assms(1,3)] assms(4) by (auto simp: missing_chain_def)

section \<open>Removing a tree\<close>

text \<open>The entries of a directory that an iterator still has to show, the current one first.\<close>

fun at_entries :: "dir_stream option \<Rightarrow> string \<Rightarrow> ftree list \<Rightarrow> bool" where
  "at_entries it q [] \<longleftrightarrow> it = None"
| "at_entries it q (t # ts) \<longleftrightarrow> (\<exists>cur names. it = Some cur \<and> ds_root cur = q \<and> ds_entry cur = path_append q (tree_name t) \<and>
     ds_stream cur = Some (names, 0) \<and> [] \<notin> set names \<and> filter (\<lambda>n. n \<noteq> ''.'' \<and> n \<noteq> ''..'') names = map tree_name ts)"

lemma entries_loop:
  assumes "[] \<notin> set names" and "filter (\<lambda>n. n \<noteq> ''.'' \<and> n \<noteq> ''..'') names = map tree_name ts" and "ds_root cur = q"
  shows "\<exists>cur'. advance_loop cur names 0 = (cur', ts \<noteq> [], 0) \<and> (ds_good cur' \<longleftrightarrow> ts \<noteq> []) \<and>
    at_entries (if ts \<noteq> [] then Some cur' else None) q ts"
  using advance_loop_frame [OF assms(1,2), of cur 0] assms(3) by (cases ts) (auto simp: ds_good_def)

lemma entries_begin:
  assumes "contents os 0 q ts 0"
  shows "\<exists>it. directory_iterator os q (Some x) 0 = (Inr it, Some 0) \<and> at_entries it q ts"
proof -
  from assms obtain names where names: "sys_opendir os q = Inr (names, 0)" "[] \<notin> set names"
      "filter (\<lambda>n. n \<noteq> ''.'' \<and> n \<noteq> ''..'') names = map tree_name ts" by (auto simp: contents_def split: sum.splits)
  from entries_loop [OF names(2,3), of "\<lparr>ds_stream = Some (names, 0), ds_root = q, ds_entry = []\<rparr>" q] show ?thesis
    using names(1) by (auto simp: directory_iterator_def dir_stream_new_def)
qed

lemma entries_step:
  assumes "at_entries it q (t # ts)"
  shows "directory_dereference it = Some (path_append q (tree_name t))"
    and "\<exists>it'. directory_increment it (Some 0) = Some (it', (Inr (), Some 0)) \<and> at_entries it' q ts"
proof -
  from assms obtain cur names where cur: "it = Some cur" "ds_root cur = q" "ds_entry cur = path_append q (tree_name t)"
    "ds_stream cur = Some (names, 0)" "[] \<notin> set names" "filter (\<lambda>n. n \<noteq> ''.'' \<and> n \<noteq> ''..'') names = map tree_name ts" by auto
  show "directory_dereference it = Some (path_append q (tree_name t))" using cur by (simp add: directory_dereference_def)
  show "\<exists>it'. directory_increment it (Some 0) = Some (it', (Inr (), Some 0)) \<and> at_entries it' q ts"
    using entries_loop [OF cur(5,6,2)] cur(1,4) by (auto simp: directory_increment_def ds_advance_def)
qed

text \<open>A tree with the full path \<open>q\<close>: \<open>lstat\<close> finds no directory at a leaf, and a directory lists its subtrees.\<close>

fun tree_at :: "'s posix \<Rightarrow> 's \<Rightarrow> string \<Rightarrow> ftree \<Rightarrow> bool" where
  "tree_at px s q (Leaf n) \<longleftrightarrow> (case px_lstat px s q of Inl _ \<Rightarrow> False | Inr st \<Rightarrow> \<not> S_ISDIR (st_mode st))"
| "tree_at px s q (Folder n ts e) \<longleftrightarrow> (case px_lstat px s q of Inl _ \<Rightarrow> False | Inr st \<Rightarrow> S_ISDIR (st_mode st)) \<and>
     contents (os_at px s) 0 q ts 0 \<and> (\<forall>t\<in>set ts. tree_at px s (path_append q (tree_name t)) t)"
| "tree_at px s q t \<longleftrightarrow> False"

fun postorder :: "string \<Rightarrow> ftree \<Rightarrow> string list" where
  "postorder q (Folder n ts e) = concat (map (\<lambda>t. postorder (path_append q (tree_name t)) t) ts) @ [q]"
| "postorder q t = [q]"

text \<open>Calls of \<open>remove\<close> one after the other, up to the first error.\<close>

fun remove_each :: "'s posix \<Rightarrow> string list \<Rightarrow> 's \<Rightarrow> int \<times> 's" where
  "remove_each px [] s = (0, s)"
| "remove_each px (q # qs) s = (let (errno, s) = px_remove px q s in if errno \<noteq> 0 then (errno, s) else remove_each px qs s)"

text \<open>Removing an entry of the whole tree leaves the subtrees it does not belong to as they are.\<close>

fun subtrees :: "string \<Rightarrow> ftree \<Rightarrow> (string \<times> ftree) list" where
  "subtrees q (Folder n ts e) = (q, Folder n ts e) # concat (map (\<lambda>t. subtrees (path_append q (tree_name t)) t) ts)"
| "subtrees q t = [(q, t)]"

definition removes_only :: "'s posix \<Rightarrow> string \<Rightarrow> ftree \<Rightarrow> bool" where
  "removes_only px q0 t0 \<longleftrightarrow> (\<forall>(p, t)\<in>set (subtrees q0 t0). \<forall>q\<in>set (postorder q0 t0) - set (postorder p t). \<forall>s s'.
     tree_at px s p t \<and> px_remove px q s = (0, s') \<longrightarrow> tree_at px s' p t)"

lemma remove_each_append:
  "remove_each px (xs @ ys) s = (let (errno, s) = remove_each px xs s in if errno \<noteq> 0 then (errno, s) else remove_each px ys s)"
  by (induction xs arbitrary: s) (auto split: prod.splits)

lemma remove_all_file:
  "remove_all_impl px (Inl p) s ec =
     (let (st, ec) = status_code (fs_symlink_status (px_lstat px s) p (Some ec)) in
      if ec \<noteq> 0 then Some ((- 1, ec), s)
      else do {
        ((count, ec), s) \<leftarrow>
          (if is_directory st then
             case directory_iterator (os_at px s) p (Some ec) 0 of
               (Inr it, Some ec) \<Rightarrow> if ec \<noteq> 0 then Some ((- 1, ec), s) else remove_all_impl px (Inr (it, 1)) s ec
             | _ \<Rightarrow> None
           else Some ((1, ec), s));
        if ec \<noteq> 0 then Some ((- 1, ec), s)
        else
          case fs_remove px p s (Some ec) of
            ((Inr gone, Some ec), s) \<Rightarrow> Some ((if gone then count else - 1, ec), s)
          | _ \<Rightarrow> None
      })"
  by (subst remove_all_impl.simps) simp

lemma remove_all_loop:
  "remove_all_impl px (Inr (it, count)) s ec =
     (case directory_dereference it of
        None \<Rightarrow> Some ((count, ec), s)
      | Some p \<Rightarrow> do {
          ((other_count, ec), s) \<leftarrow> remove_all_impl px (Inl p) s ec;
          if ec \<noteq> 0 then Some ((- 1, ec), s)
          else
            let count = count + other_count in
            (case directory_increment it (Some ec) of
               Some (it, (Inr _, Some ec)) \<Rightarrow>
                 if ec \<noteq> 0 then Some ((- 1, ec), s) else remove_all_impl px (Inr (it, count)) s ec
             | _ \<Rightarrow> None)
        })"
  by (subst remove_all_impl.simps) simp

text \<open>The result for a tree: what is removed, and the count or the error.\<close>

definition removal :: "'s posix \<Rightarrow> u64 \<Rightarrow> string list \<Rightarrow> 's \<Rightarrow> (u64 \<times> int) \<times> 's" where
  "removal px count qs s = (let (errno, s') = remove_each px qs s in
     ((if errno = 0 then count + of_nat (length qs) else - 1, errno), s'))"

lemma lstat_code:
  "px_lstat px s p = Inr st \<Longrightarrow> \<exists>q. status_code (fs_symlink_status (px_lstat px s) p (Some x)) = (q, 0) \<and>
    (is_directory q \<longleftrightarrow> S_ISDIR (st_mode st))"
  using create_status_directory [of st "Some x"] by (auto simp: fs_symlink_status_def posix_lstat_def status_code_def)

lemma remove_last:
  "(case fs_remove px q s (Some 0) of ((Inr gone, Some ec), s) \<Rightarrow> Some ((if gone then count else - 1, ec), s) | _ \<Rightarrow> None) =
   Some (let (errno, s') = px_remove px q s in ((if errno = 0 then count else - 1, errno), s'))"
  by (cases "px_remove px q s") (simp add: fs_remove_def)

text \<open>Files outside of a list of trees can be removed one by one.\<close>

lemma trees_stay:
  assumes "removes_only px q0 t0" and "set qs \<subseteq> set (postorder q0 t0)" and "(p, t) \<in> set (subtrees q0 t0)"
    and "set qs \<inter> set (postorder p t) = {}" and "tree_at px s p t" and "remove_each px qs s = (0, s')"
  shows "tree_at px s' p t"
  using assms(2,4,5,6)
proof (induction qs arbitrary: s)
  case (Cons q qs)
  obtain e s1 where q: "px_remove px q s = (e, s1)" by fastforce
  with Cons(5) have "e = 0" "remove_each px qs s1 = (0, s')" by (auto split: if_splits)
  moreover have "tree_at px s1 p t"
    using assms(1,3) q \<open>e = 0\<close> Cons(2-4) unfolding removes_only_def by fastforce
  ultimately show ?case using Cons by auto
qed simp

lemma removal_append:
  "removal px count (xs @ ys) s = (case removal px 0 xs s of ((c, e), s') \<Rightarrow> if e \<noteq> 0 then ((- 1, e), s') else removal px (count + c) ys s')"
  by (simp add: removal_def remove_each_append Let_def split: prod.split)

lemma removal_loop:
  assumes only: "removes_only px q0 t0"
    and trees: "\<And>t s. t \<in> set ts \<Longrightarrow> tree_at px s (path_append q (tree_name t)) t \<Longrightarrow>
      remove_all_impl px (Inl (path_append q (tree_name t))) s 0 = Some (removal px 0 (postorder (path_append q (tree_name t)) t) s)"
    and sub: "\<And>t. t \<in> set ts \<Longrightarrow> (path_append q (tree_name t), t) \<in> set (subtrees q0 t0) \<and>
      set (postorder (path_append q (tree_name t)) t) \<subseteq> set (postorder q0 t0)"
  shows "at_entries it q ts \<Longrightarrow> distinct (concat (map (\<lambda>t. postorder (path_append q (tree_name t)) t) ts)) \<Longrightarrow>
    \<forall>t\<in>set ts. tree_at px s (path_append q (tree_name t)) t \<Longrightarrow>
    remove_all_impl px (Inr (it, count)) s 0 = Some (removal px count (concat (map (\<lambda>t. postorder (path_append q (tree_name t)) t) ts)) s)"
  using trees sub
proof (induction ts arbitrary: it s count)
  case Nil
  then have "it = None" by simp
  then show ?case by (simp add: remove_all_loop [of px None count] directory_dereference_def removal_def)
next
  case (Cons t ts)
  let ?p = "path_append q (tree_name t)"
  from entries_step [OF Cons(2)] obtain it' where it': "directory_dereference it = Some ?p"
    "directory_increment it (Some 0) = Some (it', (Inr (), Some 0))" "at_entries it' q ts" by blast
  have first: "remove_all_impl px (Inl ?p) s 0 = Some (removal px 0 (postorder ?p t) s)" using Cons(4,5) by simp
  obtain c e s1 where r: "removal px 0 (postorder ?p t) s = ((c, e), s1)" by (metis surj_pair)
  show ?case
  proof (cases "e = 0")
    case False
    then show ?thesis using first r it'(1) by (simp add: remove_all_loop [of px it count] removal_append)
  next
    case True
    with r have rest: "remove_each px (postorder ?p t) s = (0, s1)" by (auto simp: removal_def Let_def split: prod.splits if_splits)
    have "tree_at px s1 (path_append q (tree_name u)) u" if "u \<in> set ts" for u
      by (rule trees_stay [OF only _ _ _ _ rest]) (use that Cons(3,4,6) in auto)
    then have "remove_all_impl px (Inr (it', count + c)) s1 0 =
        Some (removal px (count + c) (concat (map (\<lambda>t. postorder (path_append q (tree_name t)) t) ts)) s1)"
      using Cons(1) [OF it'(3)] Cons(3,5,6) by auto
    then show ?thesis using True first r it' by (simp add: remove_all_loop [of px it count] removal_append)
  qed
qed

lemma subtrees_self: "(q, t) \<in> set (subtrees q t)"
  by (cases t) auto

lemma removal_tree:
  assumes "removes_only px q0 t0"
  shows "set (subtrees q t) \<subseteq> set (subtrees q0 t0) \<Longrightarrow> set (postorder q t) \<subseteq> set (postorder q0 t0) \<Longrightarrow> distinct (postorder q t) \<Longrightarrow>
    tree_at px s q t \<Longrightarrow> remove_all_impl px (Inl q) s 0 = Some (removal px 0 (postorder q t) s)"
proof (induction t arbitrary: q s)
  case (Leaf n)
  then obtain st where st: "px_lstat px s q = Inr st" "\<not> S_ISDIR (st_mode st)" by (auto split: sum.splits)
  from lstat_code [OF st(1), of 0] st(2) obtain f where "status_code (fs_symlink_status (px_lstat px s) q (Some 0)) = (f, 0)" "\<not> is_directory f" by auto
  then show ?case by (simp add: remove_all_file remove_last removal_def split: prod.split)
next
  case (Folder n ts e)
  let ?all = "concat (map (\<lambda>t. postorder (path_append q (tree_name t)) t) ts)"
  from Folder(5) obtain st where st: "px_lstat px s q = Inr st" "S_ISDIR (st_mode st)" by (auto split: sum.splits)
  from lstat_code [OF st(1), of 0] st(2) obtain f where f: "status_code (fs_symlink_status (px_lstat px s) q (Some 0)) = (f, 0)" "is_directory f" by auto
  from Folder(5) have "contents (os_at px s) 0 q ts 0" by simp
  from entries_begin [OF this, of 0] obtain it where it: "directory_iterator (os_at px s) q (Some 0) 0 = (Inr it, Some 0)" "at_entries it q ts" by blast
  have "remove_all_impl px (Inr (it, 1)) s 0 = Some (removal px 1 ?all s)"
  proof (rule removal_loop [OF assms _ _ it(2)])
    fix t s assume t: "t \<in> set ts" and "tree_at px s (path_append q (tree_name t)) t"
    moreover have "distinct (postorder (path_append q (tree_name t)) t)"
      using Folder(4) t by (auto simp: distinct_concat_iff)
    ultimately show "remove_all_impl px (Inl (path_append q (tree_name t))) s 0 = Some (removal px 0 (postorder (path_append q (tree_name t)) t) s)"
      using Folder(2,3) by (intro Folder(1)) auto
  next
    fix t assume "t \<in> set ts"
    then show "(path_append q (tree_name t), t) \<in> set (subtrees q0 t0) \<and> set (postorder (path_append q (tree_name t)) t) \<subseteq> set (postorder q0 t0)"
      using Folder(2,3) subtrees_self [of "path_append q (tree_name t)" t] by auto
  qed (use Folder(4,5) in auto)
  then show ?case using f it(1)
    by (simp add: remove_all_file remove_last removal_def remove_each_append Let_def split: prod.split)
qed simp_all

section \<open>Both operations\<close>

text \<open>C26: \<open>create_directories\<close> on a plain path of which every prefix is a directory or missing (and every prefix of a directory is one) calls
  \<open>mkdir\<close> on the missing prefixes, the outermost first, up to the first that fails.  If all succeed, the path and all its parents are directories,
  and it returns whether the path was missing; otherwise it reports the error of that call, but after \<open>EEXIST\<close> (a dangling link) that of \<open>stat\<close>, and makes
  no more.  Directories stay.  Of \<open>mkdir\<close> it is assumed that a success makes an empty directory and a failure changes nothing.  \<open>remove_all\<close> on a tree, of which
  removing an entry leaves the entries that come later as they are, calls \<open>remove\<close> on the entries in postorder, the contents of a directory before the
  directory itself, up to the first error, and returns their number or that error, with \<open>-1\<close>.\<close>

theorem directories_and_trees:
  assumes "mkdir_contract px" and "plain p" and "p \<noteq> []" and "chain_ok px s p"
    and "tree_at px s q t" and "removes_only px q t" and "distinct (postorder q t)"
  shows "(case make_each px (missing_chain px s p) s of
        (None, s') \<Rightarrow> create_directories px p s ec = Some ((Inr (\<not> dir_at px s p), clear_ec ec), s') \<and>
          (\<forall>q\<in>set (path_chain p). dir_at px s' q) \<and> (\<forall>q. dir_at px s q \<longrightarrow> dir_at px s' q)
      | (Some (r, errno), s') \<Rightarrow> create_directories px p s ec = Some (set_or_throw (mkdir_error px s' r errno) ec False, s') \<and>
          mkdir_error px s' r errno \<noteq> 0 \<and> (\<forall>q. dir_at px s q \<longrightarrow> dir_at px s' q)) \<and>
    fs_remove_all px q s ec =
      Some (case remove_each px (postorder q t) s of (errno, s') \<Rightarrow>
        (if errno = 0 then (Inr (of_nat (length (postorder q t))), clear_ec ec) else set_or_throw errno ec (- 1), s'))"
proof (intro conjI, goal_cases)
  case 1
  show ?case
    using create_directories_chain [OF assms(1-4), of ec] created_chain [OF assms(1,4)]
      make_each_keeps(1) [OF assms(1), of "missing_chain px s p" s]
    by (auto simp: creation_def split: prod.splits option.splits)
next
  case 2
  have "remove_all_impl px (Inl q) s 0 = Some (removal px 0 (postorder q t) s)"
    by (rule removal_tree [OF assms(6) _ _ assms(7,5)]) simp_all
  then show ?case
    by (simp add: fs_remove_all_def removal_def Let_def split: prod.split)
qed

text \<open>A file system of directories and files, each with its full path, in which only an empty directory can be removed.\<close>

definition shelf_stat :: "string list \<times> string list \<Rightarrow> string \<Rightarrow> int + stat" where
  "shelf_stat s p = (if p \<in> set (fst s) then Inr (stat_zero\<lparr>st_mode := 0x41ED\<rparr>)
     else if p \<in> set (snd s) then Inr (stat_zero\<lparr>st_mode := 0x81A4\<rparr>) else Inl ENOENT)"

definition ENOTEMPTY :: int where "ENOTEMPTY = 39"

definition shelf :: "(string list \<times> string list) posix" where
  "shelf = \<lparr>px_stat = shelf_stat, px_lstat = shelf_stat,
     px_opendir = (\<lambda>s p. if p \<in> set (fst s)
       then Inr (''.'' # filter (\<lambda>n. path_append p n \<in> set (fst s @ snd s)) [''a'', ''b'', ''c''] @ [''..''], 0) else Inl ENOENT),
     px_getcwd = (\<lambda>_. Inr ''/''), px_readlink = (\<lambda>_ _. Inl 22), px_realpath = (\<lambda>_. Inr), px_statvfs = (\<lambda>_ _. Inl 38), px_getenv = (\<lambda>_. None),
     px_mkdir = (\<lambda>p _ (ds, fs). if p \<in> set ds \<union> set fs then (EEXIST, ds, fs) else (0, p # ds, fs)), px_symlink = (\<lambda>_ _ s. (1, s)), px_link = (\<lambda>_ _ s. (1, s)), px_rename = (\<lambda>_ _ s. (1, s)),
     px_chdir = (\<lambda>_ s. (1, s)), px_remove = (\<lambda>p (ds, fs). if p \<notin> set ds \<union> set fs then (ENOENT, ds, fs)
       else if list_ex (\<lambda>q. take (length p + 1) q = p @ ''/'') (ds @ fs) then (ENOTEMPTY, ds, fs)
       else (0, removeAll p ds, removeAll p fs)), px_truncate = (\<lambda>_ _ s. (1, s)),
     px_fchmodat = (\<lambda>_ _ _ s. (1, s)), px_utimensat = (\<lambda>_ _ s. (1, s)), px_copy_bytes = (\<lambda>_ _ s. (False, s))\<rparr>"

lemma shelf_mkdir: "mkdir_contract shelf"
  by (auto simp: mkdir_contract_def shelf_def absent_at_def dir_at_def shelf_stat_def S_ISDIR_def S_IFMT_def missing_def below_def EEXIST_def
    split: if_splits sum.splits)

definition shelf_tree :: ftree where
  "shelf_tree = Folder ''r'' [Leaf ''a'', Folder ''b'' [Leaf ''c''] 0] 0"

lemma shelf_leaf: "tree_at shelf s p (Leaf n) \<longleftrightarrow> p \<notin> set (fst s) \<and> p \<in> set (snd s)"
  by (simp add: shelf_def shelf_stat_def S_ISDIR_def S_IFMT_def)

lemma shelf_folder:
  "tree_at shelf s ''/r/b'' (Folder n [Leaf ''c''] 0) \<longleftrightarrow> ''/r/b'' \<in> set (fst s) \<and>
     filter (\<lambda>n. path_append ''/r/b'' n \<in> set (fst s) \<union> set (snd s)) [''a'', ''b'', ''c''] = [''c''] \<and>
     ''/r/b/c'' \<notin> set (fst s) \<and> ''/r/b/c'' \<in> set (snd s)"
proof -
  have path: "path_append ''/r/b'' ''c'' = ''/r/b/c''" by code_simp
  have "skipped_error 0 0 \<longleftrightarrow> False" by code_simp
  then have "contents (os_at shelf s) 0 ''/r/b'' [Leaf ''c''] 0 \<longleftrightarrow> ''/r/b'' \<in> set (fst s) \<and>
     filter (\<lambda>n. path_append ''/r/b'' n \<in> set (fst s) \<union> set (snd s)) [''a'', ''b'', ''c''] = [''c'']"
    by (simp add: contents_def os_at_def shelf_def)
  moreover have "(case px_lstat shelf s ''/r/b'' of Inl _ \<Rightarrow> False | Inr st \<Rightarrow> S_ISDIR (st_mode st)) \<longleftrightarrow> ''/r/b'' \<in> set (fst s)"
    by (simp add: shelf_def shelf_stat_def S_ISDIR_def S_IFMT_def)
  ultimately show ?thesis by (simp add: shelf_leaf path del: tree_at.simps(1))
qed

lemma shelf_remove: "px_remove shelf q s = (0, s') \<Longrightarrow> s' = (removeAll q (fst s), removeAll q (snd s))"
  by (cases s) (auto simp: shelf_def ENOENT_def ENOTEMPTY_def split: if_splits)

lemma shelf_removes: "removes_only shelf ''/r'' shelf_tree"
proof -
  have order: "postorder ''/r'' shelf_tree = [''/r/a'', ''/r/b/c'', ''/r/b'', ''/r'']"
    "postorder ''/r/b'' (Folder ''b'' [Leaf ''c''] 0) = [''/r/b/c'', ''/r/b'']" by code_simp+
  have trees: "subtrees ''/r'' shelf_tree = [(''/r'', shelf_tree), (''/r/a'', Leaf ''a''), (''/r/b'', Folder ''b'' [Leaf ''c''] 0), (''/r/b/c'', Leaf ''c'')]"
    by code_simp
  have paths: "path_append ''/r/b'' ''a'' = ''/r/b/a''" "path_append ''/r/b'' ''b'' = ''/r/b/b''" "path_append ''/r/b'' ''c'' = ''/r/b/c''" by code_simp+
  show ?thesis unfolding removes_only_def trees
    by (simp add: order shelf_folder shelf_leaf paths del: tree_at.simps postorder.simps(1)) (auto dest!: shelf_remove split: if_splits)
qed

theorem directories_and_trees_witness:
  "(\<exists>s'. create_directories shelf ''/r/x/y'' ([''/'', ''/r'', ''/r/b''], [''/r/a'', ''/r/b/c'']) None = Some ((Inr True, None), s') \<and>
      dir_at shelf s' ''/r/x'' \<and> dir_at shelf s' ''/r/x/y'') \<and>
   fs_remove_all shelf ''/r'' ([''/'', ''/r'', ''/r/b''], [''/r/a'', ''/r/b/c'']) None = Some ((Inr 4, None), [''/''], [])"
proof -
  let ?s = "([''/'', ''/r'', ''/r/b''], [''/r/a'', ''/r/b/c''])"
  have chain: "path_chain ''/r/x/y'' = [''/r/x/y'', ''/r/x'', ''/r'', ''/'']" by code_simp
  have order: "postorder ''/r'' shelf_tree = [''/r/a'', ''/r/b/c'', ''/r/b'', ''/r'']" by code_simp
  have p: "plain ''/r/x/y''" by code_simp
  have ok: "chain_ok shelf ?s ''/r/x/y''" by code_simp
  have tree: "tree_at shelf ?s ''/r'' shelf_tree" by code_simp
  note only = shelf_removes
  have d: "distinct (postorder ''/r'' shelf_tree)" by (simp add: order)
  note both = directories_and_trees [OF shelf_mkdir p _ ok tree only d, of None]
  have "missing_chain shelf ?s ''/r/x/y'' = [''/r/x'', ''/r/x/y'']"
    by (simp add: missing_chain_def chain) code_simp
  moreover have "make_each shelf [''/r/x'', ''/r/x/y''] ?s = (None, ([''/r/x/y'', ''/r/x'', ''/'', ''/r'', ''/r/b''], [''/r/a'', ''/r/b/c'']))"
    by code_simp
  moreover have "\<not> dir_at shelf ?s ''/r/x/y''" by code_simp
  moreover have "remove_each shelf (postorder ''/r'' shelf_tree) ?s = (0, [''/''], [])" by code_simp
  ultimately show ?thesis using both by (auto simp: chain order)
qed

end
