(* ===== verification/Fs_Overloads.thy ===== *)
theory Fs_Overloads
  imports Fs_Trees
begin

text \<open>
  The overloads of the file system operations with and without an \<open>error_code\<close>: they do the same and report the same error, except
  in three places.
\<close>

section \<open>Both overloads\<close>

text \<open>The throwing overload and the one with an \<open>error_code\<close>: the same state, and the same value or the same error.\<close>

definition agree :: "'a fs_result \<times> 's \<Rightarrow> 'a fs_result \<times> 's \<Rightarrow> bool" where
  "agree r0 rx \<longleftrightarrow> snd r0 = snd rx \<and> snd (fst r0) = None \<and>
     (case fst (fst r0) of
        Inl e \<Rightarrow> e \<noteq> 0 \<and> (\<exists>v. fst rx = (Inr v, Some e))
      | Inr v \<Rightarrow> fst rx = (Inr v, Some 0))"

definition errors_nonzero :: "'s posix \<Rightarrow> bool" where
  "errors_nonzero px \<longleftrightarrow> (\<forall>s p. px_stat px s p \<noteq> Inl 0 \<and> px_lstat px s p \<noteq> Inl 0 \<and> px_opendir px s p \<noteq> Inl 0 \<and>
     px_readlink px s p \<noteq> Inl 0 \<and> px_realpath px s p \<noteq> Inl 0 \<and> px_getcwd px s \<noteq> Inl 0 \<and> px_statvfs px s p \<noteq> Inl 0)"

text \<open>Where \<open>mkdir\<close> finds an entry, \<open>stat\<close> does not fail otherwise than for a dangling link.\<close>

definition stat_sees_existing :: "'s posix \<Rightarrow> bool" where
  "stat_sees_existing px \<longleftrightarrow> (\<forall>p m s s' e. px_mkdir px p m s = (EEXIST, s') \<and> px_stat px s' p = Inl e \<longrightarrow> missing e)"

lemma agree_simps [simp]:
  "agree ((Inr v, None), s) ((Inr v', Some y), s') \<longleftrightarrow> v = v' \<and> y = 0 \<and> s = s'"
  "agree ((Inl e, None), s) ((Inr v, Some y), s') \<longleftrightarrow> e \<noteq> 0 \<and> y = e \<and> s = s'"
  by (auto simp: agree_def)

lemma agreeE:
  assumes "agree r0 rx"
  obtains (failed) e v s where "r0 = ((Inl e, None), s)" "rx = ((Inr v, Some e), s)" "e \<noteq> 0"
  | (returned) v s where "r0 = ((Inr v, None), s)" "rx = ((Inr v, Some 0), s)"
  using assms by (cases r0; cases rx) (auto simp: agree_def split: sum.splits)

named_theorems agrees \<open>both overloads of an operation agree\<close>

lemma agree_error [agrees]: "e \<noteq> 0 \<Longrightarrow> agree (set_or_throw e None v, s) (set_or_throw e (Some x) v, s)"
  by (simp add: agree_def)

lemma agree_value [agrees]: "agree ((Inr v, None), s) ((Inr v, Some 0), s)"
  by (simp add: agree_def)

lemma agree_if [agrees]: "(b \<Longrightarrow> agree r0 rx) \<Longrightarrow> (\<not> b \<Longrightarrow> agree r0' rx') \<Longrightarrow> agree (if b then r0 else r0') (if b then rx else rx')"
  by simp

lemma agree_then [agrees]:
  assumes "agree r0 rx" and "\<And>a s. agree (k a None s) (k a (Some 0) s)"
  shows "agree (fs_then r0 v k) (fs_then rx v k)"
  using assms(1)
proof (cases rule: agreeE)
  case (returned a s)
  with assms(2) show ?thesis by (simp add: fs_then_def ec_is_set_def)
qed (simp add: fs_then_def ec_is_set_def)

lemma agree_map [agrees]: "agree r0 rx \<Longrightarrow> agree (fs_map f r0) (fs_map f rx)"
  by (erule agreeE) (simp_all add: fs_map_def)

lemma agree_call [agrees]: "agree (fs_call r None) (fs_call r (Some x))"
  by (cases r) (auto simp: fs_call_def agree_def)

lemma agree_query: "r \<noteq> Inl 0 \<Longrightarrow> agree (fs_query r v s None) (fs_query r v s (Some x))"
  by (cases r) (auto simp: fs_query_def agree_def)

lemma errors_nonzeroD:
  assumes "errors_nonzero px"
  shows "px_stat px s p \<noteq> Inl 0" "px_lstat px s p \<noteq> Inl 0" "px_opendir px s p \<noteq> Inl 0" "px_readlink px s p \<noteq> Inl 0"
    "px_realpath px s p \<noteq> Inl 0" "px_getcwd px s \<noteq> Inl 0" "px_statvfs px s p \<noteq> Inl 0"
  using assms by (auto simp: errors_nonzero_def)

text \<open>The results of a status query.\<close>

lemma unknown_error:
  "status_code (create_file_status e st (Some x)) = (q, m_ec) \<Longrightarrow> \<not> status_known q \<Longrightarrow> m_ec \<noteq> 0"
  by (auto simp: status_code_def create_file_status_def Let_def status_known_def file_status_of_def split: if_splits)

lemma stat_code_unknown:
  "stat_code (posix_stat f p st (Some x)) = (q, m_ec, st') \<Longrightarrow> \<not> status_known q \<Longrightarrow> m_ec \<noteq> 0"
  "stat_code (posix_lstat f p st (Some x)) = (q, m_ec, st') \<Longrightarrow> \<not> status_known q \<Longrightarrow> m_ec \<noteq> 0"
  "status_code (fs_status f p (Some x)) = (q, m_ec) \<Longrightarrow> \<not> status_known q \<Longrightarrow> m_ec \<noteq> 0"
  by (auto simp: stat_code_def posix_stat_def posix_lstat_def fs_status_def dest: unknown_error split: sum.splits prod.splits)

lemma stat_code_if_unknown:
  "stat_code (if b then posix_lstat f' p st (Some x) else posix_stat f p st (Some x)) = (q, 0, st') \<Longrightarrow> status_known q"
  by (cases b) (auto dest: stat_code_unknown)

lemma advance_loop_good: "advance_loop s names e = (s', b, m_ec) \<Longrightarrow> ds_good s' \<Longrightarrow> ds_stream s \<noteq> None \<Longrightarrow> m_ec = 0"
  by (induction s names e rule: advance_loop.induct) (auto simp: ds_good_def split: if_splits)

lemma agree_directory_iterator [agrees]: "agree (directory_iterator os p None o', s) (directory_iterator os p (Some x) o', s)"
proof -
  obtain imp m_ec where new: "dir_stream_new os p o' = (imp, m_ec)" by fastforce
  have "m_ec = 0" if "ds_good imp"
    using new that by (auto simp: dir_stream_new_def Let_def ds_good_def split: sum.splits prod.splits dest: advance_loop_good)
  then show ?thesis using new by (auto simp: directory_iterator_def agree_def)
qed


section \<open>The operations\<close>

lemma agree_remove: "agree (fs_remove px p s None) (fs_remove px p s (Some x))"
  by (simp add: fs_remove_def split: prod.split)

lemma agree_equivalent: "agree (fs_equivalent px p1 p2 s None) (fs_equivalent px p1 p2 s (Some x))"
  by (simp add: fs_equivalent_def split: prod.split)

lemma agree_file_size: "agree (file_size px p s None) (file_size px p s (Some x))"
  by (simp add: file_size_def split: prod.split)

lemma agree_hard_link_count: "agree (hard_link_count px p s None) (hard_link_count px p s (Some x))"
  by (simp add: hard_link_count_def split: prod.split)

lemma agree_is_empty: "agree (fs_is_empty px p s None) (fs_is_empty px p s (Some x))"
  by (auto simp: fs_is_empty_def Let_def split: prod.split intro!: agree_then agree_directory_iterator)

lemma agree_get_last_write_time [agrees]: "agree (get_last_write_time px p s None) (get_last_write_time px p s (Some x))"
  by (simp add: get_last_write_time_def Let_def split: prod.split)

lemma agree_set_last_write_time: "agree (set_last_write_time px p t s None) (set_last_write_time px p t s (Some x))"
  by (simp add: set_last_write_time_def Let_def split: prod.split option.split)

lemma agree_space: "errors_nonzero px \<Longrightarrow> agree (fs_space px p s None) (fs_space px p s (Some x))"
  by (auto simp: fs_space_def split: sum.split dest: errors_nonzeroD)

lemma agree_temp_directory_path: "agree (temp_directory_path px s None) (temp_directory_path px s (Some x))"
  by (simp add: temp_directory_path_def Let_def split: prod.split)

lemma agree_permissions [agrees]: "agree (fs_permissions_op px p prms s None) (fs_permissions_op px p prms s (Some x))"
  by (simp add: fs_permissions_op_def Let_def split: prod.split)

lemma mkdir_failed_sane:
  assumes "stat_sees_existing px" and "px_mkdir px p m s0 = (EEXIST, s)"
  shows "\<exists>st. fs_status (px_stat px s) p None = (Inr st, None) \<and> (is_directory st \<or> (case px_stat px s p of Inl e \<Rightarrow> e \<noteq> 0 | Inr _ \<Rightarrow> True))"
proof (cases "px_stat px s p")
  case (Inl e)
  with assms have "e = ENOENT \<or> e = ENOTDIR" by (auto simp: stat_sees_existing_def missing_def)
  then show ?thesis using Inl by (auto simp: fs_status_def posix_stat_def create_file_status_def)
next
  case (Inr st)
  then show ?thesis using create_status_directory [of st None] by (auto simp: fs_status_def posix_stat_def)
qed

lemma agree_mkdir_failed:
  assumes "stat_sees_existing px" and "px_mkdir px p m s0 = (errno, s)" and "errno \<noteq> 0"
  shows "agree (mkdir_failed px p errno s None) (mkdir_failed px p errno s (Some 0))"
proof (cases "errno = EEXIST")
  case True
  with mkdir_failed_sane [OF assms(1)] assms(2) obtain st where
    "fs_status (px_stat px s) p None = (Inr st, None)" "is_directory st \<or> (case px_stat px s p of Inl e \<Rightarrow> e \<noteq> 0 | Inr _ \<Rightarrow> True)" by blast
  then show ?thesis using True by (auto simp: mkdir_failed_def split: sum.splits)
next
  case False
  with assms(3) show ?thesis by (simp add: mkdir_failed_def)
qed

lemma agree_create_directory [agrees]:
  "stat_sees_existing px \<Longrightarrow> agree (create_directory px p s None) (create_directory px p s (Some x))"
  by (auto simp: create_directory_def split: prod.split intro: agree_mkdir_failed)

lemma agree_create_directory_like [agrees]:
  "stat_sees_existing px \<Longrightarrow> agree (create_directory_like px p q s None) (create_directory_like px p q s (Some x))"
  by (auto simp: create_directory_like_def Let_def split: prod.split intro: agree_mkdir_failed dest: stat_code_unknown)

lemma agree_copy_file_impl [agrees]: "agree (copy_file_impl px from to m s None) (copy_file_impl px from to m s (Some x))"
proof -
  have *: "copy_file_impl px from to m s ec = (let (good, s) = px_copy_bytes px from to s in
      if \<not> good then (set_or_throw EPERM ec False, s) else fs_map (\<lambda>_. True) (fs_permissions_op px to m s ec))" for ec
    by (auto simp: copy_file_impl_def fs_map_def split: prod.split sum.split)
  show ?thesis unfolding * by (auto split: prod.split intro: agrees)
qed

lemma agree_copy_file [agrees]: "agree (copy_file px from to o' s None) (copy_file px from to o' s (Some x))"
proof -
  obtain from_st m_ec st where from_st: "stat_code (posix_stat (px_stat px s) from stat_zero (Some 0)) = (from_st, m_ec, st)" by (metis prod_cases3)
  obtain to_st m_ec' st' where to_st: "stat_code (posix_stat (px_stat px s) to stat_zero (Some m_ec)) = (to_st, m_ec', st')" by (metis prod_cases3)
  have "\<not> status_known to_st \<Longrightarrow> m_ec' \<noteq> 0" using stat_code_unknown(1) [OF to_st] .
  then show ?thesis by (auto simp: copy_file_def from_st to_st Let_def intro!: agrees)
qed

lemma agree_copy_symlink [agrees]: "errors_nonzero px \<Longrightarrow> agree (copy_symlink px from to s None) (copy_symlink px from to s (Some x))"
  by (auto simp: copy_symlink_def read_symlink_def create_symlink_def intro!: agrees agree_query dest: errors_nonzeroD)

lemma agree_copy_link [agrees]: "errors_nonzero px \<Longrightarrow> agree (copy_link px from to o' t s None) (copy_link px from to o' t s (Some 0))"
  by (auto simp: copy_link_def intro!: agrees)

lemma agree_copy_regular [agrees]: "agree (copy_regular px from to o' t s None) (copy_regular px from to o' t s (Some 0))"
  by (auto simp: copy_regular_def create_symlink_def create_hard_link_def intro!: agrees)

lemma agree_copy_start:
  assumes "errors_nonzero px" and "stat_sees_existing px"
  shows "agree (copy_start px from to o' s None) (copy_start px from to o' s (Some x))"
proof -
  define a where "a = stat_code (if o' AND (copy_create_symlinks OR copy_skip_symlinks) \<noteq> 0 \<or> o' AND copy_symlinks \<noteq> 0
    then posix_lstat (px_lstat px s) from stat_zero (Some 0) else posix_stat (px_stat px s) from stat_zero (Some 0))"
  obtain f m_ec f_st where a: "a = (f, m_ec, f_st)" by (metis prod_cases3)
  define b where "b = stat_code (if o' AND (copy_create_symlinks OR copy_skip_symlinks) \<noteq> 0
    then posix_lstat (px_lstat px s) to stat_zero (Some m_ec) else posix_stat (px_stat px s) to stat_zero (Some m_ec))"
  obtain t m_ec' t_st where b: "b = (t, m_ec', t_st)" by (metis prod_cases3)
  have known: "\<not> status_known t \<Longrightarrow> m_ec' \<noteq> 0" using b stat_code_if_unknown unfolding b_def by blast
  show ?thesis unfolding copy_start_def Let_def a_def [symmetric] a prod.case b_def [symmetric] b
    by (auto intro!: agrees assms known split del: if_split)
qed

text \<open>The recursive operations: where one overload returns, so does the other.\<close>

definition copy_pair :: "'s posix \<Rightarrow> (string \<times> string) + (dir_stream option \<times> int \<times> string \<times> string) \<Rightarrow> u16 \<Rightarrow> 's \<Rightarrow> int option \<Rightarrow>
    unit fs_result \<times> 's \<Rightarrow> bool" where
  "copy_pair px q o' s ec r \<longleftrightarrow> (errors_nonzero px \<and> stat_sees_existing px \<longrightarrow>
     (\<forall>x. (case q of Inl _ \<Rightarrow> True | Inr _ \<Rightarrow> x = 0) \<longrightarrow>
        (ec = None \<longrightarrow> (\<exists>b. fs_copy px q o' s (Some x) = Some b \<and> agree r b)) \<and>
        (ec = Some x \<longrightarrow> (\<exists>a. fs_copy px q o' s None = Some a \<and> agree a r))))"

lemma fs_copy_start:
  "fs_copy px (Inl (from, to)) o' s ec =
     (case copy_start px from to o' s ec of
        ((Inl e, ec), s) \<Rightarrow> Some ((Inl e, ec), s)
      | ((Inr None, ec), s) \<Rightarrow> Some ((Inr (), ec), s)
      | ((Inr (Some it), ec), s) \<Rightarrow> fs_copy px (Inr (it, 0, from, to)) o' s ec)"
  by (subst fs_copy.simps) simp

lemma fs_copy_loop:
  "fs_copy px (Inr (it, m_ec2, from, to)) o' s ec =
     (case directory_dereference it of
        None \<Rightarrow> Some ((Inr (), ec), s)
      | Some p \<Rightarrow>
          if m_ec2 \<noteq> 0 then Some (set_or_throw m_ec2 ec (), s)
          else do {
            filename \<leftarrow> path_filename p;
            ((res, ec), s) \<leftarrow> fs_copy px (Inl (p, path_append to filename)) (o' OR copy_in_recursive) s ec;
            case res of
              Inl e \<Rightarrow> Some ((Inl e, ec), s)
            | Inr _ \<Rightarrow>
                if ec_is_set ec then Some ((Inr (), ec), s)
                else
                  (case directory_increment it (Some m_ec2) of
                     Some (it, (Inr _, Some m_ec2)) \<Rightarrow> fs_copy px (Inr (it, m_ec2, from, to)) o' s ec
                   | _ \<Rightarrow> None)
          })"
  by (subst fs_copy.simps) simp

text \<open>The loop is only entered without an error.\<close>

lemma copy_start_running: "copy_start px from to o' s ec = ((Inr (Some it), ec'), s') \<Longrightarrow> \<not> ec_is_set ec'"
  by (cases ec) (auto simp: copy_start_def fs_then_def fs_map_def Let_def set_or_throw_def split: prod.splits sum.splits if_splits option.splits)

lemmas fs_copy_induct = fs_copy.raw_induct [rotated, consumes 1, case_names step]

lemma copy_pair_copy: "fs_copy px q o' s ec = Some r \<Longrightarrow> copy_pair px q o' s ec r"
proof (induction px q o' s ec r rule: fs_copy_induct)
  case (step rec px q o' s ec r)
  show ?case unfolding copy_pair_def
  proof (intro impI allI)
    fix x :: int assume px: "errors_nonzero px \<and> stat_sees_existing px" and x: "case q of Inl _ \<Rightarrow> True | Inr _ \<Rightarrow> x = 0"
    note IH = step(1) [unfolded copy_pair_def, rule_format, OF _ px]
    have loops: "rec px (Inr l) o' s None = Some r \<Longrightarrow> \<exists>b. fs_copy px (Inr l) o' s (Some 0) = Some b \<and> agree r b"
      "rec px (Inr l) o' s (Some 0) = Some r \<Longrightarrow> \<exists>a. fs_copy px (Inr l) o' s None = Some a \<and> agree a r" for l o' s r
      using IH [of "Inr l" o' s _ r 0] by auto
    have copies: "rec px (Inl ft) o' s None = Some r \<Longrightarrow> \<exists>b. fs_copy px (Inl ft) o' s (Some y) = Some b \<and> agree r b"
      "rec px (Inl ft) o' s (Some y) = Some r \<Longrightarrow> \<exists>a. fs_copy px (Inl ft) o' s None = Some a \<and> agree a r" for ft o' s r y
      using IH [of "Inl ft" o' s _ r y] by auto
    show "(ec = None \<longrightarrow> (\<exists>b. fs_copy px q o' s (Some x) = Some b \<and> agree r b)) \<and>
        (ec = Some x \<longrightarrow> (\<exists>a. fs_copy px q o' s None = Some a \<and> agree a r))"
    proof (cases q)
      case (Inl ft)
      obtain src dst where ft: "ft = (src, dst)" by fastforce
      have "agree (copy_start px src dst o' s None) (copy_start px src dst o' s (Some x))" using px by (intro agree_copy_start) auto
      then show ?thesis
      proof (cases rule: agreeE)
        case (failed e v s')
        then have "v = None" using copy_start_running [of px src dst o' s "Some x" _ "Some e" s'] by (cases v) (auto simp: ec_is_set_def)
        with failed show ?thesis using step(2) unfolding Inl ft fs_copy_start by auto
      next
        case (returned v s')
        show ?thesis
        proof (cases v)
          case None
          with returned show ?thesis using step(2) unfolding Inl ft fs_copy_start by auto
        next
          case (Some it)
          with returned show ?thesis using step(2) loops(1) [of "(it, 0, src, dst)" o' s' r] loops(2) [of "(it, 0, src, dst)" o' s' r]
            unfolding Inl ft fs_copy_start by auto
        qed
      qed
    next
      case (Inr loop)
      obtain it m_ec2 src dst where loop: "loop = (it, m_ec2, src, dst)" by (cases loop)
      note step = step(2) [unfolded Inr loop sum.case prod.case]
      note unfold = fs_copy_loop [of px it m_ec2 src dst o' s None] fs_copy_loop [of px it m_ec2 src dst o' s "Some 0"]
      have x0: "x = 0" using x Inr by simp
      show ?thesis
      proof (cases "directory_dereference it")
        case None
        then show ?thesis using step x0 Inr by (auto simp: loop unfold)
      next
        case (Some p)
        show ?thesis
        proof (cases "m_ec2 = 0")
          case False
          then show ?thesis using step x0 Some Inr by (auto simp: loop unfold)
        next
          case True
          note step = step [unfolded Some option.case]
          from step True obtain n r' where n: "path_filename p = Some n"
            "rec px (Inl (p, path_append dst n)) (o' OR copy_in_recursive) s ec = Some r'" by (auto simp: Option.bind_eq_Some_conv)
          show ?thesis
          proof (intro conjI impI)
            assume ec: "ec = None"
            from copies(1) [OF n(2) [unfolded ec]] obtain b where b:
              "fs_copy px (Inl (p, path_append dst n)) (o' OR copy_in_recursive) s (Some 0) = Some b" "agree r' b" by blast
            from b(2) show "\<exists>b. fs_copy px q o' s (Some x) = Some b \<and> agree r b"
              using step n True Some b(1) unfolding Inr ec x0 loop unfold
              by (cases rule: agreeE) (auto simp: ec_is_set_def dest: loops split: option.splits sum.splits prod.splits)
          next
            assume ec: "ec = Some x"
            from copies(2) [OF n(2) [unfolded ec]] obtain a where a:
              "fs_copy px (Inl (p, path_append dst n)) (o' OR copy_in_recursive) s None = Some a" "agree a r'" by blast
            from a(2) show "\<exists>a. fs_copy px q o' s None = Some a \<and> agree a r"
              using step n True Some a(1) unfolding Inr ec x0 loop unfold
              by (cases rule: agreeE) (auto simp: ec_is_set_def dest: loops split: option.splits sum.splits prod.splits)
          qed
        qed
      qed
    qed
  qed
qed

lemma agree_copy:
  assumes "errors_nonzero px" and "stat_sees_existing px"
  shows "rel_option agree (fs_copy px (Inl (from, to)) o' s None) (fs_copy px (Inl (from, to)) o' s (Some x))"
proof (cases "fs_copy px (Inl (from, to)) o' s None")
  case None
  then show ?thesis using copy_pair_copy [of px "Inl (from, to)" o' s "Some x"] assms
    by (cases "fs_copy px (Inl (from, to)) o' s (Some x)") (auto simp: copy_pair_def)
next
  case (Some r)
  then obtain b where "fs_copy px (Inl (from, to)) o' s (Some x) = Some b" "agree r b"
    using copy_pair_copy [OF Some] assms unfolding copy_pair_def by (metis sum.case(1))
  with Some show ?thesis by simp
qed

text \<open>\<open>create_directories\<close> always returns: its recursion goes to shorter paths.\<close>

lemma agree_create_directories:
  assumes "stat_sees_existing px"
  shows "\<exists>a b. create_directories px p s None = Some a \<and> create_directories px p s (Some x) = Some b \<and> agree a b"
proof (induction "length (path_elements p)" arbitrary: p rule: less_induct)
  case less
  obtain st m_ec st' where st: "stat_code (posix_stat (px_stat px s) p stat_zero (Some 0)) = (st, m_ec, st')" by (metis prod_cases3)
  obtain q where q: "path_parent_path p = Some q" "path_elements q = butlast (path_elements p)" by (rule parent_elements)
  obtain st2 m_ec2 where st2: "status_code (fs_status (px_stat px s) q (Some m_ec)) = (st2, m_ec2)" by fastforce
  note bad = stat_code_unknown(1) [OF st] stat_code_unknown(3) [OF st2]
  have parent: "\<exists>a b. create_directories px q s None = Some a \<and> create_directories px q s (Some x) = Some b \<and> agree a b" if "q \<noteq> []"
  proof (rule less)
    have "path_elements p \<noteq> []" using that q(2) path_elements_Nil_iff [of q] by auto
    then show "length (path_elements q) < length (path_elements p)" using q(2) by simp
  qed
  note unfold = create_directories.simps [of px p s None] create_directories.simps [of px p s "Some x"]
  show ?case
  proof (cases "status_known st \<and> \<not> fs_exists st \<and> \<not> is_directory st \<and> q \<noteq> [] \<and> status_known st2 \<and> \<not> fs_exists st2")
    case True
    with parent obtain a b where ab: "create_directories px q s None = Some a" "create_directories px q s (Some x) = Some b" "agree a b" by blast
    have "agree (fs_then a False (\<lambda>_ ec s. create_directory px p s ec)) (fs_then b False (\<lambda>_ ec s. create_directory px p s ec))"
      using ab(3) assms by (intro agrees)
    then show ?thesis using True st st2 q(1) ab(1,2) by (simp add: unfold)
  next
    case False
    then show ?thesis using st st2 q(1) bad assms by (auto simp: unfold simp del: split_paired_Ex intro!: agrees)
  qed
qed

lemma agree_remove_all: "rel_option agree (fs_remove_all px p s None) (fs_remove_all px p s (Some x))"
  by (auto simp: fs_remove_all_def split: Option.bind_split intro!: agrees)

lemma stat_failure_throws: "px_stat px s p = Inl e \<Longrightarrow> e \<noteq> 0 \<Longrightarrow> \<not> missing e \<Longrightarrow> fs_status (px_stat px s) p None = (Inl e, None)"
  by (auto simp: fs_status_def posix_stat_def create_file_status_def set_or_throw_def set_ec_def missing_def Let_def)

text \<open>\<open>absolute\<close> fails only where there is no current path.\<close>

lemmas absolute_induct = absolute.raw_induct [rotated, consumes 1, case_names step]

lemma map_sum_Inl: "map_sum id f x = Inl e \<longleftrightarrow> x = Inl e"
  by (cases x) simp_all

lemma absolute_throws: "absolute px p base s = Some r \<Longrightarrow> \<forall>e. r = Inl e \<longrightarrow> px_getcwd px s = Inl e"
proof (induction px p base s r rule: absolute_induct)
  case (step rec px p base s r)
  note IH = step(1) [of px base _ s]
  show ?case using step(2) IH
    by (fastforce simp: get_current_path_def fs_query_def set_or_throw_def map_sum_Inl split: if_splits sum.splits option.splits prod.splits Option.bind_splits)
qed

lemma canonical_cwd:
  assumes "errors_nonzero px" and "px_getcwd px s = Inr cwd"
  shows "rel_option agree (canonical px p base s None) (canonical px p base s (Some x))"
proof (cases "absolute px p base s")
  case (Some r)
  with absolute_throws [OF Some] assms(2) obtain q where "r = Inr q" by (cases r) auto
  with Some assms(1) show ?thesis by (auto simp: canonical_def intro!: agree_query dest: errors_nonzeroD)
qed (simp add: canonical_def)

lemma system_complete_cwd:
  assumes "px_getcwd px s = Inr cwd"
  shows "rel_option agree (system_complete px p s None) (system_complete px p s (Some x))"
proof (cases "absolute px p cwd s")
  case (Some r)
  with absolute_throws [OF Some] assms obtain q where "r = Inr q" by (cases r) auto
  with Some assms show ?thesis by (simp add: system_complete_def get_current_path_def fs_query_def)
qed (simp add: system_complete_def get_current_path_def fs_query_def assms)

section \<open>All operations\<close>

text \<open>The two overloads of \<open>status\<close> and \<open>symlink_status\<close>, for the system call \<open>sys\<close>: a path that is not there is no error of the throwing one.\<close>

definition status_agrees ::
  "(string \<Rightarrow> int + stat) \<Rightarrow> ((string \<Rightarrow> int + stat) \<Rightarrow> string \<Rightarrow> int option \<Rightarrow> file_status fs_result) \<Rightarrow> string \<Rightarrow> int \<Rightarrow> bool" where
  "status_agrees sys op p x \<longleftrightarrow>
     (case sys p of
        Inr _ \<Rightarrow> agree (op sys p None, ()) (op sys p (Some x), ())
      | Inl e \<Rightarrow>
          if missing e
          then op sys p None = (Inr (file_status_of Not_found), None) \<and> op sys p (Some x) = (Inr (file_status_of Not_found), Some e)
          else op sys p None = (Inl e, None) \<and> op sys p (Some x) = (Inr (file_status_of No_type), Some e))"

lemma status_agrees:
  assumes "\<And>p. px_stat px s p \<noteq> Inl 0" and "\<And>p. px_lstat px s p \<noteq> Inl 0"
  shows "status_agrees (px_stat px s) fs_status p x" and "status_agrees (px_lstat px s) fs_symlink_status p x"
proof -
  have known: "agree (create_file_status 0 st None, ()) (create_file_status 0 st (Some x), ())" for st
    by (simp add: create_file_status_def agree_def Let_def)
  show "status_agrees (px_stat px s) fs_status p x"
    using known assms(1) [of p]
    by (auto simp: status_agrees_def fs_status_def posix_stat_def create_file_status_def missing_def Let_def split: sum.split)
  show "status_agrees (px_lstat px s) fs_symlink_status p x"
    using known assms(2) [of p]
    by (auto simp: status_agrees_def fs_symlink_status_def posix_lstat_def create_file_status_def missing_def Let_def split: sum.split)
qed

text \<open>C25: where no system call fails with error 0 and \<open>stat\<close> sees what \<open>mkdir\<close> has found, the two overloads of the operations of
  \<open>operations.cpp\<close>, and of the constructor of \<open>directory_iterator\<close>, do the same to the file system, and the throwing one throws exactly the error
  that the other stores, or both return the same value and \<open>ec\<close> is cleared; where one of the recursive operations returns, so does the other.
  The exceptions: \<open>status\<close> and \<open>symlink_status\<close> of a path that is not there (\<open>ENOENT\<close>, \<open>ENOTDIR\<close>) both return \<open>not_found\<close>, but only the overload with
  \<open>ec\<close> reports the error; their other errors are thrown, or stored with the type \<open>none\<close>.  With an \<open>error_code\<close> too, \<open>create_directory\<close> throws where \<open>stat\<close>
  fails otherwise on what \<open>mkdir\<close> has found, and \<open>system_complete\<close> and \<open>canonical\<close> with a relative base throw without a current path.\<close>

theorem overloads_agree:
  assumes "errors_nonzero px" and "stat_sees_existing px"
  shows "agree (create_directory_symlink px p q s None) (create_directory_symlink px p q s (Some x)) \<and>
    agree (create_hard_link px p q s None) (create_hard_link px p q s (Some x)) \<and>
    agree (create_symlink px p q s None) (create_symlink px p q s (Some x)) \<and>
    agree (get_current_path px s None) (get_current_path px s (Some x)) \<and>
    agree (set_current_path px p s None) (set_current_path px p s (Some x)) \<and>
    agree (read_symlink px p s None) (read_symlink px p s (Some x)) \<and>
    agree (fs_remove px p s None) (fs_remove px p s (Some x)) \<and>
    agree (fs_rename px p q s None) (fs_rename px p q s (Some x)) \<and>
    agree (resize_file px p n s None) (resize_file px p n s (Some x)) \<and>
    agree (fs_equivalent px p q s None) (fs_equivalent px p q s (Some x)) \<and>
    agree (file_size px p s None) (file_size px p s (Some x)) \<and>
    agree (hard_link_count px p s None) (hard_link_count px p s (Some x)) \<and>
    agree (fs_is_empty px p s None) (fs_is_empty px p s (Some x)) \<and>
    agree (get_last_write_time px p s None) (get_last_write_time px p s (Some x)) \<and>
    agree (set_last_write_time px p t s None) (set_last_write_time px p t s (Some x)) \<and>
    agree (fs_space px p s None) (fs_space px p s (Some x)) \<and>
    agree (temp_directory_path px s None) (temp_directory_path px s (Some x)) \<and>
    agree (fs_permissions_op px p prms s None) (fs_permissions_op px p prms s (Some x)) \<and>
    agree (create_directory px p s None) (create_directory px p s (Some x)) \<and>
    agree (create_directory_like px p q s None) (create_directory_like px p q s (Some x)) \<and>
    rel_option agree (create_directories px p s None) (create_directories px p s (Some x)) \<and>
    rel_option agree (fs_remove_all px p s None) (fs_remove_all px p s (Some x)) \<and>
    agree (copy_file px p q opts s None) (copy_file px p q opts s (Some x)) \<and>
    agree (copy_symlink px p q s None) (copy_symlink px p q s (Some x)) \<and>
    rel_option agree (fs_copy px (Inl (p, q)) opts s None) (fs_copy px (Inl (p, q)) opts s (Some x)) \<and>
    agree (directory_iterator (os_at px s) p None o', s) (directory_iterator (os_at px s) p (Some x) o', s) \<and>
    status_agrees (px_stat px s) fs_status p x \<and> status_agrees (px_lstat px s) fs_symlink_status p x \<and>
    (px_mkdir py p perms_all s = (EEXIST, s') \<and> px_stat py s' p = Inl e \<and> e \<noteq> 0 \<and> \<not> missing e \<longrightarrow>
       create_directory py p s (Some x) = ((Inl e, Some 0), s')) \<and>
    (case px_getcwd px s of
       Inr cwd \<Rightarrow> rel_option agree (canonical px p b s None) (canonical px p b s (Some x)) \<and>
         rel_option agree (system_complete px p s None) (system_complete px p s (Some x))
     | Inl e \<Rightarrow> system_complete px p s (Some x) = Some ((Inl e, Some 0), s) \<and>
         (the (path_root_name p) = [] \<and> \<not> is_absolute b \<longrightarrow> canonical px p b s (Some x) = Some ((Inl e, Some x), s)))"
proof (intro conjI)
  show "status_agrees (px_stat px s) fs_status p x" "status_agrees (px_lstat px s) fs_symlink_status p x"
    using status_agrees [of px s] errors_nonzeroD(1,2) [OF assms(1)] by blast+
  show "rel_option agree (create_directories px p s None) (create_directories px p s (Some x))"
    using agree_create_directories [OF assms(2), of p s x] by auto
  show "case px_getcwd px s of
       Inr cwd \<Rightarrow> rel_option agree (canonical px p b s None) (canonical px p b s (Some x)) \<and>
         rel_option agree (system_complete px p s None) (system_complete px p s (Some x))
     | Inl e \<Rightarrow> system_complete px p s (Some x) = Some ((Inl e, Some 0), s) \<and>
         (the (path_root_name p) = [] \<and> \<not> is_absolute b \<longrightarrow> canonical px p b s (Some x) = Some ((Inl e, Some x), s))"
  proof (cases "px_getcwd px s")
    case (Inl e)
    then show ?thesis by (auto simp: system_complete_def canonical_def absolute.simps [of px p b] get_current_path_def fs_query_def)
  next
    case (Inr cwd)
    then show ?thesis using assms(1) by (simp add: canonical_cwd system_complete_cwd)
  qed
  show "px_mkdir py p perms_all s = (EEXIST, s') \<and> px_stat py s' p = Inl e \<and> e \<noteq> 0 \<and> \<not> missing e \<longrightarrow>
       create_directory py p s (Some x) = ((Inl e, Some 0), s')"
    by (simp add: create_directory_def mkdir_failed_def stat_failure_throws)
qed (use assms in \<open>auto simp: create_directory_symlink_def create_hard_link_def create_symlink_def get_current_path_def set_current_path_def
  read_symlink_def fs_rename_def resize_file_def agree_remove agree_equivalent agree_file_size agree_hard_link_count agree_is_empty
  agree_set_last_write_time agree_space agree_temp_directory_path agree_copy agree_remove_all
  intro!: agrees agree_query dest: errors_nonzeroD\<close>)

lemma shelf_errors: "errors_nonzero shelf" "stat_sees_existing shelf"
  by (auto simp: errors_nonzero_def stat_sees_existing_def shelf_def shelf_stat_def missing_def split: if_splits)

theorem overloads_agree_witness:
  "create_directories shelf ''/r/x'' ([''/'', ''/r''], [''/r/a'']) (Some 7) = Some ((Inr True, Some 0), ([''/r/x'', ''/'', ''/r''], [''/r/a''])) \<and>
   (\<exists>v. create_directory shelf ''/r/a'' ([''/'', ''/r''], [''/r/a'']) (Some 7) = ((Inr v, Some EEXIST), ([''/'', ''/r''], [''/r/a'']))) \<and>
   (\<exists>v. file_size shelf ''/r'' ([''/'', ''/r''], [''/r/a'']) (Some 7) = ((Inr v, Some ENOTSUP), ([''/'', ''/r''], [''/r/a'']))) \<and>
   create_directory (shelf\<lparr>px_stat := \<lambda>_ _. Inl EACCES\<rparr>) ''/r'' ([''/'', ''/r''], [''/r/a'']) (Some 7) =
     ((Inl EACCES, Some 0), ([''/'', ''/r''], [''/r/a'']))"
proof -
  let ?s = "([''/'', ''/r''], [''/r/a''])"
  let ?py = "shelf\<lparr>px_stat := \<lambda>_ _. Inl EACCES\<rparr>"
  note all = overloads_agree [OF shelf_errors, where s = ?s and x = 7]
  have "rel_option agree (create_directories shelf ''/r/x'' ?s None) (create_directories shelf ''/r/x'' ?s (Some 7))" using all by blast
  moreover have "create_directories shelf ''/r/x'' ?s None = Some ((Inr True, None), ([''/r/x'', ''/'', ''/r''], [''/r/a'']))"
  proof -
    have "stat_code (posix_stat (px_stat shelf ?s) ''/r/x'' stat_zero (Some 0)) = (file_status_of Not_found, 2, stat_zero)" by code_simp
    moreover have "status_code (fs_status (px_stat shelf ?s) ''/r'' (Some 2)) = (\<lparr>fs_type = Directory, fs_permissions = 0x1ED\<rparr>, 0)" by code_simp
    moreover have "path_parent_path ''/r/x'' = Some ''/r''" by code_simp
    moreover have "create_directory shelf ''/r/x'' ?s None = ((Inr True, None), ([''/r/x'', ''/'', ''/r''], [''/r/a'']))" by code_simp
    ultimately show ?thesis
      by (subst create_directories.simps) (simp add: status_known_def fs_exists_def is_directory_def file_status_of_def)
  qed
  ultimately have a: "create_directories shelf ''/r/x'' ?s (Some 7) = Some ((Inr True, Some 0), ([''/r/x'', ''/'', ''/r''], [''/r/a'']))"
    by (cases "create_directories shelf ''/r/x'' ?s (Some 7)") (auto elim: agreeE)
  have "agree (create_directory shelf ''/r/a'' ?s None) (create_directory shelf ''/r/a'' ?s (Some 7))" using all by blast
  moreover have "create_directory shelf ''/r/a'' ?s None = ((Inl EEXIST, None), ?s)" by code_simp
  ultimately have b: "\<exists>v. create_directory shelf ''/r/a'' ?s (Some 7) = ((Inr v, Some EEXIST), ?s)" by (auto elim: agreeE)
  have "agree (file_size shelf ''/r'' ?s None) (file_size shelf ''/r'' ?s (Some 7))" using all by blast
  moreover have "file_size shelf ''/r'' ?s None = ((Inl ENOTSUP, None), ?s)" by code_simp
  ultimately have c: "\<exists>v. file_size shelf ''/r'' ?s (Some 7) = ((Inr v, Some ENOTSUP), ?s)" by (auto elim: agreeE)
  have "px_mkdir ?py ''/r'' perms_all ?s = (EEXIST, ?s) \<and> px_stat ?py ?s ''/r'' = Inl EACCES \<and> EACCES \<noteq> 0 \<and> \<not> missing EACCES" by code_simp
  then have d: "create_directory ?py ''/r'' ?s (Some 7) = ((Inl EACCES, Some 0), ?s)" using all by blast
  from a b c d show ?thesis by auto
qed

end
