(* ===== verification/Spec2Isabelle.thy ===== *)
theory Spec2Isabelle
  imports Codecvt_Facets Path_Ops Debug_Props Next_Prime_Correct Strstream_Props
    Shared_Mutex_Props Call_Once Timed_Mutex Money_Init Num_Props Time_Props Gslice Ios_Props
    String_Conv Shared_Count Fs_Overloads
begin

text \<open>
  A verification development for the library part of libc++ (the \<open>.cpp\<close> files under \<open>src/src\<close>, with the functions of
  \<open>src/include\<close> that they implement or call).  The definitions are translations of the C++ code into functions, records
  and step relations; the theorems say what the code promises, and where it does not keep a promise, exactly what it does.

  The parts of the program, and the theories that model them:

  \<^item> Code conversion (\<open>src/src/locale.cpp\<close> 1690-4179, \<open>src/include/codecvt\<close>).  Sixteen routines such as \<open>utf8_to_utf16\<close>
    and seven length routines convert between buffers; sixteen facets (\<open>codecvt\<close>, \<open>__codecvt_utf8\<close>, \<open>__codecvt_utf16\<close>,
    \<open>__codecvt_utf8_utf16\<close>) are their virtual functions.  \<open>Codecvt_Base\<close> holds the loop that all routines share, with
    its result codes and positions, and the contract \<open>transcoder\<close>; \<open>Unicode\<close>, \<open>Utf8_Shape\<close> and \<open>Utf16_Shape\<close> the reference
    encodings and what the tests of bytes and the masks mean; \<open>Codecvt_Contracts\<close> three contracts (an encoder of units, a
    reader of UTF-8, a reader of UTF-16) that each give \<open>transcoder\<close>; \<open>Utf8_Ucs4\<close>, \<open>Utf8_Ucs2\<close>, \<open>Utf8_Utf16\<close> and \<open>Utf16_Ucs\<close> the
    routines, on which the contracts are interpreted, and \<open>Codecvt_Facets\<close> the facets with the contract \<open>codec_facet\<close>.
    A buffer is a list with a capacity for the output; a pointer is an offset.  The contract determines the result: \<open>ok\<close> at the end of
    the input, \<open>partial\<close> where the next form does not fit or where the routine waits (a parameter \<open>waits\<close> of the contract, such as
    \<open>utf8_waits\<close>), \<open>error\<close> everywhere else.  Lemmas: totality and bounds, the text that
    is converted, which inputs are rejected, round trips, \<open>max_length\<close>.

  \<^item> Paths (\<open>src/src/experimental/filesystem/path.cpp\<close>).  \<open>Path_Parser\<close> models the state machine \<open>PathParser\<close>, whose
    pointers are positions in the string (the state \<open>PS_BeforeBegin\<close> to \<open>PS_AtEnd\<close> and the current token), and relates it to the
    decomposition of a path; \<open>Path_Ops\<close> has the decomposition functions, comparison, hash and iterators.  A null pointer, an
    unreachable place and a pointer outside of the string are \<open>None\<close>, and it is proved that none is met.

  \<^item> The iterator database of debug mode (\<open>src/src/debug.cpp\<close>).  \<open>Debug_Db\<close> holds the two chained hash tables, with the nodes
    in a store, and one function per operation; a failed assertion, an exception (with the state it leaves) and a normal return
    are the three outcomes.  \<open>Debug_Invariant\<close> has the invariant of chains and links; \<open>Debug_Props\<close> refines
    every operation to a map from iterators to containers (\<open>registry\<close>) and shows what remains after \<open>bad_alloc\<close>.

  \<^item> \<open>__next_prime\<close> (\<open>src/src/hash.cpp\<close>).  \<open>Next_Prime\<close> holds the tables, the binary search and the trial divisions along the
    wheel of 210, \<open>Next_Prime_Correct\<close> their correctness.

  \<^item> \<open>strstreambuf\<close> (\<open>src/src/strstream.cpp\<close>, \<open>src/include/streambuf\<close>).  \<open>Strstreambuf\<close>: the array and the six pointers as
    offsets; \<open>Strstream_Correct\<close>: the invariant of the states that calls reach; \<open>Strstream_Props\<close>: the theorems.

  \<^item> Locks (\<open>src/src/shared_mutex.cpp\<close>, \<open>src/src/mutex.cpp\<close>).  \<open>Shared_Mutex\<close>, \<open>Timed_Mutex\<close> and \<open>Call_Once\<close> translate each
    method to a function of the fields and embed these in a step relation on any number of threads; \<open>Shared_Mutex_Props\<close> and the
    second halves of the others hold the invariants.

  \<^item> Numbers (\<open>src/src/locale.cpp\<close> 4371-4514, \<open>num_get\<close> and \<open>num_put\<close> in \<open>src/include/locale\<close>).  \<open>Num_Format\<close> holds the format
    strings, padding, grouping and the stages of reading, \<open>Num_Props\<close> the round trip and the bounds of the buffers.

  \<^item> Money (\<open>src/src/locale.cpp\<close> 5466-6088, \<open>__money_put::__format\<close>).  \<open>Money_Format\<close> holds \<open>__init_pat\<close>, the printing by a
    pattern and \<open>__check_grouping\<close>; \<open>Money_Grouping\<close> the reference grouping that money and numbers share; \<open>Money_Props\<close> compares
    the layout with that of the C standard; \<open>Money_Init\<close> holds \<open>numpunct_byname\<close> and \<open>moneypunct_byname\<close>, built from \<open>lconv\<close>.

  \<^item> Time (\<open>src/src/locale.cpp\<close> 4516-5462) and keywords (\<open>src/include/locale\<close> 252-357).  \<open>Scan_Keyword\<close> holds
    \<open>__scan_keyword\<close> with its table of statuses and what it finds; \<open>Time_Format\<close> the storage of \<open>time_get\<close>, \<open>__analyze\<close>, \<open>init\<close>
    and \<open>__do_date_order\<close>; \<open>Time_Analysis\<close> and \<open>Time_Props\<close> when the analysis ends and which formats it recovers.

  \<^item> \<open>gslice\<close> (\<open>src/src/valarray.cpp\<close>).  \<open>Gslice\<close> holds the counters of \<open>gslice::__init\<close> and compares them with the list of all
    multi-indices.

  \<^item> Stream state (\<open>src/src/ios.cpp\<close>, \<open>basic_ios\<close> in \<open>src/include/ios\<close>).  \<open>Ios_Base\<close> holds the fields of \<open>ios_base\<close> and its
    operations, with allocation as a parameter and exceptions as results; \<open>Ios_Props\<close> the invariant, the contract \<open>storage\<close>
    that \<open>iword\<close> and \<open>pword\<close> fulfil, the guarantees of copying and of callbacks, and where they fail.

  \<^item> String conversions (\<open>src/src/string.cpp\<close>).  \<open>String_Conv\<close> holds \<open>stoi\<close> to \<open>stold\<close> with their exceptions, and \<open>to_string\<close> and
    \<open>to_wstring\<close> with the loop that enlarges the buffer.

  \<^item> Reference counts (\<open>src/src/memory.cpp\<close>, \<open>__shared_count\<close> in \<open>src/include/memory\<close>).  \<open>Shared_Count\<close> holds the atomic
    operations on the two counters and their interleavings on a multiset of handles, with the invariant that counts them.

  \<^item> The file system (\<open>directory_iterator.cpp\<close>, \<open>operations.cpp\<close> and \<open>filesystem_time_helper.h\<close> in
    \<open>src/src/experimental/filesystem\<close>, parts of \<open>src/include/experimental/filesystem\<close>).  \<open>Fs_Status\<close> holds the two ways to report an
    error, the file status and appending of paths; \<open>Dir_Iterator\<close> the directory streams and both iterators, with the order in which a
    tree is walked; \<open>Fs_Time\<close> the conversion of times; \<open>Fs_Ops\<close> all operations over a record of system calls on an abstract state.
    \<open>Fs_Trees\<close> shows what \<open>create_directories\<close> and \<open>remove_all\<close> do, errors of \<open>mkdir\<close> and \<open>remove\<close> included, \<open>Fs_Overloads\<close> that the overloads
    with and without an \<open>error_code\<close> agree, and where they do not.

  \<open>Prelude\<close> has the integer types, shared by all.  How the parts interact: the facets call the routines of code conversion;
  path iterators run the parser; the file system operations take paths apart with it; \<open>Num_Format\<close> uses \<open>__check_grouping\<close> of money and, for \<open>bool\<close>, the keyword search, which also
  drives \<open>__analyze\<close>; the function \<open>__lower_bound\<close> of \<open>src/include/algorithm\<close> serves \<open>__next_prime\<close>.
\<close>

text \<open>
  Conventions and bounds.

  \<^item> Integers have their C++ width where the code computes with bits (\<open>u8\<close>, \<open>u16\<close>, \<open>u32\<close>), on an LP64 platform.  Counters that
    cannot overflow before memory is exhausted are natural numbers; so are \<open>__ng\<close> and \<open>__dc\<close>, the counters of digit groups.  Sizes
    of string buffers are bounded by \<open>2 ^ 62\<close> where a theorem needs it.
  \<^item> A loop that is not structural is a \<open>partial_function\<close> with result type \<open>option\<close>: \<open>None\<close> is a loop that never returns, and the
    theorems prove \<open>Some\<close> (or, for \<open>__analyze\<close> with one empty name, \<open>None\<close>).  No fuel is used.  In \<open>Num_Format\<close> and \<open>Money_Format\<close>,
    which have structural loops only, \<open>None\<close> is an access outside of a buffer.
  \<^item> Code outside of the repository is a parameter: the allocator and whether memory is available, the hash functions, the
    inner mutex and condition variable of the locks, \<open>strftime_l\<close>, \<open>snprintf\<close>, \<open>strtol\<close> and their relatives, \<open>localeconv_l\<close> and the
    multibyte functions of the C library, the classification of characters by \<open>ctype\<close>, and the system calls on files, which give a
    value or \<open>errno\<close> and a new state.  What \<open>readdir\<close> still gives of an open directory is fixed when it is opened.
  \<^item> \<open>next_prime_correct\<close> assumes a prime between its argument and 18446744073709551557, the largest one of 64 bits; the lost wakeup
    of \<open>shared_mutex\<close> needs 2147483649 threads; \<open>num_get\<close> records at most 40 groups of digits, and the round trip of numbers is
    stated for groups that fit.
  \<^item> Undefined behaviour of the source that the model does not decide: \<open>frm_end - 1\<close> for an empty buffer in the UTF-16 decoders
    (modelled as a comparison that fails); a search in an empty hash table of the debug database (a division by zero, modelled as
    the failed assertion).  \<open>ucs4_to_utf8\<close> with a \<open>Maxcode\<close> above 0x10FFFF writes bytes that are not UTF-8.  \<open>moneypunct_byname\<close> keeps
    the currency symbol that was arranged for negative amounts, also for positive ones.

  Not modelled: the destructor and the lock of the debug database (the lock is held during each operation); the old array
  that a \<open>strstreambuf\<close> releases when it grows; reading and printing of floating point numbers beyond the format and the
  grouping; \<open>money_get\<close>; the readers of \<open>time_get\<close>; facets that forward to the C library (\<open>codecvt<wchar_t, char>\<close>, \<open>ctype_byname\<close>,
  \<open>collate_byname\<close>) and the table of facets of a \<open>locale\<close>; the Windows versions of the file system library; stream objects,
  futures, random numbers and regular expressions; and the containers and algorithms of the headers.  These
  are system calls and library calls, or large parts of their own.
\<close>



text \<open>
  C30: The UCS-2 routines for UTF-8 and for UTF-16 bytes of either order always return and stay inside both buffers:
  the encoders write the header the mode asks for and exactly the form of each element they read, the decoders store exactly the elements
  whose forms they read, and none stops before an element up to \<open>Maxcode\<close> that is no surrogate and whose form fits.  \<open>ok\<close> is returned exactly at
  the end of the input; \<open>partial\<close> exactly before an accepted element whose form does not fit, and by a decoder also when the destination is full, when
  fewer UTF-8 bytes are left than a lead byte of two or three announces, or at an odd byte of UTF-16; everything else is an \<open>error\<close>, so every surrogate (no pair is taken
  apart, no half pair is waited for), every element above \<open>Maxcode\<close> and every code point outside the basic plane, which is never truncated.
\<close>

theorem ucs2_correct:
  "(\<exists>r n w. ucs2_to_utf8 M mode frm cap = Some (Done r n w) \<and>
      encodes never (bmp_upto M) ucs2 utf8 (header mode utf8_bom) frm cap r n w) \<and>
   (\<exists>r n w. utf8_to_ucs2 M mode bs cap = Some (Done r n w) \<and>
      decodes (utf8_waits short_lead) (bmp_upto M) utf8 ucs2 (skipped mode utf8_bom bs) bs cap r n w) \<and>
   (\<exists>r n w. ucs2_to_utf16be M mode frm cap = Some (Done r n w) \<and>
      encodes never (bmp_upto M) ucs2 utf16_be (header mode utf16be_bom) frm cap r n w) \<and>
   (\<exists>r n w. ucs2_to_utf16le M mode frm cap = Some (Done r n w) \<and>
      encodes never (bmp_upto M) ucs2 utf16_le (header mode utf16le_bom) frm cap r n w) \<and>
   (\<exists>r n w. utf16be_to_ucs2 M mode bs cap = Some (Done r n w) \<and>
      decodes (utf16_waits False unit_be) (bmp_upto M) utf16_be ucs2 (skipped mode utf16be_bom bs) bs cap r n w) \<and>
   (\<exists>r n w. utf16le_to_ucs2 M mode bs cap = Some (Done r n w) \<and>
      decodes (utf16_waits False unit_le) (bmp_upto M) utf16_le ucs2 (skipped mode utf16le_bom bs) bs cap r n w)"
  using ucs2_utf8_correct [of M mode frm cap bs] ucs2_utf16_correct [of M mode frm cap bs] by (intro conjI) simp_all



text \<open>
  C33: The seven length routines are total and count what the conversion of the same bytes would
  consume: for every input, mode, \<open>Maxcode\<close> and limit \<open>mx\<close> each of them returns, and so does its decoder with room for \<open>mx\<close> elements, and
  the number returned is the offset \<open>frm_nxt - frm\<close> at which the decoder stops, cast to \<open>int\<close>.
\<close>

theorem length_routines_count:
  "counts (utf8_to_ucs4_length M mode frm mx) (utf8_to_ucs4 M mode frm mx) \<and>
   counts (utf8_to_ucs2_length M mode frm mx) (utf8_to_ucs2 M mode frm mx) \<and>
   counts (utf8_to_utf16_length M mode frm mx) (utf8_to_utf16 M mode frm mx) \<and>
   counts (utf16be_to_ucs4_length M mode frm mx) (utf16be_to_ucs4 M mode frm mx) \<and>
   counts (utf16le_to_ucs4_length M mode frm mx) (utf16le_to_ucs4 M mode frm mx) \<and>
   counts (utf16be_to_ucs2_length M mode frm mx) (utf16be_to_ucs2 M mode frm mx) \<and>
   counts (utf16le_to_ucs2_length M mode frm mx) (utf16le_to_ucs2 M mode frm mx)"
  by (intro conjI countsI [OF utf8_to_ucs4_length_counts utf8_to_ucs4_correct]
      countsI [OF utf8_to_ucs2_length_counts utf8_to_ucs2_correct]
      countsI [OF utf8_to_utf16_length_counts utf8_to_utf16_correct]
      countsI [OF utf16_length_counts [THEN conjunct1] utf16_to_ucs4_correct [THEN conjunct1]]
      countsI [OF utf16_length_counts [THEN conjunct2, THEN conjunct1] utf16_to_ucs4_correct [THEN conjunct2]]
      countsI [OF utf16_length_counts [THEN conjunct2, THEN conjunct2, THEN conjunct1]
        utf16_to_ucs2_correct [THEN conjunct1]]
      countsI [OF utf16_length_counts [THEN conjunct2, THEN conjunct2, THEN conjunct2]
        utf16_to_ucs2_correct [THEN conjunct2]])

end
